(* ===== verification/Zeno_Prelude.thy ===== *)
theory Zeno_Prelude
  imports Main "HOL-Library.Word" "HOL-Library.Multiset" "HOL-Library.AList"
begin

text \<open>
  Shared vocabulary of the development: the machine integers of the Rust sources and the
  arithmetic of the standard library on them, fallible computations (\<open>Result\<close> and the
  question-mark operator), loops that stop at the first error, the two map types of
  \<open>std::collections\<close> and the byte representation of fixed-size arrays.
  Arithmetic written with plain operators wraps, as in the release profile of
  \<open>ZenoQPL1/Cargo.toml\<close>, which leaves overflow checks off.
\<close>

section \<open>Machine integers\<close>

type_synonym u8 = "8 word"
type_synonym u16 = "16 word"
type_synonym u32 = "32 word"
type_synonym u64 = "64 word"
type_synonym u128 = "128 word"

named_theorems arith_ops \<open>definitions of the standard library's integer operations\<close>
named_theorems unat_ops \<open>the integer operations read as natural numbers\<close>

text \<open>\<open>saturating_add\<close>, \<open>saturating_sub\<close>, \<open>saturating_mul\<close>, \<open>checked_add\<close> and
  \<open>checked_sub\<close> of the unsigned integer types.\<close>

definition saturating_add :: "'a::len word \<Rightarrow> 'a word \<Rightarrow> 'a word" where
  "saturating_add a b = (if unat a + unat b < 2 ^ LENGTH('a) then a + b else - 1)"

definition saturating_sub :: "'a::len word \<Rightarrow> 'a word \<Rightarrow> 'a word" where
  "saturating_sub a b = (if b \<le> a then a - b else 0)"

definition saturating_mul :: "'a::len word \<Rightarrow> 'a word \<Rightarrow> 'a word" where
  "saturating_mul a b = (if unat a * unat b < 2 ^ LENGTH('a) then a * b else - 1)"

definition checked_add :: "'a::len word \<Rightarrow> 'a word \<Rightarrow> 'a word option" where
  "checked_add a b = (if unat a + unat b < 2 ^ LENGTH('a) then Some (a + b) else None)"

definition checked_sub :: "'a::len word \<Rightarrow> 'a word \<Rightarrow> 'a word option" where
  "checked_sub a b = (if b \<le> a then Some (a - b) else None)"

declare saturating_add_def [arith_ops] saturating_sub_def [arith_ops] saturating_mul_def [arith_ops]
  checked_add_def [arith_ops] checked_sub_def [arith_ops]

section \<open>Fallible computations\<close>

text \<open>\<open>Result<T, E>\<close> is \<open>'e + 't\<close>; \<open>bind_res\<close> is the question-mark operator,
  \<open>map_err\<close> converts the error, \<open>ok_or\<close> turns an \<open>Option\<close> into a \<open>Result\<close>.
  \<open>expect\<close> panics on an error: the model gives the result no value there.\<close>

definition bind_res :: "'e + 'a \<Rightarrow> ('a \<Rightarrow> 'e + 'b) \<Rightarrow> 'e + 'b" where
  "bind_res r f = (case r of Inl e \<Rightarrow> Inl e | Inr a \<Rightarrow> f a)"

definition map_err :: "('e \<Rightarrow> 'f) \<Rightarrow> 'e + 'a \<Rightarrow> 'f + 'a" where
  "map_err g r = (case r of Inl e \<Rightarrow> Inl (g e) | Inr a \<Rightarrow> Inr a)"

definition ok_or :: "'e \<Rightarrow> 'a option \<Rightarrow> 'e + 'a" where
  "ok_or e x = (case x of None \<Rightarrow> Inl e | Some a \<Rightarrow> Inr a)"

fun expect :: "'e + 'a \<Rightarrow> 'a" where
  "expect (Inr a) = a"

text \<open>A \<open>for\<close> loop over a list whose body may return early with an error.\<close>

fun fold_res :: "('s \<Rightarrow> 'a \<Rightarrow> 'e + 's) \<Rightarrow> 's \<Rightarrow> 'a list \<Rightarrow> 'e + 's" where
  "fold_res f s [] = Inr s"
| "fold_res f s (x # xs) = bind_res (f s x) (\<lambda>s'. fold_res f s' xs)"

section \<open>Ordered and hashed maps\<close>

text \<open>A \<open>BTreeMap\<close> is the list of its entries in increasing key order, which is the order
  its iterators visit. A \<open>HashMap\<close> is an association list with distinct keys; nothing may
  depend on the order of its entries, which the standard library leaves unspecified.\<close>

type_synonym ('k, 'v) btree_map = "('k \<times> 'v) list"
type_synonym ('k, 'v) hash_map = "('k \<times> 'v) list"

fun bt_insert :: "'k::linorder \<Rightarrow> 'v \<Rightarrow> ('k, 'v) btree_map \<Rightarrow> ('k, 'v) btree_map" where
  "bt_insert k v [] = [(k, v)]"
| "bt_insert k v ((k', v') # m) =
     (if k < k' then (k, v) # (k', v') # m
      else if k = k' then (k, v) # m
      else (k', v') # bt_insert k v m)"

definition bt_remove :: "'k \<Rightarrow> ('k, 'v) btree_map \<Rightarrow> ('k, 'v) btree_map" where
  "bt_remove k m = filter (\<lambda>e. fst e \<noteq> k) m"

definition bt_keys :: "('k, 'v) btree_map \<Rightarrow> 'k list" where
  "bt_keys m = map fst m"

definition bt_values :: "('k, 'v) btree_map \<Rightarrow> 'v list" where
  "bt_values m = map snd m"

text \<open>\<open>last_key_value\<close> and \<open>contains_key\<close>.\<close>

definition bt_last :: "('k, 'v) btree_map \<Rightarrow> ('k \<times> 'v) option" where
  "bt_last m = (if m = [] then None else Some (last m))"

definition contains_key :: "('k, 'v) btree_map \<Rightarrow> 'k \<Rightarrow> bool" where
  "contains_key m k = (map_of m k \<noteq> None)"

definition bt_wf :: "('k::linorder, 'v) btree_map \<Rightarrow> bool" where
  "bt_wf m = sorted_wrt (<) (bt_keys m)"

definition hm_wf :: "('k, 'v) hash_map \<Rightarrow> bool" where
  "hm_wf m = distinct (map fst m)"

text \<open>Sum of a measure over the entries.\<close>

definition sum_entries :: "('v \<Rightarrow> nat) \<Rightarrow> ('k \<times> 'v) list \<Rightarrow> nat" where
  "sum_entries f m = (\<Sum>e\<leftarrow>m. f (snd e))"

section \<open>Sorting with a comparator\<close>

text \<open>\<open>sort_by\<close> of a slice: a stable sort. \<open>le x y\<close> says that the comparator does not put
  \<open>x\<close> after \<open>y\<close>.\<close>

fun insort_by :: "('a \<Rightarrow> 'a \<Rightarrow> bool) \<Rightarrow> 'a \<Rightarrow> 'a list \<Rightarrow> 'a list" where
  "insort_by le x [] = [x]"
| "insort_by le x (y # ys) = (if le x y then x # y # ys else y # insort_by le x ys)"

definition sort_by :: "('a \<Rightarrow> 'a \<Rightarrow> bool) \<Rightarrow> 'a list \<Rightarrow> 'a list" where
  "sort_by le xs = foldr (insort_by le) xs []"

section \<open>Bytes of fixed-size arrays and integers\<close>

text \<open>A \<open>[u8; n]\<close> is the \<open>8 * n\<close>-bit word with byte 0 most significant, so that the
  derived lexicographic order of the array is the order of the word.\<close>

definition byte_at :: "nat \<Rightarrow> 'a::len word \<Rightarrow> nat \<Rightarrow> u8" where
  "byte_at n w i = ucast (drop_bit (8 * (n - 1 - i)) w)"

definition array_bytes :: "nat \<Rightarrow> 'a::len word \<Rightarrow> u8 list" where
  "array_bytes n w = map (byte_at n w) [0..<n]"

definition to_le_bytes :: "nat \<Rightarrow> 'a::len word \<Rightarrow> u8 list" where
  "to_le_bytes n w = map (\<lambda>i. ucast (drop_bit (8 * i) w)) [0..<n]"

definition string_bytes :: "string \<Rightarrow> u8 list" where
  "string_bytes s = map of_char s"

section \<open>Lemmas on machine integers\<close>

lemma unat_saturating_add [unat_ops]:
  "unat (saturating_add (a :: 'a::len word) b) = min (unat a + unat b) (2 ^ LENGTH('a) - 1)"
proof (cases "unat a + unat b < 2 ^ LENGTH('a)")
  case True
  then show ?thesis by (simp add: saturating_add_def unat_word_ariths)
next
  case False
  then show ?thesis by (simp add: saturating_add_def unsigned_minus_1_eq_mask mask_eq_exp_minus_1)
qed

lemma unat_saturating_sub [unat_ops]:
  "unat (saturating_sub (a :: 'a::len word) b) = unat a - unat b"
  by (auto simp: saturating_sub_def unat_sub word_le_nat_alt)

lemma unat_saturating_mul [unat_ops]:
  "unat (saturating_mul (a :: 'a::len word) b) = min (unat a * unat b) (2 ^ LENGTH('a) - 1)"
proof (cases "unat a * unat b < 2 ^ LENGTH('a)")
  case True
  then show ?thesis by (simp add: saturating_mul_def unat_word_ariths)
next
  case False
  then show ?thesis by (simp add: saturating_mul_def unsigned_minus_1_eq_mask mask_eq_exp_minus_1)
qed

lemma unat_word_bound: "unat (w :: 'a::len word) \<le> 2 ^ LENGTH('a) - 1"
  using unsigned_less [of w, where ?'a = nat] by (simp add: Suc_le_eq le_diff_conv2)

lemma unat_ucast_up:
  assumes "LENGTH('a::len) \<le> LENGTH('b::len)"
  shows "unat (ucast (w :: 'a word) :: 'b word) = unat w"
proof -
  have "unat w < 2 ^ LENGTH('b)"
    by (rule less_le_trans [OF unsigned_less power_increasing [OF assms]]) simp
  then show ?thesis by (simp add: unsigned_ucast_eq take_bit_nat_eq_self)
qed

lemma saturating_add_ge: "(a :: 'a::len word) \<le> saturating_add a b"
  using unat_word_bound [of a] by (simp add: word_le_nat_alt unat_saturating_add)

lemma checked_add_Some: "checked_add (a :: 'a::len word) b = Some c \<longleftrightarrow>
    unat a + unat b < 2 ^ LENGTH('a) \<and> c = a + b"
  by (auto simp: checked_add_def)

lemma checked_add_None: "checked_add (a :: 'a::len word) b = None \<longleftrightarrow>
    2 ^ LENGTH('a) \<le> unat a + unat b"
  by (auto simp: checked_add_def)

lemma checked_sub_Some: "checked_sub (a :: 'a::len word) b = Some c \<longleftrightarrow> b \<le> a \<and> c = a - b"
  by (auto simp: checked_sub_def)

lemma checked_sub_None: "checked_sub (a :: 'a::len word) b = None \<longleftrightarrow> a < b"
  by (auto simp: checked_sub_def)

section \<open>Lemmas on fallible computations\<close>

lemma bind_res_simps [simp]: "bind_res (Inl e) f = Inl e" "bind_res (Inr a) f = f a"
  by (simp_all add: bind_res_def)

lemma map_err_simps [simp]: "map_err g (Inl e) = Inl (g e)" "map_err g (Inr a) = Inr a"
  by (simp_all add: map_err_def)

lemma ok_or_simps [simp]: "ok_or e None = Inl e" "ok_or e (Some a) = Inr a"
  by (simp_all add: ok_or_def)

lemma bind_res_eq_Inr: "bind_res r f = Inr b \<longleftrightarrow> (\<exists>a. r = Inr a \<and> f a = Inr b)"
  by (cases r) auto

lemma bind_res_eq_Inl: "bind_res r f = Inl e \<longleftrightarrow> r = Inl e \<or> (\<exists>a. r = Inr a \<and> f a = Inl e)"
  by (cases r) auto

lemma map_err_eq_Inr [simp]: "map_err g r = Inr a \<longleftrightarrow> r = Inr a"
  by (cases r) auto

lemma map_err_eq_Inl: "map_err g r = Inl e \<longleftrightarrow> (\<exists>e'. r = Inl e' \<and> e = g e')"
  by (cases r) auto

lemma ok_or_eq_Inr [simp]: "ok_or e x = Inr a \<longleftrightarrow> x = Some a"
  by (cases x) auto

lemma ok_or_eq_Inl: "ok_or e x = Inl d \<longleftrightarrow> x = None \<and> d = e"
  by (cases x) auto

lemmas res_eq = bind_res_eq_Inr bind_res_eq_Inl map_err_eq_Inl ok_or_eq_Inl

text \<open>What every successful body keeps, a successful loop keeps.\<close>

lemma fold_res_invariant:
  assumes "fold_res f s xs = Inr s'" and "P s"
    and "\<And>s x s'. x \<in> set xs \<Longrightarrow> P s \<Longrightarrow> f s x = Inr s' \<Longrightarrow> P s'"
  shows "P s'"
  using assms
proof (induction xs arbitrary: s)
  case (Cons x xs)
  from Cons.prems(1) obtain t where t: "f s x = Inr t" "fold_res f t xs = Inr s'"
    by (auto simp: bind_res_eq_Inr)
  have "P t" using Cons.prems(2,3) t(1) by auto
  then show ?case using Cons.IH [OF t(2)] Cons.prems(3) by auto
qed simp

lemma fold_res_append:
  "fold_res f s (xs @ ys) = bind_res (fold_res f s xs) (\<lambda>s'. fold_res f s' ys)"
  by (induction xs arbitrary: s) (auto simp: bind_res_def split: sum.splits)

section \<open>Lemmas on maps\<close>

lemma map_of_bt_insert [simp]: "map_of (bt_insert k v m) = (map_of m)(k \<mapsto> v)"
  by (induction k v m rule: bt_insert.induct) auto

lemma map_of_bt_remove [simp]: "map_of (bt_remove k m) = (map_of m)(k := None)"
  by (induction m) (auto simp: bt_remove_def)

lemma keys_bt_insert [simp]: "set (bt_keys (bt_insert k v m)) = insert k (set (bt_keys m))"
  by (induction k v m rule: bt_insert.induct) (auto simp: bt_keys_def)

lemma keys_bt_remove [simp]: "set (bt_keys (bt_remove k m)) = set (bt_keys m) - {k}"
  by (auto simp: bt_keys_def bt_remove_def)

lemma bt_insert_in_set: "e \<in> set (bt_insert k v m) \<Longrightarrow> e = (k, v) \<or> e \<in> set m"
  by (induction k v m rule: bt_insert.induct) (auto split: if_splits)

lemma bt_wf_Nil [simp]: "bt_wf []"
  by (simp add: bt_wf_def bt_keys_def)

lemma bt_wf_Cons: "bt_wf (e # m) \<longleftrightarrow> (\<forall>k\<in>set (bt_keys m). fst e < k) \<and> bt_wf m"
  by (simp add: bt_wf_def bt_keys_def)

lemma bt_wf_insert [simp, intro]: "bt_wf m \<Longrightarrow> bt_wf (bt_insert k v m)"
  by (induction k v m rule: bt_insert.induct) (auto simp: bt_wf_Cons, auto simp: bt_keys_def)

lemma bt_wf_remove [simp, intro]: "bt_wf m \<Longrightarrow> bt_wf (bt_remove k m)"
  unfolding bt_wf_def bt_keys_def bt_remove_def sorted_wrt_map
  by (rule sorted_wrt_filter)

lemma bt_wf_distinct: "bt_wf m \<Longrightarrow> distinct (map fst m)"
  by (auto simp: bt_wf_def bt_keys_def strict_sorted_iff)

lemma contains_key_iff: "contains_key m k \<longleftrightarrow> k \<in> set (bt_keys m)"
  by (auto simp: contains_key_def bt_keys_def map_of_eq_None_iff)

lemma map_of_bt_keys: "k \<in> set (bt_keys m) \<longleftrightarrow> (\<exists>v. map_of m k = Some v)"
  by (metis contains_key_def contains_key_iff not_None_eq)

lemma in_set_map_of: "distinct (map fst m) \<Longrightarrow> e \<in> set m \<Longrightarrow> map_of m (fst e) = Some (snd e)"
  by (cases e) simp

text \<open>Two ordered maps with the same lookups are the same list.\<close>

lemma bt_eqI:
  assumes "bt_wf m" "bt_wf n" "map_of m = map_of n"
  shows "m = n"
proof -
  have "set m = set n"
    using assms by (metis bt_wf_distinct map_of_inject_set)
  moreover have "sorted_wrt (\<lambda>x y. fst x < fst y) m" "sorted_wrt (\<lambda>x y. fst x < fst y) n"
    using assms(1,2) by (simp_all add: bt_wf_def bt_keys_def sorted_wrt_map)
  ultimately show ?thesis
  proof (induction m arbitrary: n)
    case (Cons e m)
    then obtain f n' where n: "n = f # n'" by (cases n) auto
    have "e = f" using Cons.prems n by (metis insert_iff less_asym' list.simps(15) sorted_wrt.simps(2))
    moreover have "set m = set n'"
    proof -
      have "e \<notin> set m" "f \<notin> set n'" using Cons.prems n by auto
      then show ?thesis using Cons.prems(1) n \<open>e = f\<close> by auto
    qed
    ultimately show ?case using Cons n by simp
  qed simp
qed

text \<open>Replacing one entry changes a sum by the difference of the two values.\<close>

lemma sum_entries_Nil [simp]: "sum_entries f [] = 0"
  by (simp add: sum_entries_def)

lemma sum_entries_Cons [simp]: "sum_entries f (e # m) = f (snd e) + sum_entries f m"
  by (simp add: sum_entries_def)

lemma sum_entries_bt_insert:
  assumes "bt_wf m"
  shows "sum_entries f (bt_insert k v m) + (case map_of m k of None \<Rightarrow> 0 | Some w \<Rightarrow> f w)
       = sum_entries f m + f v"
  using assms
proof (induction k v m rule: bt_insert.induct)
  case (2 k v k' v' m)
  show ?case
  proof (cases "k < k'")
    case True
    with "2.prems" have "k \<notin> set (bt_keys ((k', v') # m))"
      by (auto simp: bt_wf_Cons bt_keys_def)
    then have "map_of ((k', v') # m) k = None"
      by (metis map_of_bt_keys option.exhaust)
    with True show ?thesis by (simp only: bt_insert.simps if_True) simp
  next
    case False
    with "2" show ?thesis by (auto simp: bt_wf_Cons split: option.splits)
  qed
qed simp

lemma sum_entries_lookup_le:
  "map_of m k = Some v \<Longrightarrow> f v \<le> sum_entries f m"
  by (induction m) (auto split: if_splits intro: trans_le_add2)

section \<open>Lemmas on sorting\<close>

lemma mset_insort_by [simp]: "mset (insort_by le x ys) = add_mset x (mset ys)"
  by (induction ys) auto

lemma mset_sort_by [simp]: "mset (sort_by le xs) = mset xs"
  by (induction xs) (auto simp: sort_by_def)

lemma set_sort_by [simp]: "set (sort_by le xs) = set xs"
  by (metis mset_sort_by set_mset_mset)

lemma length_sort_by [simp]: "length (sort_by le xs) = length xs"
  by (metis mset_sort_by size_mset)

lemma sorted_insort_by:
  assumes "\<And>x y. le x y \<or> le y x" "\<And>x y z. le x y \<Longrightarrow> le y z \<Longrightarrow> le x z"
  shows "sorted_wrt le ys \<Longrightarrow> sorted_wrt le (insort_by le x ys)"
proof (induction ys)
  case (Cons y ys)
  have "set (insort_by le x ys) = insert x (set ys)"
    by (metis mset_insort_by set_mset_add_mset_insert set_mset_mset)
  then show ?case using Cons assms by auto
qed simp

lemma sorted_sort_by:
  assumes "\<And>x y. le x y \<or> le y x" "\<And>x y z. le x y \<Longrightarrow> le y z \<Longrightarrow> le x z"
  shows "sorted_wrt le (sort_by le xs)"
  by (induction xs) (auto simp: sort_by_def intro: sorted_insort_by [OF assms])

section \<open>Lemmas on bytes\<close>

lemma length_array_bytes [simp]: "length (array_bytes n w) = n"
  by (simp add: array_bytes_def)

lemma length_to_le_bytes [simp]: "length (to_le_bytes n w) = n"
  by (simp add: to_le_bytes_def)

lemma length_string_bytes [simp]: "length (string_bytes s) = length s"
  by (simp add: string_bytes_def)

lemma bit_byte_at: "bit (byte_at n (w :: 'a::len word) i) j \<longleftrightarrow> j < 8 \<and> bit w (8 * (n - 1 - i) + j)"
  by (auto simp: byte_at_def bit_simps)

lemma array_bytes_inject:
  assumes "LENGTH('a::len) = 8 * n"
  shows "array_bytes n (v :: 'a word) = array_bytes n w \<longleftrightarrow> v = w"
proof
  assume eq: "array_bytes n v = array_bytes n w"
  have same: "byte_at n v i = byte_at n w i" if "i < n" for i
    using arg_cong [OF eq, of "\<lambda>xs. xs ! i"] that by (simp add: array_bytes_def)
  show "v = w"
  proof (rule bit_word_eqI)
    fix k assume k: "k < LENGTH('a)"
    define i where "i = n - 1 - k div 8"
    have i: "i < n" and pos: "8 * (n - 1 - i) + k mod 8 = k"
      using k assms by (auto simp: i_def less_mult_imp_div_less)
    have "bit (byte_at n v i) (k mod 8) = bit (byte_at n w i) (k mod 8)"
      by (simp add: same [OF i])
    then show "bit v k = bit w k"
      using pos by (simp add: bit_byte_at)
  qed
qed simp

lemma to_le_bytes_inject:
  assumes "LENGTH('a::len) = 8 * n"
  shows "to_le_bytes n (v :: 'a word) = to_le_bytes n w \<longleftrightarrow> v = w"
proof
  assume eq: "to_le_bytes n v = to_le_bytes n w"
  have same: "(ucast (drop_bit (8 * i) v) :: u8) = ucast (drop_bit (8 * i) w)" if "i < n" for i
    using arg_cong [OF eq, of "\<lambda>xs. xs ! i"] that by (simp add: to_le_bytes_def)
  show "v = w"
  proof (rule bit_word_eqI)
    fix k assume k: "k < LENGTH('a)"
    then have "k div 8 < n" using assms by (simp add: less_mult_imp_div_less)
    then have "bit (ucast (drop_bit (8 * (k div 8)) v) :: u8) (k mod 8)
             = bit (ucast (drop_bit (8 * (k div 8)) w) :: u8) (k mod 8)"
      by (simp add: same)
    then show "bit v k = bit w k"
      by (simp add: bit_simps)
  qed
qed simp

section \<open>State machines\<close>

text \<open>An invariant of a transition relation holds in every reachable state.\<close>

locale state_machine =
  fixes initial :: "'s \<Rightarrow> bool" and step :: "'s \<Rightarrow> 's \<Rightarrow> bool" and inv :: "'s \<Rightarrow> bool"
  assumes initial_inv: "initial s \<Longrightarrow> inv s"
    and step_inv: "inv s \<Longrightarrow> step s s' \<Longrightarrow> inv s'"
begin

lemma run_inv:
  assumes "step\<^sup>*\<^sup>* s s'" "inv s"
  shows "inv s'"
  using assms by (induction rule: rtranclp_induct) (auto intro: step_inv)

lemma reachable_inv: "initial s0 \<Longrightarrow> step\<^sup>*\<^sup>* s0 s \<Longrightarrow> inv s"
  by (blast intro: initial_inv run_inv)

end

end
