(* ===== verification/Zeno_Action.thy ===== *)
theory Zeno_Action
  imports Zeno_Prelude
begin

text \<open>
  Fallible computations on a state: a method on a shared component that may write before it
  returns an error. \<open>act_bind\<close> is sequencing with the question-mark operator; a state written
  before an error stays written. The Hoare triple \<open>triple P m Q\<close> relates the state before an
  action to the state after it, whether it succeeds or fails, and its result; \<open>triple_rules\<close>
  collects the rules that take a composed action apart.
\<close>

section \<open>Actions\<close>

type_synonym ('s, 'e, 'a) action = "'s \<Rightarrow> 's \<times> ('e + 'a)"

definition act_return :: "'a \<Rightarrow> ('s, 'e, 'a) action" where
  "act_return a = (\<lambda>s. (s, Inr a))"

definition act_fail :: "'e \<Rightarrow> ('s, 'e, 'a) action" where
  "act_fail e = (\<lambda>s. (s, Inl e))"

definition act_lift :: "'e + 'a \<Rightarrow> ('s, 'e, 'a) action" where
  "act_lift r = (\<lambda>s. (s, r))"

definition act_read :: "('s \<Rightarrow> 'a) \<Rightarrow> ('s, 'e, 'a) action" where
  "act_read f = (\<lambda>s. (s, Inr (f s)))"

definition act_write :: "('s \<Rightarrow> 's) \<Rightarrow> ('s, 'e, unit) action" where
  "act_write f = (\<lambda>s. (f s, Inr ()))"

definition act_bind :: "('s, 'e, 'a) action \<Rightarrow> ('a \<Rightarrow> ('s, 'e, 'b) action) \<Rightarrow> ('s, 'e, 'b) action" where
  "act_bind m f = (\<lambda>s. case m s of (s', Inl e) \<Rightarrow> (s', Inl e) | (s', Inr a) \<Rightarrow> f a s')"

definition act_then :: "('s, 'e, unit) action \<Rightarrow> ('s, 'e, 'b) action \<Rightarrow> ('s, 'e, 'b) action" where
  "act_then m k = act_bind m (\<lambda>_. k)"

text \<open>A guard with an early return.\<close>

definition act_unless :: "bool \<Rightarrow> 'a \<Rightarrow> ('s, 'e, 'a) action \<Rightarrow> ('s, 'e, 'a) action" where
  "act_unless stop a k = (if stop then act_return a else k)"

named_theorems act_defs \<open>the primitive actions\<close>

declare act_return_def [act_defs] act_fail_def [act_defs] act_lift_def [act_defs] act_read_def [act_defs]
  act_write_def [act_defs]

lemma act_bind_simps [simp]:
  "act_bind (act_return a) f = f a"
  "act_bind (act_fail e) f = act_fail e"
  "act_bind (act_read g) f s = f (g s) s"
  "act_bind (act_write h) k s = k () (h s)"
  "act_then (act_write h) m s = m (h s)"
  "act_return a s = (s, Inr a)"
  "act_fail e s = (s, Inl e)"
  "act_lift r s = (s, r)"
  "act_read g s = (s, Inr (g s))"
  "act_write h s = (h s, Inr ())"
  by (simp_all add: act_bind_def act_then_def act_defs)

lemma act_bind_Inr:
  "act_bind m f s = (s', Inr b) \<longleftrightarrow> (\<exists>t a. m s = (t, Inr a) \<and> f a t = (s', Inr b))"
  by (auto simp: act_bind_def split: prod.splits sum.splits)

lemma act_then_Inr:
  "act_then m k s = (s', Inr b) \<longleftrightarrow> (\<exists>t. m s = (t, Inr ()) \<and> k t = (s', Inr b))"
  by (simp add: act_then_def act_bind_Inr)

lemma act_unless_Inr:
  "act_unless c a k s = (s', Inr b) \<longleftrightarrow> (if c then s' = s \<and> b = a else k s = (s', Inr b))"
  by (auto simp: act_unless_def)

section \<open>Triples\<close>

definition triple :: "('s \<Rightarrow> bool) \<Rightarrow> ('s, 'e, 'a) action \<Rightarrow> ('e + 'a \<Rightarrow> 's \<Rightarrow> bool) \<Rightarrow> bool" where
  "triple P m Q \<longleftrightarrow> (\<forall>s. P s \<longrightarrow> (case m s of (s', r) \<Rightarrow> Q r s'))"

text \<open>An action that keeps a predicate whatever it returns.\<close>

abbreviation keeps :: "('s, 'e, 'a) action \<Rightarrow> ('s \<Rightarrow> bool) \<Rightarrow> bool" where
  "keeps m P \<equiv> triple P m (\<lambda>_. P)"

named_theorems triple_rules \<open>rules that take a triple of a composed action apart\<close>

lemma tripleI: "(\<And>s s' r. P s \<Longrightarrow> m s = (s', r) \<Longrightarrow> Q r s') \<Longrightarrow> triple P m Q"
  by (auto simp: triple_def split: prod.splits)

lemma tripleD: "triple P m Q \<Longrightarrow> P s \<Longrightarrow> m s = (s', r) \<Longrightarrow> Q r s'"
  by (force simp: triple_def)

lemma triple_conseq:
  "triple P m Q \<Longrightarrow> (\<And>s. P' s \<Longrightarrow> P s) \<Longrightarrow> (\<And>r s. Q r s \<Longrightarrow> Q' r s) \<Longrightarrow> triple P' m Q'"
  by (force simp: triple_def)

lemma keeps_return [triple_rules]: "keeps (act_return a) P"
  by (simp add: triple_def)

lemma keeps_fail [triple_rules]: "keeps (act_fail e) P"
  by (simp add: triple_def)

lemma keeps_lift [triple_rules]: "keeps (act_lift r) P"
  by (simp add: triple_def)

lemma keeps_read [triple_rules]: "keeps (act_read f) P"
  by (simp add: triple_def)

lemma keeps_write: "(\<And>s. P s \<Longrightarrow> P (f s)) \<Longrightarrow> keeps (act_write f) P"
  by (simp add: triple_def)

lemma keeps_bind [triple_rules]: "keeps m P \<Longrightarrow> (\<And>a. keeps (f a) P) \<Longrightarrow> keeps (act_bind m f) P"
  by (force simp: triple_def act_bind_def split: prod.splits sum.splits)

lemma keeps_then [triple_rules]: "keeps m P \<Longrightarrow> keeps k P \<Longrightarrow> keeps (act_then m k) P"
  unfolding act_then_def by (intro keeps_bind)

lemma keeps_unless [triple_rules]: "keeps k P \<Longrightarrow> keeps (act_unless c a k) P"
  by (simp add: act_unless_def keeps_return)

lemma keeps_if [triple_rules]: "keeps m P \<Longrightarrow> keeps k P \<Longrightarrow> keeps (if c then m else k) P"
  by simp

lemma keeps_option [triple_rules]:
  "keeps m P \<Longrightarrow> (\<And>a. keeps (f a) P) \<Longrightarrow> keeps (case x of None \<Rightarrow> m | Some a \<Rightarrow> f a) P"
  by (cases x) simp_all

lemma keeps_prod [triple_rules]: "(\<And>a b. keeps (f a b) P) \<Longrightarrow> keeps (case x of (a, b) \<Rightarrow> f a b) P"
  by (cases x) simp

lemma keeps_let [triple_rules]: "(\<And>a. keeps (f a) P) \<Longrightarrow> keeps (Let x f) P"
  by simp

lemma triple_bind:
  assumes "triple P m (\<lambda>r s. case r of Inl e \<Rightarrow> Q (Inl e) s | Inr a \<Rightarrow> R a s)"
    and "\<And>a. triple (R a) (f a) Q"
  shows "triple P (act_bind m f) Q"
  unfolding triple_def
proof (intro allI impI)
  fix s
  assume "P s"
  obtain t r where m: "m s = (t, r)" by (cases "m s")
  have "case r of Inl e \<Rightarrow> Q (Inl e) t | Inr a \<Rightarrow> R a t" using tripleD [OF assms(1) \<open>P s\<close> m] .
  then show "case act_bind m f s of (s', r) \<Rightarrow> Q r s'"
    using assms(2) by (auto simp: act_bind_def m triple_def split: sum.splits)
qed

end
