(* ===== verification/Zeno_Types.thy ===== *)
theory Zeno_Types
  imports Zeno_Prelude
begin

text \<open>
  The ledger data of \<open>zeno-types/src/lib.rs\<close>: addresses and digests, accounts, staking and
  governance state, transactions, receipts and genesis. A struct is a record whose fields keep
  the names of the source behind a short prefix, an enum is a datatype, \<open>usize\<close> is \<open>nat\<close>,
  a \<open>String\<close> is the list of its bytes.
\<close>

section \<open>Identifiers\<close>

text \<open>\<open>Hash32([u8; 32])\<close>, \<open>Address([u8; 32])\<close> and \<open>EvmAddress([u8; 20])\<close> wrap an array of
  bytes; all three derive \<open>Ord\<close>.\<close>

datatype hash32 = Hash32 (hash_raw: "256 word")

datatype address = Address (address_raw: "256 word")

datatype evm_address = EvmAddress (evm_address_raw: "160 word")

datatype chain_id = ChainId string

instantiation hash32 :: linorder
begin

definition less_eq_hash32 :: "hash32 \<Rightarrow> hash32 \<Rightarrow> bool" where
  "less_eq_hash32 a b \<longleftrightarrow> hash_raw a \<le> hash_raw b"

definition less_hash32 :: "hash32 \<Rightarrow> hash32 \<Rightarrow> bool" where
  "less_hash32 a b \<longleftrightarrow> hash_raw a < hash_raw b"

instance
  by standard (auto simp: less_eq_hash32_def less_hash32_def hash32.expand)

end

instantiation address :: linorder
begin

definition less_eq_address :: "address \<Rightarrow> address \<Rightarrow> bool" where
  "less_eq_address a b \<longleftrightarrow> address_raw a \<le> address_raw b"

definition less_address :: "address \<Rightarrow> address \<Rightarrow> bool" where
  "less_address a b \<longleftrightarrow> address_raw a < address_raw b"

instance
  by standard (auto simp: less_eq_address_def less_address_def address.expand)

end

instantiation evm_address :: linorder
begin

definition less_eq_evm_address :: "evm_address \<Rightarrow> evm_address \<Rightarrow> bool" where
  "less_eq_evm_address a b \<longleftrightarrow> evm_address_raw a \<le> evm_address_raw b"

definition less_evm_address :: "evm_address \<Rightarrow> evm_address \<Rightarrow> bool" where
  "less_evm_address a b \<longleftrightarrow> evm_address_raw a < evm_address_raw b"

instance
  by standard (auto simp: less_eq_evm_address_def less_evm_address_def evm_address.expand)

end

section \<open>Accounts, staking and governance\<close>

record account =
  acct_nonce :: u64
  acct_balance :: u128

definition account_default :: account where
  "account_default = \<lparr>acct_nonce = 0, acct_balance = 0\<rparr>"

datatype validator_status = Active | Jailed | Inactive

record validator_stake =
  vs_validator_address :: address
  vs_self_bond :: u128
  vs_total_stake :: u128
  vs_commission_bps :: u16
  vs_status :: validator_status
  vs_last_liveness_epoch :: u64

record delegation =
  dl_delegator :: address
  dl_validator_address :: address
  dl_amount :: u128

record unbonding_delegation =
  ub_delegator :: address
  ub_validator_address :: address
  ub_amount :: u128
  ub_release_epoch :: u64

record slashing_event =
  se_validator_address :: address
  se_epoch :: u64
  se_slash_bps :: u16
  se_reason :: string

record economics_params =
  minimum_self_bond :: u128
  epoch_length :: u64
  unbonding_epochs :: u64
  treasury_bps :: u16
  downtime_slash_bps :: u16
  double_sign_slash_bps :: u16

datatype parameter_update = Economics economics_params

record governance_proposal =
  gp_proposal_id :: u64
  gp_activation_epoch :: u64
  gp_update :: parameter_update
  gp_description :: string

record governance_state =
  gs_economics :: economics_params
  gs_pending :: "governance_proposal list"
  gs_next_proposal_id :: u64

definition governance_state_new :: "economics_params \<Rightarrow> governance_state" where
  "governance_state_new e = \<lparr>gs_economics = e, gs_pending = [], gs_next_proposal_id = 1\<rparr>"

record epoch_transition =
  et_epoch :: u64
  et_height :: u64
  et_validator_set :: "address list"
  et_validator_set_root :: hash32
  et_economics :: economics_params

record staking_state =
  st_epoch :: u64
  st_validators :: "(address, validator_stake) btree_map"
  st_delegations :: "(address \<times> address, delegation) btree_map"
  st_unbonding :: "unbonding_delegation list"
  st_treasury_balance :: u128
  st_slashing_events :: "slashing_event list"

definition staking_state_default :: staking_state where
  "staking_state_default = \<lparr>st_epoch = 0, st_validators = [], st_delegations = [],
     st_unbonding = [], st_treasury_balance = 0, st_slashing_events = []\<rparr>"

section \<open>Transactions and receipts\<close>

datatype evm_transaction_kind =
    Create (bytecode: "u8 list")
  | Call (contract: evm_address) (input: "u8 list")

record evm_transaction =
  et_kind :: evm_transaction_kind
  et_value :: u128
  et_gas_limit :: u64
  et_gas_price :: u128

record transaction_body =
  tb_chain_id :: chain_id
  tb_sender :: address
  tb_recipient :: address
  tb_amount :: u128
  tb_nonce :: u64
  tb_fee :: u128
  tb_evm :: "evm_transaction option"
  tb_memo :: "string option"
  tb_valid_until :: "u64 option"

record transaction =
  tx_body :: transaction_body
  tx_public_key :: "u8 list"
  tx_signature :: "u8 list"

record evm_log =
  log_address :: evm_address
  log_topics :: "hash32 list"
  log_data :: "u8 list"

record evm_call_result =
  cr_contract_address :: "evm_address option"
  cr_output :: "u8 list"
  cr_gas_used :: u64
  cr_logs :: "evm_log list"

datatype execution_outcome = Success | Rejected string

record receipt =
  rc_tx_hash :: hash32
  rc_height :: u64
  rc_fee_charged :: u128
  rc_outcome :: execution_outcome
  rc_evm :: "evm_call_result option"

record evm_account_state =
  ea_nonce :: u64
  ea_balance :: u128
  ea_code :: "u8 list"
  ea_storage :: "(hash32, hash32) btree_map"

record evm_call_request =
  rq_from :: "evm_address option"
  rq_to :: evm_address
  rq_data :: "u8 list"
  rq_gas_limit :: "u64 option"
  rq_value :: "u128 option"

datatype transaction_error =
    ZeroAmount
  | ZeroFee
  | MemoTooLarge
  | Expired u64
  | WrongChainId
  | InsufficientBalance
  | InvalidNonce (expected: u64) (actual: u64)
  | SenderMismatch
  | InvalidSignature
  | TransactionTooLarge nat
  | GasLimitExceeded (max_gas: u64) (actual_gas: u64)

section \<open>Validators, parameters and genesis\<close>

record validator =
  va_validator_id :: string
  va_voting_power :: u64
  va_p2p_address :: string
  va_rpc_address :: string
  va_public_key :: "u8 list"
  va_address :: address

record consensus_params =
  proposal_timeout_ms :: u64
  vote_timeout_ms :: u64
  max_transactions_per_block :: nat
  max_block_bytes :: nat
  target_gas_per_block :: u64
  max_gas_per_block :: u64

record gas_pricing_state =
  gp_base_fee :: u128
  gp_last_block_gas_used :: u64

record slashing_protection =
  last_signed_proposal_height :: u64
  last_signed_prevote_height :: u64
  last_signed_precommit_height :: u64

definition slashing_protection_default :: slashing_protection where
  "slashing_protection_default = \<lparr>last_signed_proposal_height = 0,
     last_signed_prevote_height = 0, last_signed_precommit_height = 0\<rparr>"

record network_metadata =
  nm_network_name :: string
  nm_ticker :: string
  nm_rpc_urls :: "string list"
  nm_block_explorer_url :: string
  nm_metamask_compatible :: bool
  nm_metamask_snap_compatible :: bool
  nm_smart_contracts_supported :: bool
  nm_evm_chain_id :: "u64 option"
  nm_compatibility_notice :: string
  nm_metamask_snap_id :: "string option"

record crypto_params =
  ml_dsa_parameter_name :: string

record genesis =
  gn_chain_id :: chain_id
  gn_metadata :: network_metadata
  gn_accounts :: "(address, account) btree_map"
  gn_validators :: "validator list"
  gn_consensus :: consensus_params
  gn_crypto :: crypto_params
  gn_economics :: economics_params

record validator_join_request =
  jr_public_key :: "u8 list"
  jr_p2p_address :: string
  jr_rpc_address :: string
  jr_self_bond :: u128

record evm_log_filter =
  lf_from_block :: "u64 option"
  lf_to_block :: "u64 option"
  lf_address :: "evm_address option"
  lf_topics :: "hash32 option list"

text \<open>Two types that no code of the program uses.\<close>

record key_rotation_request =
  kr_validator_address :: address
  kr_new_public_key :: "u8 list"
  kr_authorization_signature :: "u8 list"
  kr_effective_height :: u64

record pruning_config =
  pu_keep_recent :: u64
  pu_enabled :: bool

definition pruning_config_default :: pruning_config where
  "pruning_config_default = \<lparr>pu_keep_recent = 1000, pu_enabled = False\<rparr>"

section \<open>Comparison of identifiers\<close>

lemma Hash32_less [simp]: "Hash32 a < Hash32 b \<longleftrightarrow> a < b"
  by (simp add: less_hash32_def)

lemma Hash32_less_eq [simp]: "Hash32 a \<le> Hash32 b \<longleftrightarrow> a \<le> b"
  by (simp add: less_eq_hash32_def)

lemma Address_less [simp]: "Address a < Address b \<longleftrightarrow> a < b"
  by (simp add: less_address_def)

lemma Address_less_eq [simp]: "Address a \<le> Address b \<longleftrightarrow> a \<le> b"
  by (simp add: less_eq_address_def)

lemma account_default_sel [simp]:
  "acct_nonce account_default = 0" "acct_balance account_default = 0"
  by (simp_all add: account_default_def)

end
