(* ===== verification/Zeno_Chain.thy ===== *)
theory Zeno_Chain
  imports Zeno_Types
begin

text \<open>
  The chain data of \<open>zeno-types/src/lib.rs\<close>: blocks, votes, certificates, the entries of the
  consensus write-ahead log and the messages of the network; and the functions of other
  packages that the sources call (Blake3, SHA-3, Keccak, bincode) as the fields of one record,
  which every definition that uses them takes as an argument.
\<close>

section \<open>Blocks and votes\<close>

record block_header =
  bh_height :: u64
  bh_round :: u32
  bh_chain_id :: chain_id
  bh_parent_hash :: hash32
  bh_tx_root :: hash32
  bh_state_root :: hash32
  bh_receipt_root :: hash32
  bh_proposer :: address
  bh_timestamp_ms :: u64

record block =
  bk_header :: block_header
  bk_transactions :: "transaction list"
  bk_proposer_public_key :: "u8 list"
  bk_proposer_signature :: "u8 list"

record proposal =
  pr_height :: u64
  pr_round :: u32
  pr_block :: block
  pr_validator_address :: address

datatype vote_step = Prevote | Precommit

record vote =
  vt_height :: u64
  vt_round :: u32
  vt_step :: vote_step
  vt_block_hash :: hash32
  vt_validator_address :: address
  vt_public_key :: "u8 list"
  vt_signature :: "u8 list"

record evidence =
  ev_validator_address :: address
  ev_height :: u64
  ev_round :: u32
  ev_reason :: string

record commit_certificate =
  cc_block_hash :: hash32
  cc_height :: u64
  cc_round :: u32
  cc_votes :: "vote list"

record finalized_block =
  fb_block :: block
  fb_certificate :: commit_certificate
  fb_receipts :: "receipt list"
  fb_epoch_transition :: "epoch_transition option"

section \<open>Consensus persistence\<close>

record consensus_snapshot =
  cs_height :: u64
  cs_round :: u32

datatype consensus_wal_entry =
    SnapshotPersisted u64 u32
  | ProposalAccepted u64 u32 hash32
  | ProposalBroadcast u64 u32 hash32
  | VoteRecorded u64 u32 vote_step hash32 address
  | VoteBroadcast u64 u32 vote_step hash32 address
  | CommitFinalized u64 u32 hash32
  | HeightAdvanced u64
  | RoundAdvanced u64 u32
  | EvidenceRecorded u64 u32 address string
  | Locked u64 u32 hash32 block
  | PolkaObserved u64 u32 hash32 block

section \<open>Network messages\<close>

record handshake =
  hs_chain_id :: chain_id
  hs_node_id :: string
  hs_best_height :: u64

record chain_status =
  ct_metadata :: network_metadata
  ct_chain_id :: chain_id
  ct_latest_height :: u64
  ct_latest_hash :: hash32
  ct_node_id :: string
  ct_peers :: "string list"

datatype sync_request =
    Headers u64 u64
  | BlockByHeight u64
  | BlockByHash hash32

datatype sync_response =
    HeadersResponse "block_header list"
  | BlockResponse "finalized_block option"
  | NotFound

datatype network_message =
    HandshakeMsg handshake
  | TransactionMsg transaction
  | ProposalMsg proposal
  | VoteMsg vote
  | CommitMsg finalized_block
  | StatusMsg chain_status
  | SyncRequestMsg u64 sync_request
  | SyncResponseMsg u64 sync_response
  | Ping u64
  | Pong u64

datatype transaction_status =
    Unknown
  | Pending
  | Finalized receipt

section \<open>Functions of other packages\<close>

text \<open>\<open>blake3\<close>, \<open>sha3_256\<close> and \<open>keccak_256\<close> are the digests of the crates of those names.
  The \<open>bin_*\<close> fields are \<open>bincode::serde::encode_to_vec\<close> under the configuration of
  \<open>zeno-codec\<close>, one field per type the sources encode; \<open>None\<close> is an encoding error.\<close>

record ext =
  blake3 :: "u8 list \<Rightarrow> 256 word"
  sha3_256 :: "u8 list \<Rightarrow> 256 word"
  keccak_256 :: "u8 list \<Rightarrow> 256 word"
  bin_transaction :: "transaction \<Rightarrow> u8 list option"
  bin_body :: "transaction_body \<Rightarrow> u8 list option"
  bin_header :: "block_header \<Rightarrow> u8 list option"
  bin_block :: "block \<Rightarrow> u8 list option"
  bin_vote :: "u64 \<times> u32 \<times> vote_step \<times> hash32 \<times> address \<Rightarrow> u8 list option"
  bin_receipt :: "receipt \<Rightarrow> u8 list option"
  bin_leaf :: "string \<times> address \<times> account \<Rightarrow> u8 list option"
  bin_validator_leaf :: "string \<times> address \<Rightarrow> u8 list option"
  bin_proposal :: "proposal \<Rightarrow> u8 list option"
  bin_certificate :: "commit_certificate \<Rightarrow> u8 list option"
  bin_message :: "network_message \<Rightarrow> u8 list option"

end
