(* ===== verification/Zeno_Hash.thy ===== *)
theory Zeno_Hash
  imports Zeno_Chain
begin

text \<open>
  The crates \<open>zeno-codec\<close> and \<open>zeno-hash\<close>: canonical encoding and decoding over bincode,
  Blake3 and SHA-3 digests, the Merkle root of a list of digests, and the identifiers of
  transactions and blocks. The interface \<open>merkle_node\<close> states what a two-to-one node hash
  promises; the Merkle roots and the two sparse trees of the program provide it.
\<close>

section \<open>Canonical encoding\<close>

datatype codec_error = Encode | Decode | TrailingBytes

text \<open>\<open>encode\<close> and \<open>decode\<close> over the encoder and the decoder of bincode for the type at
  hand; the decoder also returns how many bytes it consumed.\<close>

definition encode :: "('a \<Rightarrow> u8 list option) \<Rightarrow> 'a \<Rightarrow> codec_error + u8 list" where
  "encode bin v = ok_or Encode (bin v)"

definition decode :: "(u8 list \<Rightarrow> ('a \<times> nat) option) \<Rightarrow> u8 list \<Rightarrow> codec_error + 'a" where
  "decode dec bytes = bind_res (ok_or Decode (dec bytes)) (\<lambda>(v, consumed).
     if consumed \<noteq> length bytes then Inl TrailingBytes else Inr v)"

section \<open>Digests\<close>

definition hash_zero :: hash32 where
  "hash_zero = Hash32 0"

definition as_bytes :: "hash32 \<Rightarrow> u8 list" where
  "as_bytes h = array_bytes 32 (hash_raw h)"

definition hash_bytes :: "ext \<Rightarrow> u8 list \<Rightarrow> hash32" where
  "hash_bytes E bytes = Hash32 (blake3 E bytes)"

definition sha3_hash :: "ext \<Rightarrow> u8 list \<Rightarrow> hash32" where
  "sha3_hash E bytes = Hash32 (sha3_256 E bytes)"

text \<open>Copying a slice into a fixed-size array.\<close>

definition array_of_bytes :: "u8 list \<Rightarrow> 'a::len word" where
  "array_of_bytes bs = foldl (\<lambda>acc b. or (push_bit 8 acc) (ucast b)) 0 bs"

datatype hash_parse_error = Hex | Length

text \<open>\<open>Display\<close> and \<open>FromStr\<close> of \<open>Hash32\<close> over the encoder and decoder of the \<open>hex\<close> crate.\<close>

definition hash_to_string :: "(u8 list \<Rightarrow> string) \<Rightarrow> hash32 \<Rightarrow> string" where
  "hash_to_string to_hex h = to_hex (as_bytes h)"

definition hash_from_str :: "(string \<Rightarrow> u8 list option) \<Rightarrow> string \<Rightarrow> hash_parse_error + hash32" where
  "hash_from_str from_hex s = bind_res (ok_or Hex (from_hex s)) (\<lambda>bytes.
     if length bytes \<noteq> 32 then Inl Length else Inr (Hash32 (array_of_bytes bytes)))"

section \<open>Merkle roots\<close>

text \<open>The body of the inner loop of \<open>merkle_root\<close>: the digest of two siblings, the only
  element of an odd chunk being its own sibling.\<close>

definition merkle_pair_bytes :: "hash32 \<Rightarrow> hash32 \<Rightarrow> u8 list" where
  "merkle_pair_bytes l r = as_bytes l @ as_bytes r"

definition merkle_pair :: "ext \<Rightarrow> hash32 \<Rightarrow> hash32 \<Rightarrow> hash32" where
  "merkle_pair E l r = hash_bytes E (merkle_pair_bytes l r)"

fun merkle_layer :: "ext \<Rightarrow> hash32 list \<Rightarrow> hash32 list" where
  "merkle_layer E [] = []"
| "merkle_layer E [a] = [merkle_pair E a a]"
| "merkle_layer E (a # b # rest) = merkle_pair E a b # merkle_layer E rest"

lemma length_merkle_layer: "length (merkle_layer E xs) = (length xs + 1) div 2"
  by (induction E xs rule: merkle_layer.induct) auto

function merkle_loop :: "ext \<Rightarrow> hash32 list \<Rightarrow> hash32 list" where
  "merkle_loop E layer = (if 1 < length layer then merkle_loop E (merkle_layer E layer) else layer)"
  by pat_completeness auto
termination
  by (relation "measure (\<lambda>(E, layer). length layer)") (auto simp: length_merkle_layer)

declare merkle_loop.simps [simp del]

definition merkle_root :: "ext \<Rightarrow> hash32 list \<Rightarrow> hash32" where
  "merkle_root E leaves = (if leaves = [] then hash_bytes E [] else merkle_loop E leaves ! 0)"

section \<open>Roots of empty subtrees\<close>

text \<open>The table that both sparse trees of the program precompute, filled from the leaves up.\<close>

definition fill_step :: "(hash32 \<Rightarrow> hash32 \<Rightarrow> hash32) \<Rightarrow> hash32 list \<Rightarrow> nat \<Rightarrow> hash32 list" where
  "fill_step node hs d = hs[d := node (hs ! (d + 1)) (hs ! (d + 1))]"

definition empty_table :: "(hash32 \<Rightarrow> hash32 \<Rightarrow> hash32) \<Rightarrow> nat \<Rightarrow> hash32 \<Rightarrow> hash32 list" where
  "empty_table node n leaf = foldl (fill_step node)
     ((replicate (n + 1) hash_zero)[n := leaf]) (rev [0..<n])"

lemma length_fill [simp]: "length (foldl (fill_step node) hs ds) = length hs"
  by (induction ds arbitrary: hs) (simp_all add: fill_step_def)

lemma fill_above: "d \<le> i \<Longrightarrow> foldl (fill_step node) hs (rev [0..<d]) ! i = hs ! i"
  by (induction d arbitrary: hs) (auto simp: fill_step_def)

lemma fill_below:
  "i < d \<Longrightarrow> d < length hs \<Longrightarrow> foldl (fill_step node) hs (rev [0..<d]) ! i
     = node (foldl (fill_step node) hs (rev [0..<d]) ! Suc i) (foldl (fill_step node) hs (rev [0..<d]) ! Suc i)"
proof (induction d arbitrary: hs)
  case (Suc d)
  let ?hs = "fill_step node hs d"
  have len: "d < length ?hs" using Suc.prems by (simp add: fill_step_def)
  have fold: "foldl (fill_step node) hs (rev [0..<Suc d]) = foldl (fill_step node) ?hs (rev [0..<d])"
    by simp
  show ?case
  proof (cases "i = d")
    case True
    then show ?thesis
      using Suc.prems unfolding fold by (simp add: fill_above) (simp add: fill_step_def)
  next
    case False
    then show ?thesis unfolding fold using Suc.IH [OF _ len] Suc.prems by simp
  qed
qed simp

lemma length_initial_table:
  "length ((replicate (n + 1) hash_zero)[n := h]) = Suc n"
  by (simp only: length_list_update length_replicate Suc_eq_plus1)

lemma length_empty_table [simp]: "length (empty_table node n leaf) = Suc n"
  unfolding empty_table_def by (simp only: length_fill length_initial_table)

lemma empty_table_step: "d < n \<Longrightarrow>
    empty_table node n leaf ! d = node (empty_table node n leaf ! Suc d) (empty_table node n leaf ! Suc d)"
  unfolding empty_table_def using fill_below [of d n _ node] by (simp only: length_initial_table lessI)

lemma empty_table_leaf: "empty_table node n leaf ! n = leaf"
proof -
  have "empty_table node n leaf ! n = ((replicate (n + 1) hash_zero)[n := leaf]) ! n"
    unfolding empty_table_def by (rule fill_above) simp
  also have "\<dots> = leaf"
    by (rule nth_list_update_eq) simp
  finally show ?thesis .
qed

section \<open>Identifiers of transactions and blocks\<close>

definition tx_id :: "ext \<Rightarrow> transaction \<Rightarrow> hash32" where
  "tx_id E tx = hash_bytes E (expect (encode (bin_transaction E) tx))"

definition block_hash :: "ext \<Rightarrow> block \<Rightarrow> hash32" where
  "block_hash E b = hash_bytes E (expect (encode (bin_block E) b))"

section \<open>Paths of a binary hash tree\<close>

text \<open>The loop shared by the proof checks of \<open>zeno-state\<close> and \<open>zeno-zk\<close>: from a leaf to the
  root, a set bit puts the sibling on the left.\<close>

fun path_root :: "('h \<Rightarrow> 'h \<Rightarrow> 'h) \<Rightarrow> bool list \<Rightarrow> 'h list \<Rightarrow> 'h \<Rightarrow> 'h" where
  "path_root node (b # bs) (s # ss) cur = path_root node bs ss (if b then node s cur else node cur s)"
| "path_root node _ _ cur = cur"

lemma path_root_snoc:
  "length ss = length bs \<Longrightarrow> path_root node (bs @ [b]) (ss @ [s]) cur =
     (if b then node s (path_root node bs ss cur) else node (path_root node bs ss cur) s)"
proof (induction bs arbitrary: ss cur)
  case (Cons b' bs)
  then show ?case by (cases ss) auto
qed simp

text \<open>The byte strings hashed on the way.\<close>

fun path_inputs :: "('h \<Rightarrow> 'h \<Rightarrow> 'h) \<Rightarrow> ('h \<Rightarrow> 'h \<Rightarrow> u8 list) \<Rightarrow> bool list \<Rightarrow> 'h list \<Rightarrow> 'h \<Rightarrow> u8 list list"
where
  "path_inputs node pre (b # bs) (s # ss) cur =
     (if b then pre s cur else pre cur s) #
     path_inputs node pre bs ss (if b then node s cur else node cur s)"
| "path_inputs node pre _ _ cur = []"

text \<open>The reference definition of the root of \<open>2 ^ d\<close> leaves: split in the middle.\<close>

fun merkle_tree :: "ext \<Rightarrow> nat \<Rightarrow> hash32 list \<Rightarrow> hash32" where
  "merkle_tree E 0 xs = xs ! 0"
| "merkle_tree E (Suc d) xs =
     merkle_pair E (merkle_tree E d (take (2 ^ d) xs)) (merkle_tree E d (drop (2 ^ d) xs))"

text \<open>The byte strings that \<open>merkle_root\<close> hashes, layer by layer.\<close>

fun layer_inputs :: "hash32 list \<Rightarrow> u8 list list" where
  "layer_inputs [] = []"
| "layer_inputs [a] = [merkle_pair_bytes a a]"
| "layer_inputs (a # b # rest) = merkle_pair_bytes a b # layer_inputs rest"

function merkle_inputs :: "ext \<Rightarrow> hash32 list \<Rightarrow> u8 list list" where
  "merkle_inputs E layer =
     (if 1 < length layer then layer_inputs layer @ merkle_inputs E (merkle_layer E layer) else [])"
  by pat_completeness auto
termination
  by (relation "measure (\<lambda>(E, layer). length layer)") (auto simp: length_merkle_layer)

declare merkle_inputs.simps [simp del]

text \<open>Two sets of byte strings hold a collision of a digest.\<close>

definition collides :: "(u8 list \<Rightarrow> 'h) \<Rightarrow> u8 list set \<Rightarrow> u8 list set \<Rightarrow> bool" where
  "collides H A B \<longleftrightarrow> (\<exists>x\<in>A. \<exists>y\<in>B. x \<noteq> y \<and> H x = H y)"

text \<open>What a two-to-one node hash promises: it is the digest of an injective pairing.\<close>

locale merkle_node =
  fixes H :: "u8 list \<Rightarrow> 'h" and pre :: "'h \<Rightarrow> 'h \<Rightarrow> u8 list" and node :: "'h \<Rightarrow> 'h \<Rightarrow> 'h"
  assumes node_eq: "node l r = H (pre l r)"
    and pre_inj: "pre l r = pre l' r' \<Longrightarrow> l = l' \<and> r = r'"
begin

lemma node_inject_or_collides:
  "node l r = node l' r' \<Longrightarrow> \<not> collides H {pre l r} {pre l' r'} \<Longrightarrow> l = l' \<and> r = r'"
  using pre_inj by (auto simp: collides_def node_eq)

text \<open>A path that leads from two leaves to the same root has the same leaf and the same
  siblings, or its two evaluations hash two different strings to the same digest.\<close>

lemma path_root_binding:
  assumes "path_root node bs ss x = path_root node bs ss' y"
    and "length ss = length bs" "length ss' = length bs"
    and "\<not> collides H (set (path_inputs node pre bs ss x)) (set (path_inputs node pre bs ss' y))"
  shows "x = y \<and> ss = ss'"
  using assms
proof (induction bs arbitrary: ss ss' x y)
  case (Cons b bs)
  obtain s tl s' tl' where ss: "ss = s # tl" "ss' = s' # tl'"
    using Cons.prems(2,3) by (cases ss; cases ss') auto
  define u v where uv: "u = (if b then node s x else node x s)"
    "v = (if b then node s' y else node y s')"
  have sub: "\<not> collides H (set (path_inputs node pre bs tl u)) (set (path_inputs node pre bs tl' v))"
    and head: "\<not> collides H {if b then pre s x else pre x s} {if b then pre s' y else pre y s'}"
    using Cons.prems(4) by (auto simp: ss uv collides_def)
  have "u = v \<and> tl = tl'"
    using Cons.IH [of tl u tl' v] Cons.prems(1-3) sub by (simp add: ss uv)
  then show ?case
    using head node_inject_or_collides [of s x s' y] node_inject_or_collides [of x s y s']
    by (auto simp: ss uv split: if_splits)
qed simp

end

section \<open>A sample of the external functions\<close>

text \<open>Concrete functions in the place of the digests and of bincode, on which the hypotheses of
  the theorems are shown to hold. The digest is a polynomial in the bytes, the encoders write a
  few fields.\<close>

definition sample_digest :: "u8 list \<Rightarrow> 256 word" where
  "sample_digest bs = foldl (\<lambda>h b. h * 257 + ucast b + 1) 0 bs"

definition sample_ext :: ext where
  "sample_ext = \<lparr>blake3 = sample_digest, sha3_256 = sample_digest, keccak_256 = sample_digest,
     bin_transaction = (\<lambda>tx. Some (to_le_bytes 8 (tb_nonce (tx_body tx)))),
     bin_body = (\<lambda>b. Some (to_le_bytes 8 (tb_nonce b))),
     bin_header = (\<lambda>h. Some (to_le_bytes 8 (bh_height h))),
     bin_block = (\<lambda>b. Some (to_le_bytes 8 (bh_height (bk_header b)))),
     bin_vote = (\<lambda>(h, r, s, b, a). Some (to_le_bytes 8 h)),
     bin_receipt = (\<lambda>r. Some (to_le_bytes 8 (rc_height r))),
     bin_leaf = (\<lambda>(s, a, acct). Some (string_bytes s @ array_bytes 32 (address_raw a) @
        to_le_bytes 8 (acct_nonce acct) @ to_le_bytes 16 (acct_balance acct))),
     bin_validator_leaf = (\<lambda>(s, a). Some (string_bytes s @ array_bytes 32 (address_raw a))),
     bin_proposal = (\<lambda>p. Some (to_le_bytes 8 (pr_height p))),
     bin_certificate = (\<lambda>c. Some (as_bytes (cc_block_hash c))),
     bin_message = (\<lambda>_. None)\<rparr>"

section \<open>Encoding lemmas\<close>

lemma encode_eq_Inr [simp]: "encode bin v = Inr bs \<longleftrightarrow> bin v = Some bs"
  by (simp add: encode_def)

lemma encode_Some [simp]: "bin v = Some bs \<Longrightarrow> encode bin v = Inr bs"
  by simp

section \<open>Digest lemmas\<close>

lemma as_bytes_inject [simp]: "as_bytes a = as_bytes b \<longleftrightarrow> a = b"
  using array_bytes_inject [where ?'a = 256 and n = 32, of "hash_raw a" "hash_raw b"]
  by (cases a; cases b) (simp add: as_bytes_def)

lemma length_as_bytes [simp]: "length (as_bytes h) = 32"
  by (simp add: as_bytes_def)

lemma append_as_bytes_inject:
  "as_bytes a @ xs = as_bytes b @ ys \<longleftrightarrow> a = b \<and> xs = ys"
  by (subst append_eq_append_conv) auto

lemma hash_bytes_inject [simp]: "hash_bytes E x = hash_bytes E y \<longleftrightarrow> blake3 E x = blake3 E y"
  by (simp add: hash_bytes_def)

interpretation mpair: merkle_node "hash_bytes E" merkle_pair_bytes "merkle_pair E" for E
  by unfold_locales (auto simp: merkle_pair_def merkle_pair_bytes_def append_as_bytes_inject)

text \<open>Reading the bytes of an array back gives the array.\<close>

lemma foldl_byte_at:
  assumes "LENGTH('a::len) = 8 * n" "i \<le> n"
  shows "foldl (\<lambda>acc b. or (push_bit 8 acc) (ucast b)) 0 (map (byte_at n w) [0..<i])
       = drop_bit (8 * (n - i)) (w :: 'a word)"
  using assms(2)
proof (induction i)
  case 0
  have "bit w (8 * n + k) = False" for k
    using assms(1) bit_imp_le_length [of w "8 * n + k"] by auto
  then show ?case by (intro bit_word_eqI) (simp add: bit_simps)
next
  case (Suc i)
  have step: "or (push_bit 8 (drop_bit (8 * (n - i)) w)) (ucast (byte_at n w i))
      = drop_bit (8 * (n - Suc i)) w"
  proof (rule bit_word_eqI)
    fix k assume k: "k < LENGTH('a)"
    have pos: "8 * (n - i) + (k - 8) = 8 * (n - Suc i) + k" if "8 \<le> k"
      using that Suc.prems by auto
    show "bit (or (push_bit 8 (drop_bit (8 * (n - i)) w)) (ucast (byte_at n w i))) k
        = bit (drop_bit (8 * (n - Suc i)) w) k"
    proof (cases "k < 8")
      case True
      with k show ?thesis by (simp add: bit_simps bit_byte_at)
    next
      case False
      with k pos show ?thesis by (simp add: bit_simps bit_byte_at)
    qed
  qed
  from Suc have "foldl (\<lambda>acc b. or (push_bit 8 acc) (ucast b)) 0 (map (byte_at n w) [0..<i])
      = drop_bit (8 * (n - i)) w" by simp
  with step show ?case by simp
qed

lemma array_of_array_bytes:
  "LENGTH('a::len) = 8 * n \<Longrightarrow> array_of_bytes (array_bytes n w) = (w :: 'a word)"
  using foldl_byte_at [of n n w] by (simp add: array_of_bytes_def array_bytes_def)

section \<open>Merkle root lemmas\<close>

lemma merkle_loop_step: "1 < length xs \<Longrightarrow> merkle_loop E xs = merkle_loop E (merkle_layer E xs)"
  by (simp add: merkle_loop.simps [of E xs])

lemma merkle_loop_single [simp]: "merkle_loop E [a] = [a]"
  by (simp add: merkle_loop.simps [of E "[a]"])

lemma length_merkle_loop: "xs \<noteq> [] \<Longrightarrow> length (merkle_loop E xs) = 1"
proof (induction E xs rule: merkle_loop.induct)
  case (1 E xs)
  show ?case
  proof (cases "1 < length xs")
    case True
    then have "merkle_layer E xs \<noteq> []"
      using length_merkle_layer [of E xs] by auto
    then show ?thesis using 1 True by (simp add: merkle_loop_step)
  next
    case False
    with 1 show ?thesis by (cases xs) (auto simp: merkle_loop.simps [of E xs])
  qed
qed

lemma merkle_layer_append:
  "even (length xs) \<Longrightarrow> merkle_layer E (xs @ ys) = merkle_layer E xs @ merkle_layer E ys"
  by (induction E xs rule: merkle_layer.induct) auto

lemma merkle_layer_dup:
  "odd (length xs) \<Longrightarrow> merkle_layer E (xs @ [last xs]) = merkle_layer E xs"
  by (induction E xs rule: merkle_layer.induct) auto

lemma merkle_tree_layer:
  "length xs = 2 ^ Suc d \<Longrightarrow> merkle_tree E (Suc d) xs = merkle_tree E d (merkle_layer E xs)"
proof (induction d arbitrary: xs)
  case 0
  then obtain a b where "xs = [a, b]"
    by (metis (no_types) One_nat_def length_0_conv length_Suc_conv numeral_2_eq_2 power_one_right)
  then show ?case by simp
next
  case (Suc d)
  let ?l = "take (2 ^ Suc d) xs" and ?r = "drop (2 ^ Suc d) xs"
  have len: "length ?l = 2 ^ Suc d" "length ?r = 2 ^ Suc d" using Suc.prems by auto
  then have layers: "length (merkle_layer E ?l) = 2 ^ d" "length (merkle_layer E ?r) = 2 ^ d"
    by (simp_all add: length_merkle_layer)
  have "merkle_layer E xs = merkle_layer E ?l @ merkle_layer E ?r"
    using merkle_layer_append [of ?l E ?r] len by simp
  then have "merkle_tree E (Suc d) (merkle_layer E xs)
      = merkle_pair E (merkle_tree E d (merkle_layer E ?l)) (merkle_tree E d (merkle_layer E ?r))"
    using layers by simp
  also have "\<dots> = merkle_pair E (merkle_tree E (Suc d) ?l) (merkle_tree E (Suc d) ?r)"
    by (simp only: Suc.IH [OF len(1)] Suc.IH [OF len(2)])
  finally show ?case by (simp only: merkle_tree.simps(2) [of E "Suc d" xs])
qed

lemma merkle_layer_inject:
  assumes "merkle_layer E xs = merkle_layer E ys" "length xs = length ys"
    and "\<not> collides (hash_bytes E) (set (layer_inputs xs)) (set (layer_inputs ys))"
  shows "xs = ys"
  using assms
proof (induction E xs arbitrary: ys rule: merkle_layer.induct)
  case (2 E a)
  then show ?case
    using mpair.node_inject_or_collides [of E a a "hd ys" "hd ys"]
    by (cases ys) (auto simp: collides_def)
next
  case (3 E a b xs)
  have "length ys = Suc (Suc (length xs))" using "3.prems"(2) by simp
  then obtain c d zs where ys: "ys = c # d # zs" "length xs = length zs"
    by (metis (no_types) length_Suc_conv)
  have sub: "\<not> collides (hash_bytes E) (set (layer_inputs xs)) (set (layer_inputs zs))"
    and head: "\<not> collides (hash_bytes E) {merkle_pair_bytes a b} {merkle_pair_bytes c d}"
    using "3.prems"(3) by (auto simp: ys collides_def)
  show ?case
    using "3.IH" [OF _ ys(2) sub] mpair.node_inject_or_collides [OF _ head] "3.prems"(1)
    by (simp add: ys)
qed simp

lemma merkle_loop_inject:
  assumes "merkle_loop E xs = merkle_loop E ys" "length xs = length ys"
    and "\<not> collides (hash_bytes E) (set (merkle_inputs E xs)) (set (merkle_inputs E ys))"
  shows "xs = ys"
  using assms
proof (induction E xs arbitrary: ys rule: merkle_loop.induct)
  case (1 E xs)
  show ?case
  proof (cases "1 < length xs")
    case True
    let ?xs = "merkle_layer E xs" and ?ys = "merkle_layer E ys"
    have inp: "merkle_inputs E xs = layer_inputs xs @ merkle_inputs E ?xs"
      "merkle_inputs E ys = layer_inputs ys @ merkle_inputs E ?ys"
      using True 1(3) by (simp_all add: merkle_inputs.simps [of E xs] merkle_inputs.simps [of E ys])
    have "?xs = ?ys"
      using 1(1) [OF True, of ?ys] 1(2,3,4) True
      by (auto simp: merkle_loop_step length_merkle_layer inp collides_def)
    then show ?thesis
      using merkle_layer_inject [of E xs ys] 1(3,4) by (auto simp: inp collides_def)
  next
    case False
    with 1 show ?thesis
      by (simp add: merkle_loop.simps [of E xs] merkle_loop.simps [of E ys])
  qed
qed

lemma merkle_root_inject:
  assumes "merkle_root E xs = merkle_root E ys" "length xs = length ys"
    and "\<not> collides (hash_bytes E) (set (merkle_inputs E xs)) (set (merkle_inputs E ys))"
  shows "xs = ys"
proof (cases "xs = []")
  case False
  then have ne: "xs \<noteq> []" "ys \<noteq> []" using assms(2) by auto
  then obtain a b where ab: "merkle_loop E xs = [a]" "merkle_loop E ys = [b]"
    using length_merkle_loop [of xs E] length_merkle_loop [of ys E]
    by (auto simp: length_Suc_conv)
  then show ?thesis
    using merkle_loop_inject [OF _ assms(2,3)] assms(1) ne by (simp add: merkle_root_def)
qed (use assms in simp)

lemma merkle_root_layer:
  "1 < length xs \<Longrightarrow> merkle_root E xs = merkle_root E (merkle_layer E xs)"
  using length_merkle_layer [of E xs] merkle_loop_step [of xs E] by (auto simp: merkle_root_def)

section \<open>Properties\<close>

text \<open>The layer-by-layer loop of \<open>merkle_root\<close> computes, on \<open>2 ^ d\<close> leaves, the root of
  the balanced binary tree that splits its leaves in the middle.\<close>

theorem merkle_root_is_tree:
  assumes "length leaves = 2 ^ d"
  shows "merkle_root E leaves = merkle_tree E d leaves"
  using assms
proof (induction d arbitrary: leaves)
  case 0
  then show ?case by (cases leaves) (auto simp: merkle_root_def)
next
  case (Suc d)
  then have "1 < length leaves"
    using one_less_power [of "2::nat" "Suc d"] by (simp only: zero_less_Suc)
  moreover have "length (merkle_layer E leaves) = 2 ^ d"
    using Suc.prems by (simp add: length_merkle_layer)
  ultimately show ?case
    using Suc.IH merkle_tree_layer [OF Suc.prems, of E] merkle_root_layer [of leaves E]
    by (simp del: merkle_tree.simps)
qed

theorem merkle_root_is_tree_witness:
  "\<forall>E a b c d. merkle_root E [a, b, c, d] = merkle_pair E (merkle_pair E a b) (merkle_pair E c d)"
proof (intro allI)
  fix E a b c d
  show "merkle_root E [a, b, c, d] = merkle_pair E (merkle_pair E a b) (merkle_pair E c d)"
    using merkle_root_is_tree [of "[a, b, c, d]" 2 E] by (simp add: numeral_2_eq_2)
qed

text \<open>Two lists of the same length with the same Merkle root are equal, unless the byte
  strings hashed for the two roots hold a collision of Blake3.\<close>

theorem merkle_root_binding:
  assumes "length xs = length ys" and "merkle_root E xs = merkle_root E ys"
  shows "xs = ys \<or> collides (hash_bytes E) (set (merkle_inputs E xs)) (set (merkle_inputs E ys))"
  using merkle_root_inject [OF assms(2,1)] by blast

theorem merkle_root_binding_witness:
  "\<forall>E a. [a, a] = [a, a] \<or>
     collides (hash_bytes E) (set (merkle_inputs E [a, a])) (set (merkle_inputs E [a, a]))"
proof (intro allI)
  fix E a
  show "[a, a] = [a, a] \<or>
     collides (hash_bytes E) (set (merkle_inputs E [a, a])) (set (merkle_inputs E [a, a]))"
    by (rule merkle_root_binding [of "[a, a]" "[a, a]" E]) simp_all
qed

text \<open>The length is not bound by the root: on an odd number of leaves greater than one,
  repeating the last leaf gives a longer list with the same root, whatever the digest.\<close>

theorem merkle_root_duplicate_last:
  assumes "odd (length xs)" and "1 < length xs"
  shows "merkle_root E (xs @ [last xs]) = merkle_root E xs"
  using assms merkle_root_layer [of xs E] merkle_root_layer [of "xs @ [last xs]" E]
  by (cases "xs = []") (simp_all add: merkle_layer_dup)

theorem merkle_root_duplicate_last_witness:
  "\<forall>E. merkle_root E [Hash32 1, Hash32 2, Hash32 3, Hash32 3]
      = merkle_root E [Hash32 1, Hash32 2, Hash32 3]"
  using merkle_root_duplicate_last [of "[Hash32 1, Hash32 2, Hash32 3]"] by simp

text \<open>Decoding what \<open>encode\<close> wrote gives the value back, and the same bytes followed by
  anything are rejected as trailing, where bincode's decoder reads back what its encoder wrote
  and reports how much it consumed.\<close>

theorem decode_encode:
  assumes "\<And>v bs rest. bin v = Some bs \<Longrightarrow> dec (bs @ rest) = Some (v, length bs)"
    and "encode bin v = Inr bs"
  shows "decode dec (bs @ rest) = (if rest = [] then Inr v else Inl TrailingBytes)"
  using assms(1) [of v bs rest] assms(2) by (simp add: decode_def)

theorem decode_encode_witness:
  "decode (\<lambda>bs. case bs of [] \<Rightarrow> None | b # _ \<Rightarrow> Some (b, 1)) ([7 :: u8] @ [8])
     = (if [8 :: u8] = [] then Inr 7 else Inl TrailingBytes)"
  by (rule decode_encode [of "\<lambda>w. Some [w]"]) auto

text \<open>A digest printed and parsed again is the same digest, and a hexadecimal string of any
  other length than 32 bytes is rejected, where the \<open>hex\<close> crate decodes what it encodes.\<close>

theorem hash_from_str_round_trip:
  assumes "\<And>bs. from_hex (to_hex bs) = Some bs"
  shows "hash_from_str from_hex (hash_to_string to_hex h) = Inr h \<and>
    hash_from_str from_hex (to_hex bs)
      = (if length bs = 32 then Inr (Hash32 (array_of_bytes bs)) else Inl Length)"
  using array_of_array_bytes [where ?'a = 256 and n = 32, of "hash_raw h"]
  by (simp add: hash_from_str_def hash_to_string_def assms as_bytes_def)

theorem hash_from_str_round_trip_witness:
  "hash_from_str (\<lambda>s. Some (map (\<lambda>c. word_of_nat (of_char c)) s))
     (hash_to_string (map (\<lambda>b. char_of (unat b))) (Hash32 99)) = Inr (Hash32 99)"
proof -
  have "of_char (char_of (unat b) :: char) = unat b" for b :: u8
    using unat_word_bound [of b] by simp
  then show ?thesis
    using hash_from_str_round_trip [of "\<lambda>s. Some (map (\<lambda>c. word_of_nat (of_char c)) s)"
      "map (\<lambda>b. char_of (unat b))" "Hash32 99"]
    by (simp add: comp_def)
qed

end
