(* ===== verification/Zeno_Crypto.thy ===== *)
theory Zeno_Crypto
  imports Zeno_Hash
begin

text \<open>
  The crate \<open>zeno-crypto\<close>: signing domains, the trait \<open>SignatureScheme\<close> as a record of
  functions (a trait object), and its ML-DSA implementation over liboqs, whose functions are the
  fields of the record \<open>oqs\<close>. The interface \<open>signature_scheme\<close> states the round trip that the
  signing helpers of \<open>zeno-primitives\<close> rely on; the ML-DSA scheme provides it.
\<close>

section \<open>Domains, parameters and errors\<close>

datatype signing_domain = TransactionDomain | BlockProposalDomain | ConsensusVoteDomain

fun tag :: "signing_domain \<Rightarrow> u8 list" where
  "tag TransactionDomain = string_bytes ''zeno.tx.v1''"
| "tag BlockProposalDomain = string_bytes ''zeno.block_proposal.v1''"
| "tag ConsensusVoteDomain = string_bytes ''zeno.consensus_vote.v1''"

datatype ml_dsa_parameter = MlDsa44 | MlDsa65 | MlDsa87

text \<open>\<open>#[default]\<close> of the enum.\<close>

definition ml_dsa_parameter_default :: ml_dsa_parameter where
  "ml_dsa_parameter_default = MlDsa65"

datatype oqs_algorithm = OqsMlDsa44 | OqsMlDsa65 | OqsMlDsa87

fun algorithm :: "ml_dsa_parameter \<Rightarrow> oqs_algorithm" where
  "algorithm MlDsa44 = OqsMlDsa44"
| "algorithm MlDsa65 = OqsMlDsa65"
| "algorithm MlDsa87 = OqsMlDsa87"

fun description :: "ml_dsa_parameter \<Rightarrow> string" where
  "description MlDsa44 = ''ML-DSA-44 compatible (Dilithium2 family)''"
| "description MlDsa65 = ''ML-DSA-65 compatible (Dilithium3 family)''"
| "description MlDsa87 = ''ML-DSA-87 compatible (Dilithium5 family)''"

record signature_scheme_metadata =
  public_key_bytes :: nat
  secret_key_bytes :: nat
  signature_bytes :: nat

datatype crypto_error = MalformedKey | MalformedSignature | InvalidSignatureErr | Backend string

section \<open>The trait\<close>

record scheme =
  sc_metadata :: signature_scheme_metadata
  sc_generate_keypair :: "crypto_error + (u8 list \<times> u8 list)"
  sc_sign :: "signing_domain \<Rightarrow> u8 list \<Rightarrow> u8 list \<Rightarrow> crypto_error + u8 list"
  sc_verify :: "signing_domain \<Rightarrow> u8 list \<Rightarrow> u8 list \<Rightarrow> u8 list \<Rightarrow> crypto_error + unit"
  sc_derive_address :: "u8 list \<Rightarrow> crypto_error + 256 word"

text \<open>A key pair of a scheme signs what its public key verifies.\<close>

locale signature_scheme =
  fixes S :: scheme and key_pair :: "u8 list \<Rightarrow> u8 list \<Rightarrow> bool"
  assumes sign_verify: "key_pair pk sk \<Longrightarrow> sc_sign S d m sk = Inr sg \<Longrightarrow> sc_verify S d m pk sg = Inr ()"

section \<open>ML-DSA over liboqs\<close>

text \<open>\<open>oqs::sig::Sig\<close>: lengths, typed references to byte slices (\<open>None\<close> on a wrong length) and
  the backend's key generation, signing and verification.\<close>

record oqs =
  oq_length_public_key :: nat
  oq_length_secret_key :: nat
  oq_length_signature :: nat
  oq_keypair :: "string + (u8 list \<times> u8 list)"
  oq_public_key_from_bytes :: "u8 list \<Rightarrow> u8 list option"
  oq_secret_key_from_bytes :: "u8 list \<Rightarrow> u8 list option"
  oq_signature_from_bytes :: "u8 list \<Rightarrow> u8 list option"
  oq_sign :: "u8 list \<Rightarrow> u8 list \<Rightarrow> string + u8 list"
  oq_verify :: "u8 list \<Rightarrow> u8 list \<Rightarrow> u8 list \<Rightarrow> string + unit"

definition domain_message :: "signing_domain \<Rightarrow> u8 list \<Rightarrow> u8 list" where
  "domain_message domain message = tag domain @ [0xff] @ message"

definition ml_dsa_metadata :: "oqs \<Rightarrow> signature_scheme_metadata" where
  "ml_dsa_metadata Q = \<lparr>public_key_bytes = oq_length_public_key Q,
     secret_key_bytes = oq_length_secret_key Q, signature_bytes = oq_length_signature Q\<rparr>"

definition ml_dsa_generate_keypair :: "oqs \<Rightarrow> crypto_error + (u8 list \<times> u8 list)" where
  "ml_dsa_generate_keypair Q = map_err Backend (oq_keypair Q)"

definition ml_dsa_sign :: "oqs \<Rightarrow> signing_domain \<Rightarrow> u8 list \<Rightarrow> u8 list \<Rightarrow> crypto_error + u8 list" where
  "ml_dsa_sign Q domain message secret_key =
     (let msg = domain_message domain message in
      bind_res (ok_or MalformedKey (oq_secret_key_from_bytes Q secret_key)) (\<lambda>key.
      map_err Backend (oq_sign Q msg key)))"

definition ml_dsa_verify ::
  "oqs \<Rightarrow> signing_domain \<Rightarrow> u8 list \<Rightarrow> u8 list \<Rightarrow> u8 list \<Rightarrow> crypto_error + unit" where
  "ml_dsa_verify Q domain message public_key signature =
     (let msg = domain_message domain message in
      bind_res (ok_or MalformedKey (oq_public_key_from_bytes Q public_key)) (\<lambda>pk.
      bind_res (ok_or MalformedSignature (oq_signature_from_bytes Q signature)) (\<lambda>sig.
      map_err (\<lambda>_. InvalidSignatureErr) (oq_verify Q msg sig pk))))"

definition ml_dsa_derive_address :: "ext \<Rightarrow> oqs \<Rightarrow> u8 list \<Rightarrow> crypto_error + 256 word" where
  "ml_dsa_derive_address E Q public_key =
     (if length public_key \<noteq> oq_length_public_key Q then Inl MalformedKey
      else Inr (hash_raw (hash_bytes E (string_bytes ''zeno.address.v1'' @ public_key))))"

definition ml_dsa_scheme :: "ext \<Rightarrow> oqs \<Rightarrow> scheme" where
  "ml_dsa_scheme E Q = \<lparr>sc_metadata = ml_dsa_metadata Q,
     sc_generate_keypair = ml_dsa_generate_keypair Q, sc_sign = ml_dsa_sign Q,
     sc_verify = ml_dsa_verify Q, sc_derive_address = ml_dsa_derive_address E Q\<rparr>"

text \<open>\<open>MlDsaScheme::new\<close> over the constructor \<open>Sig::new\<close> of the backend.\<close>

definition ml_dsa_new :: "ext \<Rightarrow> (oqs_algorithm \<Rightarrow> string + oqs) \<Rightarrow> ml_dsa_parameter \<Rightarrow> string + scheme"
where
  "ml_dsa_new E sig_new parameter =
     bind_res (sig_new (algorithm parameter)) (\<lambda>Q. Inr (ml_dsa_scheme E Q))"

definition default_scheme :: "ext \<Rightarrow> (oqs_algorithm \<Rightarrow> string + oqs) \<Rightarrow> scheme" where
  "default_scheme E sig_new = expect (ml_dsa_new E sig_new ml_dsa_parameter_default)"

definition public_key_fingerprint :: "ext \<Rightarrow> u8 list \<Rightarrow> hash32" where
  "public_key_fingerprint E public_key = hash_bytes E public_key"

text \<open>A key pair of the backend: the public key has the right length and every signature of the
  secret key has the right length and is verified by the public key.\<close>

definition ml_dsa_pair :: "oqs \<Rightarrow> u8 list \<Rightarrow> u8 list \<Rightarrow> bool" where
  "ml_dsa_pair Q pk sk \<longleftrightarrow> oq_public_key_from_bytes Q pk = Some pk \<and>
     (\<forall>key msg sg. oq_secret_key_from_bytes Q sk = Some key \<and> oq_sign Q msg key = Inr sg \<longrightarrow>
        oq_signature_from_bytes Q sg = Some sg \<and> oq_verify Q msg sg pk = Inr ())"

section \<open>Lemmas\<close>

lemma ml_dsa_scheme_sel [simp]:
  "sc_sign (ml_dsa_scheme E Q) = ml_dsa_sign Q"
  "sc_verify (ml_dsa_scheme E Q) = ml_dsa_verify Q"
  "sc_derive_address (ml_dsa_scheme E Q) = ml_dsa_derive_address E Q"
  "sc_generate_keypair (ml_dsa_scheme E Q) = ml_dsa_generate_keypair Q"
  "sc_metadata (ml_dsa_scheme E Q) = ml_dsa_metadata Q"
  by (simp_all add: ml_dsa_scheme_def)

interpretation ml_dsa: signature_scheme "ml_dsa_scheme E Q" "ml_dsa_pair Q" for E Q
  by unfold_locales (auto simp: ml_dsa_pair_def ml_dsa_sign_def ml_dsa_verify_def Let_def res_eq)

lemma domain_message_inject:
  "domain_message d m = domain_message d' m' \<longleftrightarrow> d = d' \<and> m = m'"
  by (cases d; cases d') (auto simp: domain_message_def string_bytes_def)

text \<open>A small backend that makes the hypotheses of the theorems hold: keys and signatures have
  one byte, and the signature of a message is its length added to the secret key.\<close>

definition sample_oqs :: oqs where
  "sample_oqs = \<lparr>oq_length_public_key = 1, oq_length_secret_key = 1, oq_length_signature = 1,
     oq_keypair = Inr ([5], [5]),
     oq_public_key_from_bytes = (\<lambda>b. if length b = 1 then Some b else None),
     oq_secret_key_from_bytes = (\<lambda>b. if length b = 1 then Some b else None),
     oq_signature_from_bytes = (\<lambda>b. if length b = 1 then Some b else None),
     oq_sign = (\<lambda>m k. Inr [word_of_nat (length m) + hd k]),
     oq_verify = (\<lambda>m s k. if s = [word_of_nat (length m) + hd k] then Inr () else Inl ''bad'')\<rparr>"

lemma sample_pair: "ml_dsa_pair sample_oqs [5] [5]"
  by (simp add: ml_dsa_pair_def sample_oqs_def)

section \<open>Properties\<close>

text \<open>Domain separation: the byte strings signed for two domains and two messages are equal
  only when the domains and the messages are, so a signature made for a transaction, a proposal
  or a vote is never one over the bytes of another domain.\<close>

theorem domain_separation:
  "domain_message d m = domain_message d' m' \<longleftrightarrow> d = d' \<and> m = m'"
  by (rule domain_message_inject)

text \<open>What \<open>sign\<close> of the ML-DSA scheme returns for a key pair is accepted by \<open>verify\<close> in
  the same domain, and \<open>verify\<close> distinguishes a malformed key, a malformed signature and a
  signature the backend rejects.\<close>

theorem ml_dsa_sign_verify:
  assumes "ml_dsa_pair Q pk sk" and "sc_sign (ml_dsa_scheme E Q) d m sk = Inr sg"
  shows "sc_verify (ml_dsa_scheme E Q) d m pk sg = Inr () \<and>
    (oq_public_key_from_bytes Q pk' = None \<longrightarrow>
       sc_verify (ml_dsa_scheme E Q) d m pk' sg' = Inl MalformedKey) \<and>
    (oq_signature_from_bytes Q sg' = None \<longrightarrow>
       sc_verify (ml_dsa_scheme E Q) d m pk sg' = Inl MalformedSignature)"
  using ml_dsa.sign_verify [OF assms] assms(1)
  by (auto simp: ml_dsa_verify_def ml_dsa_pair_def)

theorem ml_dsa_sign_verify_witness:
  "\<forall>E. sc_verify (ml_dsa_scheme E sample_oqs) TransactionDomain [1, 2] [5] [18] = Inr () \<and>
     sc_verify (ml_dsa_scheme E sample_oqs) TransactionDomain [1, 2] [] [18] = Inl MalformedKey"
proof
  fix E
  have "sc_sign (ml_dsa_scheme E sample_oqs) TransactionDomain [1, 2] [5] = Inr [18]"
    by (simp add: ml_dsa_sign_def sample_oqs_def domain_message_def)
  from ml_dsa_sign_verify [OF sample_pair this, of "[]" "[18]"]
  show "sc_verify (ml_dsa_scheme E sample_oqs) TransactionDomain [1, 2] [5] [18] = Inr () \<and>
     sc_verify (ml_dsa_scheme E sample_oqs) TransactionDomain [1, 2] [] [18] = Inl MalformedKey"
    by (simp add: sample_oqs_def)
qed

end
