(* ===== verification/Zeno_Primitives.thy ===== *)
theory Zeno_Primitives
  imports Zeno_Crypto
begin

text \<open>
  The crate \<open>zeno-primitives\<close>: the canonical bytes that are signed, the static checks of a
  transaction, signing and verification of transactions, block proposals and votes, and the
  roots of transactions and receipts. Its errors are those of \<open>anyhow\<close>: a message or a wrapped
  error of another crate.
\<close>

section \<open>Constants and errors\<close>

definition MAX_MEMO_BYTES :: nat where
  "MAX_MEMO_BYTES = 256"

definition MAX_TRANSACTION_SIZE :: nat where
  "MAX_TRANSACTION_SIZE = 1048576"

definition MAX_GAS_LIMIT :: u64 where
  "MAX_GAS_LIMIT = 30000000"

datatype anyhow =
    AnyMsg string
  | AnyTx transaction_error
  | AnyCrypto crypto_error
  | AnyCodec codec_error

section \<open>Canonical bytes\<close>

definition canonical_transaction_bytes :: "ext \<Rightarrow> transaction_body \<Rightarrow> anyhow + u8 list" where
  "canonical_transaction_bytes E body = map_err AnyCodec (encode (bin_body E) body)"

definition canonical_block_header_bytes :: "ext \<Rightarrow> block_header \<Rightarrow> anyhow + u8 list" where
  "canonical_block_header_bytes E header = map_err AnyCodec (encode (bin_header E) header)"

definition canonical_vote_bytes ::
  "ext \<Rightarrow> u64 \<Rightarrow> u32 \<Rightarrow> vote_step \<Rightarrow> hash32 \<Rightarrow> address \<Rightarrow> anyhow + u8 list" where
  "canonical_vote_bytes E height round step bhash validator_address =
     map_err AnyCodec (encode (bin_vote E) (height, round, step, bhash, validator_address))"

section \<open>Transactions\<close>

definition sender_from_public_key :: "scheme \<Rightarrow> u8 list \<Rightarrow> transaction_error + address" where
  "sender_from_public_key S public_key =
     map_err (\<lambda>_. SenderMismatch) (bind_res (sc_derive_address S public_key) (\<lambda>a. Inr (Address a)))"

definition verify_transaction ::
  "ext \<Rightarrow> scheme \<Rightarrow> chain_id \<Rightarrow> transaction \<Rightarrow> u64 \<Rightarrow> transaction_error + u8 list" where
  "verify_transaction E S chain_id tx current_height =
    (let body = tx_body tx;
         encoded_size = (case encode (bin_transaction E) tx of Inl _ \<Rightarrow> 0 | Inr bytes \<Rightarrow> length bytes) in
     if MAX_TRANSACTION_SIZE < encoded_size then Inl (TransactionTooLarge encoded_size)
     else if tb_amount body = 0 \<and> tb_evm body = None then Inl ZeroAmount
     else if tb_evm body \<noteq> None \<and> tb_fee body < 10 then Inl ZeroFee
     else if tb_fee body = 0 then Inl ZeroFee
     else if tb_chain_id body \<noteq> chain_id then Inl WrongChainId
     else if (case tb_memo body of None \<Rightarrow> False | Some memo \<Rightarrow> MAX_MEMO_BYTES < length memo)
       then Inl MemoTooLarge
     else if (case tb_valid_until body of None \<Rightarrow> False | Some v \<Rightarrow> v < current_height)
       then Inl (Expired (the (tb_valid_until body)))
     else if (case tb_evm body of None \<Rightarrow> False
              | Some evm \<Rightarrow> et_gas_limit evm = 0 \<or> MAX_GAS_LIMIT < et_gas_limit evm)
       then Inl (GasLimitExceeded MAX_GAS_LIMIT (et_gas_limit (the (tb_evm body))))
     else
       bind_res (sender_from_public_key S (tx_public_key tx)) (\<lambda>derived.
       if derived \<noteq> tb_sender body then Inl SenderMismatch
       else
         bind_res (map_err (\<lambda>_. InvalidSignature) (canonical_transaction_bytes E body)) (\<lambda>body_bytes.
         bind_res (map_err (\<lambda>_. InvalidSignature)
           (sc_verify S TransactionDomain body_bytes (tx_public_key tx) (tx_signature tx))) (\<lambda>_.
         Inr body_bytes))))"

definition sign_transaction ::
  "ext \<Rightarrow> scheme \<Rightarrow> transaction_body \<Rightarrow> u8 list \<Rightarrow> u8 list \<Rightarrow> anyhow + transaction" where
  "sign_transaction E S body public_key secret_key =
     bind_res (canonical_transaction_bytes E body) (\<lambda>bytes.
     bind_res (map_err AnyCrypto (sc_sign S TransactionDomain bytes secret_key)) (\<lambda>signature.
     Inr \<lparr>tx_body = body, tx_public_key = public_key, tx_signature = signature\<rparr>))"

section \<open>Blocks and votes\<close>

definition sign_block ::
  "ext \<Rightarrow> scheme \<Rightarrow> block_header \<Rightarrow> transaction list \<Rightarrow> u8 list \<Rightarrow> u8 list \<Rightarrow> anyhow + block" where
  "sign_block E S header transactions proposer_public_key secret_key =
     bind_res (canonical_block_header_bytes E header) (\<lambda>bytes.
     bind_res (map_err AnyCrypto (sc_sign S BlockProposalDomain bytes secret_key)) (\<lambda>signature.
     Inr \<lparr>bk_header = header, bk_transactions = transactions,
          bk_proposer_public_key = proposer_public_key, bk_proposer_signature = signature\<rparr>))"

definition verify_block :: "ext \<Rightarrow> scheme \<Rightarrow> block \<Rightarrow> anyhow + unit" where
  "verify_block E S b =
     bind_res (map_err AnyTx (sender_from_public_key S (bk_proposer_public_key b))) (\<lambda>derived.
     if derived \<noteq> bh_proposer (bk_header b)
     then Inl (AnyMsg ''proposer address does not match public key'')
     else
       bind_res (canonical_block_header_bytes E (bk_header b)) (\<lambda>bytes.
       bind_res (map_err AnyCrypto
         (sc_verify S BlockProposalDomain bytes (bk_proposer_public_key b) (bk_proposer_signature b)))
       (\<lambda>_. Inr ())))"

definition vote_bytes :: "ext \<Rightarrow> vote \<Rightarrow> anyhow + u8 list" where
  "vote_bytes E v = canonical_vote_bytes E (vt_height v) (vt_round v) (vt_step v) (vt_block_hash v)
     (vt_validator_address v)"

definition sign_vote :: "ext \<Rightarrow> scheme \<Rightarrow> vote \<Rightarrow> u8 list \<Rightarrow> anyhow + vote" where
  "sign_vote E S v secret_key =
     bind_res (vote_bytes E v) (\<lambda>bytes.
     bind_res (map_err AnyCrypto (sc_sign S ConsensusVoteDomain bytes secret_key)) (\<lambda>signature.
     Inr (v\<lparr>vt_signature := signature\<rparr>)))"

definition verify_vote :: "ext \<Rightarrow> scheme \<Rightarrow> vote \<Rightarrow> anyhow + unit" where
  "verify_vote E S v =
     bind_res (vote_bytes E v) (\<lambda>bytes.
     bind_res (map_err AnyTx (sender_from_public_key S (vt_public_key v))) (\<lambda>address.
     if address \<noteq> vt_validator_address v then Inl (AnyMsg ''vote signer mismatch'')
     else
       bind_res (map_err AnyCrypto
         (sc_verify S ConsensusVoteDomain bytes (vt_public_key v) (vt_signature v))) (\<lambda>_. Inr ())))"

section \<open>Roots\<close>

definition transaction_root :: "ext \<Rightarrow> transaction list \<Rightarrow> hash32" where
  "transaction_root E transactions = merkle_root E (map (tx_id E) transactions)"

definition receipt_hash :: "ext \<Rightarrow> receipt \<Rightarrow> hash32" where
  "receipt_hash E r = hash_bytes E (expect (encode (bin_receipt E) r))"

definition receipt_root :: "ext \<Rightarrow> receipt list \<Rightarrow> hash32" where
  "receipt_root E receipts = merkle_root E (map (receipt_hash E) receipts)"

definition proposal_hash :: "ext \<Rightarrow> proposal \<Rightarrow> hash32" where
  "proposal_hash E p = hash_bytes E (expect (encode (bin_proposal E) p))"

definition certificate_hash :: "ext \<Rightarrow> commit_certificate \<Rightarrow> hash32" where
  "certificate_hash E c = hash_bytes E (expect (encode (bin_certificate E) c))"

section \<open>Lemmas\<close>

text \<open>The checks of \<open>verify_transaction\<close> before any cryptography.\<close>

definition static_checks :: "ext \<Rightarrow> chain_id \<Rightarrow> transaction \<Rightarrow> u64 \<Rightarrow> bool" where
  "static_checks E chain_id tx h = (let b = tx_body tx in
     (case bin_transaction E tx of None \<Rightarrow> True | Some bs \<Rightarrow> length bs \<le> MAX_TRANSACTION_SIZE) \<and>
     tb_chain_id b = chain_id \<and>
     (case tb_memo b of None \<Rightarrow> True | Some m \<Rightarrow> length m \<le> MAX_MEMO_BYTES) \<and>
     (case tb_valid_until b of None \<Rightarrow> True | Some v \<Rightarrow> h \<le> v) \<and>
     (case tb_evm b of None \<Rightarrow> tb_amount b \<noteq> 0 \<and> tb_fee b \<noteq> 0
      | Some evm \<Rightarrow> 10 \<le> tb_fee b \<and> et_gas_limit evm \<noteq> 0 \<and> et_gas_limit evm \<le> MAX_GAS_LIMIT))"

lemma sender_from_public_key_Inr [simp]:
  "sender_from_public_key S pk = Inr a \<longleftrightarrow> sc_derive_address S pk = Inr (address_raw a)"
  by (cases a) (auto simp: sender_from_public_key_def bind_res_eq_Inr)

lemma fee_nonzero: "10 \<le> (f :: u128) \<Longrightarrow> f \<noteq> 0"
  by auto

lemma canonical_bytes_Inr [simp]:
  "canonical_transaction_bytes E body = Inr bs \<longleftrightarrow> bin_body E body = Some bs"
  "canonical_block_header_bytes E header = Inr bs \<longleftrightarrow> bin_header E header = Some bs"
  by (simp_all add: canonical_transaction_bytes_def canonical_block_header_bytes_def)

lemma vote_bytes_signature [simp]: "vote_bytes E (v\<lparr>vt_signature := s\<rparr>) = vote_bytes E v"
  by (simp add: vote_bytes_def)

lemma verify_transaction_Inr:
  "verify_transaction E S c tx h = Inr bs \<longleftrightarrow> static_checks E c tx h \<and>
     sc_derive_address S (tx_public_key tx) = Inr (address_raw (tb_sender (tx_body tx))) \<and>
     bin_body E (tx_body tx) = Some bs \<and>
     sc_verify S TransactionDomain bs (tx_public_key tx) (tx_signature tx) = Inr ()"
  by (auto simp: verify_transaction_def static_checks_def Let_def bind_res_eq_Inr not_less fee_nonzero
      encode_def split: option.splits if_splits)

text \<open>What a correct scheme makes of the signing helpers.\<close>

context signature_scheme
begin

lemma signed_transaction_verifies:
  assumes "key_pair pk sk" "sign_transaction E S body pk sk = Inr tx"
    and "sc_derive_address S pk = Inr (address_raw (tb_sender body))"
    and "static_checks E c tx h"
  shows "\<exists>bs. bin_body E body = Some bs \<and> verify_transaction E S c tx h = Inr bs"
  using assms by (auto simp: sign_transaction_def verify_transaction_Inr bind_res_eq_Inr intro: sign_verify)

lemma signed_block_verifies:
  assumes "key_pair pk sk" "sign_block E S header txs pk sk = Inr b"
    and "sc_derive_address S pk = Inr (address_raw (bh_proposer header))"
  shows "verify_block E S b = Inr ()"
  using assms by (auto simp: sign_block_def verify_block_def bind_res_eq_Inr intro: sign_verify)

lemma signed_vote_verifies:
  assumes "key_pair (vt_public_key v) sk" "sign_vote E S v sk = Inr v'"
    and "sc_derive_address S (vt_public_key v) = Inr (address_raw (vt_validator_address v))"
  shows "verify_vote E S v' = Inr ()"
  using assms by (auto simp: sign_vote_def verify_vote_def bind_res_eq_Inr intro: sign_verify)

end

text \<open>Sample data of the witnesses.\<close>

definition sample_address :: address where
  "sample_address = Address (hash_raw (hash_bytes sample_ext (string_bytes ''zeno.address.v1'' @ [5])))"

definition sample_body :: transaction_body where
  "sample_body = \<lparr>tb_chain_id = ChainId ''z'', tb_sender = sample_address, tb_recipient = Address 2,
     tb_amount = 5, tb_nonce = 1, tb_fee = 1, tb_evm = None, tb_memo = None, tb_valid_until = None\<rparr>"

definition sample_tx :: transaction where
  "sample_tx = \<lparr>tx_body = sample_body, tx_public_key = [5], tx_signature = [24]\<rparr>"

definition sample_scheme :: scheme where
  "sample_scheme = ml_dsa_scheme sample_ext sample_oqs"

definition sample_header :: block_header where
  "sample_header = \<lparr>bh_height = 1, bh_round = 0, bh_chain_id = ChainId ''z'',
     bh_parent_hash = Hash32 0, bh_tx_root = Hash32 0, bh_state_root = Hash32 0,
     bh_receipt_root = Hash32 0, bh_proposer = sample_address, bh_timestamp_ms = 0\<rparr>"

definition sample_vote :: vote where
  "sample_vote = \<lparr>vt_height = 1, vt_round = 0, vt_step = Prevote, vt_block_hash = Hash32 7,
     vt_validator_address = sample_address, vt_public_key = [5], vt_signature = []\<rparr>"

lemma sample_address_derived: "sc_derive_address sample_scheme [5] = Inr (address_raw sample_address)"
  by (simp add: sample_scheme_def ml_dsa_derive_address_def sample_oqs_def sample_address_def)

lemma sample_checks: "static_checks sample_ext (ChainId ''z'') sample_tx 9"
  by (simp add: static_checks_def sample_tx_def sample_body_def sample_ext_def MAX_TRANSACTION_SIZE_def)

lemma sample_signed: "sign_transaction sample_ext sample_scheme sample_body [5] [5] = Inr sample_tx"
  by (simp add: sign_transaction_def canonical_transaction_bytes_def sample_ext_def sample_scheme_def
      ml_dsa_sign_def sample_oqs_def domain_message_def sample_tx_def)

section \<open>Properties\<close>

text \<open>C25: \<open>verify_transaction\<close> accepts exactly the transactions that pass every static check
  (size, amount, fee, chain, memo, expiry, gas limit), whose public key derives the sender, and
  whose signature the scheme verifies over the canonical body in the transaction domain; it
  returns those bytes.\<close>

theorem verify_transaction_accepts_iff:
  "verify_transaction E S c tx h = Inr bs \<longleftrightarrow> static_checks E c tx h \<and>
     sc_derive_address S (tx_public_key tx) = Inr (address_raw (tb_sender (tx_body tx))) \<and>
     bin_body E (tx_body tx) = Some bs \<and>
     sc_verify S TransactionDomain bs (tx_public_key tx) (tx_signature tx) = Inr ()"
  by (rule verify_transaction_Inr)

text \<open>A transaction signed by the owner of the sender address passes \<open>verify_transaction\<close>
  at every height at which the static checks hold.\<close>

theorem sign_transaction_verifies:
  assumes "ml_dsa_pair Q pk sk" and "sign_transaction E (ml_dsa_scheme E Q) body pk sk = Inr tx"
    and "sc_derive_address (ml_dsa_scheme E Q) pk = Inr (address_raw (tb_sender body))"
    and "static_checks E c tx h"
  shows "\<exists>bs. bin_body E body = Some bs \<and> verify_transaction E (ml_dsa_scheme E Q) c tx h = Inr bs"
  using assms by (rule ml_dsa.signed_transaction_verifies)

theorem sign_transaction_verifies_witness:
  "\<exists>bs. bin_body sample_ext sample_body = Some bs \<and>
     verify_transaction sample_ext sample_scheme (ChainId ''z'') sample_tx 9 = Inr bs"
  using sign_transaction_verifies [OF sample_pair sample_signed [unfolded sample_scheme_def]
      _ sample_checks] sample_address_derived
  by (simp add: sample_scheme_def sample_body_def)

text \<open>A block signed by its proposer passes \<open>verify_block\<close>, whatever its transactions, and
  a vote signed by its validator passes \<open>verify_vote\<close>.\<close>

theorem sign_block_and_vote_verify:
  assumes "ml_dsa_pair Q pk sk"
    and "sc_derive_address (ml_dsa_scheme E Q) pk = Inr (address_raw a)"
  shows "(bh_proposer header = a \<and> sign_block E (ml_dsa_scheme E Q) header txs pk sk = Inr b \<longrightarrow>
      verify_block E (ml_dsa_scheme E Q) b = Inr ()) \<and>
    (vt_validator_address v = a \<and> vt_public_key v = pk \<and>
       sign_vote E (ml_dsa_scheme E Q) v sk = Inr v' \<longrightarrow>
      verify_vote E (ml_dsa_scheme E Q) v' = Inr ())"
  using assms ml_dsa.signed_block_verifies ml_dsa.signed_vote_verifies by blast

theorem sign_block_and_vote_verify_witness:
  "verify_block sample_ext sample_scheme \<lparr>bk_header = sample_header, bk_transactions = [],
       bk_proposer_public_key = [5], bk_proposer_signature = [36]\<rparr> = Inr () \<and>
   verify_vote sample_ext sample_scheme (sample_vote\<lparr>vt_signature := [36]\<rparr>) = Inr ()"
proof -
  have block: "sign_block sample_ext sample_scheme sample_header [] [5] [5] = Inr
      \<lparr>bk_header = sample_header, bk_transactions = [],
       bk_proposer_public_key = [5], bk_proposer_signature = [36]\<rparr>"
    by (simp add: sign_block_def canonical_block_header_bytes_def sample_ext_def sample_scheme_def
        ml_dsa_sign_def sample_oqs_def domain_message_def)
  have vote: "sign_vote sample_ext sample_scheme sample_vote [5]
      = Inr (sample_vote\<lparr>vt_signature := [36]\<rparr>)"
    by (simp add: sign_vote_def vote_bytes_def canonical_vote_bytes_def sample_ext_def
        sample_scheme_def ml_dsa_sign_def sample_oqs_def domain_message_def)
  show ?thesis
    using sign_block_and_vote_verify [OF sample_pair sample_address_derived [unfolded sample_scheme_def],
        of sample_header "[]" _ sample_vote] block vote
    by (simp add: sample_scheme_def sample_header_def sample_vote_def)
qed

text \<open>The transaction root binds the list of transactions of a given length: two lists with
  the same root have the same transaction identifiers in the same order, or the strings hashed
  for the two roots hold a collision of Blake3.\<close>

theorem transaction_root_binding:
  assumes "length txs = length txs'" and "transaction_root E txs = transaction_root E txs'"
  shows "map (tx_id E) txs = map (tx_id E) txs' \<or>
    collides (hash_bytes E) (set (merkle_inputs E (map (tx_id E) txs)))
      (set (merkle_inputs E (map (tx_id E) txs')))"
  using merkle_root_inject [of E "map (tx_id E) txs" "map (tx_id E) txs'"] assms
  by (auto simp: transaction_root_def)

theorem transaction_root_binding_witness:
  "map (tx_id sample_ext) [sample_tx] = map (tx_id sample_ext) [sample_tx\<lparr>tx_signature := []\<rparr>] \<or>
    collides (hash_bytes sample_ext) (set (merkle_inputs sample_ext (map (tx_id sample_ext) [sample_tx])))
      (set (merkle_inputs sample_ext (map (tx_id sample_ext) [sample_tx\<lparr>tx_signature := []\<rparr>])))"
  by (rule transaction_root_binding)
    (simp_all add: transaction_root_def tx_id_def sample_ext_def sample_tx_def)

end
