(* ===== verification/Zeno_Storage.thy ===== *)
theory Zeno_Storage
  imports Zeno_Primitives
begin

text \<open>
  The in-memory backend \<open>MemoryStore\<close> of the crate \<open>zeno-storage\<close>. Every method of the trait
  \<open>ChainStore\<close> is a function on the record of \<open>MemoryInner\<close>; the methods of this backend
  always return \<open>Ok\<close>, so the results stand without their wrapper. \<open>get_evm_logs_range\<close>
  may panic in the standard library and returns \<open>None\<close> there. The interface \<open>keyed_table\<close>
  states what a client of one of its tables relies on.
\<close>

section \<open>State\<close>

record memory_store =
  ms_genesis :: "genesis option"
  ms_accounts :: "(address, account) btree_map"
  ms_evm_accounts :: "(evm_address, evm_account_state) btree_map"
  ms_blocks_by_height :: "(u64, finalized_block) btree_map"
  ms_blocks_by_hash :: "(hash32, finalized_block) btree_map"
  ms_receipts :: "(hash32, receipt) btree_map"
  ms_snapshot :: "consensus_snapshot option"
  ms_consensus_wal :: "consensus_wal_entry list"
  ms_staking_state :: "staking_state option"
  ms_governance_state :: "governance_state option"
  ms_epoch_transitions :: "(u64, epoch_transition) btree_map"
  ms_evm_logs :: "(u64, evm_log list) btree_map"
  ms_slashing_protection :: "(address, slashing_protection) btree_map"
  ms_gas_pricing :: "gas_pricing_state option"

definition memory_store_default :: memory_store where
  "memory_store_default = \<lparr>ms_genesis = None, ms_accounts = [], ms_evm_accounts = [],
     ms_blocks_by_height = [], ms_blocks_by_hash = [], ms_receipts = [], ms_snapshot = None,
     ms_consensus_wal = [], ms_staking_state = None, ms_governance_state = None,
     ms_epoch_transitions = [], ms_evm_logs = [], ms_slashing_protection = [],
     ms_gas_pricing = None\<rparr>"

section \<open>Operations\<close>

definition put_genesis :: "memory_store \<Rightarrow> genesis \<Rightarrow> memory_store" where
  "put_genesis s g = s\<lparr>ms_genesis := Some g\<rparr>"

definition get_genesis :: "memory_store \<Rightarrow> genesis option" where
  "get_genesis s = ms_genesis s"

definition get_account :: "memory_store \<Rightarrow> address \<Rightarrow> account option" where
  "get_account s a = map_of (ms_accounts s) a"

definition put_account :: "memory_store \<Rightarrow> address \<Rightarrow> account \<Rightarrow> memory_store" where
  "put_account s a acct = s\<lparr>ms_accounts := bt_insert a acct (ms_accounts s)\<rparr>"

definition accounts :: "memory_store \<Rightarrow> (address, account) btree_map" where
  "accounts s = ms_accounts s"

definition get_evm_account :: "memory_store \<Rightarrow> evm_address \<Rightarrow> evm_account_state option" where
  "get_evm_account s a = map_of (ms_evm_accounts s) a"

definition put_evm_account :: "memory_store \<Rightarrow> evm_address \<Rightarrow> evm_account_state \<Rightarrow> memory_store" where
  "put_evm_account s a acct = s\<lparr>ms_evm_accounts := bt_insert a acct (ms_evm_accounts s)\<rparr>"

definition evm_accounts :: "memory_store \<Rightarrow> (evm_address, evm_account_state) btree_map" where
  "evm_accounts s = ms_evm_accounts s"

definition put_finalized_block :: "ext \<Rightarrow> memory_store \<Rightarrow> finalized_block \<Rightarrow> memory_store" where
  "put_finalized_block E s fb = s\<lparr>
     ms_blocks_by_hash := bt_insert (block_hash E (fb_block fb)) fb (ms_blocks_by_hash s),
     ms_blocks_by_height := bt_insert (bh_height (bk_header (fb_block fb))) fb (ms_blocks_by_height s)\<rparr>"

definition get_block_by_height :: "memory_store \<Rightarrow> u64 \<Rightarrow> finalized_block option" where
  "get_block_by_height s h = map_of (ms_blocks_by_height s) h"

definition get_block_by_hash :: "memory_store \<Rightarrow> hash32 \<Rightarrow> finalized_block option" where
  "get_block_by_hash s h = map_of (ms_blocks_by_hash s) h"

definition latest_block :: "memory_store \<Rightarrow> finalized_block option" where
  "latest_block s = map_option snd (bt_last (ms_blocks_by_height s))"

definition put_receipt :: "memory_store \<Rightarrow> receipt \<Rightarrow> memory_store" where
  "put_receipt s r = s\<lparr>ms_receipts := bt_insert (rc_tx_hash r) r (ms_receipts s)\<rparr>"

definition get_receipt :: "memory_store \<Rightarrow> hash32 \<Rightarrow> receipt option" where
  "get_receipt s h = map_of (ms_receipts s) h"

definition put_consensus_snapshot :: "memory_store \<Rightarrow> consensus_snapshot \<Rightarrow> memory_store" where
  "put_consensus_snapshot s cs = s\<lparr>ms_snapshot := Some cs\<rparr>"

definition get_consensus_snapshot :: "memory_store \<Rightarrow> consensus_snapshot option" where
  "get_consensus_snapshot s = ms_snapshot s"

definition append_consensus_wal :: "memory_store \<Rightarrow> consensus_wal_entry \<Rightarrow> memory_store" where
  "append_consensus_wal s e = s\<lparr>ms_consensus_wal := ms_consensus_wal s @ [e]\<rparr>"

definition load_consensus_wal :: "memory_store \<Rightarrow> consensus_wal_entry list" where
  "load_consensus_wal s = ms_consensus_wal s"

definition get_staking_state :: "memory_store \<Rightarrow> staking_state option" where
  "get_staking_state s = ms_staking_state s"

definition put_staking_state :: "memory_store \<Rightarrow> staking_state \<Rightarrow> memory_store" where
  "put_staking_state s st = s\<lparr>ms_staking_state := Some st\<rparr>"

definition get_governance_state :: "memory_store \<Rightarrow> governance_state option" where
  "get_governance_state s = ms_governance_state s"

definition put_governance_state :: "memory_store \<Rightarrow> governance_state \<Rightarrow> memory_store" where
  "put_governance_state s g = s\<lparr>ms_governance_state := Some g\<rparr>"

definition latest_epoch_transition :: "memory_store \<Rightarrow> epoch_transition option" where
  "latest_epoch_transition s = map_option snd (bt_last (ms_epoch_transitions s))"

definition put_epoch_transition :: "memory_store \<Rightarrow> epoch_transition \<Rightarrow> memory_store" where
  "put_epoch_transition s t =
     s\<lparr>ms_epoch_transitions := bt_insert (et_epoch t) t (ms_epoch_transitions s)\<rparr>"

text \<open>The insertions of \<open>atomic_commit_block\<close>, all under one write lock.\<close>

definition insert_all :: "('a \<Rightarrow> 'k::linorder) \<Rightarrow> ('a \<Rightarrow> 'v) \<Rightarrow> 'a list \<Rightarrow> ('k, 'v) btree_map \<Rightarrow> ('k, 'v) btree_map"
where
  "insert_all key val xs m = foldl (\<lambda>m x. bt_insert (key x) (val x) m) m xs"

definition atomic_commit_block ::
  "ext \<Rightarrow> memory_store \<Rightarrow> finalized_block \<Rightarrow> (address, account) btree_map \<Rightarrow> memory_store" where
  "atomic_commit_block E s fb accts = s\<lparr>
     ms_accounts := insert_all fst snd accts (ms_accounts s),
     ms_receipts := insert_all rc_tx_hash (\<lambda>r. r) (fb_receipts fb) (ms_receipts s),
     ms_blocks_by_hash := bt_insert (block_hash E (fb_block fb)) fb (ms_blocks_by_hash s),
     ms_blocks_by_height := bt_insert (bh_height (bk_header (fb_block fb))) fb (ms_blocks_by_height s)\<rparr>"

fun wal_height :: "consensus_wal_entry \<Rightarrow> u64" where
  "wal_height (SnapshotPersisted h _) = h"
| "wal_height (ProposalAccepted h _ _) = h"
| "wal_height (ProposalBroadcast h _ _) = h"
| "wal_height (VoteRecorded h _ _ _ _) = h"
| "wal_height (VoteBroadcast h _ _ _ _) = h"
| "wal_height (CommitFinalized h _ _) = h"
| "wal_height (EvidenceRecorded h _ _ _) = h"
| "wal_height (Locked h _ _ _) = h"
| "wal_height (PolkaObserved h _ _ _) = h"
| "wal_height (HeightAdvanced next_height) = next_height"
| "wal_height (RoundAdvanced h _) = h"

definition compact_consensus_wal :: "memory_store \<Rightarrow> u64 \<Rightarrow> memory_store \<times> nat" where
  "compact_consensus_wal s below_height =
    (let kept = filter (\<lambda>e. below_height \<le> wal_height e) (ms_consensus_wal s) in
     (s\<lparr>ms_consensus_wal := kept\<rparr>, length (ms_consensus_wal s) - length kept))"

definition put_slashing_protection :: "memory_store \<Rightarrow> address \<Rightarrow> slashing_protection \<Rightarrow> memory_store" where
  "put_slashing_protection s a p =
     s\<lparr>ms_slashing_protection := bt_insert a p (ms_slashing_protection s)\<rparr>"

definition get_slashing_protection :: "memory_store \<Rightarrow> address \<Rightarrow> slashing_protection option" where
  "get_slashing_protection s a = map_of (ms_slashing_protection s) a"

definition put_gas_pricing :: "memory_store \<Rightarrow> gas_pricing_state \<Rightarrow> memory_store" where
  "put_gas_pricing s g = s\<lparr>ms_gas_pricing := Some g\<rparr>"

definition get_gas_pricing :: "memory_store \<Rightarrow> gas_pricing_state option" where
  "get_gas_pricing s = ms_gas_pricing s"

text \<open>The loop of \<open>prune_blocks_below\<close> over the keys collected from \<open>range(..height)\<close>.\<close>

definition prune_step :: "ext \<Rightarrow> memory_store \<Rightarrow> u64 \<Rightarrow> memory_store" where
  "prune_step E s k = (case map_of (ms_blocks_by_height s) k of
     None \<Rightarrow> s
   | Some fb \<Rightarrow> s\<lparr>ms_blocks_by_height := bt_remove k (ms_blocks_by_height s),
                 ms_blocks_by_hash := bt_remove (block_hash E (fb_block fb)) (ms_blocks_by_hash s)\<rparr>)"

definition prune_blocks_below :: "ext \<Rightarrow> memory_store \<Rightarrow> u64 \<Rightarrow> memory_store \<times> nat" where
  "prune_blocks_below E s height =
    (let ks = filter (\<lambda>k. k < height) (bt_keys (ms_blocks_by_height s)) in
     (foldl (prune_step E) s ks, length ks))"

definition put_evm_logs :: "memory_store \<Rightarrow> u64 \<Rightarrow> evm_log list \<Rightarrow> memory_store" where
  "put_evm_logs s h logs = s\<lparr>ms_evm_logs := bt_insert h logs (ms_evm_logs s)\<rparr>"

definition get_evm_logs_by_height :: "memory_store \<Rightarrow> u64 \<Rightarrow> evm_log list" where
  "get_evm_logs_by_height s h = (case map_of (ms_evm_logs s) h of None \<Rightarrow> [] | Some logs \<Rightarrow> logs)"

text \<open>\<open>BTreeMap::range\<close> panics when the start of the range lies above its end.\<close>

definition get_evm_logs_range :: "memory_store \<Rightarrow> u64 \<Rightarrow> u64 \<Rightarrow> (u64 \<times> evm_log) list option" where
  "get_evm_logs_range s from_height to_height =
    (if to_height < from_height then None
     else Some (concat (map (\<lambda>(h, logs). map (Pair h) logs)
       (filter (\<lambda>(h, logs). from_height \<le> h \<and> h \<le> to_height) (ms_evm_logs s)))))"

section \<open>Well-formedness\<close>

text \<open>Every table is sorted, which is how a \<open>BTreeMap\<close> always is; every block is filed under
  its own height and its own hash.\<close>

definition store_wf :: "ext \<Rightarrow> memory_store \<Rightarrow> bool" where
  "store_wf E s \<longleftrightarrow> bt_wf (ms_accounts s) \<and> bt_wf (ms_evm_accounts s) \<and>
     bt_wf (ms_blocks_by_height s) \<and> bt_wf (ms_blocks_by_hash s) \<and> bt_wf (ms_receipts s) \<and>
     bt_wf (ms_epoch_transitions s) \<and> bt_wf (ms_evm_logs s) \<and> bt_wf (ms_slashing_protection s) \<and>
     (\<forall>(k, fb)\<in>set (ms_blocks_by_height s). bh_height (bk_header (fb_block fb)) = k) \<and>
     (\<forall>(k, fb)\<in>set (ms_blocks_by_hash s). block_hash E (fb_block fb) = k)"

section \<open>Tables as an interface\<close>

locale keyed_table =
  fixes get :: "'s \<Rightarrow> 'k \<Rightarrow> 'v option" and put :: "'s \<Rightarrow> 'k \<Rightarrow> 'v \<Rightarrow> 's"
  assumes get_put: "get (put s k v) k' = (if k' = k then Some v else get s k')"
begin

lemma get_put_same [simp]: "get (put s k v) k = Some v"
  by (simp add: get_put)

lemma get_put_other: "k' \<noteq> k \<Longrightarrow> get (put s k v) k' = get s k'"
  by (simp add: get_put)

lemma get_put_put: "get (put (put s k v) k w) = get (put s k w)"
  by (rule ext) (simp add: get_put)

lemma get_put_commute:
  "k \<noteq> l \<Longrightarrow> get (put (put s k v) l w) = get (put (put s l w) k v)"
  by (rule ext) (simp add: get_put)

text \<open>After a sequence of writes the last one of a key is read.\<close>

lemma get_puts:
  "get (foldl (\<lambda>s (k, v). put s k v) s kvs) k
     = (case map_of (rev kvs) k of None \<Rightarrow> get s k | Some v \<Rightarrow> Some v)"
  by (induction kvs arbitrary: s rule: rev_induct) (auto simp: get_put split: option.splits)

end

named_theorems store_ops \<open>the operations of the memory store\<close>

declare put_genesis_def [store_ops] get_genesis_def [store_ops] get_account_def [store_ops]
  put_account_def [store_ops] accounts_def [store_ops] get_evm_account_def [store_ops]
  put_evm_account_def [store_ops] evm_accounts_def [store_ops] put_finalized_block_def [store_ops]
  get_block_by_height_def [store_ops] get_block_by_hash_def [store_ops] latest_block_def [store_ops]
  put_receipt_def [store_ops] get_receipt_def [store_ops] put_consensus_snapshot_def [store_ops]
  get_consensus_snapshot_def [store_ops] append_consensus_wal_def [store_ops]
  load_consensus_wal_def [store_ops] get_staking_state_def [store_ops]
  put_staking_state_def [store_ops] get_governance_state_def [store_ops]
  put_governance_state_def [store_ops] put_epoch_transition_def [store_ops]
  put_slashing_protection_def [store_ops] get_slashing_protection_def [store_ops]
  put_gas_pricing_def [store_ops] get_gas_pricing_def [store_ops] put_evm_logs_def [store_ops]
  get_evm_logs_by_height_def [store_ops]

interpretation account_table: keyed_table get_account put_account
  by unfold_locales (simp add: store_ops)

interpretation evm_account_table: keyed_table get_evm_account put_evm_account
  by unfold_locales (simp add: store_ops)

interpretation protection_table: keyed_table get_slashing_protection put_slashing_protection
  by unfold_locales (simp add: store_ops)

interpretation receipt_table: keyed_table "\<lambda>s h. get_receipt s h"
    "\<lambda>s h r. s\<lparr>ms_receipts := bt_insert h r (ms_receipts s)\<rparr>"
  by unfold_locales (simp add: store_ops)

section \<open>Lemmas\<close>

lemma map_of_insert_all:
  "map_of (insert_all key val xs m) k
     = (case map_of (rev (map (\<lambda>x. (key x, val x)) xs)) k of None \<Rightarrow> map_of m k | Some v \<Rightarrow> Some v)"
  by (induction xs arbitrary: m rule: rev_induct)
    (auto simp: insert_all_def split: option.splits)

lemma bt_wf_insert_all [simp, intro]: "bt_wf m \<Longrightarrow> bt_wf (insert_all key val xs m)"
  by (induction xs arbitrary: m) (auto simp: insert_all_def)

lemma map_of_insert_all_distinct:
  "distinct (map key xs) \<Longrightarrow> x \<in> set xs \<Longrightarrow> map_of (insert_all key val xs m) (key x) = Some (val x)"
  by (induction xs arbitrary: m rule: rev_induct) (auto simp: insert_all_def, metis image_eqI)

lemma map_of_insert_all_other:
  "k \<notin> key ` set xs \<Longrightarrow> map_of (insert_all key val xs m) k = map_of m k"
  by (induction xs arbitrary: m) (auto simp: insert_all_def)

lemma bt_insert_set: "bt_wf m \<Longrightarrow> e \<in> set (bt_insert k v m) \<longleftrightarrow> e = (k, v) \<or> (e \<in> set m \<and> fst e \<noteq> k)"
  by (induction k v m rule: bt_insert.induct) (auto simp: bt_wf_Cons bt_keys_def)

lemma bt_last_max:
  assumes "bt_wf m" "map_of m k = Some v"
  shows "\<exists>k' v'. bt_last m = Some (k', v') \<and> k \<le> k' \<and> map_of m k' = Some v'"
proof -
  have ne: "m \<noteq> []" and mem: "(k, v) \<in> set m" using assms(2) by (auto dest: map_of_SomeD)
  obtain xs e where m: "m = xs @ [e]" using ne by (metis append_butlast_last_id)
  have "map_of m (fst e) = Some (snd e)"
    using in_set_map_of [OF bt_wf_distinct [OF assms(1)]] m by auto
  moreover have "k \<le> fst e"
    using assms(1) mem by (auto simp: m bt_wf_def bt_keys_def sorted_wrt_append)
  ultimately show ?thesis by (cases e) (simp add: bt_last_def m)
qed

lemma store_wf_default: "store_wf E memory_store_default"
  by (simp add: store_wf_def memory_store_default_def)

lemma store_wf_put: "store_wf E s \<Longrightarrow> store_wf E (put_finalized_block E s fb)"
  by (auto simp: store_wf_def put_finalized_block_def dest: bt_insert_in_set)

lemma store_wf_commit: "store_wf E s \<Longrightarrow> store_wf E (atomic_commit_block E s fb accts)"
  by (auto simp: store_wf_def atomic_commit_block_def dest: bt_insert_in_set)

lemma prune_step_wf: "store_wf E s \<Longrightarrow> store_wf E (prune_step E s k)"
  by (auto simp: store_wf_def prune_step_def split: option.splits) (auto simp: bt_remove_def)

lemma prune_steps_wf: "store_wf E s \<Longrightarrow> store_wf E (foldl (prune_step E) s ks)"
  by (induction ks arbitrary: s) (simp_all add: prune_step_wf)

lemma prune_steps_heights:
  "map_of (ms_blocks_by_height (foldl (prune_step E) s ks)) h
     = (if h \<in> set ks then None else map_of (ms_blocks_by_height s) h)"
  by (induction ks arbitrary: s) (auto simp: prune_step_def split: option.splits)

lemma prune_steps_hashes:
  assumes "map_of (ms_blocks_by_hash (foldl (prune_step E) s ks)) x = Some fb"
  shows "map_of (ms_blocks_by_hash s) x = Some fb"
  using assms by (induction ks arbitrary: s) (force simp: prune_step_def split: option.splits if_splits)+

lemma prune_steps_unhash:
  assumes "k \<in> set ks" "map_of (ms_blocks_by_height s) k = Some fb"
  shows "map_of (ms_blocks_by_hash (foldl (prune_step E) s ks)) (block_hash E (fb_block fb)) = None"
  using assms
proof (induction ks arbitrary: s)
  case (Cons l ks)
  show ?case
  proof (cases "l = k")
    case True
    then have "map_of (ms_blocks_by_hash (prune_step E s l)) (block_hash E (fb_block fb)) = None"
      using Cons.prems by (simp add: prune_step_def)
    then show ?thesis
      using prune_steps_hashes [of E "prune_step E s l" ks "block_hash E (fb_block fb)"] by fastforce
  next
    case False
    then show ?thesis
      using Cons by (auto simp: prune_step_def split: option.splits)
  qed
qed simp

lemma map_of_rev_distinct: "distinct (map fst m) \<Longrightarrow> map_of (rev m) = map_of m"
  by (rule map_of_inject_set [THEN iffD2]) (simp_all add: rev_map [symmetric])

text \<open>Sample data of the witnesses.\<close>

definition sample_block :: "u64 \<Rightarrow> finalized_block" where
  "sample_block h = \<lparr>fb_block = \<lparr>bk_header = sample_header\<lparr>bh_height := h\<rparr>, bk_transactions = [],
       bk_proposer_public_key = [5], bk_proposer_signature = [36]\<rparr>,
     fb_certificate = \<lparr>cc_block_hash = Hash32 0, cc_height = h, cc_round = 0, cc_votes = []\<rparr>,
     fb_receipts = [\<lparr>rc_tx_hash = Hash32 3, rc_height = h, rc_fee_charged = 1,
       rc_outcome = Success, rc_evm = None\<rparr>],
     fb_epoch_transition = None\<rparr>"

definition sample_store :: memory_store where
  "sample_store = foldl (put_finalized_block sample_ext) memory_store_default
     [sample_block 1, sample_block 2]"

lemma sample_store_wf: "store_wf sample_ext sample_store"
  by (simp add: sample_store_def store_wf_put store_wf_default)

section \<open>Properties\<close>

text \<open>\<open>atomic_commit_block\<close> makes all its writes: every account of the batch, every receipt
  (the last one of a transaction), and the block by height and by hash are read back, every other
  entry is as before, and the block is the latest when no stored block is higher.\<close>

theorem atomic_commit_block_reads:
  assumes "store_wf E s" and "bt_wf accts" and "s' = atomic_commit_block E s fb accts"
  shows "store_wf E s' \<and>
    (\<forall>a. get_account s' a = (case map_of accts a of None \<Rightarrow> get_account s a | Some x \<Rightarrow> Some x)) \<and>
    (\<forall>h. get_receipt s' h =
       (case map_of (rev (map (\<lambda>r. (rc_tx_hash r, r)) (fb_receipts fb))) h of
          None \<Rightarrow> get_receipt s h | Some r \<Rightarrow> Some r)) \<and>
    (\<forall>h. get_block_by_height s' h =
       (if h = bh_height (bk_header (fb_block fb)) then Some fb else get_block_by_height s h)) \<and>
    (\<forall>h. get_block_by_hash s' h =
       (if h = block_hash E (fb_block fb) then Some fb else get_block_by_hash s h)) \<and>
    ((\<forall>k\<in>set (bt_keys (ms_blocks_by_height s)). k \<le> bh_height (bk_header (fb_block fb))) \<longrightarrow>
       latest_block s' = Some fb)"
proof -
  let ?h = "bh_height (bk_header (fb_block fb))"
  have "latest_block s' = Some fb" if "\<forall>k\<in>set (bt_keys (ms_blocks_by_height s)). k \<le> ?h"
  proof -
    have wf: "bt_wf (ms_blocks_by_height s')" and at: "map_of (ms_blocks_by_height s') ?h = Some fb"
      and le: "\<forall>k\<in>set (bt_keys (ms_blocks_by_height s')). k \<le> ?h"
      using assms(1) that by (auto simp: assms(3) atomic_commit_block_def store_wf_def)
    from bt_last_max [OF wf at] obtain k' v' where kv: "bt_last (ms_blocks_by_height s') = Some (k', v')"
      "?h \<le> k'" "map_of (ms_blocks_by_height s') k' = Some v'" by blast
    then have "k' = ?h" using le map_of_bt_keys [of k' "ms_blocks_by_height s'"] by force
    with kv at show ?thesis by (simp add: latest_block_def)
  qed
  then show ?thesis
    using store_wf_commit [OF assms(1)]
    by (simp add: assms(3) atomic_commit_block_def get_account_def get_receipt_def
        get_block_by_height_def get_block_by_hash_def map_of_insert_all map_of_rev_distinct
        bt_wf_distinct [OF assms(2)] cong: option.case_cong)
qed

theorem atomic_commit_block_reads_witness:
  "latest_block (atomic_commit_block sample_ext sample_store (sample_block 3) [(Address 1, account_default)])
     = Some (sample_block 3) \<and>
   get_account (atomic_commit_block sample_ext sample_store (sample_block 3) [(Address 1, account_default)])
     (Address 1) = Some account_default"
  using atomic_commit_block_reads [OF sample_store_wf _ refl, of "[(Address 1, account_default)]" "sample_block 3"]
  by (simp add: bt_wf_Cons bt_keys_def sample_store_def put_finalized_block_def
      memory_store_default_def sample_block_def)

text \<open>\<open>compact_consensus_wal\<close> keeps exactly the entries at or above the height, in order, and
  returns how many it removed; a second call removes nothing, and appending commutes with it.\<close>

theorem compact_consensus_wal_spec:
  "compact_consensus_wal s b = (s', n) \<Longrightarrow>
     load_consensus_wal s' = filter (\<lambda>e. b \<le> wal_height e) (load_consensus_wal s) \<and>
     n = length (filter (\<lambda>e. wal_height e < b) (load_consensus_wal s)) \<and>
     compact_consensus_wal s' b = (s', 0) \<and>
     (b \<le> wal_height e \<longrightarrow>
        compact_consensus_wal (append_consensus_wal s e) b = (append_consensus_wal s' e, n))"
  using sum_length_filter_compl [of "\<lambda>e. b \<le> wal_height e" "ms_consensus_wal s"]
  by (auto simp: compact_consensus_wal_def load_consensus_wal_def append_consensus_wal_def Let_def not_le Suc_diff_le)

theorem compact_consensus_wal_spec_witness:
  "load_consensus_wal (sample_store\<lparr>ms_consensus_wal := [HeightAdvanced 5]\<rparr>)
     = filter (\<lambda>e. 4 \<le> wal_height e)
        (load_consensus_wal (sample_store\<lparr>ms_consensus_wal := [HeightAdvanced 3, HeightAdvanced 5]\<rparr>))"
  using compact_consensus_wal_spec [of "sample_store\<lparr>ms_consensus_wal := [HeightAdvanced 3, HeightAdvanced 5]\<rparr>"
      4 "sample_store\<lparr>ms_consensus_wal := [HeightAdvanced 5]\<rparr>" 1]
  by (simp add: compact_consensus_wal_def)

text \<open>\<open>prune_blocks_below\<close> removes exactly the blocks below the height from the height index,
  adds nothing to the hash index, removes the pruned blocks from it, and returns their number.\<close>

theorem prune_blocks_below_spec:
  assumes "store_wf E s" and "prune_blocks_below E s b = (s', n)"
  shows "store_wf E s' \<and>
    (\<forall>h. get_block_by_height s' h = (if h < b then None else get_block_by_height s h)) \<and>
    (\<forall>x fb. get_block_by_hash s' x = Some fb \<longrightarrow> get_block_by_hash s x = Some fb) \<and>
    (\<forall>h fb. h < b \<and> get_block_by_height s h = Some fb \<longrightarrow>
       get_block_by_hash s' (block_hash E (fb_block fb)) = None) \<and>
    n = card {h. h < b \<and> get_block_by_height s h \<noteq> None}"
proof -
  let ?ks = "filter (\<lambda>k. k < b) (bt_keys (ms_blocks_by_height s))"
  have s': "s' = foldl (prune_step E) s ?ks" and n: "n = length ?ks"
    using assms(2) by (auto simp: prune_blocks_below_def Let_def)
  have absent: "map_of (ms_blocks_by_height s) h = None" if "h \<notin> set (bt_keys (ms_blocks_by_height s))" for h
    using that by (metis contains_key_def contains_key_iff)
  have "distinct ?ks"
    using assms(1) by (auto simp: store_wf_def bt_keys_def dest: bt_wf_distinct)
  moreover have "set ?ks = {h. h < b \<and> get_block_by_height s h \<noteq> None}"
    using absent by (auto simp: get_block_by_height_def map_of_bt_keys)
  ultimately have "n = card {h. h < b \<and> get_block_by_height s h \<noteq> None}"
    by (metis distinct_card n)
  moreover have "get_block_by_height s' h = (if h < b then None else get_block_by_height s h)" for h
    using absent [of h] by (auto simp: s' get_block_by_height_def prune_steps_heights)
  moreover have "get_block_by_hash s' (block_hash E (fb_block fb)) = None"
    if "h < b" "get_block_by_height s h = Some fb" for h fb
  proof -
    have at: "map_of (ms_blocks_by_height s) h = Some fb"
      using that(2) by (simp add: get_block_by_height_def)
    then have "h \<in> set ?ks" using that(1) map_of_bt_keys by fastforce
    then show ?thesis using prune_steps_unhash [OF _ at] by (simp add: s' get_block_by_hash_def)
  qed
  ultimately show ?thesis
    using prune_steps_wf [OF assms(1)] by (auto simp: s' get_block_by_hash_def dest: prune_steps_hashes)
qed

theorem prune_blocks_below_spec_witness:
  "get_block_by_height (fst (prune_blocks_below sample_ext sample_store 2)) 1 = None"
  using prune_blocks_below_spec [OF sample_store_wf prod.collapse [symmetric], of 2] by auto

end
