(* ===== verification/Zeno_State.thy ===== *)
theory Zeno_State
  imports Zeno_Storage
begin

text \<open>
  The account part of the crate \<open>zeno-state\<close>: the snapshot of all accounts, its commitment as a
  sparse Merkle tree of depth \<open>SPARSE_DEPTH\<close> over the first bits of the SHA-3 digest of the
  address, and the inclusion and non-inclusion proofs with their verification. The tree's node
  hash provides the interface \<open>merkle_node\<close>, which carries the binding of the proofs.
\<close>

section \<open>Snapshot\<close>

datatype state_error = StorageErr string | StateErr string

record state_snapshot =
  ss_accounts :: "(address, account) btree_map"

definition load_state :: "memory_store \<Rightarrow> state_error + state_snapshot" where
  "load_state store = Inr \<lparr>ss_accounts = accounts store\<rparr>"

definition snapshot_account :: "state_snapshot \<Rightarrow> address \<Rightarrow> account" where
  "snapshot_account s a = (case map_of (ss_accounts s) a of None \<Rightarrow> account_default | Some x \<Rightarrow> x)"

definition snapshot_put_account :: "state_snapshot \<Rightarrow> address \<Rightarrow> account \<Rightarrow> state_snapshot" where
  "snapshot_put_account s a acct = s\<lparr>ss_accounts := bt_insert a acct (ss_accounts s)\<rparr>"

definition persist_state :: "state_snapshot \<Rightarrow> memory_store \<Rightarrow> memory_store" where
  "persist_state s store = foldl (\<lambda>st (a, acct). put_account st a acct) store (ss_accounts s)"

section \<open>The sparse tree\<close>

definition SPARSE_DEPTH :: nat where
  "SPARSE_DEPTH = 64"

definition smt_leaf_tag :: string where
  "smt_leaf_tag = ''zeno.smt.leaf.v1''"

definition leaf_bytes :: "ext \<Rightarrow> address \<Rightarrow> account \<Rightarrow> u8 list" where
  "leaf_bytes E a acct = expect (encode (bin_leaf E) (smt_leaf_tag, a, acct))"

definition leaf_hash :: "ext \<Rightarrow> address \<Rightarrow> account \<Rightarrow> hash32" where
  "leaf_hash E a acct = hash_bytes E (leaf_bytes E a acct)"

definition node_bytes :: "hash32 \<Rightarrow> hash32 \<Rightarrow> u8 list" where
  "node_bytes l r = string_bytes ''zeno.smt.node.v1'' @ as_bytes l @ as_bytes r"

definition node_hash :: "ext \<Rightarrow> hash32 \<Rightarrow> hash32 \<Rightarrow> hash32" where
  "node_hash E l r = hash_bytes E (node_bytes l r)"

definition empty_leaf_bytes :: "u8 list" where
  "empty_leaf_bytes = string_bytes ''zeno.smt.empty.leaf.v1''"

definition empty_hashes :: "ext \<Rightarrow> hash32 list" where
  "empty_hashes E = empty_table (node_hash E) SPARSE_DEPTH (hash_bytes E empty_leaf_bytes)"

text \<open>\<open>((key[byte] >> bit) & 1) == 1\<close>.\<close>

definition bit_at :: "256 word \<Rightarrow> nat \<Rightarrow> bool" where
  "bit_at key depth = (let byte = depth div 8; bit = 7 - depth mod 8 in
     and (drop_bit bit (byte_at 32 key byte)) 1 = 1)"

definition path_key :: "ext \<Rightarrow> address \<Rightarrow> 256 word" where
  "path_key E a = hash_raw (sha3_hash E (array_bytes 32 (address_raw a)))"

type_synonym smt_entries = "(256 word \<times> hash32) list"

text \<open>The recursion stops at \<open>SPARSE_DEPTH\<close>; the sources only start it at depth 0, where
  \<open>==\<close> and \<open>\<ge>\<close> stop at the same depth.\<close>

function subtree_root :: "ext \<Rightarrow> smt_entries \<Rightarrow> nat \<Rightarrow> hash32" where
  "subtree_root E entries depth =
     (if entries = [] then empty_hashes E ! depth
      else if SPARSE_DEPTH \<le> depth then snd (entries ! 0)
      else node_hash E (subtree_root E (filter (\<lambda>e. \<not> bit_at (fst e) depth) entries) (depth + 1))
             (subtree_root E (filter (\<lambda>e. bit_at (fst e) depth) entries) (depth + 1)))"
  by pat_completeness auto
termination
  by (relation "measure (\<lambda>(E, entries, depth). SPARSE_DEPTH - depth)") auto

function collect_proof :: "ext \<Rightarrow> smt_entries \<Rightarrow> 256 word \<Rightarrow> nat \<Rightarrow> hash32 list \<Rightarrow> hash32 list" where
  "collect_proof E entries target_key depth siblings =
     (if SPARSE_DEPTH \<le> depth then siblings
      else
        let left = filter (\<lambda>e. \<not> bit_at (fst e) depth) entries;
            right = filter (\<lambda>e. bit_at (fst e) depth) entries in
        if bit_at target_key depth
        then collect_proof E right target_key (depth + 1) (siblings @ [subtree_root E left (depth + 1)])
        else collect_proof E left target_key (depth + 1) (siblings @ [subtree_root E right (depth + 1)]))"
  by pat_completeness auto
termination
  by (relation "measure (\<lambda>(E, entries, key, depth, sibs). SPARSE_DEPTH - depth)") auto

declare subtree_root.simps [simp del] collect_proof.simps [simp del]

record sparse_merkle_state =
  sm_accounts :: "(address, account) btree_map"

record account_proof =
  ap_address :: address
  ap_account :: "account option"
  ap_siblings :: "hash32 list"

definition from_accounts :: "(address, account) btree_map \<Rightarrow> sparse_merkle_state" where
  "from_accounts accts = \<lparr>sm_accounts = accts\<rparr>"

definition smt_entries_of :: "ext \<Rightarrow> (address, account) btree_map \<Rightarrow> smt_entries" where
  "smt_entries_of E accts = map (\<lambda>(a, acct). (path_key E a, leaf_hash E a acct)) accts"

definition smt_root :: "ext \<Rightarrow> sparse_merkle_state \<Rightarrow> hash32" where
  "smt_root E s = subtree_root E (smt_entries_of E (sm_accounts s)) 0"

definition smt_prove :: "ext \<Rightarrow> sparse_merkle_state \<Rightarrow> address \<Rightarrow> account_proof" where
  "smt_prove E s a = \<lparr>ap_address = a, ap_account = map_of (sm_accounts s) a,
     ap_siblings = collect_proof E (smt_entries_of E (sm_accounts s)) (path_key E a) 0 []\<rparr>"

definition proof_leaf :: "ext \<Rightarrow> account_proof \<Rightarrow> hash32" where
  "proof_leaf E p = (case ap_account p of Some acct \<Rightarrow> leaf_hash E (ap_address p) acct
     | None \<Rightarrow> empty_hashes E ! SPARSE_DEPTH)"

definition verify_account_proof :: "ext \<Rightarrow> account_proof \<Rightarrow> hash32 \<Rightarrow> bool" where
  "verify_account_proof E p expected_root =
    (if length (ap_siblings p) \<noteq> SPARSE_DEPTH then False
     else
       let path = path_key E (ap_address p);
           current = foldl (\<lambda>cur (depth, sibling).
             if bit_at path (SPARSE_DEPTH - 1 - depth) then node_hash E sibling cur
             else node_hash E cur sibling) (proof_leaf E p)
             (zip [0..<length (ap_siblings p)] (rev (ap_siblings p))) in
       current = expected_root)"

definition state_root :: "ext \<Rightarrow> state_snapshot \<Rightarrow> hash32" where
  "state_root E s = smt_root E (from_accounts (ss_accounts s))"

definition account_proof_of :: "ext \<Rightarrow> state_snapshot \<Rightarrow> address \<Rightarrow> account_proof" where
  "account_proof_of E s a = smt_prove E (from_accounts (ss_accounts s)) a"

section \<open>Paths\<close>

interpretation smt: merkle_node "hash_bytes E" node_bytes "node_hash E" for E
  by unfold_locales (auto simp: node_hash_def node_bytes_def append_as_bytes_inject)

text \<open>The direction bits of a key from the leaf to the root.\<close>

definition path_bits :: "256 word \<Rightarrow> nat \<Rightarrow> bool list" where
  "path_bits key d = rev (map (bit_at key) [d..<SPARSE_DEPTH])"

text \<open>The addresses whose keys share the path of \<open>key\<close> below depth \<open>d\<close>.\<close>

definition same_path :: "256 word \<Rightarrow> nat \<Rightarrow> 256 word \<Rightarrow> bool" where
  "same_path key d k \<longleftrightarrow> (\<forall>i\<in>{d..<SPARSE_DEPTH}. bit_at k i = bit_at key i)"

definition leaf_at :: "ext \<Rightarrow> smt_entries \<Rightarrow> 256 word \<Rightarrow> nat \<Rightarrow> hash32" where
  "leaf_at E entries key d = (case filter (\<lambda>e. same_path key d (fst e)) entries of
     [] \<Rightarrow> empty_hashes E ! SPARSE_DEPTH | e # _ \<Rightarrow> snd e)"

lemma empty_hashes_step: "d < SPARSE_DEPTH \<Longrightarrow>
    empty_hashes E ! d = node_hash E (empty_hashes E ! Suc d) (empty_hashes E ! Suc d)"
  by (simp add: empty_hashes_def empty_table_step)

lemma empty_hashes_leaf: "empty_hashes E ! SPARSE_DEPTH = hash_bytes E empty_leaf_bytes"
  by (simp add: empty_hashes_def empty_table_leaf)

lemma subtree_root_step: "depth < SPARSE_DEPTH \<Longrightarrow> subtree_root E entries depth =
    node_hash E (subtree_root E (filter (\<lambda>e. \<not> bit_at (fst e) depth) entries) (Suc depth))
      (subtree_root E (filter (\<lambda>e. bit_at (fst e) depth) entries) (Suc depth))"
  by (cases "entries = []")
    (auto simp: subtree_root.simps [of E entries] subtree_root.simps [of E "[]"] empty_hashes_step)

lemma collect_proof_append:
  "collect_proof E entries key depth (xs @ ys) = xs @ collect_proof E entries key depth ys"
proof (induction E entries key depth ys rule: collect_proof.induct)
  case (1 E entries key depth ys)
  show ?case
    using 1 by (simp add: collect_proof.simps [of E entries key depth] Let_def)
qed

lemma collect_proof_Cons:
  "collect_proof E entries key depth [x] = x # collect_proof E entries key depth []"
  using collect_proof_append [of E entries key depth "[x]" "[]"] by simp

lemma same_path_Suc: "d < SPARSE_DEPTH \<Longrightarrow>
    same_path key d k \<longleftrightarrow> bit_at k d = bit_at key d \<and> same_path key (Suc d) k"
  by (auto simp: same_path_def atLeastLessThanSuc_atLeastAtMost le_less Suc_le_eq)

lemma length_collect_proof: "length (collect_proof E entries key depth []) = SPARSE_DEPTH - depth"
proof (induction "SPARSE_DEPTH - depth" arbitrary: entries depth)
  case 0
  then show ?case by (simp add: collect_proof.simps)
next
  case (Suc n)
  then have "n = SPARSE_DEPTH - Suc depth" by simp
  with Suc show ?case by (auto simp: collect_proof.simps [of E entries key depth] Let_def collect_proof_Cons)
qed

text \<open>Every root is the path from the leaf found at the key, with the collected siblings.\<close>

lemma subtree_root_path:
  assumes "depth \<le> SPARSE_DEPTH"
  shows "subtree_root E entries depth = path_root (node_hash E) (path_bits key depth)
     (rev (collect_proof E entries key depth [])) (leaf_at E entries key depth)"
  using assms
proof (induction "SPARSE_DEPTH - depth" arbitrary: entries depth)
  case 0
  then have "depth = SPARSE_DEPTH" by simp
  then show ?case
    by (cases entries) (simp_all add: subtree_root.simps path_bits_def leaf_at_def same_path_def)
next
  case (Suc n)
  then have d: "depth < SPARSE_DEPTH" and n: "n = SPARSE_DEPTH - Suc depth" by auto
  let ?side = "filter (\<lambda>e. bit_at (fst e) depth = bit_at key depth) entries"
  have leaf: "leaf_at E entries key depth = leaf_at E ?side key (Suc depth)"
    by (simp add: leaf_at_def same_path_Suc [OF d] conj_commute)
  have bits: "path_bits key depth = path_bits key (Suc depth) @ [bit_at key depth]"
    using d by (simp add: path_bits_def upt_conv_Cons)
  have IH: "subtree_root E es (Suc depth) = path_root (node_hash E) (path_bits key (Suc depth))
      (rev (collect_proof E es key (Suc depth) [])) (leaf_at E es key (Suc depth))" for es
    using Suc.hyps(1) [OF n, of es] d by simp
  have len: "length (rev (collect_proof E es key (Suc depth) [])) = length (path_bits key (Suc depth))" for es
    by (simp add: length_collect_proof path_bits_def)
  have sides: "bit_at key depth \<Longrightarrow> ?side = filter (\<lambda>e. bit_at (fst e) depth) entries"
    "\<not> bit_at key depth \<Longrightarrow> ?side = filter (\<lambda>e. \<not> bit_at (fst e) depth) entries"
    by simp_all
  show ?case
    using d sides unfolding leaf bits subtree_root_step [OF d]
    by (cases "bit_at key depth")
      (simp_all add: collect_proof.simps [of E entries key depth] Let_def collect_proof_Cons
        path_root_snoc [OF len] IH [symmetric])
qed

section \<open>Proof checks\<close>

text \<open>The strings that the check of a proof hashes: the leaf and the nodes of its path.\<close>

definition proof_leaf_bytes :: "ext \<Rightarrow> account_proof \<Rightarrow> u8 list" where
  "proof_leaf_bytes E p = (case ap_account p of Some acct \<Rightarrow> leaf_bytes E (ap_address p) acct
     | None \<Rightarrow> empty_leaf_bytes)"

definition proof_strings :: "ext \<Rightarrow> account_proof \<Rightarrow> u8 list set" where
  "proof_strings E p = insert (proof_leaf_bytes E p)
     (set (path_inputs (node_hash E) node_bytes (path_bits (path_key E (ap_address p)) 0)
        (rev (ap_siblings p)) (proof_leaf E p)))"

text \<open>What the theorems rely on of bincode for the leaves: it encodes them, differently, and
  never as the string of the empty leaf.\<close>

definition leaf_codec_ok :: "ext \<Rightarrow> bool" where
  "leaf_codec_ok E \<longleftrightarrow> (\<forall>a acct. \<exists>bs. bin_leaf E (smt_leaf_tag, a, acct) = Some bs \<and> bs \<noteq> empty_leaf_bytes) \<and>
     (\<forall>a x y. bin_leaf E (smt_leaf_tag, a, x) = bin_leaf E (smt_leaf_tag, a, y) \<longrightarrow> x = y)"

text \<open>No stored address other than \<open>a\<close> has the path of \<open>a\<close>.\<close>

definition unshared :: "ext \<Rightarrow> (address, account) btree_map \<Rightarrow> address \<Rightarrow> bool" where
  "unshared E accts a \<longleftrightarrow>
     (\<forall>b\<in>set (bt_keys accts). b \<noteq> a \<longrightarrow> \<not> same_path (path_key E a) 0 (path_key E b))"

lemma proof_leaf_eq: "proof_leaf E p = hash_bytes E (proof_leaf_bytes E p)"
  by (simp add: proof_leaf_def proof_leaf_bytes_def leaf_hash_def empty_hashes_leaf split: option.splits)

lemma foldl_zip_path_root:
  "foldl (\<lambda>cur (i, s). if b i then node s cur else node cur s) cur (zip [k..<k + length ss] ss)
     = path_root node (map b [k..<k + length ss]) ss cur"
proof (induction ss arbitrary: k cur)
  case (Cons s ss)
  show ?case using Cons.IH [of _ "Suc k"] by (simp add: upt_conv_Cons del: upt_Suc)
qed simp

lemma path_bits_rev: "map (\<lambda>i. bit_at key (SPARSE_DEPTH - 1 - i)) [0..<SPARSE_DEPTH] = path_bits key 0"
  by (rule nth_equalityI) (simp_all add: path_bits_def rev_nth)

lemma verify_account_proof_iff:
  "verify_account_proof E p r \<longleftrightarrow> length (ap_siblings p) = SPARSE_DEPTH \<and>
     path_root (node_hash E) (path_bits (path_key E (ap_address p)) 0) (rev (ap_siblings p)) (proof_leaf E p) = r"
  using foldl_zip_path_root [of "\<lambda>i. bit_at (path_key E (ap_address p)) (SPARSE_DEPTH - 1 - i)"
      "node_hash E" "proof_leaf E p" 0 "rev (ap_siblings p)"] path_bits_rev [of "path_key E (ap_address p)"]
  by (cases "length (ap_siblings p) = SPARSE_DEPTH") (simp_all add: verify_account_proof_def Let_def)

lemma same_path_refl [simp]: "same_path key d key"
  by (simp add: same_path_def)

lemma leaf_at_Cons: "leaf_at E (e # es) key d = (if same_path key d (fst e) then snd e else leaf_at E es key d)"
  by (simp add: leaf_at_def)

lemma leaf_at_entries:
  assumes "distinct (map fst accts)" "unshared E accts a"
  shows "leaf_at E (smt_entries_of E accts) (path_key E a) 0
     = (case map_of accts a of Some acct \<Rightarrow> leaf_hash E a acct | None \<Rightarrow> empty_hashes E ! SPARSE_DEPTH)"
  using assms
  by (induction accts)
    (auto simp: smt_entries_of_def leaf_at_Cons unshared_def bt_keys_def, simp add: leaf_at_def)

lemma state_root_path:
  "state_root E s = path_root (node_hash E) (path_bits (path_key E a) 0)
     (rev (ap_siblings (account_proof_of E s a))) (leaf_at E (smt_entries_of E (ss_accounts s)) (path_key E a) 0)"
  using subtree_root_path [of 0 E "smt_entries_of E (ss_accounts s)" "path_key E a"]
  by (simp add: state_root_def smt_root_def account_proof_of_def smt_prove_def from_accounts_def)

lemma account_proof_of_sel [simp]:
  "ap_address (account_proof_of E s a) = a"
  "ap_account (account_proof_of E s a) = map_of (ss_accounts s) a"
  "length (ap_siblings (account_proof_of E s a)) = SPARSE_DEPTH"
  by (simp_all add: account_proof_of_def smt_prove_def from_accounts_def length_collect_proof)

lemma proof_leaf_stored:
  assumes "bt_wf (ss_accounts s)" "unshared E (ss_accounts s) a"
  shows "leaf_at E (smt_entries_of E (ss_accounts s)) (path_key E a) 0 = proof_leaf E (account_proof_of E s a)"
  using leaf_at_entries [OF bt_wf_distinct [OF assms(1)] assms(2)]
  by (simp add: proof_leaf_def cong: option.case_cong)

lemma proof_leaf_inject:
  assumes "leaf_codec_ok E" "proof_leaf E p = proof_leaf E q" "ap_address p = ap_address q"
    and "\<not> collides (hash_bytes E) (proof_strings E p) (proof_strings E q)"
  shows "ap_account p = ap_account q"
proof -
  have "proof_leaf_bytes E p \<in> proof_strings E p" "proof_leaf_bytes E q \<in> proof_strings E q"
    by (simp_all add: proof_strings_def)
  with assms(2,4) have same: "proof_leaf_bytes E p = proof_leaf_bytes E q"
    unfolding collides_def proof_leaf_eq by blast
  have enc: "\<exists>bs. bin_leaf E (smt_leaf_tag, a, x) = Some bs \<and> leaf_bytes E a x = bs \<and> bs \<noteq> empty_leaf_bytes" for a x
    using assms(1) unfolding leaf_codec_ok_def leaf_bytes_def by (metis encode_Some expect.simps)
  have ne: "leaf_bytes E a x \<noteq> empty_leaf_bytes" for a x
    using enc [of a x] by blast
  show ?thesis
  proof (cases "ap_account p"; cases "ap_account q")
    fix x y assume "ap_account p = Some x" "ap_account q = Some y"
    moreover from this have "bin_leaf E (smt_leaf_tag, ap_address q, x) = bin_leaf E (smt_leaf_tag, ap_address q, y)"
      using same assms(3) enc [of "ap_address q" x] enc [of "ap_address q" y]
      by (auto simp: proof_leaf_bytes_def)
    ultimately show ?thesis using assms(1) unfolding leaf_codec_ok_def by auto
  qed (use same ne ne [symmetric] in \<open>auto simp: proof_leaf_bytes_def\<close>)
qed

text \<open>\<open>bit_at\<close> reads the bits of the digest from the most significant one.\<close>

lemma bit_at_bit: "depth < 256 \<Longrightarrow> bit_at key depth \<longleftrightarrow> bit key (255 - depth)"
proof -
  assume d: "depth < 256"
  have pos: "8 * (31 - depth div 8) + (7 - depth mod 8) = 255 - depth"
    using d by presburger
  have "bit_at key depth \<longleftrightarrow> bit (byte_at 32 key (depth div 8)) (7 - depth mod 8)"
    by (simp add: bit_at_def Let_def and_one_eq bit_iff_odd_drop_bit odd_iff_mod_2_eq_one)
  moreover have "7 - depth mod 8 < 8" by linarith
  ultimately show ?thesis by (simp add: bit_byte_at pos)
qed

text \<open>The root is a function of the leaves found at the paths.\<close>

lemma subtree_root_leaves:
  assumes "depth \<le> SPARSE_DEPTH" "\<And>key. leaf_at E es key depth = leaf_at E es' key depth"
  shows "subtree_root E es depth = subtree_root E es' depth"
  using assms
proof (induction "SPARSE_DEPTH - depth" arbitrary: es es' depth)
  case 0
  then have d: "depth = SPARSE_DEPTH" by simp
  show ?case
    using "0.prems"(2) [of 0] unfolding d
    by (cases es; cases es') (simp_all add: subtree_root.simps leaf_at_def same_path_def)
next
  case (Suc n)
  then have d: "depth < SPARSE_DEPTH" and n: "n = SPARSE_DEPTH - Suc depth" by auto
  have filt: "leaf_at E (filter (\<lambda>e. bit_at (fst e) depth = b) fs) key (Suc depth)
      = leaf_at E fs (if b then set_bit (255 - depth) key else unset_bit (255 - depth) key) depth" for fs b key
  proof -
    let ?k = "if b then set_bit (255 - depth) key else unset_bit (255 - depth) key"
    have at: "bit_at ?k depth = b"
      using d by (simp add: bit_at_bit SPARSE_DEPTH_def bit_simps less_imp_diff_less)
    have above: "bit_at ?k i = bit_at key i" if "i \<in> {Suc depth..<SPARSE_DEPTH}" for i
    proof -
      have "255 - i \<noteq> 255 - depth" using that by (auto simp: SPARSE_DEPTH_def)
      then show ?thesis using that by (auto simp: bit_at_bit SPARSE_DEPTH_def bit_simps)
    qed
    then have "same_path ?k (Suc depth) = same_path key (Suc depth)"
      by (auto simp: same_path_def fun_eq_iff)
    then show ?thesis
      by (simp add: leaf_at_def same_path_Suc [OF d] at conj_commute)
  qed
  have "subtree_root E (filter (\<lambda>e. bit_at (fst e) depth = b) es) (Suc depth)
      = subtree_root E (filter (\<lambda>e. bit_at (fst e) depth = b) es') (Suc depth)" for b
    using Suc.hyps(1) [OF n] d by (simp add: filt Suc.prems(2))
  from this [of True] this [of False] show ?case
    by (simp add: subtree_root_step [OF d])
qed

lemma account_proof_verifies:
  assumes "bt_wf (ss_accounts s)" "unshared E (ss_accounts s) a"
  shows "verify_account_proof E (account_proof_of E s a) (state_root E s)"
  using state_root_path [of E s a] proof_leaf_stored [OF assms]
  by (simp add: verify_account_proof_iff)

lemma smt_entries_Cons: "smt_entries_of E ((a, acct) # m) = (path_key E a, leaf_hash E a acct) # smt_entries_of E m"
  by (simp add: smt_entries_of_def)

lemma leaf_at_insert_other:
  "\<not> same_path key 0 (path_key E b) \<Longrightarrow>
     leaf_at E (smt_entries_of E (bt_insert b acct m)) key 0 = leaf_at E (smt_entries_of E m) key 0"
  by (induction b acct m rule: bt_insert.induct) (auto simp: smt_entries_Cons leaf_at_Cons)

lemma leaf_at_insert_shared:
  assumes "same_path (path_key E a) 0 (path_key E b)" "a < b"
    and "bt_wf m" "a \<in> set (bt_keys m)" "b \<notin> set (bt_keys m)"
  shows "leaf_at E (smt_entries_of E (bt_insert b acct m)) key 0 = leaf_at E (smt_entries_of E m) key 0"
  using assms(3-)
proof (induction m)
  case (Cons e m)
  obtain k v where e: "e = (k, v)" by (cases e)
  show ?case
  proof (cases "k = a")
    case True
    have "same_path key 0 (path_key E a) \<longleftrightarrow> same_path key 0 (path_key E b)"
      using assms(1) by (auto simp: same_path_def)
    moreover have "bt_insert b acct (e # m) = e # bt_insert b acct m"
      using assms(2) True by (auto simp: e)
    ultimately show ?thesis
      using True leaf_at_insert_other [of key E b acct m]
      by (cases "same_path key 0 (path_key E b)") (simp_all add: e smt_entries_Cons leaf_at_Cons)
  next
    case False
    then have "a \<in> set (bt_keys m)" "k < a" "bt_wf m" "b \<notin> set (bt_keys m)"
      using Cons.prems by (auto simp: e bt_wf_Cons bt_keys_def)
    moreover from this have "bt_insert b acct (e # m) = e # bt_insert b acct m"
      using less_trans [OF \<open>k < a\<close> assms(2)] by (auto simp: e)
    ultimately show ?thesis
      using Cons.IH by (simp add: e smt_entries_Cons leaf_at_Cons)
  qed
qed (simp add: bt_keys_def)

text \<open>Sample data of the witnesses.\<close>

definition sample_accounts :: "(address, account) btree_map" where
  "sample_accounts = [(Address 1, \<lparr>acct_nonce = 0, acct_balance = 50\<rparr>)]"

lemma sample_leaf_codec: "leaf_codec_ok sample_ext"
proof -
  have "x = y" if "to_le_bytes 8 (acct_nonce x) @ to_le_bytes 16 (acct_balance x)
      = to_le_bytes 8 (acct_nonce y) @ to_le_bytes 16 (acct_balance y)" for x y :: account
  proof -
    have "to_le_bytes 8 (acct_nonce x) = to_le_bytes 8 (acct_nonce y)"
      and "to_le_bytes 16 (acct_balance x) = to_le_bytes 16 (acct_balance y)"
      using that by simp_all
    then show ?thesis
      using to_le_bytes_inject [where ?'a = 64 and n = 8] to_le_bytes_inject [where ?'a = 128 and n = 16]
      by simp
  qed
  moreover have "xs \<noteq> empty_leaf_bytes" if "length xs \<noteq> 22" for xs
    using that by (auto simp: empty_leaf_bytes_def)
  ultimately show ?thesis
    by (simp add: leaf_codec_ok_def sample_ext_def smt_leaf_tag_def)
qed

lemma sample_unshared: "unshared E sample_accounts (Address 1)" "bt_wf sample_accounts"
  by (simp_all add: unshared_def sample_accounts_def bt_keys_def bt_wf_def)

section \<open>Properties\<close>

text \<open>Every account proof built from a snapshot verifies against its state root, for a stored
  address (inclusion) as for an absent one (non-inclusion), when no other stored address shares
  the first \<open>SPARSE_DEPTH\<close> bits of its path.\<close>

theorem account_proof_complete:
  assumes "bt_wf (ss_accounts s)" and "unshared E (ss_accounts s) a"
  shows "verify_account_proof E (account_proof_of E s a) (state_root E s) \<and>
    ap_account (account_proof_of E s a) = map_of (ss_accounts s) a"
  using account_proof_verifies [OF assms] by simp

theorem account_proof_complete_witness:
  "verify_account_proof sample_ext (account_proof_of sample_ext \<lparr>ss_accounts = sample_accounts\<rparr> (Address 1))
     (state_root sample_ext \<lparr>ss_accounts = sample_accounts\<rparr>)"
  using account_proof_complete [of "\<lparr>ss_accounts = sample_accounts\<rparr>" sample_ext "Address 1"]
  by (simp add: sample_unshared)



text \<open>The tree has depth 64 and not 256: an account whose address shares the first 64 bits of
  its path with a stored, smaller address is not committed at all, since the state root is the
  same whatever its nonce and balance.\<close>

theorem state_root_ignores_shared_path:
  assumes "bt_wf (ss_accounts s)" and "a \<in> set (bt_keys (ss_accounts s))" and "a < b"
    and "same_path (path_key E a) 0 (path_key E b)" and "b \<notin> set (bt_keys (ss_accounts s))"
  shows "state_root E (snapshot_put_account s b acct) = state_root E s"
proof -
  have "leaf_at E (smt_entries_of E (bt_insert b acct (ss_accounts s))) key 0
      = leaf_at E (smt_entries_of E (ss_accounts s)) key 0" for key
    using leaf_at_insert_shared [OF assms(4,3,1,2,5)] .
  then have "subtree_root E (smt_entries_of E (bt_insert b acct (ss_accounts s))) 0
      = subtree_root E (smt_entries_of E (ss_accounts s)) 0"
    by (intro subtree_root_leaves) simp_all
  then show ?thesis
    by (simp add: state_root_def smt_root_def from_accounts_def snapshot_put_account_def)
qed

theorem state_root_ignores_shared_path_witness:
  "state_root (sample_ext\<lparr>sha3_256 := \<lambda>_. 0\<rparr>)
      (snapshot_put_account \<lparr>ss_accounts = sample_accounts\<rparr> (Address 2) \<lparr>acct_nonce = 0, acct_balance = 99\<rparr>)
    = state_root (sample_ext\<lparr>sha3_256 := \<lambda>_. 0\<rparr>) \<lparr>ss_accounts = sample_accounts\<rparr>"
  by (rule state_root_ignores_shared_path [of _ "Address 1"])
    (simp_all add: sample_unshared sample_accounts_def bt_keys_def bt_wf_def path_key_def sha3_hash_def)

end
