(* ===== verification/Zeno_Staking.thy ===== *)
theory Zeno_Staking
  imports Zeno_State "HOL-Library.Product_Lexorder"
begin

text \<open>
  The staking and governance part of the crate \<open>zeno-state\<close>. \<open>StakingSnapshot\<close> and
  \<open>GovernanceSnapshot\<close> wrap one state each, which the operations take and return; a fallible
  method on \<open>&mut self\<close> returns the state it leaves, also on an error, and its result.
\<close>

section \<open>Governance\<close>

definition governance_load :: "memory_store \<Rightarrow> economics_params \<Rightarrow> governance_state" where
  "governance_load store default_economics = (case get_governance_state store of
     None \<Rightarrow> governance_state_new default_economics | Some g \<Rightarrow> g)"

definition governance_persist :: "governance_state \<Rightarrow> memory_store \<Rightarrow> memory_store" where
  "governance_persist g store = put_governance_state store g"

definition queue_parameter_update ::
  "governance_state \<Rightarrow> u64 \<Rightarrow> parameter_update \<Rightarrow> string \<Rightarrow> governance_state \<times> u64" where
  "queue_parameter_update g activation_epoch upd descr =
    (let proposal_id = gs_next_proposal_id g in
     (g\<lparr>gs_next_proposal_id := gs_next_proposal_id g + 1,
        gs_pending := gs_pending g @ [\<lparr>gp_proposal_id = proposal_id,
          gp_activation_epoch = activation_epoch, gp_update = upd, gp_description = descr\<rparr>]\<rparr>,
      proposal_id))"

text \<open>\<open>retain\<close> visits the proposals in order; its closure updates the economics and collects.\<close>

fun activate_loop :: "u64 \<Rightarrow> governance_proposal list \<Rightarrow> economics_params \<Rightarrow>
  economics_params \<times> governance_proposal list \<times> governance_proposal list" where
  "activate_loop epoch [] eco = (eco, [], [])"
| "activate_loop epoch (p # ps) eco =
    (if epoch < gp_activation_epoch p
     then case activate_loop epoch ps eco of (eco', kept, applied) \<Rightarrow> (eco', p # kept, applied)
     else case activate_loop epoch ps (case gp_update p of Economics economics \<Rightarrow> economics) of
       (eco', kept, applied) \<Rightarrow> (eco', kept, p # applied))"

definition activate_ready_updates ::
  "governance_state \<Rightarrow> u64 \<Rightarrow> governance_state \<times> governance_proposal list" where
  "activate_ready_updates g epoch =
    (case activate_loop epoch (gs_pending g) (gs_economics g) of (eco, kept, applied) \<Rightarrow>
      (g\<lparr>gs_economics := eco, gs_pending := kept\<rparr>, applied))"

section \<open>Staking\<close>

definition staking_load :: "memory_store \<Rightarrow> staking_state" where
  "staking_load store = (case get_staking_state store of None \<Rightarrow> staking_state_default | Some s \<Rightarrow> s)"

definition staking_persist :: "staking_state \<Rightarrow> memory_store \<Rightarrow> memory_store" where
  "staking_persist s store = put_staking_state store s"

definition ensure_validator :: "staking_state \<Rightarrow> validator \<Rightarrow> staking_state" where
  "ensure_validator s v = (if contains_key (st_validators s) (va_address v) then s
     else s\<lparr>st_validators := bt_insert (va_address v)
       \<lparr>vs_validator_address = va_address v, vs_self_bond = 0, vs_total_stake = 0,
        vs_commission_bps = 0, vs_status = Active, vs_last_liveness_epoch = st_epoch s\<rparr>
       (st_validators s)\<rparr>)"

definition ensure_validators :: "staking_state \<Rightarrow> validator list \<Rightarrow> staking_state" where
  "ensure_validators s vs = foldl ensure_validator s vs"

definition delegate ::
  "staking_state \<Rightarrow> address \<Rightarrow> address \<Rightarrow> u128 \<Rightarrow> bool \<Rightarrow> staking_state \<times> (state_error + unit)" where
  "delegate s delegator validator_address amount is_self_bond =
    (case map_of (st_validators s) validator_address of
       None \<Rightarrow> (s, Inl (StateErr ''unknown validator''))
     | Some validator \<Rightarrow>
        let key = (delegator, validator_address);
            delegation = (case map_of (st_delegations s) key of Some d \<Rightarrow> d
              | None \<Rightarrow> \<lparr>dl_delegator = delegator, dl_validator_address = validator_address, dl_amount = 0\<rparr>);
            delegation' = delegation\<lparr>dl_amount := saturating_add (dl_amount delegation) amount\<rparr>;
            validator1 = validator\<lparr>vs_total_stake := saturating_add (vs_total_stake validator) amount\<rparr>;
            validator2 = (if is_self_bond
              then validator1\<lparr>vs_self_bond := saturating_add (vs_self_bond validator) amount\<rparr>
              else validator1) in
        (s\<lparr>st_delegations := bt_insert key delegation' (st_delegations s),
           st_validators := bt_insert validator_address validator2 (st_validators s)\<rparr>, Inr ()))"

text \<open>The amount is taken off the delegation before the validator is looked up.\<close>

definition begin_unbonding ::
  "staking_state \<Rightarrow> address \<Rightarrow> address \<Rightarrow> u128 \<Rightarrow> economics_params \<Rightarrow> staking_state \<times> (state_error + unit)"
where
  "begin_unbonding s delegator validator_address amount params =
    (let key = (delegator, validator_address) in
     case map_of (st_delegations s) key of
       None \<Rightarrow> (s, Inl (StateErr ''delegation not found''))
     | Some delegation \<Rightarrow>
        if dl_amount delegation < amount then (s, Inl (StateErr ''insufficient delegated amount''))
        else
          let s1 = s\<lparr>st_delegations := bt_insert key
                (delegation\<lparr>dl_amount := dl_amount delegation - amount\<rparr>) (st_delegations s)\<rparr> in
          case map_of (st_validators s1) validator_address of
            None \<Rightarrow> (s1, Inl (StateErr ''unknown validator''))
          | Some validator \<Rightarrow>
              let validator1 = validator\<lparr>vs_total_stake := vs_total_stake validator - amount\<rparr>;
                  validator2 = (if delegator = validator_address
                    then validator1\<lparr>vs_self_bond := saturating_sub (vs_self_bond validator) amount\<rparr>
                    else validator1) in
              (s1\<lparr>st_validators := bt_insert validator_address validator2 (st_validators s1),
                  st_unbonding := st_unbonding s1 @ [\<lparr>ub_delegator = delegator,
                    ub_validator_address = validator_address, ub_amount = amount,
                    ub_release_epoch = saturating_add (st_epoch s1) (unbonding_epochs params)\<rparr>]\<rparr>,
               Inr ()))"

text \<open>The loop of \<open>slash\<close> over the delegations of a jailed validator.\<close>

definition freeze_delegations :: "staking_state \<Rightarrow> address \<Rightarrow> staking_state" where
  "freeze_delegations s a = s\<lparr>
     st_unbonding := st_unbonding s @ map (\<lambda>d. \<lparr>ub_delegator = dl_delegator d,
         ub_validator_address = a, ub_amount = dl_amount d,
         ub_release_epoch = saturating_add (st_epoch s) 1\<rparr>)
       (filter (\<lambda>d. dl_validator_address d = a) (bt_values (st_delegations s))),
     st_delegations := map (\<lambda>(k, d). (k, if dl_validator_address d = a then d\<lparr>dl_amount := 0\<rparr> else d))
       (st_delegations s)\<rparr>"

definition slash_amount :: "u128 \<Rightarrow> u16 \<Rightarrow> u128" where
  "slash_amount total_stake slash_bps = saturating_mul total_stake (ucast slash_bps) div 10000"

definition slash ::
  "staking_state \<Rightarrow> address \<Rightarrow> u16 \<Rightarrow> string \<Rightarrow> bool \<Rightarrow> staking_state \<times> (state_error + unit)" where
  "slash s validator_address slash_bps reason jail =
    (case map_of (st_validators s) validator_address of
       None \<Rightarrow> (s, Inl (StateErr ''unknown validator''))
     | Some validator \<Rightarrow>
        let total = saturating_sub (vs_total_stake validator)
              (slash_amount (vs_total_stake validator) slash_bps);
            validator1 = validator\<lparr>vs_total_stake := total,
              vs_self_bond := min (vs_self_bond validator) total\<rparr>;
            validator2 = (if jail then validator1\<lparr>vs_status := Jailed\<rparr> else validator1);
            s1 = s\<lparr>st_validators := bt_insert validator_address validator2 (st_validators s)\<rparr>;
            s2 = (if jail then freeze_delegations s1 validator_address else s1) in
        (s2\<lparr>st_slashing_events := st_slashing_events s2 @ [\<lparr>se_validator_address = validator_address,
            se_epoch = st_epoch s2, se_slash_bps = slash_bps, se_reason = reason\<rparr>]\<rparr>, Inr ()))"

definition active_validators :: "staking_state \<Rightarrow> validator_stake list" where
  "active_validators s = filter (\<lambda>v. vs_status v = Active) (bt_values (st_validators s))"

text \<open>The body of the reward loop: the validator's reward and its commission to the treasury.\<close>

definition reward_step :: "u128 \<Rightarrow> u128 \<Rightarrow> (address, u128) btree_map \<times> u128 \<Rightarrow>
  address \<times> validator_stake \<Rightarrow> (address, u128) btree_map \<times> u128" where
  "reward_step validator_pool total_active_stake = (\<lambda>(rewards, treasury) (address, validator).
     if vs_status validator \<noteq> Active \<or> vs_total_stake validator = 0 then (rewards, treasury)
     else
       let gross_reward = saturating_mul validator_pool (vs_total_stake validator) div total_active_stake;
           commission = saturating_mul gross_reward (ucast (vs_commission_bps validator)) div 10000 in
       (bt_insert address gross_reward rewards, saturating_add treasury commission))"

definition settle_epoch_rewards ::
  "staking_state \<Rightarrow> u128 \<Rightarrow> u128 \<Rightarrow> economics_params \<Rightarrow> staking_state \<times> (address, u128) btree_map" where
  "settle_epoch_rewards s total_fees reward_budget params =
    (let total_active_stake = sum_list (map vs_total_stake (active_validators s)) in
     if total_active_stake = 0
     then (s\<lparr>st_treasury_balance := saturating_add
             (saturating_add (st_treasury_balance s) total_fees) reward_budget,
             st_epoch := saturating_add (st_epoch s) 1\<rparr>, [])
     else
       let distributable = saturating_add total_fees reward_budget;
           treasury_cut = saturating_mul distributable (ucast (treasury_bps params)) div 10000;
           treasury = saturating_add (st_treasury_balance s) treasury_cut;
           validator_pool = saturating_sub distributable treasury_cut;
           (rewards, treasury') = foldl (reward_step validator_pool total_active_stake)
             ([], treasury) (st_validators s);
           epoch = saturating_add (st_epoch s) 1 in
       (s\<lparr>st_treasury_balance := treasury', st_epoch := epoch,
          st_unbonding := filter (\<lambda>u. epoch < ub_release_epoch u) (st_unbonding s)\<rparr>, rewards))"

definition validator_le :: "validator_stake \<Rightarrow> validator_stake \<Rightarrow> bool" where
  "validator_le l r \<longleftrightarrow> vs_total_stake r < vs_total_stake l \<or>
     vs_total_stake l = vs_total_stake r \<and> vs_validator_address l \<le> vs_validator_address r"

definition eligible :: "economics_params \<Rightarrow> validator_stake \<Rightarrow> bool" where
  "eligible params v \<longleftrightarrow> vs_status v = Active \<and> minimum_self_bond params \<le> vs_self_bond v"

definition effective_validator_set :: "staking_state \<Rightarrow> economics_params \<Rightarrow> address list" where
  "effective_validator_set s params = map vs_validator_address
     (sort_by validator_le (filter (eligible params) (bt_values (st_validators s))))"

text \<open>\<open>str::contains\<close> with a string pattern.\<close>

fun contains_str :: "string \<Rightarrow> string \<Rightarrow> bool" where
  "contains_str [] pat = (pat = [])"
| "contains_str (c # cs) pat = (take (length pat) (c # cs) = pat \<or> contains_str cs pat)"

definition is_equivocation :: "evidence \<Rightarrow> bool" where
  "is_equivocation e \<longleftrightarrow> contains_str (ev_reason e) ''duplicate vote'' \<or>
     contains_str (ev_reason e) ''conflicting proposal''"

fun evidence_loop :: "staking_state \<Rightarrow> address list \<Rightarrow> evidence list \<Rightarrow> economics_params \<Rightarrow>
  staking_state \<times> (state_error + unit)" where
  "evidence_loop s slashed [] params = (s, Inr ())"
| "evidence_loop s slashed (item # items) params =
    (if ev_validator_address item \<in> set slashed then evidence_loop s slashed items params
     else if is_equivocation item
     then case slash s (ev_validator_address item) (double_sign_slash_bps params) (ev_reason item) True of
         (s', Inl e) \<Rightarrow> (s', Inl e)
       | (s', Inr _) \<Rightarrow> evidence_loop s' (insort (ev_validator_address item) slashed) items params
     else evidence_loop s slashed items params)"

definition apply_evidence ::
  "staking_state \<Rightarrow> evidence list \<Rightarrow> economics_params \<Rightarrow> staking_state \<times> (state_error + unit)" where
  "apply_evidence s evidence params = evidence_loop s [] evidence params"

definition note_liveness :: "staking_state \<Rightarrow> address \<Rightarrow> staking_state \<times> (state_error + unit)" where
  "note_liveness s a = (case map_of (st_validators s) a of
     None \<Rightarrow> (s, Inl (StateErr ''unknown validator''))
   | Some v \<Rightarrow> (s\<lparr>st_validators := bt_insert a (v\<lparr>vs_last_liveness_epoch := st_epoch s\<rparr>)
       (st_validators s)\<rparr>, Inr ()))"

fun slash_all :: "staking_state \<Rightarrow> address list \<Rightarrow> u16 \<Rightarrow> staking_state \<times> (state_error + unit)" where
  "slash_all s [] bps = (s, Inr ())"
| "slash_all s (a # as) bps = (case slash s a bps ''downtime'' True of
     (s', Inl e) \<Rightarrow> (s', Inl e) | (s', Inr _) \<Rightarrow> slash_all s' as bps)"

definition stale_validators :: "staking_state \<Rightarrow> address list" where
  "stale_validators s = (let target_epoch = saturating_add (st_epoch s) 1 in
     map vs_validator_address (filter (\<lambda>v. vs_status v = Active \<and>
       saturating_add (vs_last_liveness_epoch v) 1 < target_epoch) (bt_values (st_validators s))))"

definition apply_downtime_slashing ::
  "staking_state \<Rightarrow> economics_params \<Rightarrow> staking_state \<times> (state_error + unit)" where
  "apply_downtime_slashing s params = slash_all s (stale_validators s) (downtime_slash_bps params)"

definition is_validator_active :: "staking_state \<Rightarrow> address \<Rightarrow> economics_params \<Rightarrow> bool" where
  "is_validator_active s a params =
     (case map_of (st_validators s) a of None \<Rightarrow> False | Some v \<Rightarrow> eligible params v)"

definition validator_set_root :: "ext \<Rightarrow> address list \<Rightarrow> hash32" where
  "validator_set_root E validators = merkle_root E (map (\<lambda>a. hash_bytes E
     (expect (encode (bin_validator_leaf E) (''zeno.validator_set.v1'', a)))) validators)"

definition build_epoch_transition ::
  "ext \<Rightarrow> staking_state \<Rightarrow> u64 \<Rightarrow> economics_params \<Rightarrow> epoch_transition" where
  "build_epoch_transition E s height economics =
    (let validator_set = effective_validator_set s economics in
     \<lparr>et_epoch = st_epoch s, et_height = height, et_validator_set = validator_set,
      et_validator_set_root = validator_set_root E validator_set, et_economics = economics\<rparr>)"

section \<open>The invariant\<close>

text \<open>What is delegated to a validator, in all and by others than itself.\<close>

definition share :: "address \<Rightarrow> delegation \<Rightarrow> nat" where
  "share a d = (if dl_validator_address d = a then unat (dl_amount d) else 0)"

definition foreign_share :: "address \<Rightarrow> delegation \<Rightarrow> nat" where
  "foreign_share a d = (if dl_delegator d = a then 0 else share a d)"

definition delegated_to :: "staking_state \<Rightarrow> address \<Rightarrow> nat" where
  "delegated_to s a = sum_entries (share a) (st_delegations s)"

definition delegated_by_others :: "staking_state \<Rightarrow> address \<Rightarrow> nat" where
  "delegated_by_others s a = sum_entries (foreign_share a) (st_delegations s)"

definition backed :: "staking_state \<Rightarrow> address \<Rightarrow> validator_stake \<Rightarrow> bool" where
  "backed s a v \<longleftrightarrow> vs_validator_address v = a \<and>
     delegated_to s a \<le> unat (vs_total_stake v) \<and>
     unat (vs_self_bond v) + delegated_by_others s a \<le> unat (vs_total_stake v)"

definition staking_inv :: "staking_state \<Rightarrow> bool" where
  "staking_inv s \<longleftrightarrow> bt_wf (st_validators s) \<and> bt_wf (st_delegations s) \<and>
     (\<forall>a v. map_of (st_validators s) a = Some v \<longrightarrow> backed s a v) \<and>
     (\<forall>k d. map_of (st_delegations s) k = Some d \<longrightarrow>
        k = (dl_delegator d, dl_validator_address d) \<and> map_of (st_validators s) (snd k) \<noteq> None)"

lemma staking_invD:
  assumes "staking_inv s"
  shows "bt_wf (st_validators s)" "bt_wf (st_delegations s)"
    and "map_of (st_validators s) a = Some v \<Longrightarrow> backed s a v"
    and "map_of (st_delegations s) k = Some d \<Longrightarrow> k = (dl_delegator d, dl_validator_address d)"
    and "map_of (st_delegations s) k = Some d \<Longrightarrow> map_of (st_validators s) (snd k) \<noteq> None"
  using assms unfolding staking_inv_def by blast+

text \<open>A delegation accounts for a part of its validator's stake.\<close>

lemma delegation_le_delegated:
  assumes "staking_inv s" "map_of (st_delegations s) (d, a) = Some x"
  shows "unat (dl_amount x) \<le> delegated_to s a"
    and "d \<noteq> a \<Longrightarrow> unat (dl_amount x) \<le> delegated_by_others s a"
  using sum_entries_lookup_le [OF assms(2), of "share a"] sum_entries_lookup_le [OF assms(2), of "foreign_share a"]
    staking_invD(4) [OF assms]
  by (auto simp: delegated_to_def delegated_by_others_def share_def foreign_share_def)

text \<open>The own delegation and those of others are parts of the whole.\<close>

lemma delegated_split:
  assumes "staking_inv s" "map_of (st_delegations s) (d, a) = Some x"
  shows "delegated_by_others s a + (if d = a then unat (dl_amount x) else 0) \<le> delegated_to s a"
proof -
  have mem: "((d, a), x) \<in> set (st_delegations s)" using assms(2) by (rule map_of_SomeD)
  have x: "dl_delegator x = d" "dl_validator_address x = a"
    using staking_invD(4) [OF assms] by auto
  have "sum_entries (foreign_share a) m + (if d = a then unat (dl_amount x) else 0) \<le> sum_entries (share a) m"
    if "((d, a), x) \<in> set m" for m
    using that
  proof (induction m)
    case (Cons e m)
    have le: "foreign_share a z \<le> share a z" for z
      by (simp add: foreign_share_def)
    have "sum_entries (foreign_share a) m \<le> sum_entries (share a) m"
      by (induction m) (auto intro: add_mono le)
    moreover have "foreign_share a x + (if d = a then unat (dl_amount x) else 0) \<le> share a x"
      using x by (simp add: foreign_share_def share_def)
    ultimately show ?case using Cons le [of "snd e"] by auto
  qed simp
  from this [OF mem] show ?thesis by (simp add: delegated_to_def delegated_by_others_def)
qed

text \<open>Writing one delegation changes the sums of its validator only.\<close>

lemma delegated_insert:
  assumes "bt_wf (st_delegations s)" "dl_delegator x = d" "dl_validator_address x = a"
    and "\<And>y. map_of (st_delegations s) (d, a) = Some y \<Longrightarrow> dl_delegator y = d \<and> dl_validator_address y = a"
    and "st_delegations s' = bt_insert (d, a) x (st_delegations s)"
  defines "old \<equiv> case map_of (st_delegations s) (d, a) of None \<Rightarrow> 0 | Some y \<Rightarrow> unat (dl_amount y)"
  shows "delegated_to s' a + old = delegated_to s a + unat (dl_amount x)"
    and "delegated_by_others s' a + (if d = a then 0 else old)
       = delegated_by_others s a + (if d = a then 0 else unat (dl_amount x))"
    and "b \<noteq> a \<Longrightarrow> delegated_to s' b = delegated_to s b"
    and "b \<noteq> a \<Longrightarrow> delegated_by_others s' b = delegated_by_others s b"
  using sum_entries_bt_insert [OF assms(1), of "share a" "(d, a)" x]
    sum_entries_bt_insert [OF assms(1), of "foreign_share a" "(d, a)" x]
    sum_entries_bt_insert [OF assms(1), of "share b" "(d, a)" x]
    sum_entries_bt_insert [OF assms(1), of "foreign_share b" "(d, a)" x] assms(2-5)
  by (auto simp: delegated_to_def delegated_by_others_def share_def foreign_share_def old_def
      split: option.splits if_splits)

lemma backed_cong:
  "st_delegations s' = st_delegations s \<Longrightarrow> backed s' a v = backed s a v"
  by (simp add: backed_def delegated_to_def delegated_by_others_def)

text \<open>Rewriting one validator keeps the invariant when the new one is backed.\<close>

lemma staking_inv_validator:
  assumes "staking_inv s" "backed s a v" "st_validators s' = bt_insert a v (st_validators s)"
    and "st_delegations s' = st_delegations s"
  shows "staking_inv s'"
  using staking_invD [OF assms(1)] assms(2)
  unfolding staking_inv_def assms(3) assms(4) backed_cong [OF assms(4)] by auto

section \<open>Every operation keeps it\<close>

lemma staking_inv_default: "staking_inv staking_state_default"
  by (simp add: staking_inv_def staking_state_default_def)

lemma delegated_unknown:
  assumes "staking_inv s" "map_of (st_validators s) a = None"
  shows "delegated_to s a = 0" "delegated_by_others s a = 0"
proof -
  have "share a (snd e) = 0" if "e \<in> set (st_delegations s)" for e
  proof -
    have "map_of (st_delegations s) (fst e) = Some (snd e)"
      using in_set_map_of [OF bt_wf_distinct that] staking_invD(2) [OF assms(1)] by simp
    from staking_invD(4,5) [OF assms(1) this] assms(2) show ?thesis
      by (auto simp: share_def)
  qed
  then show "delegated_to s a = 0" "delegated_by_others s a = 0"
    by (auto simp: delegated_to_def delegated_by_others_def sum_entries_def foreign_share_def
        intro!: sum_list_0 [THEN trans, rotated] map_cong)
qed

lemma staking_inv_ensure: "staking_inv s \<Longrightarrow> staking_inv (ensure_validators s vs)"
proof -
  have "staking_inv (ensure_validator s v)" if "staking_inv s" for s v
  proof (cases "map_of (st_validators s) (va_address v)")
    case None
    show ?thesis
      by (rule staking_inv_validator [OF that, of "va_address v"])
        (auto simp: ensure_validator_def contains_key_def None backed_def delegated_unknown [OF that None])
  qed (simp add: ensure_validator_def contains_key_def that)
  then show "staking_inv s \<Longrightarrow> staking_inv (ensure_validators s vs)"
    by (induction vs arbitrary: s) (auto simp: ensure_validators_def)
qed

text \<open>Writing one validator and one of its delegations.\<close>

lemma staking_inv_both:
  assumes "staking_inv s" "dl_delegator x = d" "dl_validator_address x = a"
    and "st_delegations s' = bt_insert (d, a) x (st_delegations s)"
    and "st_validators s' = bt_insert a v (st_validators s)" "backed s' a v"
  shows "staking_inv s'"
proof -
  have others: "backed s' b w = backed s b w" if "b \<noteq> a" for b w
    using delegated_insert(3,4) [OF staking_invD(2) [OF assms(1)] assms(2,3) _ assms(4) that]
      staking_invD(4) [OF assms(1)] by (auto simp: backed_def)
  show ?thesis
    unfolding staking_inv_def assms(4,5)
    using staking_invD [OF assms(1)] others assms(2,3,6) by auto
qed

lemma staking_inv_delegate:
  assumes "staking_inv s" "delegate s d a amount (d = a) = (s', r)"
    and "\<And>v. map_of (st_validators s) a = Some v \<Longrightarrow> unat (vs_total_stake v) + unat amount < 2 ^ 128"
  shows "staking_inv s'"
proof (cases "map_of (st_validators s) a")
  case (Some v)
  define y where "y = (case map_of (st_delegations s) (d, a) of Some z \<Rightarrow> z
      | None \<Rightarrow> \<lparr>dl_delegator = d, dl_validator_address = a, dl_amount = 0\<rparr>)"
  define x where "x = y\<lparr>dl_amount := saturating_add (dl_amount y) amount\<rparr>"
  define w where "w = (let w1 = v\<lparr>vs_total_stake := saturating_add (vs_total_stake v) amount\<rparr> in
      if d = a then w1\<lparr>vs_self_bond := saturating_add (vs_self_bond v) amount\<rparr> else w1)"
  have s': "s' = s\<lparr>st_delegations := bt_insert (d, a) x (st_delegations s),
      st_validators := bt_insert a w (st_validators s)\<rparr>"
    using assms(2) Some by (simp add: delegate_def y_def x_def w_def Let_def)
  have y: "dl_delegator y = d" "dl_validator_address y = a"
    using staking_invD(4) [OF assms(1), of "(d, a)"] by (auto simp: y_def split: option.splits)
  have old: "(case map_of (st_delegations s) (d, a) of None \<Rightarrow> 0 | Some z \<Rightarrow> unat (dl_amount z)) = unat (dl_amount y)"
    by (simp add: y_def split: option.splits)
  have le: "unat (dl_amount x) \<le> unat (dl_amount y) + unat amount"
    by (simp add: x_def unat_saturating_add)
  have sums: "delegated_to s' a + unat (dl_amount y) = delegated_to s a + unat (dl_amount x)"
    "delegated_by_others s' a + (if d = a then 0 else unat (dl_amount y))
       = delegated_by_others s a + (if d = a then 0 else unat (dl_amount x))"
    using delegated_insert(1,2) [OF staking_invD(2) [OF assms(1)], of x d a s'] y
      staking_invD(4) [OF assms(1), of "(d, a)"] unfolding old by (auto simp: s' x_def)
  have "backed s a v" using staking_invD(3) [OF assms(1) Some] .
  moreover have "unat (vs_total_stake w) = unat (vs_total_stake v) + unat amount"
    using assms(3) [OF Some] by (simp add: w_def Let_def unat_saturating_add)
  moreover have "unat (vs_self_bond w) \<le> unat (vs_self_bond v) + (if d = a then unat amount else 0)"
    by (simp add: w_def Let_def unat_saturating_add)
  moreover have "vs_validator_address w = vs_validator_address v" by (simp add: w_def Let_def)
  ultimately have "backed s' a w"
    using sums le by (auto simp: backed_def split: if_splits)
  then show ?thesis
    by (intro staking_inv_both [OF assms(1), of x d a s' w]) (simp_all add: s' x_def y)
qed (use assms(1,2) in \<open>simp add: delegate_def\<close>)

lemma unbonding_within_stake:
  assumes "staking_inv s" "map_of (st_delegations s) (d, a) = Some x" "amount \<le> dl_amount x"
    and "map_of (st_validators s) a = Some v"
  shows "amount \<le> vs_total_stake v"
  using delegation_le_delegated(1) [OF assms(1,2)] staking_invD(3) [OF assms(1,4)] assms(3)
  by (simp add: backed_def word_le_nat_alt)

lemma staking_inv_unbonding:
  assumes "staking_inv s" "begin_unbonding s d a amount p = (s', r)"
  shows "staking_inv s'"
proof (cases "map_of (st_delegations s) (d, a)")
  case (Some y)
  show ?thesis
  proof (cases "dl_amount y < amount")
    case False
    then have le: "amount \<le> dl_amount y" by simp
    have y: "dl_delegator y = d" "dl_validator_address y = a"
      using staking_invD(4) [OF assms(1) Some] by auto
    obtain v where v: "map_of (st_validators s) a = Some v"
      using staking_invD(5) [OF assms(1) Some] by auto
    define x where "x = y\<lparr>dl_amount := dl_amount y - amount\<rparr>"
    define w where "w = (let w1 = v\<lparr>vs_total_stake := vs_total_stake v - amount\<rparr> in
        if d = a then w1\<lparr>vs_self_bond := saturating_sub (vs_self_bond v) amount\<rparr> else w1)"
    have eq: "s' = fst (begin_unbonding s d a amount p)" using assms(2) by simp
    have s': "st_delegations s' = bt_insert (d, a) x (st_delegations s)"
      "st_validators s' = bt_insert a w (st_validators s)"
      using False by (simp_all add: eq begin_unbonding_def Some v x_def w_def Let_def)
    have x: "dl_delegator x = d" "dl_validator_address x = a"
      by (simp_all add: x_def y)
    have sums: "delegated_to s' a + unat (dl_amount y) = delegated_to s a + unat (dl_amount x)"
      "delegated_by_others s' a + (if d = a then 0 else unat (dl_amount y))
         = delegated_by_others s a + (if d = a then 0 else unat (dl_amount x))"
      using delegated_insert(1,2) [OF staking_invD(2) [OF assms(1)] x _ s'(1)] y Some
      by (cases "d = a"; simp)+
    have "unat (dl_amount x) + unat amount = unat (dl_amount y)"
      using le by (simp add: x_def unat_sub word_le_nat_alt)
    moreover have "unat (vs_total_stake w) + unat amount = unat (vs_total_stake v)"
      using unbonding_within_stake [OF assms(1) Some le v]
      by (simp add: w_def Let_def unat_sub word_le_nat_alt)
    moreover have "unat (vs_self_bond w) = unat (vs_self_bond v) - (if d = a then unat amount else 0)"
      by (simp add: w_def Let_def unat_saturating_sub)
    moreover have "delegated_by_others s a + (if d = a then unat (dl_amount y) else 0) \<le> delegated_to s a"
      using delegated_split [OF assms(1) Some] by simp
    ultimately have "backed s' a w"
      using sums staking_invD(3) [OF assms(1) v]
      by (auto simp: backed_def w_def Let_def split: if_splits)
    then show ?thesis
      by (intro staking_inv_both [OF assms(1), of x d a s' w]) (simp_all add: s' x_def y)
  qed (use assms Some in \<open>simp add: begin_unbonding_def\<close>)
qed (use assms in \<open>simp add: begin_unbonding_def\<close>)

lemma freeze_lookup:
  "map_of (st_delegations (freeze_delegations s a)) k
     = map_option (\<lambda>d. if dl_validator_address d = a then d\<lparr>dl_amount := 0\<rparr> else d)
         (map_of (st_delegations s) k)"
  by (simp add: freeze_delegations_def map_of_map)

lemma freeze_sums:
  "delegated_to (freeze_delegations s a) b = (if b = a then 0 else delegated_to s b)"
  "delegated_by_others (freeze_delegations s a) b = (if b = a then 0 else delegated_by_others s b)"
proof -
  have share: "share c (if dl_validator_address d = a then d\<lparr>dl_amount := 0\<rparr> else d) = (if c = a then 0 else share c d)"
    and foreign: "foreign_share c (if dl_validator_address d = a then d\<lparr>dl_amount := 0\<rparr> else d)
      = (if c = a then 0 else foreign_share c d)" for c d
    by (auto simp: share_def foreign_share_def)
  have "sum_entries (share b) (map (\<lambda>(k, d). (k, if dl_validator_address d = a then d\<lparr>dl_amount := 0\<rparr> else d)) m)
      = (if b = a then 0 else sum_entries (share b) m)" for m :: "((address \<times> address) \<times> delegation) list"
    by (cases "b = a"; induction m) (simp_all add: share case_prod_beta split del: if_split)
  then show "delegated_to (freeze_delegations s a) b = (if b = a then 0 else delegated_to s b)"
    by (simp add: delegated_to_def freeze_delegations_def cong: if_cong)
  have "sum_entries (foreign_share b) (map (\<lambda>(k, d). (k, if dl_validator_address d = a then d\<lparr>dl_amount := 0\<rparr> else d)) m)
      = (if b = a then 0 else sum_entries (foreign_share b) m)" for m :: "((address \<times> address) \<times> delegation) list"
    by (cases "b = a"; induction m) (simp_all add: foreign case_prod_beta split del: if_split)
  then show "delegated_by_others (freeze_delegations s a) b = (if b = a then 0 else delegated_by_others s b)"
    by (simp add: delegated_by_others_def freeze_delegations_def cong: if_cong)
qed

text \<open>What a slash with jailing does to the validators and the delegations.\<close>

lemma slash_jail_eq:
  assumes "map_of (st_validators s) a = Some v"
    and "tot = saturating_sub (vs_total_stake v) (slash_amount (vs_total_stake v) bps)"
  shows "st_validators (fst (slash s a bps why True)) = bt_insert a
      (v\<lparr>vs_total_stake := tot, vs_self_bond := min (vs_self_bond v) tot, vs_status := Jailed\<rparr>) (st_validators s)"
    and "st_delegations (fst (slash s a bps why True)) = st_delegations (freeze_delegations s a)"
    and "st_unbonding (fst (slash s a bps why True)) = st_unbonding (freeze_delegations s a)"
    and "st_slashing_events (fst (slash s a bps why True)) = st_slashing_events s @
      [\<lparr>se_validator_address = a, se_epoch = st_epoch s, se_slash_bps = bps, se_reason = why\<rparr>]"
    and "snd (slash s a bps why True) = Inr ()"
    and "st_epoch (fst (slash s a bps why True)) = st_epoch s"
  using assms by (simp_all add: slash_def Let_def freeze_delegations_def)

lemma staking_inv_slash:
  assumes "staking_inv s"
  shows "staking_inv (fst (slash s a bps why True))"
proof (cases "map_of (st_validators s) a")
  case (Some v)
  let ?s = "fst (slash s a bps why True)"
  note eqs = slash_jail_eq [OF Some refl, of bps why]
  have sums: "delegated_to ?s b = (if b = a then 0 else delegated_to s b)"
    "delegated_by_others ?s b = (if b = a then 0 else delegated_by_others s b)" for b
    using freeze_sums [of s a b] by (simp_all add: delegated_to_def delegated_by_others_def eqs)
  have "vs_validator_address v = a" using staking_invD(3) [OF assms Some] by (simp add: backed_def)
  moreover have "bt_wf (st_delegations ?s)"
    using staking_invD(2) [OF assms]
    by (simp add: eqs freeze_delegations_def bt_wf_def bt_keys_def comp_def case_prod_beta)
  moreover have "map_of (st_delegations ?s) k = Some d \<Longrightarrow>
      k = (dl_delegator d, dl_validator_address d) \<and> map_of (st_validators s) (snd k) \<noteq> None" for k d
    using staking_invD(4,5) [OF assms, of k] by (auto simp: eqs freeze_lookup split: if_splits)
  ultimately show ?thesis
    unfolding staking_inv_def
    using staking_invD(1,3) [OF assms]
    by (auto simp: eqs(1) backed_def sums min_def word_le_nat_alt)
qed (simp add: slash_def assms)

lemma staking_inv_evidence:
  "staking_inv s \<Longrightarrow> staking_inv (fst (evidence_loop s slashed items p))"
proof (induction s slashed items p rule: evidence_loop.induct)
  case (2 s slashed item items p)
  have "staking_inv (fst (slash s (ev_validator_address item) (double_sign_slash_bps p) (ev_reason item) True))"
    using 2(4) by (rule staking_inv_slash)
  then show ?case using 2 by (auto split: prod.splits sum.splits)
qed simp

lemma staking_inv_slash_all: "staking_inv s \<Longrightarrow> staking_inv (fst (slash_all s as bps))"
proof (induction s as bps rule: slash_all.induct)
  case (2 s a as bps)
  have "staking_inv (fst (slash s a bps ''downtime'' True))"
    using 2(2) by (rule staking_inv_slash)
  then show ?case using 2 by (auto split: prod.splits sum.splits)
qed simp

lemma staking_inv_liveness: "staking_inv s \<Longrightarrow> staking_inv (fst (note_liveness s a))"
proof (cases "map_of (st_validators s) a")
  case (Some v)
  assume inv: "staking_inv s"
  show ?thesis
    using staking_invD(3) [OF inv Some]
    by (intro staking_inv_validator [OF inv, of a "v\<lparr>vs_last_liveness_epoch := st_epoch s\<rparr>"])
      (simp_all add: note_liveness_def Some backed_def)
qed (simp add: note_liveness_def)

lemma staking_inv_same:
  "staking_inv s \<Longrightarrow> st_validators s' = st_validators s \<Longrightarrow> st_delegations s' = st_delegations s \<Longrightarrow>
     staking_inv s'"
  unfolding staking_inv_def using backed_cong [of s' s] by auto

lemma settle_stakes:
  "st_validators (fst (settle_epoch_rewards s f b p)) = st_validators s"
  "st_delegations (fst (settle_epoch_rewards s f b p)) = st_delegations s"
  by (simp_all add: settle_epoch_rewards_def Let_def split: prod.splits)

section \<open>Staking as a state machine\<close>

text \<open>The operations in any order, with the arguments the program passes: a self bond is a
  delegation of a validator to itself, every slash jails, and no total stake overflows.\<close>

inductive staking_step :: "staking_state \<Rightarrow> staking_state \<Rightarrow> bool" where
  ensure: "staking_step s (ensure_validators s vs)"
| bond: "delegate s d a amount (d = a) = (s', r) \<Longrightarrow>
    (\<And>v. map_of (st_validators s) a = Some v \<Longrightarrow> unat (vs_total_stake v) + unat amount < 2 ^ 128) \<Longrightarrow>
    staking_step s s'"
| unbond: "begin_unbonding s d a amount p = (s', r) \<Longrightarrow> staking_step s s'"
| evidence: "apply_evidence s items p = (s', r) \<Longrightarrow> staking_step s s'"
| downtime: "apply_downtime_slashing s p = (s', r) \<Longrightarrow> staking_step s s'"
| liveness: "note_liveness s a = (s', r) \<Longrightarrow> staking_step s s'"
| settle: "settle_epoch_rewards s fees budget p = (s', rewards) \<Longrightarrow> staking_step s s'"

lemma staking_step_inv:
  assumes "staking_inv s" "staking_step s s'"
  shows "staking_inv s'"
  using assms(2,1)
proof (cases rule: staking_step.cases)
  case (evidence items p r)
  then show ?thesis
    using staking_inv_evidence [OF assms(1), of "[]" items p] by (simp add: apply_evidence_def)
next
  case (downtime p r)
  then show ?thesis
    using staking_inv_slash_all [OF assms(1)] by (metis apply_downtime_slashing_def fst_conv)
next
  case (liveness a r)
  then show ?thesis using staking_inv_liveness [OF assms(1), of a] by simp
next
  case (settle fees budget p rewards)
  then show ?thesis
    using staking_inv_same [OF assms(1)] settle_stakes [of s fees budget p] by simp
qed (auto intro: staking_inv_ensure staking_inv_delegate staking_inv_unbonding)

interpretation staking: state_machine "\<lambda>s. s = staking_state_default" staking_step staking_inv
  by unfold_locales (auto simp: staking_inv_default intro: staking_step_inv)

section \<open>Evidence and governance\<close>

definition slash_count :: "staking_state \<Rightarrow> address \<Rightarrow> nat" where
  "slash_count s a = length (filter (\<lambda>e. se_validator_address e = a) (st_slashing_events s))"

lemma slash_ok_count:
  assumes "slash s a bps why True = (s', Inr ())"
  shows "slash_count s' b = slash_count s b + (if b = a then 1 else 0)"
proof (cases "map_of (st_validators s) a")
  case (Some v)
  have "s' = fst (slash s a bps why True)" using assms by simp
  then show ?thesis using slash_jail_eq(4) [OF Some refl, of bps why] by (simp add: slash_count_def)
qed (use assms in \<open>simp add: slash_def\<close>)

lemma evidence_loop_count:
  "evidence_loop s slashed items p = (s', Inr ()) \<Longrightarrow>
     slash_count s' a = slash_count s a +
       (if a \<notin> set slashed \<and> (\<exists>item\<in>set items. ev_validator_address item = a \<and> is_equivocation item)
        then 1 else 0)"
proof (induction s slashed items p rule: evidence_loop.induct)
  case (2 s slashed item items p)
  let ?a = "ev_validator_address item"
  show ?case
  proof (cases "?a \<notin> set slashed \<and> is_equivocation item")
    case True
    obtain s1 r where slash: "slash s ?a (double_sign_slash_bps p) (ev_reason item) True = (s1, r)"
      by (cases "slash s ?a (double_sign_slash_bps p) (ev_reason item) True")
    then have r: "r = Inr ()" using 2(4) True by (cases r) auto
    have "slash_count s' a = slash_count s1 a +
       (if a \<notin> set (insort ?a slashed) \<and> (\<exists>item\<in>set items. ev_validator_address item = a \<and> is_equivocation item)
        then 1 else 0)"
      using 2(2) [of s1 r "()"] 2(4) True slash r by auto
    then show ?thesis
      using slash_ok_count [OF slash [unfolded r], of a] True by (auto simp: set_insort_key)
  next
    case False
    then show ?thesis using 2 by (auto split: if_splits)
  qed
qed simp

lemma activate_loop_eq:
  "activate_loop epoch ps eco =
     ((let ready = filter (\<lambda>q. \<not> epoch < gp_activation_epoch q) ps in
       if ready = [] then eco else case gp_update (last ready) of Economics e \<Rightarrow> e),
      filter (\<lambda>q. epoch < gp_activation_epoch q) ps, filter (\<lambda>q. \<not> epoch < gp_activation_epoch q) ps)"
  by (induction ps arbitrary: eco) (auto simp: Let_def)

text \<open>Sample data of the witnesses.\<close>

definition sample_validator :: validator where
  "sample_validator = \<lparr>va_validator_id = ''v'', va_voting_power = 1, va_p2p_address = [],
     va_rpc_address = [], va_public_key = [5], va_address = sample_address\<rparr>"

definition sample_economics :: economics_params where
  "sample_economics = \<lparr>minimum_self_bond = 100, epoch_length = 10, unbonding_epochs = 2,
     treasury_bps = 1000, downtime_slash_bps = 100, double_sign_slash_bps = 500\<rparr>"

definition sample_stake :: validator_stake where
  "sample_stake = \<lparr>vs_validator_address = Address 1, vs_self_bond = 200, vs_total_stake = 200,
     vs_commission_bps = 10000, vs_status = Active, vs_last_liveness_epoch = 0\<rparr>"

definition sample_staking :: staking_state where
  "sample_staking = staking_state_default\<lparr>st_validators := [(Address 1, sample_stake)],
     st_delegations := [((Address 1, Address 1),
       \<lparr>dl_delegator = Address 1, dl_validator_address = Address 1, dl_amount = 200\<rparr>)]\<rparr>"

section \<open>Rewards\<close>

definition active_stake :: "(address, validator_stake) btree_map \<Rightarrow> nat" where
  "active_stake m = sum_entries (\<lambda>v. if vs_status v = Active then unat (vs_total_stake v) else 0) m"

lemma unat_active_stake:
  assumes "active_stake (st_validators s) < 2 ^ 128"
  shows "unat (sum_list (map vs_total_stake (active_validators s))) = active_stake (st_validators s)"
proof -
  have "unat (sum_list (map vs_total_stake (filter (\<lambda>v. vs_status v = Active) (bt_values m)))) = active_stake m"
    if "active_stake m < 2 ^ 128" for m
    using that
  proof (induction m)
    case (Cons e m)
    then show ?case by (auto simp: active_stake_def bt_values_def unat_word_ariths)
  qed (simp add: active_stake_def bt_values_def)
  then show ?thesis using assms by (simp add: active_validators_def)
qed

lemma treasury_cut_le:
  assumes "bps \<le> (10000 :: u16)"
  shows "unat (saturating_mul (d :: u128) (ucast bps) div 10000) \<le> unat d"
proof -
  have "unat bps \<le> 10000" using assms by (simp add: word_le_nat_alt)
  then have "min (unat d * unat bps) (2 ^ 128 - 1) div 10000 \<le> unat d * 10000 div 10000"
    by (intro div_le_mono) (simp add: min.coboundedI1)
  then show ?thesis by (simp add: unat_div unat_saturating_mul unat_ucast_up)
qed

lemma reward_fold:
  assumes "foldl (reward_step pool T) (r, t) m = (r', t')" "bt_wf r"
    and "set (bt_keys r) \<inter> set (bt_keys m) = {}" "distinct (map fst m)"
  shows "sum_entries unat r' * unat T \<le> sum_entries unat r * unat T + unat pool * active_stake m \<and>
    (\<forall>e\<in>set r'. e \<in> set r \<or> (\<exists>v. (fst e, v) \<in> set m \<and> vs_status v = Active))"
  using assms
proof (induction m arbitrary: r t)
  case (Cons e m)
  obtain a v where e: "e = (a, v)" by (cases e)
  define g where "g = saturating_mul pool (vs_total_stake v) div T"
  define skip where "skip \<longleftrightarrow> vs_status v \<noteq> Active \<or> vs_total_stake v = 0"
  define r1 where "r1 = (if skip then r else bt_insert a g r)"
  have "\<exists>t1. reward_step pool T (r, t) e = (r1, t1)"
    by (cases skip) (auto simp: reward_step_def e r1_def skip_def g_def Let_def)
  then obtain t1 where step: "reward_step pool T (r, t) e = (r1, t1)" ..
  have wf: "bt_wf r1" using Cons.prems(2) by (simp add: r1_def)
  have disj: "set (bt_keys r1) \<inter> set (bt_keys m) = {}"
  proof -
    have "set (bt_keys r1) \<subseteq> insert a (set (bt_keys r))" by (simp add: r1_def subset_insertI)
    moreover have "a \<notin> set (bt_keys m)" "set (bt_keys m) \<subseteq> set (bt_keys (e # m))"
      using Cons.prems(4) by (auto simp: e bt_keys_def)
    ultimately show ?thesis using Cons.prems(3) by blast
  qed
  note IH = Cons.IH [of r1 t1, OF _ wf disj]
  have "unat g * unat T \<le> unat pool * unat (vs_total_stake v)"
    by (simp add: g_def unat_div unat_saturating_mul)
      (meson div_times_less_eq_dividend min.cobounded1 order_trans)
  moreover have "map_of r a = None"
    using Cons.prems(3) by (auto simp: e bt_keys_def map_of_eq_None_iff)
  ultimately have "sum_entries unat r1 * unat T \<le> sum_entries unat r * unat T
      + (if skip then 0 else unat pool * unat (vs_total_stake v))"
    using sum_entries_bt_insert [OF Cons.prems(2), of unat a g] by (simp add: r1_def algebra_simps)
  moreover have "(if skip then 0 else unat pool * unat (vs_total_stake v)) + unat pool * active_stake m
      \<le> unat pool * active_stake (e # m)"
    by (auto simp: e skip_def active_stake_def algebra_simps)
  ultimately have bound: "sum_entries unat r1 * unat T + unat pool * active_stake m
      \<le> sum_entries unat r * unat T + unat pool * active_stake (e # m)" by linarith
  have "foldl (reward_step pool T) (r1, t1) m = (r', t')" "distinct (map fst m)"
    using Cons.prems(1,4) step by simp_all
  note concl = IH [OF this]
  have "x \<in> set r1 \<Longrightarrow> x \<in> set r \<or> (\<exists>w. (fst x, w) \<in> set (e # m) \<and> vs_status w = Active)" for x
    by (auto simp: r1_def e skip_def dest!: bt_insert_in_set split: if_splits)
  then have "\<forall>x\<in>set r'. x \<in> set r \<or> (\<exists>w. (fst x, w) \<in> set (e # m) \<and> vs_status w = Active)"
    using concl [THEN conjunct2] by (meson list.set_intros(2))
  moreover note order_trans [OF concl [THEN conjunct1] bound]
  ultimately show ?case by blast
qed (simp add: active_stake_def)

definition sample_evidence :: evidence where
  "sample_evidence = \<lparr>ev_validator_address = Address 1, ev_height = 1, ev_round = 0,
     ev_reason = ''duplicate vote''\<rparr>"

section \<open>Properties\<close>



text \<open>A slash takes the given basis points off the total stake, caps the self bond by what is
  left, records one event, and with jailing also jails the validator, empties its delegations and
  queues each of them for release in the next epoch with its full amount; an unknown validator is
  an error that changes nothing.\<close>

theorem slash_spec:
  assumes "map_of (st_validators s) a = Some v" and "slash s a bps why True = (s', r)"
  shows "r = Inr () \<and>
    (\<exists>v'. map_of (st_validators s') a = Some v' \<and> vs_status v' = Jailed \<and>
       unat (vs_total_stake v') = unat (vs_total_stake v)
         - min (unat (vs_total_stake v) * unat bps) (2 ^ 128 - 1) div 10000 \<and>
       vs_self_bond v' = min (vs_self_bond v) (vs_total_stake v')) \<and>
    (\<forall>b. b \<noteq> a \<longrightarrow> map_of (st_validators s') b = map_of (st_validators s) b) \<and>
    (\<forall>k d. map_of (st_delegations s') k = Some d \<and> dl_validator_address d = a \<longrightarrow> dl_amount d = 0) \<and>
    map ub_amount (st_unbonding s') = map ub_amount (st_unbonding s) @
      map dl_amount (filter (\<lambda>d. dl_validator_address d = a) (bt_values (st_delegations s))) \<and>
    length (st_slashing_events s') = Suc (length (st_slashing_events s)) \<and>
    (map_of (st_validators s) b = None \<longrightarrow>
       slash s b bps why jail = (s, Inl (StateErr ''unknown validator'')))"
proof -
  have s': "s' = fst (slash s a bps why True)" and r: "r = snd (slash s a bps why True)"
    using assms(2) by simp_all
  note eqs = slash_jail_eq [OF assms(1) refl, of bps why]
  have amount: "unat (slash_amount (vs_total_stake v) bps)
      = min (unat (vs_total_stake v) * unat bps) (2 ^ 128 - 1) div 10000"
    by (simp add: slash_amount_def unat_div unat_saturating_mul unat_ucast_up)
  have freeze: "map ub_amount (st_unbonding (freeze_delegations s a)) = map ub_amount (st_unbonding s) @
      map dl_amount (filter (\<lambda>d. dl_validator_address d = a) (bt_values (st_delegations s)))"
    by (simp add: freeze_delegations_def comp_def)
  have zero: "dl_amount d = 0" if found: "map_of (st_delegations (freeze_delegations s a)) k = Some d"
    and mine: "dl_validator_address d = a" for k d
  proof -
    obtain y where y: "(if dl_validator_address y = a then y\<lparr>dl_amount := 0\<rparr> else y) = d"
      using found unfolding freeze_lookup map_option_eq_Some by blast
    show ?thesis using mine unfolding y [symmetric] by (cases "dl_validator_address y = a") simp_all
  qed
  define w where "w = v\<lparr>vs_total_stake := saturating_sub (vs_total_stake v) (slash_amount (vs_total_stake v) bps),
    vs_self_bond := min (vs_self_bond v) (saturating_sub (vs_total_stake v) (slash_amount (vs_total_stake v) bps)),
    vs_status := Jailed\<rparr>"
  have at: "map_of (st_validators s') a = Some w \<and> vs_status w = Jailed \<and>
       unat (vs_total_stake w) = unat (vs_total_stake v)
         - min (unat (vs_total_stake v) * unat bps) (2 ^ 128 - 1) div 10000 \<and>
       vs_self_bond w = min (vs_self_bond v) (vs_total_stake w)"
    by (simp add: s' eqs(1) w_def unat_saturating_sub amount)
  have others: "\<forall>b. b \<noteq> a \<longrightarrow> map_of (st_validators s') b = map_of (st_validators s) b"
    by (simp add: s' eqs(1))
  have zeros: "\<forall>k d. map_of (st_delegations s') k = Some d \<and> dl_validator_address d = a \<longrightarrow> dl_amount d = 0"
    unfolding s' eqs(2) using zero by blast
  have len: "length (st_slashing_events s') = Suc (length (st_slashing_events s))"
    by (simp add: s' eqs(4))
  have unknown: "map_of (st_validators s) b = None \<longrightarrow>
       slash s b bps why jail = (s, Inl (StateErr ''unknown validator''))"
    by (simp add: slash_def)
  show ?thesis
    unfolding r eqs(5)
    by (intro conjI refl exI [of _ w] at others zeros len unknown) (simp_all add: s' eqs(3) freeze)
qed

theorem slash_spec_witness:
  "\<exists>v'. map_of (st_validators (fst (slash sample_staking (Address 1) 500 ''duplicate vote'' True))) (Address 1) = Some v' \<and>
     unat (vs_total_stake v') = 190"
proof -
  have "map_of (st_validators sample_staking) (Address 1) = Some sample_stake"
    by (simp add: sample_staking_def)
  from slash_spec [OF this prod.collapse [symmetric], THEN conjunct2, THEN conjunct1, of 500 "''duplicate vote''"]
  show ?thesis by (auto simp: sample_stake_def)
qed

text \<open>The epoch rewards with the treasury's cut never exceed the fees and the budget, when the
  active stake fits its type, and every reward goes to an active validator.\<close>

theorem rewards_within_distributable:
  assumes "bt_wf (st_validators s)" and "active_stake (st_validators s) < 2 ^ 128"
    and "settle_epoch_rewards s fees budget p = (s', rewards)" and "treasury_bps p \<le> 10000"
  shows "sum_entries unat rewards
      + unat (saturating_mul (saturating_add fees budget) (ucast (treasury_bps p)) div 10000)
      \<le> unat fees + unat budget \<and>
    (\<forall>(a, r)\<in>set rewards. \<exists>v. map_of (st_validators s) a = Some v \<and> vs_status v = Active)"
proof -
  define T where "T = sum_list (map vs_total_stake (active_validators s))"
  define d where "d = saturating_add fees budget"
  define cut where "cut = saturating_mul d (ucast (treasury_bps p)) div 10000"
  have cut: "unat cut \<le> unat d"
    unfolding cut_def using treasury_cut_le [OF assms(4)] .
  have d: "unat d \<le> unat fees + unat budget" by (simp add: d_def unat_saturating_add)
  show ?thesis
  proof (cases "T = 0")
    case True
    then have "rewards = []"
      using assms(3) by (simp add: settle_epoch_rewards_def T_def Let_def)
    then show ?thesis using cut d by (simp add: cut_def d_def)
  next
    case False
    define t where "t = saturating_add (st_treasury_balance s) cut"
    define pool where "pool = saturating_sub d cut"
    obtain t' where fold: "foldl (reward_step pool T) ([], t) (st_validators s) = (rewards, t')"
      using assms(3) False
      by (auto simp: settle_epoch_rewards_def T_def Let_def d_def cut_def t_def pool_def split: prod.splits)
    have "set (bt_keys []) \<inter> set (bt_keys (st_validators s)) = {}" by (simp add: bt_keys_def)
    note rf = reward_fold [OF fold bt_wf_Nil this bt_wf_distinct [OF assms(1)]]
    have T: "unat T = active_stake (st_validators s)"
      using unat_active_stake [OF assms(2)] by (simp add: T_def)
    have "sum_entries unat rewards * unat T \<le> unat pool * unat T"
      using rf [THEN conjunct1] T by simp
    moreover have "0 < unat T" using False by (simp add: unat_gt_0)
    ultimately have "sum_entries unat rewards \<le> unat pool" by simp
    moreover have "unat pool + unat cut = unat d"
      using cut by (simp add: pool_def unat_saturating_sub)
    moreover have "\<forall>(a, r)\<in>set rewards. \<exists>v. map_of (st_validators s) a = Some v \<and> vs_status v = Active"
      using rf [THEN conjunct2] in_set_map_of [OF bt_wf_distinct [OF assms(1)]] by fastforce
    ultimately show ?thesis using d by (simp add: cut_def d_def)
  qed
qed

theorem rewards_within_distributable_witness:
  "sum_entries unat (snd (settle_epoch_rewards sample_staking 0 1000 sample_economics))
     + unat (saturating_mul (saturating_add 0 1000 :: u128) (ucast (1000 :: u16)) div 10000) \<le> 0 + 1000"
proof -
  have "sum_entries unat (snd (settle_epoch_rewards sample_staking 0 1000 sample_economics))
     + unat (saturating_mul (saturating_add 0 1000 :: u128) (ucast (treasury_bps sample_economics)) div 10000)
     \<le> unat (0 :: u128) + unat (1000 :: u128)"
    by (rule rewards_within_distributable [THEN conjunct1, OF _ _ prod.collapse [symmetric]])
      (simp_all add: sample_staking_def sample_stake_def sample_economics_def bt_wf_def bt_keys_def active_stake_def)
  then show ?thesis by (simp add: sample_economics_def)
qed

text \<open>A validator's commission is credited to the treasury without being taken off its reward:
  with one active validator the rewards and the treasury's gain exceed the fees and the budget by
  the whole commission.\<close>

theorem commission_paid_on_top:
  assumes "st_validators s = [(a, v)]" and "vs_status v = Active" and "0 < vs_total_stake v"
    and "unat fees + unat budget < 2 ^ 100" and "unat (st_treasury_balance s) < 2 ^ 100"
    and "(unat fees + unat budget) * unat (vs_total_stake v) < 2 ^ 128"
    and "treasury_bps p \<le> 10000"
    and "settle_epoch_rewards s fees budget p = (s', rewards)"
  shows "\<exists>reward. rewards = [(a, reward)] \<and>
    unat reward + unat (st_treasury_balance s') = unat fees + unat budget +
      unat (st_treasury_balance s) + unat reward * unat (vs_commission_bps v) div 10000"
proof -
  define d where "d = saturating_add fees budget"
  define cut where "cut = saturating_mul d (ucast (treasury_bps p)) div 10000"
  define pool where "pool = saturating_sub d cut"
  define gross where "gross = saturating_mul pool (vs_total_stake v) div vs_total_stake v"
  define com where "com = saturating_mul gross (ucast (vs_commission_bps v)) div 10000"
  have d: "unat d = unat fees + unat budget"
    using assms(4) by (simp add: d_def unat_saturating_add)
  have cut: "unat cut \<le> unat d"
    unfolding cut_def using treasury_cut_le [OF assms(7)] .
  have pool: "unat pool + unat cut = unat d"
    using cut by (simp add: pool_def unat_saturating_sub)
  have "unat pool * unat (vs_total_stake v) \<le> (unat fees + unat budget) * unat (vs_total_stake v)"
    using pool d by (intro mult_le_mono1) simp
  then have "unat pool * unat (vs_total_stake v) < 2 ^ 128"
    using assms(6) by (rule le_less_trans)
  moreover have nz: "vs_total_stake v \<noteq> 0" using assms(3) by auto
  then have "unat (vs_total_stake v) \<noteq> 0" by (simp add: unat_eq_zero)
  ultimately have gross: "unat gross = unat pool"
    by (simp add: gross_def unat_div unat_saturating_mul)
  have bps: "unat (vs_commission_bps v) < 2 ^ 16"
    using unsigned_less [of "vs_commission_bps v", where ?'a = nat] by simp
  have "unat gross * unat (vs_commission_bps v) < 2 ^ 100 * 2 ^ 16"
    using gross pool d assms(4) bps by (intro mult_strict_mono) auto
  then have com: "unat com = unat gross * unat (vs_commission_bps v) div 10000"
    by (simp add: com_def unat_div unat_saturating_mul unat_ucast_up)
  have "unat gross * unat (vs_commission_bps v) div 10000 < 2 ^ 116"
    using \<open>unat gross * unat (vs_commission_bps v) < 2 ^ 100 * 2 ^ 16\<close>
    by (simp add: div_less_dividend order.strict_trans1 [OF div_le_dividend])
  then have t: "unat (saturating_add (saturating_add (st_treasury_balance s) cut) com)
      = unat (st_treasury_balance s) + unat cut + unat com"
    using assms(4,5) cut d com by (simp add: unat_saturating_add)
  have "rewards = [(a, gross)]"
    "st_treasury_balance s' = saturating_add (saturating_add (st_treasury_balance s) cut) com"
    using assms(1,2,8) nz by (auto simp: settle_epoch_rewards_def active_validators_def bt_values_def
        reward_step_def Let_def gross_def pool_def com_def cut_def d_def)
  then show ?thesis using t com gross pool d by simp
qed

theorem commission_paid_on_top_witness:
  "\<exists>reward. snd (settle_epoch_rewards sample_staking 0 1000 sample_economics) = [(Address 1, reward)] \<and>
    unat reward + unat (st_treasury_balance (fst (settle_epoch_rewards sample_staking 0 1000 sample_economics)))
      = 1000 + unat reward * 10000 div 10000"
  using commission_paid_on_top [of sample_staking "Address 1" sample_stake 0 1000 sample_economics,
      OF _ _ _ _ _ _ _ prod.collapse [symmetric]]
  by (simp add: sample_staking_def sample_stake_def sample_economics_def staking_state_default_def)

text \<open>The effective validator set holds exactly the validators that \<open>is_validator_active\<close>
  accepts, each once, ordered by decreasing total stake and then by address.\<close>

theorem effective_validator_set_spec:
  assumes "staking_inv s"
  shows "set (effective_validator_set s p) = {a. is_validator_active s a p} \<and>
    distinct (effective_validator_set s p) \<and>
    sorted_wrt (\<lambda>a b. \<exists>v w. map_of (st_validators s) a = Some v \<and> map_of (st_validators s) b = Some w \<and>
      validator_le v w) (effective_validator_set s p)"
proof -
  let ?m = "st_validators s" and ?vs = "filter (eligible p) (bt_values (st_validators s))"
  have dist: "distinct (map fst ?m)" using staking_invD(1) [OF assms] by (rule bt_wf_distinct)
  have key: "fst e = vs_validator_address (snd e)" if "e \<in> set ?m" for e
    using staking_invD(3) [OF assms in_set_map_of [OF dist that]] by (simp add: backed_def)
  have at: "map_of ?m (vs_validator_address v) = Some v" if "v \<in> set ?vs" for v
    using that key in_set_map_of [OF dist] by (fastforce simp: bt_values_def)
  have addr: "map vs_validator_address (bt_values ?m) = map fst ?m"
    using key by (simp add: bt_values_def)
  have "set (effective_validator_set s p) = {a. is_validator_active s a p}"
  proof (intro set_eqI iffI)
    fix a assume "a \<in> set (effective_validator_set s p)"
    then show "a \<in> {a. is_validator_active s a p}"
      using at by (auto simp: effective_validator_set_def is_validator_active_def)
  next
    fix a assume "a \<in> {a. is_validator_active s a p}"
    then obtain v where v: "map_of ?m a = Some v" "eligible p v"
      by (auto simp: is_validator_active_def split: option.splits)
    then have "v \<in> set ?vs" "vs_validator_address v = a"
      using staking_invD(3) [OF assms v(1)] map_of_SomeD [OF v(1)]
      by (force simp: bt_values_def backed_def)+
    then show "a \<in> set (effective_validator_set s p)"
      by (auto simp: effective_validator_set_def)
  qed
  moreover have "distinct (effective_validator_set s p)"
  proof -
    have "distinct (map vs_validator_address ?vs)"
      using dist addr by (metis distinct_map_filter)
    then show ?thesis
      by (metis distinct_count_atmost_1 effective_validator_set_def mset_map mset_sort_by set_mset_mset)
  qed
  moreover have "sorted_wrt (\<lambda>a b. \<exists>v w. map_of ?m a = Some v \<and> map_of ?m b = Some w \<and> validator_le v w)
      (effective_validator_set s p)"
  proof -
    have "sorted_wrt validator_le (sort_by validator_le ?vs)"
      by (rule sorted_sort_by) (auto simp: validator_le_def)
    then show ?thesis
      unfolding effective_validator_set_def sorted_wrt_map
      by (rule sorted_wrt_mono_rel [rotated]) (use at in force)
  qed
  ultimately show ?thesis by blast
qed

theorem effective_validator_set_spec_witness:
  "distinct (effective_validator_set (ensure_validators staking_state_default [sample_validator]) sample_economics)"
  using effective_validator_set_spec [OF staking_inv_ensure [OF staking_inv_default],
      of "[sample_validator]" sample_economics] by simp

text \<open>Evidence slashes each equivocating validator once, however many items name it, and
  nobody else.\<close>

theorem evidence_slashes_once:
  assumes "apply_evidence s items p = (s', Inr ())"
  shows "slash_count s' a = slash_count s a +
    (if \<exists>item\<in>set items. ev_validator_address item = a \<and> is_equivocation item then 1 else 0)"
  using evidence_loop_count [of s "[]" items p s' a] assms by (simp add: apply_evidence_def)

theorem evidence_slashes_once_witness:
  "slash_count (fst (apply_evidence sample_staking [sample_evidence, sample_evidence] sample_economics)) (Address 1) = 1"
proof -
  have "snd (apply_evidence sample_staking [sample_evidence, sample_evidence] sample_economics) = Inr ()"
    by (simp add: apply_evidence_def sample_evidence_def is_equivocation_def sample_staking_def slash_def Let_def)
  then have "apply_evidence sample_staking [sample_evidence, sample_evidence] sample_economics
      = (fst (apply_evidence sample_staking [sample_evidence, sample_evidence] sample_economics), Inr ())"
    by (metis prod.collapse)
  from evidence_slashes_once [OF this, of "Address 1"] show ?thesis
    by (simp add: sample_evidence_def is_equivocation_def slash_count_def sample_staking_def staking_state_default_def)
qed

text \<open>\<open>activate_ready_updates\<close> keeps exactly the proposals of later epochs, in order, returns
  the others, and leaves the economics of the last one it returns; a second call for the same
  epoch changes nothing.\<close>

theorem activate_ready_updates_spec:
  assumes "activate_ready_updates g epoch = (g', applied)"
  shows "gs_pending g' = filter (\<lambda>q. epoch < gp_activation_epoch q) (gs_pending g) \<and>
    applied = filter (\<lambda>q. \<not> epoch < gp_activation_epoch q) (gs_pending g) \<and>
    gs_economics g' = (if applied = [] then gs_economics g
      else case gp_update (last applied) of Economics e \<Rightarrow> e) \<and>
    gs_next_proposal_id g' = gs_next_proposal_id g \<and>
    activate_ready_updates g' epoch = (g', [])"
  using assms by (auto simp: activate_ready_updates_def activate_loop_eq)

theorem activate_ready_updates_spec_witness:
  "gs_economics (fst (activate_ready_updates (fst (queue_parameter_update (governance_state_new sample_economics) 3
      (Economics (sample_economics\<lparr>treasury_bps := 7\<rparr>)) ''x'')) 4)) = sample_economics\<lparr>treasury_bps := 7\<rparr>"
  using activate_ready_updates_spec [OF prod.collapse [symmetric], of "fst (queue_parameter_update
      (governance_state_new sample_economics) 3 (Economics (sample_economics\<lparr>treasury_bps := 7\<rparr>)) ''x'')" 4]
  by (simp add: activate_ready_updates_def queue_parameter_update_def governance_state_new_def Let_def)

end
