(* ===== verification/Zeno_ZK.thy ===== *)
theory Zeno_ZK
  imports Zeno_Staking
begin

text \<open>
  The crate \<open>zeno-zk\<close>: hash commitments and nullifiers, the incremental commitment tree with its
  Merkle proofs, the shielded pool and the verification precompile. Random blinding factors and
  keys are arguments. The tree's node hash provides \<open>merkle_node\<close>.
\<close>

section \<open>Constants, errors and data\<close>

definition COMMITMENT_TREE_DEPTH :: nat where
  "COMMITMENT_TREE_DEPTH = 32"

definition COMMITMENT_DOMAIN :: "u8 list" where
  "COMMITMENT_DOMAIN = string_bytes ''zeno.zk.commitment.v1''"

definition NULLIFIER_DOMAIN :: "u8 list" where
  "NULLIFIER_DOMAIN = string_bytes ''zeno.zk.nullifier.v1''"

definition TREE_NODE_DOMAIN :: "u8 list" where
  "TREE_NODE_DOMAIN = string_bytes ''zeno.zk.tree_node.v1''"

definition TREE_EMPTY_DOMAIN :: "u8 list" where
  "TREE_EMPTY_DOMAIN = string_bytes ''zeno.zk.empty_leaf.v1''"

datatype zk_error =
    DuplicateCommitment
  | NullifierAlreadySpent
  | InvalidMerkleProof
  | CommitmentNotFound
  | VerificationFailed string
  | InsufficientShieldedBalance

datatype blinding_factor = BlindingFactor "256 word"

datatype spending_key = SpendingKey "256 word"

record shielded_note =
  sn_value :: u128
  sn_blinding :: blinding_factor
  sn_spending_key :: spending_key
  sn_commitment :: hash32
  sn_nullifier :: hash32
  sn_tree_index :: "u64 option"

record commitment_merkle_proof =
  cp_commitment :: hash32
  cp_index :: u64
  cp_siblings :: "hash32 list"

record shielded_transfer_proof =
  sp_nullifier :: hash32
  sp_merkle_root :: hash32
  sp_merkle_proof :: commitment_merkle_proof
  sp_output_commitment :: hash32
  sp_value :: u128

record shield_request =
  sr_value :: u128
  sr_commitment :: hash32

record unshield_request =
  ur_nullifier :: hash32
  ur_merkle_proof :: commitment_merkle_proof
  ur_merkle_root :: hash32
  ur_value :: u128
  ur_recipient :: address

section \<open>Commitments and nullifiers\<close>

fun commitment_bytes :: "u128 \<Rightarrow> blinding_factor \<Rightarrow> u8 list" where
  "commitment_bytes value (BlindingFactor b) =
     COMMITMENT_DOMAIN @ to_le_bytes 16 value @ array_bytes 32 b"

definition compute_commitment :: "ext \<Rightarrow> u128 \<Rightarrow> blinding_factor \<Rightarrow> hash32" where
  "compute_commitment E value blinding = hash_bytes E (commitment_bytes value blinding)"

fun nullifier_bytes :: "hash32 \<Rightarrow> spending_key \<Rightarrow> u8 list" where
  "nullifier_bytes commitment (SpendingKey k) = NULLIFIER_DOMAIN @ as_bytes commitment @ array_bytes 32 k"

definition compute_nullifier :: "ext \<Rightarrow> hash32 \<Rightarrow> spending_key \<Rightarrow> hash32" where
  "compute_nullifier E commitment key = hash_bytes E (nullifier_bytes commitment key)"

definition create_note_with_key :: "ext \<Rightarrow> u128 \<Rightarrow> spending_key \<Rightarrow> blinding_factor \<Rightarrow> shielded_note" where
  "create_note_with_key E value key blinding =
    (let commitment = compute_commitment E value blinding in
     \<lparr>sn_value = value, sn_blinding = blinding, sn_spending_key = key, sn_commitment = commitment,
      sn_nullifier = compute_nullifier E commitment key, sn_tree_index = None\<rparr>)"

text \<open>\<open>create_note\<close> differs in drawing the key as well.\<close>

definition create_note :: "ext \<Rightarrow> u128 \<Rightarrow> blinding_factor \<Rightarrow> spending_key \<Rightarrow> shielded_note" where
  "create_note E value blinding key =
    (let commitment = compute_commitment E value blinding;
         nullifier = compute_nullifier E commitment key in
     \<lparr>sn_value = value, sn_blinding = blinding, sn_spending_key = key, sn_commitment = commitment,
      sn_nullifier = nullifier, sn_tree_index = None\<rparr>)"

section \<open>The commitment tree\<close>

definition tree_node_bytes :: "hash32 \<Rightarrow> hash32 \<Rightarrow> u8 list" where
  "tree_node_bytes l r = TREE_NODE_DOMAIN @ as_bytes l @ as_bytes r"

definition tree_node_hash :: "ext \<Rightarrow> hash32 \<Rightarrow> hash32 \<Rightarrow> hash32" where
  "tree_node_hash E l r = hash_bytes E (tree_node_bytes l r)"

definition compute_empty_hashes :: "ext \<Rightarrow> hash32 list" where
  "compute_empty_hashes E =
     empty_table (tree_node_hash E) COMMITMENT_TREE_DEPTH (hash_bytes E TREE_EMPTY_DOMAIN)"

record commitment_tree =
  tr_leaf_count :: u64
  tr_nodes :: "(nat \<times> u64, hash32) btree_map"
  tr_empty_hashes :: "hash32 list"

definition commitment_tree_new :: "ext \<Rightarrow> commitment_tree" where
  "commitment_tree_new E = \<lparr>tr_leaf_count = 0, tr_nodes = [], tr_empty_hashes = compute_empty_hashes E\<rparr>"

definition ensure_empty_hashes :: "ext \<Rightarrow> commitment_tree \<Rightarrow> commitment_tree" where
  "ensure_empty_hashes E t =
     (if tr_empty_hashes t = [] then t\<lparr>tr_empty_hashes := compute_empty_hashes E\<rparr> else t)"

definition tr_node_hash :: "commitment_tree \<Rightarrow> nat \<Rightarrow> u64 \<Rightarrow> hash32" where
  "tr_node_hash t depth index = (case map_of (tr_nodes t) (depth, index) of
     Some h \<Rightarrow> h
   | None \<Rightarrow> if depth < length (tr_empty_hashes t) then tr_empty_hashes t ! depth else hash_zero)"

definition tr_root :: "ext \<Rightarrow> commitment_tree \<Rightarrow> commitment_tree \<times> hash32" where
  "tr_root E t = (let t1 = ensure_empty_hashes E t in (t1, tr_node_hash t1 0 0))"

text \<open>One level of the update from the leaf to the root.\<close>

definition insert_level :: "ext \<Rightarrow> commitment_tree \<times> u64 \<Rightarrow> nat \<Rightarrow> commitment_tree \<times> u64" where
  "insert_level E = (\<lambda>(t, current_index) depth.
     let parent_index = current_index div 2;
         left = tr_node_hash t (depth + 1) (parent_index * 2);
         right = tr_node_hash t (depth + 1) (parent_index * 2 + 1);
         parent_hash = tree_node_hash E left right in
     (t\<lparr>tr_nodes := bt_insert (depth, parent_index) parent_hash (tr_nodes t)\<rparr>, parent_index))"

definition tr_insert :: "ext \<Rightarrow> commitment_tree \<Rightarrow> hash32 \<Rightarrow> commitment_tree \<times> (zk_error + u64)" where
  "tr_insert E t commitment =
    (let t0 = ensure_empty_hashes E t; index = tr_leaf_count t0 in
     if push_bit COMMITMENT_TREE_DEPTH 1 \<le> index then (t0, Inl (VerificationFailed ''tree is full''))
     else
       let t1 = t0\<lparr>tr_nodes := bt_insert (COMMITMENT_TREE_DEPTH, index) commitment (tr_nodes t0),
                   tr_leaf_count := tr_leaf_count t0 + 1\<rparr> in
       (fst (foldl (insert_level E) (t1, index) (rev [0..<COMMITMENT_TREE_DEPTH])), Inr index))"

definition sibling_index :: "u64 \<Rightarrow> u64" where
  "sibling_index current = (if current mod 2 = 0 then current + 1 else current - 1)"

definition prove_level :: "commitment_tree \<Rightarrow> hash32 list \<times> u64 \<Rightarrow> nat \<Rightarrow> hash32 list \<times> u64" where
  "prove_level t = (\<lambda>(siblings, current) depth.
     (siblings @ [tr_node_hash t (depth + 1) (sibling_index current)], current div 2))"

definition tr_prove ::
  "ext \<Rightarrow> commitment_tree \<Rightarrow> u64 \<Rightarrow> commitment_tree \<times> (zk_error + commitment_merkle_proof)" where
  "tr_prove E t index =
    (let t0 = ensure_empty_hashes E t in
     if tr_leaf_count t0 \<le> index then (t0, Inl CommitmentNotFound)
     else (t0, Inr \<lparr>cp_commitment = tr_node_hash t0 COMMITMENT_TREE_DEPTH index, cp_index = index,
        cp_siblings = fst (foldl (prove_level t0) ([], index) (rev [0..<COMMITMENT_TREE_DEPTH]))\<rparr>))"

definition verify_level :: "ext \<Rightarrow> hash32 \<times> u64 \<Rightarrow> hash32 \<Rightarrow> hash32 \<times> u64" where
  "verify_level E = (\<lambda>(current, index) sibling.
     (if index mod 2 = 0 then tree_node_hash E current sibling else tree_node_hash E sibling current,
      index div 2))"

definition verify_commitment_proof :: "ext \<Rightarrow> commitment_merkle_proof \<Rightarrow> hash32 \<Rightarrow> bool" where
  "verify_commitment_proof E p expected_root =
    (if length (cp_siblings p) \<noteq> COMMITMENT_TREE_DEPTH then False
     else fst (foldl (verify_level E) (cp_commitment p, cp_index p) (cp_siblings p)) = expected_root)"

section \<open>The shielded pool\<close>

text \<open>A \<open>BTreeSet\<close> is the sorted list of its elements.\<close>

record shielded_pool =
  sl_tree :: commitment_tree
  sl_nullifiers :: "hash32 list"
  sl_total_shielded_value :: u128

definition shielded_pool_new :: "ext \<Rightarrow> shielded_pool" where
  "shielded_pool_new E = \<lparr>sl_tree = commitment_tree_new E, sl_nullifiers = [], sl_total_shielded_value = 0\<rparr>"

definition shield :: "ext \<Rightarrow> shielded_pool \<Rightarrow> shield_request \<Rightarrow> shielded_pool \<times> (zk_error + u64)" where
  "shield E pool request = (case tr_insert E (sl_tree pool) (sr_commitment request) of
     (t, Inl e) \<Rightarrow> (pool\<lparr>sl_tree := t\<rparr>, Inl e)
   | (t, Inr index) \<Rightarrow> (pool\<lparr>sl_tree := t,
       sl_total_shielded_value := saturating_add (sl_total_shielded_value pool) (sr_value request)\<rparr>,
       Inr index))"

definition transfer ::
  "ext \<Rightarrow> shielded_pool \<Rightarrow> shielded_transfer_proof \<Rightarrow> shielded_pool \<times> (zk_error + u64)" where
  "transfer E pool p =
    (if sp_nullifier p \<in> set (sl_nullifiers pool) then (pool, Inl NullifierAlreadySpent)
     else
       let root = snd (tr_root E (sl_tree pool)) in
       if sp_merkle_root p \<noteq> root then (pool, Inl (VerificationFailed ''merkle root mismatch''))
       else if \<not> verify_commitment_proof E (sp_merkle_proof p) root then (pool, Inl InvalidMerkleProof)
       else
         let pool1 = pool\<lparr>sl_nullifiers := insort_insert (sp_nullifier p) (sl_nullifiers pool)\<rparr> in
         case tr_insert E (sl_tree pool1) (sp_output_commitment p) of
           (t, r) \<Rightarrow> (pool1\<lparr>sl_tree := t\<rparr>, r))"

definition unshield ::
  "ext \<Rightarrow> shielded_pool \<Rightarrow> unshield_request \<Rightarrow> shielded_pool \<times> (zk_error + unit)" where
  "unshield E pool request =
    (if ur_nullifier request \<in> set (sl_nullifiers pool) then (pool, Inl NullifierAlreadySpent)
     else
       let root = snd (tr_root E (sl_tree pool)) in
       if ur_merkle_root request \<noteq> root then (pool, Inl (VerificationFailed ''merkle root mismatch''))
       else if \<not> verify_commitment_proof E (ur_merkle_proof request) root then (pool, Inl InvalidMerkleProof)
       else (pool\<lparr>sl_nullifiers := insort_insert (ur_nullifier request) (sl_nullifiers pool),
         sl_total_shielded_value := saturating_sub (sl_total_shielded_value pool) (ur_value request)\<rparr>,
         Inr ()))"

definition pool_root :: "ext \<Rightarrow> shielded_pool \<Rightarrow> shielded_pool \<times> hash32" where
  "pool_root E pool = (case tr_root E (sl_tree pool) of (t, h) \<Rightarrow> (pool\<lparr>sl_tree := t\<rparr>, h))"

definition commitment_count :: "shielded_pool \<Rightarrow> u64" where
  "commitment_count pool = tr_leaf_count (sl_tree pool)"

definition nullifier_count :: "shielded_pool \<Rightarrow> nat" where
  "nullifier_count pool = length (sl_nullifiers pool)"

section \<open>The precompile\<close>

definition read_hash32 :: "u8 list \<Rightarrow> nat \<Rightarrow> hash32" where
  "read_hash32 data offset = (if offset + 32 \<le> length data
     then Hash32 (array_of_bytes (take 32 (drop offset data))) else hash_zero)"

definition from_le_bytes :: "u8 list \<Rightarrow> 'a::len word" where
  "from_le_bytes bs = array_of_bytes (rev bs)"

definition verify_precompile_inner :: "ext \<Rightarrow> u8 list \<Rightarrow> bool" where
  "verify_precompile_inner E data =
    (let expected_len = 152 + 32 * COMMITMENT_TREE_DEPTH in
     if length data < expected_len then False
     else
       let nullifier = read_hash32 data 0;
           merkle_root = read_hash32 data 32;
           output_commitment = read_hash32 data 64;
           index = from_le_bytes (take 8 (drop 112 data));
           commitment = read_hash32 data 120;
           siblings = map (\<lambda>i. read_hash32 data (152 + i * 32)) [0..<COMMITMENT_TREE_DEPTH];
           p = \<lparr>cp_commitment = commitment, cp_index = index, cp_siblings = siblings\<rparr> in
       if \<not> verify_commitment_proof E p merkle_root then False
       else if output_commitment = hash_zero then False
       else nullifier \<noteq> hash_zero)"

definition zk_verify_precompile :: "ext \<Rightarrow> u8 list \<Rightarrow> u8 list" where
  "zk_verify_precompile E data = (let out = replicate 32 0 in
     if verify_precompile_inner E data then out[31 := 1] else out)"

section \<open>Indices\<close>

lemma half_children [simp]:
  "((c :: u64) div 2 * 2) div 2 = c div 2" "(c div 2 * 2 + 1) div 2 = c div 2"
proof -
  have bound: "unat c div 2 * 2 + 1 < 2 ^ 64"
  proof -
    have "unat c < 2 ^ 64" using unsigned_less [of c, where ?'a = nat] by simp
    then show ?thesis by simp presburger
  qed
  have two: "unat (c div 2 * 2) = unat c div 2 * 2"
    using bound by (simp add: unat_word_ariths unat_div)
  have one: "unat (c div 2 * 2 + 1) = unat c div 2 * 2 + 1"
    using bound two by (simp add: unat_word_ariths(1) [of "c div 2 * 2" 1])
  have "unat ((c div 2 * 2) div 2) = unat (c div 2)"
    by (simp add: unat_div two)
  then show "(c div 2 * 2) div 2 = c div 2" by (simp only: word_unat_eq_iff)
  have "unat ((c div 2 * 2 + 1) div 2) = unat (c div 2)"
    by (simp add: unat_div one)
  then show "(c div 2 * 2 + 1) div 2 = c div 2" by (simp only: word_unat_eq_iff)
qed

lemma not_child: "c div 2 \<noteq> v div 2 \<Longrightarrow> c div 2 * 2 \<noteq> v \<and> c div 2 * 2 + 1 \<noteq> (v :: u64)"
  by (metis half_children)

lemma children_even: "(c :: u64) mod 2 = 0 \<Longrightarrow> c div 2 * 2 = c"
  using div_mult_mod_eq [of c 2] by simp

lemma children_odd: "(c :: u64) mod 2 \<noteq> 0 \<Longrightarrow> c div 2 * 2 = c - 1"
proof -
  assume "c mod 2 \<noteq> 0"
  then have "c mod 2 = 1" by (simp add: mod_2_eq_odd split: if_splits)
  then show ?thesis using div_mult_mod_eq [of c 2] by (simp add: eq_diff_eq)
qed

text \<open>The direction bits of an index, from the leaf.\<close>

definition index_bits :: "u64 \<Rightarrow> nat \<Rightarrow> bool list" where
  "index_bits i n = map (\<lambda>j. odd (drop_bit j i)) [0..<n]"

lemma index_bits_0 [simp]: "index_bits i 0 = []"
  by (simp add: index_bits_def)

lemma length_index_bits [simp]: "length (index_bits i n) = n"
  by (simp add: index_bits_def)

lemma index_bits_Suc: "index_bits i (Suc n) = odd i # index_bits (i div 2) n"
  by (simp add: index_bits_def map_upt_Suc drop_bit_Suc del: upt_Suc)

lemma verify_level_path:
  "fst (foldl (verify_level E) (x, i) ss) = path_root (tree_node_hash E) (index_bits i (length ss)) ss x"
  by (induction ss arbitrary: x i) (auto simp: index_bits_Suc verify_level_def mod_2_eq_odd)

section \<open>Consistent trees\<close>

interpretation zk: merkle_node "hash_bytes E" tree_node_bytes "tree_node_hash E" for E
  by unfold_locales (auto simp: tree_node_hash_def tree_node_bytes_def append_as_bytes_inject)

text \<open>A node at depth \<open>d\<close> is the digest of its children.\<close>

definition node_ok :: "ext \<Rightarrow> commitment_tree \<Rightarrow> nat \<Rightarrow> u64 \<Rightarrow> bool" where
  "node_ok E t d c \<longleftrightarrow> tr_node_hash t d (c div 2) = tree_node_hash E
     (tr_node_hash t (Suc d) (c div 2 * 2)) (tr_node_hash t (Suc d) (c div 2 * 2 + 1))"

definition empty_leaf :: "ext \<Rightarrow> hash32" where
  "empty_leaf E = hash_bytes E TREE_EMPTY_DOMAIN"

text \<open>A tree represents a list of leaves: all its nodes are consistent and the leaves after the
  last one are empty.\<close>

definition tree_rep :: "ext \<Rightarrow> commitment_tree \<Rightarrow> hash32 list \<Rightarrow> bool" where
  "tree_rep E t leaves \<longleftrightarrow> tr_empty_hashes t = compute_empty_hashes E \<and>
     unat (tr_leaf_count t) = length leaves \<and> length leaves \<le> 2 ^ COMMITMENT_TREE_DEPTH \<and>
     (\<forall>d<COMMITMENT_TREE_DEPTH. \<forall>c. node_ok E t d c) \<and>
     (\<forall>i. tr_node_hash t COMMITMENT_TREE_DEPTH i
        = (if unat i < length leaves then leaves ! unat i else empty_leaf E))"

lemma length_compute_empty_hashes [simp]: "length (compute_empty_hashes E) = Suc COMMITMENT_TREE_DEPTH"
  by (simp add: compute_empty_hashes_def)

lemma ensure_empty_hashes_id [simp]: "tree_rep E t leaves \<Longrightarrow> ensure_empty_hashes E t = t"
proof -
  assume "tree_rep E t leaves"
  then have "tr_empty_hashes t \<noteq> []"
    by (metis Zero_not_Suc length_compute_empty_hashes list.size(3) tree_rep_def)
  then show ?thesis by (simp add: ensure_empty_hashes_def)
qed

lemma tree_rep_new: "tree_rep E (commitment_tree_new E) []"
  by (auto simp: tree_rep_def commitment_tree_new_def node_ok_def tr_node_hash_def
      empty_leaf_def compute_empty_hashes_def empty_table_leaf empty_table_step)

lemma tr_node_hash_insert:
  "tr_node_hash (t\<lparr>tr_nodes := bt_insert (d, i) h (tr_nodes t)\<rparr>) d' i'
     = (if d' = d \<and> i' = i then h else tr_node_hash t d' i')"
  by (auto simp: tr_node_hash_def cong: option.case_cong)

text \<open>The update loop repairs the nodes above a changed one.\<close>

lemma insert_levels:
  assumes "\<forall>d<COMMITMENT_TREE_DEPTH. \<forall>c. node_ok E t d c \<or> d < m \<and> c div 2 = drop_bit (m - d) cur"
    and "foldl (insert_level E) (t, cur) (rev [0..<m]) = (t', cur')"
  shows "(\<forall>d<COMMITMENT_TREE_DEPTH. \<forall>c. node_ok E t' d c) \<and>
    (\<forall>k\<ge>m. \<forall>i. tr_node_hash t' k i = tr_node_hash t k i) \<and>
    tr_leaf_count t' = tr_leaf_count t \<and> tr_empty_hashes t' = tr_empty_hashes t"
  using assms
proof (induction m arbitrary: t cur)
  case (Suc m)
  define h where "h = tree_node_hash E (tr_node_hash t (Suc m) (cur div 2 * 2))
      (tr_node_hash t (Suc m) (cur div 2 * 2 + 1))"
  define t1 where "t1 = t\<lparr>tr_nodes := bt_insert (m, cur div 2) h (tr_nodes t)\<rparr>"
  have fold: "foldl (insert_level E) (t1, cur div 2) (rev [0..<m]) = (t', cur')"
    using Suc.prems(2) by (simp add: insert_level_def Let_def t1_def h_def)
  have at: "tr_node_hash t1 d i = (if d = m \<and> i = cur div 2 then h else tr_node_hash t d i)" for d i
    by (simp add: t1_def tr_node_hash_insert)
  have "node_ok E t1 d c \<or> d < m \<and> c div 2 = drop_bit (m - d) (cur div 2)"
    if d: "d < COMMITMENT_TREE_DEPTH" for d c
  proof (cases "d = m \<and> c div 2 = cur div 2")
    case True
    then show ?thesis by (simp add: node_ok_def at h_def)
  next
    case False
    show ?thesis
    proof (cases "Suc d = m \<and> c div 2 = (cur div 2) div 2")
      case True
      moreover from this have "m - d = Suc 0" by auto
      ultimately show ?thesis by (auto simp: drop_bit_Suc)
    next
      case False2: False
      then have "node_ok E t1 d c = node_ok E t d c"
        using False False2 not_child [of c "cur div 2"] by (auto simp: node_ok_def at)
      moreover have "node_ok E t d c \<or> d < Suc m \<and> c div 2 = drop_bit (Suc m - d) cur"
        using Suc.prems(1) d by blast
      ultimately show ?thesis
        using False by (auto simp: less_Suc_eq Suc_diff_le drop_bit_Suc)
    qed
  qed
  then have "(\<forall>d<COMMITMENT_TREE_DEPTH. \<forall>c. node_ok E t' d c) \<and>
    (\<forall>k\<ge>m. \<forall>i. tr_node_hash t' k i = tr_node_hash t1 k i) \<and>
    tr_leaf_count t' = tr_leaf_count t1 \<and> tr_empty_hashes t' = tr_empty_hashes t1"
    using Suc.IH [of t1 "cur div 2"] fold by blast
  then show ?case by (simp add: at) (simp add: t1_def)
qed auto

lemma tree_rep_insert:
  assumes "tree_rep E t leaves" "length leaves < 2 ^ COMMITMENT_TREE_DEPTH"
  shows "\<exists>t'. tr_insert E t c = (t', Inr (word_of_nat (length leaves))) \<and> tree_rep E t' (leaves @ [c])"
proof -
  let ?i = "tr_leaf_count t"
  define t1 where "t1 = t\<lparr>tr_nodes := bt_insert (COMMITMENT_TREE_DEPTH, ?i) c (tr_nodes t), tr_leaf_count := ?i + 1\<rparr>"
  obtain t' cur' where fold: "foldl (insert_level E) (t1, ?i) (rev [0..<COMMITMENT_TREE_DEPTH]) = (t', cur')"
    by (cases "foldl (insert_level E) (t1, ?i) (rev [0..<COMMITMENT_TREE_DEPTH])")
  have count: "unat ?i = length leaves" using assms(1) by (simp add: tree_rep_def)
  have at: "tr_node_hash t1 d i = (if d = COMMITMENT_TREE_DEPTH \<and> i = ?i then c else tr_node_hash t d i)" for d i
    by (auto simp: t1_def tr_node_hash_def cong: option.case_cong)
  have "node_ok E t1 d x \<or> d < COMMITMENT_TREE_DEPTH \<and> x div 2 = drop_bit (COMMITMENT_TREE_DEPTH - d) ?i"
    if d: "d < COMMITMENT_TREE_DEPTH" for d x
  proof (cases "Suc d = COMMITMENT_TREE_DEPTH \<and> x div 2 = ?i div 2")
    case True
    then show ?thesis using d by (simp add: Suc_diff_le drop_bit_Suc flip: True)
  next
    case False
    then have "node_ok E t1 d x = node_ok E t d x"
      using d not_child [of x ?i] by (auto simp: node_ok_def at)
    then show ?thesis using assms(1) d by (simp add: tree_rep_def)
  qed
  then have res: "(\<forall>d<COMMITMENT_TREE_DEPTH. \<forall>c. node_ok E t' d c) \<and>
    (\<forall>k\<ge>COMMITMENT_TREE_DEPTH. \<forall>i. tr_node_hash t' k i = tr_node_hash t1 k i) \<and>
    tr_leaf_count t' = tr_leaf_count t1 \<and> tr_empty_hashes t' = tr_empty_hashes t1"
    using insert_levels [OF _ fold] by blast
  have "unat (?i + 1) = Suc (length leaves)"
    using count assms(2) by (simp add: unat_word_ariths COMMITMENT_TREE_DEPTH_def)
  moreover have "tr_node_hash t' COMMITMENT_TREE_DEPTH i = (if unat i < length (leaves @ [c])
      then (leaves @ [c]) ! unat i else empty_leaf E)" for i
    using res assms(1) count by (auto simp: at tree_rep_def nth_append less_Suc_eq word_unat_eq_iff)
  ultimately have rep: "tree_rep E t' (leaves @ [c])"
    using res assms by (simp add: tree_rep_def t1_def)
  have "\<not> push_bit COMMITMENT_TREE_DEPTH 1 \<le> ?i"
    using assms(2) count by (simp add: COMMITMENT_TREE_DEPTH_def word_le_nat_alt)
  moreover have "word_of_nat (length leaves) = ?i" by (simp flip: count)
  ultimately have "tr_insert E t c = (t', Inr (word_of_nat (length leaves)))"
    using fold assms(1) by (auto simp: tr_insert_def Let_def t1_def)
  then show ?thesis using rep by blast
qed

section \<open>Proofs of a consistent tree\<close>

text \<open>The honest siblings of an index from depth \<open>m\<close> up.\<close>

definition honest_siblings :: "commitment_tree \<Rightarrow> nat \<Rightarrow> u64 \<Rightarrow> hash32 list" where
  "honest_siblings t m cur = fst (foldl (prove_level t) ([], cur) (rev [0..<m]))"

lemma prove_level_append:
  "foldl (prove_level t) (ss, cur) ds = (ss @ fst (foldl (prove_level t) ([], cur) ds),
     snd (foldl (prove_level t) ([], cur) ds))"
proof (induction ds arbitrary: ss cur)
  case (Cons d ds)
  show ?case
    using Cons.IH [of "ss @ [tr_node_hash t (d + 1) (sibling_index cur)]" "cur div 2"]
      Cons.IH [of "[tr_node_hash t (d + 1) (sibling_index cur)]" "cur div 2"]
    by (simp add: prove_level_def)
qed simp

lemma honest_siblings_Suc:
  "honest_siblings t (Suc m) cur
     = tr_node_hash t (Suc m) (sibling_index cur) # honest_siblings t m (cur div 2)"
  using prove_level_append [of t "[tr_node_hash t (Suc m) (sibling_index cur)]" "cur div 2" "rev [0..<m]"]
  by (simp add: honest_siblings_def prove_level_def)

lemma honest_siblings_0 [simp]: "honest_siblings t 0 cur = []"
  by (simp add: honest_siblings_def)

lemma length_honest_siblings [simp]: "length (honest_siblings t m cur) = m"
  by (induction m arbitrary: cur) (simp_all add: honest_siblings_Suc)

lemma honest_path:
  assumes "\<forall>d<m. \<forall>c. node_ok E t d c"
  shows "path_root (tree_node_hash E) (index_bits cur m) (honest_siblings t m cur) (tr_node_hash t m cur)
       = tr_node_hash t 0 (drop_bit m cur)"
  using assms
proof (induction m arbitrary: cur)
  case (Suc m)
  have "tr_node_hash t m (cur div 2) = tree_node_hash E
     (tr_node_hash t (Suc m) (cur div 2 * 2)) (tr_node_hash t (Suc m) (cur div 2 * 2 + 1))"
    using Suc.prems by (simp add: node_ok_def)
  also have "\<dots> = (if odd cur
      then tree_node_hash E (tr_node_hash t (Suc m) (sibling_index cur)) (tr_node_hash t (Suc m) cur)
      else tree_node_hash E (tr_node_hash t (Suc m) cur) (tr_node_hash t (Suc m) (sibling_index cur)))"
    using children_even [of cur] children_odd [of cur] by (auto simp: sibling_index_def mod_2_eq_odd)
  finally show ?case
    using Suc.IH [of "cur div 2"] Suc.prems
    by (simp add: honest_siblings_Suc index_bits_Suc drop_bit_Suc)
qed simp

text \<open>The root commits to the leaf at every index of the tree.\<close>

lemma tree_root_path:
  assumes "tree_rep E t leaves" "unat i < 2 ^ COMMITMENT_TREE_DEPTH"
  shows "snd (tr_root E t) = path_root (tree_node_hash E) (index_bits i COMMITMENT_TREE_DEPTH)
     (honest_siblings t COMMITMENT_TREE_DEPTH i) (tr_node_hash t COMMITMENT_TREE_DEPTH i)"
proof -
  have "drop_bit COMMITMENT_TREE_DEPTH i = 0"
  proof -
    have "unat (drop_bit COMMITMENT_TREE_DEPTH i) = 0"
      using assms(2) by (simp add: drop_bit_eq_div unat_div COMMITMENT_TREE_DEPTH_def)
    then show ?thesis by (simp only: unat_eq_zero)
  qed
  then show ?thesis
    using honest_path [of COMMITMENT_TREE_DEPTH E t i] assms(1) ensure_empty_hashes_id [OF assms(1)]
    by (simp add: tr_root_def Let_def tree_rep_def [of E t leaves])
qed

lemma verify_commitment_proof_iff:
  "verify_commitment_proof E p r \<longleftrightarrow> length (cp_siblings p) = COMMITMENT_TREE_DEPTH \<and>
     path_root (tree_node_hash E) (index_bits (cp_index p) COMMITMENT_TREE_DEPTH) (cp_siblings p)
       (cp_commitment p) = r"
  by (auto simp: verify_commitment_proof_def verify_level_path)

text \<open>The proof that the tree gives for an index, also of an empty leaf.\<close>

definition honest_proof :: "commitment_tree \<Rightarrow> u64 \<Rightarrow> commitment_merkle_proof" where
  "honest_proof t i = \<lparr>cp_commitment = tr_node_hash t COMMITMENT_TREE_DEPTH i, cp_index = i,
     cp_siblings = honest_siblings t COMMITMENT_TREE_DEPTH i\<rparr>"

lemma honest_proof_verifies:
  "tree_rep E t leaves \<Longrightarrow> unat i < 2 ^ COMMITMENT_TREE_DEPTH \<Longrightarrow>
     verify_commitment_proof E (honest_proof t i) (snd (tr_root E t))"
  by (simp add: verify_commitment_proof_iff honest_proof_def tree_root_path)

lemma index_bits_take: "index_bits (take_bit n i) n = index_bits i n"
  by (auto simp: index_bits_def bit_iff_odd_drop_bit [symmetric] bit_take_bit_iff)

text \<open>The strings hashed to check a proof.\<close>

definition zk_strings :: "ext \<Rightarrow> commitment_merkle_proof \<Rightarrow> u8 list set" where
  "zk_strings E p = set (path_inputs (tree_node_hash E) tree_node_bytes
     (index_bits (cp_index p) COMMITMENT_TREE_DEPTH) (cp_siblings p) (cp_commitment p))"

lemma proof_binding:
  assumes "tree_rep E t leaves" "verify_commitment_proof E p (snd (tr_root E t))"
  defines "i \<equiv> take_bit COMMITMENT_TREE_DEPTH (cp_index p)"
  assumes "\<not> collides (hash_bytes E) (zk_strings E p) (zk_strings E (honest_proof t i))"
  shows "cp_commitment p = tr_node_hash t COMMITMENT_TREE_DEPTH i"
proof -
  have i: "unat i < 2 ^ COMMITMENT_TREE_DEPTH"
    by (simp add: i_def unsigned_take_bit_eq)
  have bits: "index_bits i COMMITMENT_TREE_DEPTH = index_bits (cp_index p) COMMITMENT_TREE_DEPTH"
    by (simp add: i_def index_bits_take)
  have "cp_commitment p = tr_node_hash t COMMITMENT_TREE_DEPTH i \<and>
      cp_siblings p = honest_siblings t COMMITMENT_TREE_DEPTH i"
    using assms(2,4) tree_root_path [OF assms(1) i]
    by (intro zk.path_root_binding [where E = E and bs = "index_bits (cp_index p) COMMITMENT_TREE_DEPTH"])
      (simp_all add: verify_commitment_proof_iff zk_strings_def honest_proof_def bits)
  then show ?thesis ..
qed

section \<open>The pool as a state machine\<close>

datatype pool_op = Shield shield_request | Transfer shielded_transfer_proof | Unshield unshield_request

fun pool_apply :: "ext \<Rightarrow> shielded_pool \<Rightarrow> pool_op \<Rightarrow> shielded_pool" where
  "pool_apply E p (Shield r) = fst (shield E p r)"
| "pool_apply E p (Transfer r) = fst (transfer E p r)"
| "pool_apply E p (Unshield r) = fst (unshield E p r)"

text \<open>The nullifier that an operation spends when it succeeds.\<close>

fun spent :: "ext \<Rightarrow> shielded_pool \<Rightarrow> pool_op \<Rightarrow> hash32 list" where
  "spent E p (Shield r) = []"
| "spent E p (Transfer r) = (case snd (transfer E p r) of Inl _ \<Rightarrow> [] | Inr _ \<Rightarrow> [sp_nullifier r])"
| "spent E p (Unshield r) = (case snd (unshield E p r) of Inl _ \<Rightarrow> [] | Inr _ \<Rightarrow> [ur_nullifier r])"

fun run_spent :: "ext \<Rightarrow> shielded_pool \<Rightarrow> pool_op list \<Rightarrow> hash32 list" where
  "run_spent E p [] = []"
| "run_spent E p (x # xs) = spent E p x @ run_spent E (pool_apply E p x) xs"

definition pool_inv :: "ext \<Rightarrow> shielded_pool \<Rightarrow> bool" where
  "pool_inv E p \<longleftrightarrow> (\<exists>leaves. tree_rep E (sl_tree p) leaves) \<and> sorted (sl_nullifiers p) \<and> distinct (sl_nullifiers p)"

definition pool_step :: "ext \<Rightarrow> shielded_pool \<Rightarrow> shielded_pool \<Rightarrow> bool" where
  "pool_step E p q \<longleftrightarrow> (\<exists>x. q = pool_apply E p x)"

lemma tree_rep_full:
  assumes "tree_rep E t leaves" "\<not> length leaves < 2 ^ COMMITMENT_TREE_DEPTH"
  shows "tr_insert E t c = (t, Inl (VerificationFailed ''tree is full''))"
proof -
  have "push_bit COMMITMENT_TREE_DEPTH 1 \<le> tr_leaf_count t"
    using assms by (simp add: tree_rep_def COMMITMENT_TREE_DEPTH_def word_le_nat_alt)
  then show ?thesis using assms(1) by (simp add: tr_insert_def Let_def)
qed

lemma tree_rep_insert_any:
  assumes "tree_rep E t leaves"
  shows "\<exists>leaves'. tree_rep E (fst (tr_insert E t c)) leaves'"
  using tree_rep_insert [OF assms, of c] tree_rep_full [OF assms, of c] assms
  by (cases "length leaves < 2 ^ COMMITMENT_TREE_DEPTH") auto

lemma pool_apply_inv: "pool_inv E p \<Longrightarrow> pool_inv E (pool_apply E p x)"
proof -
  assume inv: "pool_inv E p"
  then obtain leaves where rep: "tree_rep E (sl_tree p) leaves" by (auto simp: pool_inv_def)
  have ins: "\<exists>leaves'. tree_rep E t leaves'" if "tr_insert E (sl_tree p) c = (t, r)" for c t r
    using tree_rep_insert_any [OF rep, of c] that by simp
  show ?thesis
  proof (cases x)
    case (Shield r)
    then show ?thesis
      using inv ins by (auto simp: pool_inv_def shield_def split: prod.splits sum.splits)
  next
    case (Transfer r)
    then show ?thesis
      using inv ins
      by (auto simp: pool_inv_def transfer_def Let_def sorted_insort_insert distinct_insort_insert split: prod.splits)
  next
    case (Unshield r)
    then show ?thesis
      using inv by (auto simp: pool_inv_def unshield_def Let_def sorted_insort_insert distinct_insort_insert)
  qed
qed

lemma pool_inv_new: "pool_inv E (shielded_pool_new E)"
  using tree_rep_new by (auto simp: pool_inv_def shielded_pool_new_def)

interpretation pool: state_machine "\<lambda>p. p = shielded_pool_new E" "pool_step E" "pool_inv E" for E
  by unfold_locales (auto simp: pool_inv_new pool_step_def intro: pool_apply_inv)

text \<open>Nullifiers are never forgotten, and a spent one was fresh and is recorded.\<close>

lemma nullifiers_mono: "set (sl_nullifiers p) \<subseteq> set (sl_nullifiers (pool_apply E p x))"
  by (cases x) (auto simp: shield_def transfer_def unshield_def Let_def set_insort_insert
      split: prod.splits sum.splits)

lemma spent_fresh:
  "n \<in> set (spent E p x) \<Longrightarrow> n \<notin> set (sl_nullifiers p) \<and> n \<in> set (sl_nullifiers (pool_apply E p x))"
  by (cases x) (auto simp: transfer_def unshield_def Let_def set_insort_insert
      split: prod.splits sum.splits if_splits)

lemma length_spent: "length (spent E p x) \<le> 1"
  by (cases x) (auto split: sum.splits)

lemma run_spent_fresh: "n \<in> set (run_spent E p xs) \<Longrightarrow> n \<notin> set (sl_nullifiers p)"
proof (induction xs arbitrary: p)
  case (Cons x xs)
  then show ?case
    using spent_fresh [of n E p x] nullifiers_mono [of p E x] by auto
qed simp

lemma run_spent_distinct: "distinct (run_spent E p xs)"
proof (induction xs arbitrary: p)
  case (Cons x xs)
  have "distinct (spent E p x)"
    using length_spent [of E p x] by (cases "spent E p x") auto
  moreover have "set (spent E p x) \<inter> set (run_spent E (pool_apply E p x) xs) = {}"
    using spent_fresh run_spent_fresh by blast
  ultimately show ?case using Cons.IH by simp
qed simp

section \<open>Properties\<close>

text \<open>C27: no nullifier is spent twice: in any sequence of shields, transfers and unshields the
  nullifiers of the successful spends are distinct and none of them was spent before.\<close>

theorem no_double_spend:
  "distinct (run_spent E p xs) \<and> set (run_spent E p xs) \<inter> set (sl_nullifiers p) = {}"
  using run_spent_distinct run_spent_fresh by blast

text \<open>Inserting a commitment into a tree that represents a list of leaves appends it: the tree
  then represents the longer list, with every inner node the digest of its children, and the
  index returned is the leaf's position; a full tree of \<open>2 ^ 32\<close> leaves refuses it unchanged.\<close>

theorem tr_insert_appends:
  assumes "tree_rep E t leaves"
  shows "if length leaves < 2 ^ COMMITMENT_TREE_DEPTH
    then \<exists>t'. tr_insert E t c = (t', Inr (word_of_nat (length leaves))) \<and> tree_rep E t' (leaves @ [c])
    else tr_insert E t c = (t, Inl (VerificationFailed ''tree is full''))"
  using tree_rep_insert [OF assms] tree_rep_full [OF assms] by simp

theorem tr_insert_appends_witness:
  "\<forall>E c. \<exists>t'. tr_insert E (commitment_tree_new E) c = (t', Inr 0) \<and> tree_rep E t' [c]"
proof (intro allI)
  fix E c
  show "\<exists>t'. tr_insert E (commitment_tree_new E) c = (t', Inr 0) \<and> tree_rep E t' [c]"
    using tr_insert_appends [OF tree_rep_new, of E c] by simp
qed

text \<open>In every pool reached by the operations, \<open>prove\<close> succeeds for every leaf and its proof
  verifies against the root.\<close>

theorem tr_prove_verifies:
  assumes "(pool_step E)\<^sup>*\<^sup>* (shielded_pool_new E) p" and "i < tr_leaf_count (sl_tree p)"
  shows "\<exists>prf. tr_prove E (sl_tree p) i = (sl_tree p, Inr prf) \<and> cp_index prf = i \<and>
    verify_commitment_proof E prf (snd (tr_root E (sl_tree p)))"
proof -
  obtain leaves where rep: "tree_rep E (sl_tree p) leaves"
    using pool.reachable_inv [OF refl assms(1)] by (auto simp: pool_inv_def)
  then have i: "unat i < 2 ^ COMMITMENT_TREE_DEPTH"
    using assms(2) by (auto simp: tree_rep_def word_less_nat_alt)
  have "tr_prove E (sl_tree p) i = (sl_tree p, Inr (honest_proof (sl_tree p) i))"
    using assms(2) rep
    by (simp add: tr_prove_def Let_def honest_proof_def honest_siblings_def not_le)
  then show ?thesis
    using honest_proof_verifies [OF rep i] by (simp add: honest_proof_def)
qed

theorem tr_prove_verifies_witness:
  "\<forall>E c. \<exists>prf. verify_commitment_proof E prf
     (snd (tr_root E (sl_tree (pool_apply E (shielded_pool_new E) (Shield \<lparr>sr_value = 5, sr_commitment = c\<rparr>)))))"
proof (intro allI)
  fix E c
  let ?r = "\<lparr>sr_value = 5, sr_commitment = c\<rparr>"
  let ?p = "pool_apply E (shielded_pool_new E) (Shield ?r)"
  have step: "(pool_step E)\<^sup>*\<^sup>* (shielded_pool_new E) ?p"
    unfolding pool_step_def by (rule r_into_rtranclp) blast
  obtain t' where "tr_insert E (commitment_tree_new E) c = (t', Inr 0)" "tree_rep E t' [c]"
    using tree_rep_insert [OF tree_rep_new, of E c] by (auto simp: COMMITMENT_TREE_DEPTH_def)
  then have "0 < tr_leaf_count (sl_tree ?p)"
    by (auto simp: shield_def shielded_pool_new_def tree_rep_def word_less_nat_alt)
  from tr_prove_verifies [OF step this]
  show "\<exists>prf. verify_commitment_proof E prf (snd (tr_root E (sl_tree ?p)))" by blast
qed

text \<open>A proof that verifies against the root of the tree is about a leaf of the tree or about
  the digest of the empty leaf, or the strings hashed hold a collision of Blake3.\<close>

theorem verified_commitment_is_leaf:
  assumes "tree_rep E t leaves" and "verify_commitment_proof E p (snd (tr_root E t))"
  shows "cp_commitment p \<in> set leaves \<or> cp_commitment p = empty_leaf E \<or>
    (\<exists>i. collides (hash_bytes E) (zk_strings E p) (zk_strings E (honest_proof t i)))"
proof -
  let ?i = "take_bit COMMITMENT_TREE_DEPTH (cp_index p)"
  consider "collides (hash_bytes E) (zk_strings E p) (zk_strings E (honest_proof t ?i))"
    | "cp_commitment p = tr_node_hash t COMMITMENT_TREE_DEPTH ?i"
    using proof_binding [OF assms] by blast
  then show ?thesis
    using assms(1) by cases (auto simp: tree_rep_def)
qed

theorem verified_commitment_is_leaf_witness:
  "\<forall>E c. \<exists>t. cp_commitment (honest_proof t 0) \<in> set [c] \<or> cp_commitment (honest_proof t 0) = empty_leaf E \<or>
    (\<exists>i. collides (hash_bytes E) (zk_strings E (honest_proof t 0)) (zk_strings E (honest_proof t i)))"
proof (intro allI)
  fix E c
  obtain t where "tree_rep E t [c]"
    using tree_rep_insert [OF tree_rep_new, of E c] by (auto simp: COMMITMENT_TREE_DEPTH_def)
  from verified_commitment_is_leaf [OF this honest_proof_verifies [OF this, of 0]]
  show "\<exists>t. cp_commitment (honest_proof t 0) \<in> set [c] \<or> cp_commitment (honest_proof t 0) = empty_leaf E \<or>
    (\<exists>i. collides (hash_bytes E) (zk_strings E (honest_proof t 0)) (zk_strings E (honest_proof t i)))"
    by auto
qed

text \<open>An unshield binds neither its nullifier nor its value to the commitment: from every
  reachable pool, any fresh nullifier withdraws any value, with a proof that can be computed from
  the public tree and needs no note at all.\<close>

theorem unshield_accepts_any_value:
  assumes "(pool_step E)\<^sup>*\<^sup>* (shielded_pool_new E) p" and "n \<notin> set (sl_nullifiers p)"
  shows "\<exists>request. ur_nullifier request = n \<and> ur_value request = v \<and> ur_recipient request = a \<and>
    ur_merkle_proof request = honest_proof (sl_tree p) 0 \<and> snd (unshield E p request) = Inr ()"
proof -
  obtain leaves where rep: "tree_rep E (sl_tree p) leaves"
    using pool.reachable_inv [OF refl assms(1)] by (auto simp: pool_inv_def)
  have "verify_commitment_proof E (honest_proof (sl_tree p) 0) (snd (tr_root E (sl_tree p)))"
    by (rule honest_proof_verifies [OF rep]) simp
  then show ?thesis
    using assms(2)
    by (intro exI [of _ "\<lparr>ur_nullifier = n, ur_merkle_proof = honest_proof (sl_tree p) 0,
        ur_merkle_root = snd (tr_root E (sl_tree p)), ur_value = v, ur_recipient = a\<rparr>"])
      (simp add: unshield_def Let_def)
qed

theorem unshield_accepts_any_value_witness:
  "\<forall>E. \<exists>request. ur_value request = 1000000 \<and> snd (unshield E (shielded_pool_new E) request) = Inr ()"
proof
  fix E
  show "\<exists>request. ur_value request = 1000000 \<and> snd (unshield E (shielded_pool_new E) request) = Inr ()"
    using unshield_accepts_any_value [OF rtranclp.rtrancl_refl, of "Hash32 1" E 1000000 "Address 1"]
    by (auto simp: shielded_pool_new_def)
qed

end
