(* ===== verification/Zeno_Evm.thy ===== *)
theory Zeno_Evm
  imports Zeno_ZK
begin

text \<open>
  The executor of the crate \<open>zeno-evm\<close> around the interpreter \<open>revm\<close>, which is a parameter:
  the dispatch to Zeno's own precompiles, loading the accounts of the store into the
  interpreter's database, committing a transaction, persisting the database, read-only calls, and
  the ABI decoding of the signature precompile. A failing persist leaves the accounts written
  before the failure, so \<open>execute\<close> returns the store with its result.
\<close>

section \<open>The interpreter\<close>

record revm_account =
  ra_balance :: "256 word"
  ra_nonce :: u64
  ra_code :: "u8 list"
  ra_storage :: "(256 word \<times> 256 word) list"

type_synonym revm_db = "(160 word, revm_account) hash_map"

datatype tx_target = TargetCreate | TargetCall "160 word"

record tx_env =
  te_caller :: "160 word"
  te_gas_limit :: u64
  te_gas_price :: "256 word"
  te_value :: "256 word"
  te_transact_to :: tx_target
  te_data :: "u8 list"

datatype revm_output = OutputCall "u8 list" | OutputCreate "u8 list" "160 word option"

record revm_log =
  rl_address :: "160 word"
  rl_topics :: "256 word list"
  rl_data :: "u8 list"

text \<open>\<open>ExecutionResult\<close>: a success, or a revert or halt with its debug text.\<close>

datatype revm_result = RevmSuccess u64 revm_output "revm_log list" | RevmOther string

text \<open>\<open>transact_commit\<close> and \<open>transact\<close> for a chain id under the Cancun rules; the committed
  database is listed in the iteration order of its account map.\<close>

record revm =
  rv_transact_commit :: "u64 \<Rightarrow> revm_db \<Rightarrow> tx_env \<Rightarrow> string + (revm_result \<times> revm_db)"
  rv_transact :: "u64 \<Rightarrow> revm_db \<Rightarrow> tx_env \<Rightarrow> string + revm_result"

section \<open>Constants and errors\<close>

definition ML_DSA_VERIFY_PRECOMPILE :: "160 word" where
  "ML_DSA_VERIFY_PRECOMPILE = 0x1001"

definition SHA256_PRECOMPILE :: "160 word" where
  "SHA256_PRECOMPILE = 0x02"

definition RIPEMD160_PRECOMPILE :: "160 word" where
  "RIPEMD160_PRECOMPILE = 0x03"

definition IDENTITY_PRECOMPILE :: "160 word" where
  "IDENTITY_PRECOMPILE = 0x04"

definition BLAKE3_PRECOMPILE :: "160 word" where
  "BLAKE3_PRECOMPILE = 0x1002"

definition ZK_VERIFY_PRECOMPILE :: "160 word" where
  "ZK_VERIFY_PRECOMPILE = 0x1003"

datatype evm_error = ContractNotFound | Execution string

record evm_executor =
  ex_evm_chain_id :: u64

section \<open>The signature precompile\<close>

text \<open>\<open>slice.get(a..b)\<close>; a range that the machine addition would wrap around is out of bounds
  either way.\<close>

definition get_range :: "u8 list \<Rightarrow> nat \<Rightarrow> nat \<Rightarrow> u8 list option" where
  "get_range xs a b = (if a \<le> b \<and> b \<le> length xs then Some (take (b - a) (drop a xs)) else None)"

definition from_be_bytes :: "u8 list \<Rightarrow> 'a::len word" where
  "from_be_bytes bs = array_of_bytes bs"

definition read_u256_word :: "u8 list \<Rightarrow> anyhow + nat" where
  "read_u256_word w = bind_res (ok_or (AnyMsg ''short abi word'') (get_range w 24 32)) (\<lambda>slice.
     Inr (unat (from_be_bytes slice :: u64)))"

definition read_dynamic_bytes :: "u8 list \<Rightarrow> nat \<Rightarrow> anyhow + u8 list" where
  "read_dynamic_bytes data offset =
     bind_res (ok_or (AnyMsg ''missing length word'') (get_range data offset (offset + 32))) (\<lambda>len_word.
     bind_res (read_u256_word len_word) (\<lambda>len.
     let start = offset + 32; fin = start + len in
     ok_or (AnyMsg ''missing bytes'') (get_range data start fin)))"

definition decode_abi_bytes3 :: "u8 list \<Rightarrow> anyhow + (u8 list \<times> u8 list \<times> u8 list)" where
  "decode_abi_bytes3 data =
    (if length data < 96 then Inl (AnyMsg ''short abi input'')
     else
       bind_res (read_u256_word (take 32 data)) (\<lambda>first.
       bind_res (read_u256_word (take 32 (drop 32 data))) (\<lambda>second.
       bind_res (read_u256_word (take 32 (drop 64 data))) (\<lambda>third.
       bind_res (read_dynamic_bytes data first) (\<lambda>a.
       bind_res (read_dynamic_bytes data second) (\<lambda>b.
       bind_res (read_dynamic_bytes data third) (\<lambda>c.
       Inr (a, b, c))))))))"

definition padded_bool :: "bool \<Rightarrow> u8 list" where
  "padded_bool v = (replicate 32 0)[31 := of_bool v]"

text \<open>\<open>S\<close> is the scheme that \<open>default_scheme\<close> returns.\<close>

definition pq_verify_precompile :: "scheme \<Rightarrow> u8 list \<Rightarrow> u8 list" where
  "pq_verify_precompile S data =
    (case bind_res (decode_abi_bytes3 data) (\<lambda>(public_key, message, signature).
       map_err AnyCrypto (sc_verify S TransactionDomain message public_key signature)) of
       Inr _ \<Rightarrow> padded_bool True | Inl _ \<Rightarrow> padded_bool False)"

text \<open>The digest behind the address of Ethereum's SHA-256 precompile.\<close>

definition sha2_hash :: "ext \<Rightarrow> u8 list \<Rightarrow> u8 list" where
  "sha2_hash E data = array_bytes 32 (sha3_256 E data)"

section \<open>The database\<close>

fun load_account :: "evm_account_state \<Rightarrow> revm_account" where
  "load_account a = \<lparr>ra_balance = ucast (ea_balance a), ra_nonce = ea_nonce a, ra_code = ea_code a,
     ra_storage = map (\<lambda>(slot, v). (hash_raw slot, hash_raw v)) (ea_storage a)\<rparr>"

definition load_db :: "memory_store \<Rightarrow> revm_db" where
  "load_db store = map (\<lambda>(a, acct). (evm_address_raw a, load_account acct)) (evm_accounts store)"

definition persist_account :: "memory_store \<Rightarrow> 160 word \<times> revm_account \<Rightarrow> evm_error + memory_store" where
  "persist_account store = (\<lambda>(a, acct).
     let storage = foldl (\<lambda>m (slot, v). bt_insert (Hash32 slot) (Hash32 v) m) [] (ra_storage acct) in
     if 2 ^ 128 \<le> unat (ra_balance acct)
     then Inl (Execution ''EVM account balance exceeds u128::MAX - refusing to persist'')
     else Inr (put_evm_account store (EvmAddress a)
       \<lparr>ea_nonce = ra_nonce acct, ea_balance = ucast (ra_balance acct), ea_code = ra_code acct,
        ea_storage = storage\<rparr>))"

fun persist_db :: "memory_store \<Rightarrow> revm_db \<Rightarrow> memory_store \<times> (evm_error + unit)" where
  "persist_db store [] = (store, Inr ())"
| "persist_db store (e # db) = (case persist_account store e of
     Inl err \<Rightarrow> (store, Inl err) | Inr store' \<Rightarrow> persist_db store' db)"

fun decode_result :: "revm_result \<Rightarrow> evm_call_result" where
  "decode_result (RevmSuccess gas_used out logs) =
    (let (output_bytes, contract_address) = (case out of
           OutputCall bytes \<Rightarrow> (bytes, None)
         | OutputCreate bytes a \<Rightarrow> (bytes, map_option EvmAddress a)) in
     \<lparr>cr_contract_address = contract_address, cr_output = output_bytes, cr_gas_used = gas_used,
      cr_logs = map (\<lambda>l. \<lparr>log_address = EvmAddress (rl_address l),
        log_topics = map Hash32 (rl_topics l), log_data = rl_data l\<rparr>) logs\<rparr>)"
| "decode_result (RevmOther txt) =
     \<lparr>cr_contract_address = None, cr_output = string_bytes txt, cr_gas_used = 0, cr_logs = []\<rparr>"

section \<open>The executor\<close>

definition precompile_result :: "u8 list \<Rightarrow> u64 \<Rightarrow> evm_call_result" where
  "precompile_result out gas = \<lparr>cr_contract_address = None, cr_output = out, cr_gas_used = gas, cr_logs = []\<rparr>"

text \<open>The dispatch at the head of \<open>execute\<close>.\<close>

definition run_precompile :: "ext \<Rightarrow> scheme \<Rightarrow> 160 word \<Rightarrow> u8 list \<Rightarrow> evm_call_result option" where
  "run_precompile E S callee data =
    (if callee = ML_DSA_VERIFY_PRECOMPILE
     then Some (precompile_result (pq_verify_precompile S data) 5000)
     else if callee = SHA256_PRECOMPILE
     then Some (precompile_result (sha2_hash E data) (60 + (word_of_nat (length data) div 32) * 12))
     else if callee = IDENTITY_PRECOMPILE
     then Some (precompile_result data (15 + (word_of_nat (length data) div 32) * 3))
     else if callee = BLAKE3_PRECOMPILE
     then Some (precompile_result (as_bytes (hash_bytes E data)) (50 + (word_of_nat (length data) div 32) * 6))
     else if callee = ZK_VERIFY_PRECOMPILE
     then Some (precompile_result (zk_verify_precompile E data) 100000)
     else None)"

text \<open>A caller without an EVM account gets one with a balance of a billion.\<close>

definition with_caller :: "revm_db \<Rightarrow> 160 word \<Rightarrow> revm_db" where
  "with_caller db caller = (if map_of db caller = None
     then db @ [(caller, \<lparr>ra_balance = 1000000000, ra_nonce = 0, ra_code = [], ra_storage = []\<rparr>)]
     else db)"

definition transaction_env :: "160 word \<Rightarrow> evm_transaction \<Rightarrow> tx_env" where
  "transaction_env caller tx = \<lparr>te_caller = caller, te_gas_limit = et_gas_limit tx,
     te_gas_price = ucast (et_gas_price tx), te_value = ucast (et_value tx),
     te_transact_to = (case et_kind tx of Create _ \<Rightarrow> TargetCreate | Call c _ \<Rightarrow> TargetCall (evm_address_raw c)),
     te_data = (case et_kind tx of Create code \<Rightarrow> code | Call _ data \<Rightarrow> data)\<rparr>"

definition evm_execute :: "ext \<Rightarrow> scheme \<Rightarrow> revm \<Rightarrow> evm_executor \<Rightarrow> memory_store \<Rightarrow> 160 word \<Rightarrow>
  evm_transaction \<Rightarrow> memory_store \<times> (evm_error + evm_call_result)" where
  "evm_execute E S R x store caller tx =
    (case (case et_kind tx of Call c data \<Rightarrow> run_precompile E S (evm_address_raw c) data
           | Create _ \<Rightarrow> None) of
       Some res \<Rightarrow> (store, Inr res)
     | None \<Rightarrow>
        let db = with_caller (load_db store) caller in
        case rv_transact_commit R (ex_evm_chain_id x) db (transaction_env caller tx) of
          Inl err \<Rightarrow> (store, Inl (Execution err))
        | Inr (result, db') \<Rightarrow>
            let out = decode_result result in
            case persist_db store db' of
              (store', Inl err) \<Rightarrow> (store', Inl err)
            | (store', Inr _) \<Rightarrow> (store', Inr out))"

definition option_or :: "'a option \<Rightarrow> 'a \<Rightarrow> 'a" where
  "option_or x d = (case x of None \<Rightarrow> d | Some a \<Rightarrow> a)"

definition eth_call :: "scheme \<Rightarrow> revm \<Rightarrow> evm_executor \<Rightarrow> memory_store \<Rightarrow> evm_call_request \<Rightarrow> evm_error + u8 list"
where
  "eth_call S R x store request =
    (if evm_address_raw (rq_to request) = ML_DSA_VERIFY_PRECOMPILE
     then Inr (pq_verify_precompile S (rq_data request))
     else
       bind_res (map_err Execution (rv_transact R (ex_evm_chain_id x) (load_db store)
         \<lparr>te_caller = (case rq_from request of None \<Rightarrow> 0 | Some a \<Rightarrow> evm_address_raw a),
          te_gas_limit = option_or (rq_gas_limit request) 5000000, te_gas_price = 0,
          te_value = ucast (option_or (rq_value request) 0),
          te_transact_to = TargetCall (evm_address_raw (rq_to request)), te_data = rq_data request\<rparr>))
       (\<lambda>result. case result of
          RevmSuccess _ (OutputCall bytes) _ \<Rightarrow> Inr bytes
        | RevmSuccess _ (OutputCreate bytes _) _ \<Rightarrow> Inr bytes
        | RevmOther txt \<Rightarrow> Inl (Execution txt)))"

definition get_code :: "memory_store \<Rightarrow> evm_address \<Rightarrow> u8 list" where
  "get_code store a = (case get_evm_account store a of None \<Rightarrow> [] | Some acct \<Rightarrow> ea_code acct)"

section \<open>ABI lemmas\<close>

text \<open>The ABI encoding of three byte strings: a head of three offsets, then for each string its
  length and its bytes, padded to words.\<close>

definition abi_word :: "nat \<Rightarrow> u8 list" where
  "abi_word n = replicate 24 0 @ array_bytes 8 (word_of_nat n :: u64)"

definition abi_tail :: "u8 list \<Rightarrow> u8 list" where
  "abi_tail bs = abi_word (length bs) @ bs @ replicate ((32 - length bs mod 32) mod 32) 0"

definition abi_encode3 :: "u8 list \<Rightarrow> u8 list \<Rightarrow> u8 list \<Rightarrow> u8 list" where
  "abi_encode3 a b c = abi_word 96 @ abi_word (96 + length (abi_tail a))
     @ abi_word (96 + length (abi_tail a) + length (abi_tail b)) @ abi_tail a @ abi_tail b @ abi_tail c"

lemma length_abi_word [simp]: "length (abi_word n) = 32"
  by (simp add: abi_word_def)

lemma read_abi_word: "n < 2 ^ 64 \<Longrightarrow> read_u256_word (abi_word n) = Inr n"
  using array_of_array_bytes [where ?'a = 64 and n = 8, of "word_of_nat n"]
  by (simp add: read_u256_word_def get_range_def abi_word_def from_be_bytes_def unsigned_of_nat take_bit_nat_eq_self)

lemma read_dynamic_at:
  assumes "length b < 2 ^ 64" "data = pre @ abi_word (length b) @ b @ post" "offset = length pre"
  shows "read_dynamic_bytes data offset = Inr b"
  using read_abi_word [OF assms(1)]
  by (simp add: read_dynamic_bytes_def assms(2,3) get_range_def Let_def)

lemma decode_abi_encode3:
  assumes "length (abi_encode3 a b c) < 2 ^ 64"
  shows "decode_abi_bytes3 (abi_encode3 a b c) = Inr (a, b, c)"
proof -
  let ?o1 = "96 + length (abi_tail a)" and ?o2 = "96 + length (abi_tail a) + length (abi_tail b)"
  let ?head = "abi_word 96 @ abi_word ?o1 @ abi_word ?o2"
  have lens: "length a < 2 ^ 64" "length b < 2 ^ 64" "length c < 2 ^ 64" "?o1 < 2 ^ 64" "?o2 < 2 ^ 64"
    using assms by (simp_all add: abi_encode3_def abi_tail_def)
  have "read_dynamic_bytes (abi_encode3 a b c) 96 = Inr a"
    by (rule read_dynamic_at [OF lens(1), of _ ?head]) (simp_all add: abi_encode3_def abi_tail_def)
  moreover have "read_dynamic_bytes (abi_encode3 a b c) ?o1 = Inr b"
    by (rule read_dynamic_at [OF lens(2), of _ "?head @ abi_tail a"])
      (simp_all add: abi_encode3_def abi_tail_def [of b])
  moreover have "read_dynamic_bytes (abi_encode3 a b c) ?o2 = Inr c"
    by (rule read_dynamic_at [OF lens(3), of _ "?head @ abi_tail a @ abi_tail b"])
      (simp_all add: abi_encode3_def abi_tail_def [of c])
  moreover have "take 32 (abi_encode3 a b c) = abi_word 96"
    "take 32 (drop 32 (abi_encode3 a b c)) = abi_word ?o1"
    "take 32 (drop 64 (abi_encode3 a b c)) = abi_word ?o2"
    by (simp_all add: abi_encode3_def)
  moreover have "\<not> length (abi_encode3 a b c) < 96" by (simp add: abi_encode3_def)
  ultimately show ?thesis
    using lens by (simp add: decode_abi_bytes3_def read_abi_word)
qed

lemma padded_bool_inject [simp]: "padded_bool v = padded_bool w \<longleftrightarrow> v = w"
proof -
  have "padded_bool v ! 31 = of_bool v" for v by (simp add: padded_bool_def)
  then show ?thesis by (metis of_bool_eq(1) of_bool_eq(2) zero_neq_one)
qed

section \<open>Store lemmas\<close>

lemma persist_db_frame: "\<exists>m. fst (persist_db store db) = store\<lparr>ms_evm_accounts := m\<rparr>"
proof (induction db arbitrary: store)
  case Nil
  show ?case by (rule exI [of _ "ms_evm_accounts store"]) simp
next
  case (Cons e db)
  show ?case
  proof (cases "persist_account store e")
    case (Inl err)
    then show ?thesis by (auto intro: exI [of _ "ms_evm_accounts store"])
  next
    case (Inr store')
    then obtain m where "store' = store\<lparr>ms_evm_accounts := m\<rparr>"
      by (auto simp: persist_account_def put_evm_account_def Let_def split: prod.splits if_splits)
    moreover obtain m' where "fst (persist_db store' db) = store'\<lparr>ms_evm_accounts := m'\<rparr>"
      using Cons.IH by blast
    ultimately show ?thesis using Inr by auto
  qed
qed

text \<open>An execution changes the EVM accounts of the store and nothing else.\<close>

lemma evm_execute_frame: "\<exists>m. fst (evm_execute E S R x store caller tx) = store\<lparr>ms_evm_accounts := m\<rparr>"
proof -
  have same: "\<exists>m. store = store\<lparr>ms_evm_accounts := m\<rparr>"
    by (rule exI [of _ "ms_evm_accounts store"]) simp
  show ?thesis
    using same persist_db_frame [of store]
    by (auto simp: evm_execute_def Let_def split: option.splits sum.splits prod.splits)
      (metis fst_conv)+
qed

lemma persist_db_reads:
  assumes "persist_db store db = (store', Inr ())" "distinct (map fst db)" "(a, acct) \<in> set db"
  shows "\<exists>s. get_evm_account store' (EvmAddress a) = Some s \<and> unat (ea_balance s) = unat (ra_balance acct) \<and>
    ea_nonce s = ra_nonce acct \<and> ea_code s = ra_code acct"
  using assms
proof (induction db arbitrary: store)
  case (Cons e db)
  obtain store1 where one: "persist_account store e = Inr store1" "persist_db store1 db = (store', Inr ())"
    using Cons.prems(1) by (auto split: sum.splits)
  have keep: "get_evm_account store2 k = get_evm_account store1 k"
    if "persist_db store1 db = (store2, r)" "evm_address_raw k \<notin> fst ` set db" for store1 store2 r k db
    using that
  proof (induction db arbitrary: store1)
    case (Cons f db)
    then show ?case
      by (auto simp: persist_account_def Let_def evm_account_table.get_put split: sum.splits prod.splits if_splits)
  qed simp
  show ?case
  proof (cases "(a, acct) = e")
    case True
    have "unat (ra_balance acct) < 2 ^ 128" using one(1) True
      by (auto simp: persist_account_def Let_def not_le split: if_splits)
    then have "unat (ucast (ra_balance acct) :: u128) = unat (ra_balance acct)"
      by (simp add: unsigned_ucast_eq take_bit_nat_eq_self)
    moreover have "a \<notin> fst ` set db" using Cons.prems(2) unfolding True [symmetric] by simp
    ultimately show ?thesis
      using one(1) True keep [OF one(2), of "EvmAddress a"]
      by (auto simp: persist_account_def Let_def split: if_splits)
  next
    case False
    then have "(a, acct) \<in> set db" using Cons.prems(3) by simp
    then show ?thesis using Cons.IH [OF one(2)] Cons.prems(2) by simp
  qed
qed simp

section \<open>Properties\<close>

text \<open>The ABI decoder of the signature precompile inverts the standard encoding of three byte
  strings, and on such calldata the precompile returns the word 1 exactly when the scheme verifies
  the signature over the message in the transaction domain.\<close>

theorem pq_verify_precompile_abi:
  assumes "length (abi_encode3 pk msg sg) < 2 ^ 64"
  shows "decode_abi_bytes3 (abi_encode3 pk msg sg) = Inr (pk, msg, sg) \<and>
    (pq_verify_precompile S (abi_encode3 pk msg sg) = padded_bool True
       \<longleftrightarrow> sc_verify S TransactionDomain msg pk sg = Inr ())"
  using decode_abi_encode3 [OF assms]
  by (auto simp: pq_verify_precompile_def split: sum.splits)

theorem pq_verify_precompile_abi_witness:
  "pq_verify_precompile sample_scheme (abi_encode3 [5] [1, 2] [18]) = padded_bool True"
proof -
  have "sc_verify sample_scheme TransactionDomain [1, 2] [5] [18] = Inr ()"
    by (simp add: sample_scheme_def ml_dsa_verify_def sample_oqs_def domain_message_def)
  then show ?thesis
    using pq_verify_precompile_abi [of "[5]" "[1, 2]" "[18]" sample_scheme]
    by (simp add: abi_encode3_def abi_tail_def)
qed

text \<open>Executing an EVM transaction changes no part of the store but its EVM accounts, a call of
  a precompile changes nothing, and after a success every account that the interpreter committed
  is read back with its balance, nonce and code.\<close>

theorem evm_execute_store:
  "(\<exists>m. fst (evm_execute E S R x store caller tx) = store\<lparr>ms_evm_accounts := m\<rparr>) \<and>
   (\<forall>c data. et_kind tx = Call c data \<and> run_precompile E S (evm_address_raw c) data \<noteq> None \<longrightarrow>
      fst (evm_execute E S R x store caller tx) = store) \<and>
   (\<forall>code res db a acct. et_kind tx = Create code \<and>
      rv_transact_commit R (ex_evm_chain_id x) (with_caller (load_db store) caller)
        (transaction_env caller tx) = Inr (res, db) \<and> distinct (map fst db) \<and> (a, acct) \<in> set db \<and>
      snd (evm_execute E S R x store caller tx) = Inr out \<longrightarrow>
      out = decode_result res \<and>
      (\<exists>s. get_evm_account (fst (evm_execute E S R x store caller tx)) (EvmAddress a) = Some s \<and>
         unat (ea_balance s) = unat (ra_balance acct) \<and> ea_nonce s = ra_nonce acct \<and> ea_code s = ra_code acct))"
proof (intro conjI allI impI)
  show "\<exists>m. fst (evm_execute E S R x store caller tx) = store\<lparr>ms_evm_accounts := m\<rparr>"
    by (rule evm_execute_frame)
next
  fix c data
  assume "et_kind tx = Call c data \<and> run_precompile E S (evm_address_raw c) data \<noteq> None"
  then show "fst (evm_execute E S R x store caller tx) = store"
    by (auto simp: evm_execute_def)
next
  fix code res db a acct
  assume h: "et_kind tx = Create code \<and>
      rv_transact_commit R (ex_evm_chain_id x) (with_caller (load_db store) caller)
        (transaction_env caller tx) = Inr (res, db) \<and> distinct (map fst db) \<and> (a, acct) \<in> set db \<and>
      snd (evm_execute E S R x store caller tx) = Inr out"
  then obtain store' where p: "persist_db store db = (store', Inr ())"
    "fst (evm_execute E S R x store caller tx) = store'" "out = decode_result res"
    by (auto simp: evm_execute_def Let_def split: prod.splits sum.splits)
  show "out = decode_result res" by (rule p(3))
  show "\<exists>s. get_evm_account (fst (evm_execute E S R x store caller tx)) (EvmAddress a) = Some s \<and>
         unat (ea_balance s) = unat (ra_balance acct) \<and> ea_nonce s = ra_nonce acct \<and> ea_code s = ra_code acct"
    using persist_db_reads [OF p(1)] h p(2) by blast
qed

text \<open>An interpreter that commits its database unchanged, for the witnesses.\<close>

definition sample_revm :: revm where
  "sample_revm = \<lparr>rv_transact_commit = (\<lambda>_ db _. Inr (RevmSuccess 21000 (OutputCall []) [], db)),
     rv_transact = (\<lambda>_ _ _. Inr (RevmSuccess 21000 (OutputCall []) []))\<rparr>"

definition sample_create :: evm_transaction where
  "sample_create = \<lparr>et_kind = Create [0x60], et_value = 0, et_gas_limit = 100000, et_gas_price = 1\<rparr>"

theorem evm_execute_store_witness:
  "\<exists>s. get_evm_account (fst (evm_execute sample_ext sample_scheme sample_revm \<lparr>ex_evm_chain_id = 1\<rparr>
      memory_store_default 7 sample_create)) (EvmAddress 7) = Some s \<and> unat (ea_balance s) = 1000000000"
proof -
  let ?acct = "\<lparr>ra_balance = 1000000000, ra_nonce = 0, ra_code = [], ra_storage = []\<rparr>"
  have db: "rv_transact_commit sample_revm 1 (with_caller (load_db memory_store_default) 7)
      (transaction_env 7 sample_create) = Inr (RevmSuccess 21000 (OutputCall []) [], [(7, ?acct)])"
    by (simp add: sample_revm_def with_caller_def load_db_def evm_accounts_def memory_store_default_def)
  have out: "snd (evm_execute sample_ext sample_scheme sample_revm \<lparr>ex_evm_chain_id = 1\<rparr>
      memory_store_default 7 sample_create) = Inr (decode_result (RevmSuccess 21000 (OutputCall []) []))"
    using db by (simp add: evm_execute_def sample_create_def Let_def persist_account_def)
  show ?thesis
    using evm_execute_store [of sample_ext sample_scheme sample_revm "\<lparr>ex_evm_chain_id = 1\<rparr>"
        memory_store_default 7 sample_create, THEN conjunct2, THEN conjunct2, rule_format,
        of "[0x60]" "RevmSuccess 21000 (OutputCall []) []" "[(7, ?acct)]" 7 ?acct] db out
    by (auto simp: sample_create_def)
qed

text \<open>A sender without an EVM account is given one with a balance of a billion that nobody
  pays for: an interpreter that only commits what it was given persists that balance.\<close>

theorem unknown_caller_funded:
  assumes "get_evm_account store (EvmAddress caller) = None" and "et_kind tx = Create code"
    and "bt_wf (ms_evm_accounts store)"
    and "\<And>db env. rv_transact_commit R (ex_evm_chain_id x) db env = Inr (res, db)"
    and "evm_execute E S R x store caller tx = (store', Inr out)"
  shows "\<exists>s. get_evm_account store' (EvmAddress caller) = Some s \<and> unat (ea_balance s) = 1000000000"
proof -
  let ?db = "with_caller (load_db store) caller"
  have keys: "map fst (load_db store) = map evm_address_raw (map fst (ms_evm_accounts store))"
    by (simp add: load_db_def evm_accounts_def case_prod_beta comp_def)
  have "distinct (map fst (load_db store))"
    unfolding keys using bt_wf_distinct [OF assms(3)]
    by (auto simp: distinct_map inj_on_def evm_address.expand)
  moreover have fresh: "caller \<notin> set (map fst (load_db store))"
  proof
    assume "caller \<in> set (map fst (load_db store))"
    then have "EvmAddress caller \<in> set (map fst (ms_evm_accounts store))"
      unfolding keys by (force simp: evm_address.expand)
    then show False
      using assms(1) by (auto simp: get_evm_account_def map_of_eq_None_iff)
  qed
  moreover have absent: "map_of (load_db store) caller = None"
    using fresh by (simp add: map_of_eq_None_iff)
  ultimately have dist: "distinct (map fst ?db)"
    and mem: "(caller, \<lparr>ra_balance = 1000000000, ra_nonce = 0, ra_code = [], ra_storage = []\<rparr>) \<in> set ?db"
    by (auto simp: with_caller_def)
  have "persist_db store ?db = (store', Inr ())"
    using assms(2,4,5) by (auto simp: evm_execute_def Let_def split: prod.splits sum.splits)
  from persist_db_reads [OF this dist mem] show ?thesis by auto
qed

theorem unknown_caller_funded_witness:
  "\<exists>s. get_evm_account (fst (evm_execute sample_ext sample_scheme sample_revm \<lparr>ex_evm_chain_id = 1\<rparr>
      memory_store_default 9 sample_create)) (EvmAddress 9) = Some s \<and> unat (ea_balance s) = 1000000000"
proof -
  let ?r = "evm_execute sample_ext sample_scheme sample_revm \<lparr>ex_evm_chain_id = 1\<rparr> memory_store_default 9 sample_create"
  have "\<exists>out. snd ?r = Inr out"
    by (simp add: evm_execute_def sample_create_def sample_revm_def Let_def persist_account_def
        with_caller_def load_db_def evm_accounts_def memory_store_default_def)
  then obtain out where "?r = (fst ?r, Inr out)" by (metis prod.collapse)
  from unknown_caller_funded [OF _ _ _ _ this, of "[0x60]" "RevmSuccess 21000 (OutputCall []) []"]
  show ?thesis
    by (simp add: sample_create_def sample_revm_def memory_store_default_def get_evm_account_def)
qed

end
