(* ===== verification/Zeno_Execution.thy ===== *)
theory Zeno_Execution
  imports Zeno_Evm
begin

text \<open>
  The crate \<open>zeno-execution\<close>: gas and base fee, validation and application of a transaction,
  execution of a proposed block, replay and commit of a finalized one, construction of a header
  and the dry run of a proposal. The store is the in-memory backend; a function that takes
  \<open>&SharedStore\<close> returns the store it leaves, also with an error, because an EVM transaction
  writes to it before the block is accepted. An error keeps its cause where the source keeps the
  text of the cause.
\<close>

section \<open>Types and constants\<close>

datatype exec_cause =
    CText string
  | CTx transaction_error
  | CEvm evm_error
  | CAny anyhow
  | CState state_error

datatype execution_error =
    TransactionErr exec_cause
  | BlockErr exec_cause
  | StateErrX exec_cause

text \<open>The error of \<open>dry_run_transactions\<close> is the text of one of two causes.\<close>

datatype dry_run_error = DryState state_error | DryExec execution_error

record block_execution_result =
  br_block :: block
  br_receipts :: "receipt list"
  br_epoch_transition :: "epoch_transition option"
  br_proposer_fees :: u128
  br_state :: state_snapshot

record accounting_artifacts =
  aa_staking :: "staking_state option"
  aa_governance :: "governance_state option"
  aa_epoch_transition :: "epoch_transition option"

record prepared_block =
  pb_state :: state_snapshot
  pb_receipts :: "receipt list"
  pb_proposer_fees :: u128
  pb_accounting :: accounting_artifacts

definition NATIVE_TRANSFER_GAS :: u64 where
  "NATIVE_TRANSFER_GAS = 21000"

definition GAS_PER_BYTE :: u64 where
  "GAS_PER_BYTE = 16"

definition BASE_FEE_CHANGE_DENOMINATOR :: u128 where
  "BASE_FEE_CHANGE_DENOMINATOR = 8"

definition MIN_BASE_FEE :: u128 where
  "MIN_BASE_FEE = 1"

record execution_engine =
  en_chain_id :: chain_id
  en_evm_chain_id :: "u64 option"
  en_economics :: "economics_params option"
  en_validators :: "validator list"
  en_target_gas_per_block :: u64

text \<open>What the engine reaches outside its own crate family: the digests and codecs, the scheme
  that \<open>default_scheme\<close> returns (the signature precompile uses it) and the EVM interpreter.\<close>

record exec_env =
  xe_ext :: ext
  xe_default_scheme :: scheme
  xe_revm :: revm

section \<open>Gas\<close>

definition compute_native_gas :: "transaction \<Rightarrow> u64" where
  "compute_native_gas tx =
    (let base = NATIVE_TRANSFER_GAS;
         memo_gas = (case tb_memo (tx_body tx) of None \<Rightarrow> 0
           | Some m \<Rightarrow> word_of_nat (length m) * GAS_PER_BYTE);
         sig_gas = (word_of_nat (length (tx_signature tx)) div 32) * 10 in
     base + memo_gas + sig_gas)"

text \<open>A division by a target of zero panics: \<open>None\<close>.\<close>

definition update_base_fee :: "gas_pricing_state \<Rightarrow> u64 \<Rightarrow> gas_pricing_state option" where
  "update_base_fee current target_gas =
    (if target_gas = 0 then None
     else
       let base = (if gp_base_fee current = 0 then MIN_BASE_FEE else gp_base_fee current);
           new_base =
            (if target_gas < gp_last_block_gas_used current then
               let excess = (ucast (saturating_sub (gp_last_block_gas_used current) target_gas) :: u128);
                   delta = saturating_mul base excess div ucast target_gas div BASE_FEE_CHANGE_DENOMINATOR in
               saturating_add base (max delta 1)
             else
               let deficit = (ucast (saturating_sub target_gas (gp_last_block_gas_used current)) :: u128);
                   delta = saturating_mul base deficit div ucast target_gas div BASE_FEE_CHANGE_DENOMINATOR in
               max (saturating_sub base delta) MIN_BASE_FEE) in
       Some \<lparr>gp_base_fee = new_base, gp_last_block_gas_used = 0\<rparr>)"

section \<open>The engine\<close>

definition engine_new :: "chain_id \<Rightarrow> execution_engine" where
  "engine_new c = \<lparr>en_chain_id = c, en_evm_chain_id = None, en_economics = None, en_validators = [],
     en_target_gas_per_block = 15000000\<rparr>"

definition engine_with_evm :: "chain_id \<Rightarrow> u64 option \<Rightarrow> execution_engine" where
  "engine_with_evm c evm = \<lparr>en_chain_id = c, en_evm_chain_id = evm, en_economics = None,
     en_validators = [], en_target_gas_per_block = 15000000\<rparr>"

definition engine_with_protocol ::
  "chain_id \<Rightarrow> u64 option \<Rightarrow> economics_params \<Rightarrow> validator list \<Rightarrow> execution_engine" where
  "engine_with_protocol c evm economics validators = \<lparr>en_chain_id = c, en_evm_chain_id = evm,
     en_economics = Some economics, en_validators = validators, en_target_gas_per_block = 15000000\<rparr>"

definition validate_transaction ::
  "ext \<Rightarrow> execution_engine \<Rightarrow> scheme \<Rightarrow> state_snapshot \<Rightarrow> u64 \<Rightarrow> transaction \<Rightarrow> transaction_error + unit" where
  "validate_transaction E eng S state current_height tx =
     bind_res (verify_transaction E S (en_chain_id eng) tx current_height) (\<lambda>_.
     let sender = snapshot_account state (tb_sender (tx_body tx)) in
     if acct_nonce sender \<noteq> tb_nonce (tx_body tx)
     then Inl (InvalidNonce (acct_nonce sender) (tb_nonce (tx_body tx)))
     else if acct_balance sender < saturating_add (tb_amount (tx_body tx)) (tb_fee (tx_body tx))
     then Inl InsufficientBalance
     else Inr ())"

definition last20 :: "256 word \<Rightarrow> 160 word" where
  "last20 bytes = ucast bytes"

definition treasury_address :: address where
  "treasury_address = Address 0"

text \<open>The account of the sender after \<open>checked_add\<close>, \<open>checked_sub\<close> and the nonce.\<close>

definition charge_sender :: "account \<Rightarrow> transaction_body \<Rightarrow> execution_error + account" where
  "charge_sender sender body =
     bind_res (ok_or (TransactionErr (CText ''amount + fee overflow''))
       (checked_add (tb_amount body) (tb_fee body))) (\<lambda>total_cost.
     bind_res (ok_or (TransactionErr (CText ''insufficient balance (checked)''))
       (checked_sub (acct_balance sender) total_cost)) (\<lambda>balance.
     bind_res (ok_or (TransactionErr (CText ''nonce overflow''))
       (checked_add (acct_nonce sender) 1)) (\<lambda>nonce.
     Inr \<lparr>acct_nonce = nonce, acct_balance = balance\<rparr>)))"

text \<open>An account is read, its balance raised with \<open>saturating_add\<close>, and put back.\<close>

definition credit :: "state_snapshot \<Rightarrow> address \<Rightarrow> u128 \<Rightarrow> state_snapshot" where
  "credit state a amount = (let acct = snapshot_account state a in
     snapshot_put_account state a (acct\<lparr>acct_balance := saturating_add (acct_balance acct) amount\<rparr>))"

definition make_receipt :: "ext \<Rightarrow> u64 \<Rightarrow> transaction \<Rightarrow> evm_call_result option \<Rightarrow> receipt" where
  "make_receipt E height tx evm_result = \<lparr>rc_tx_hash = tx_id E tx, rc_height = height,
     rc_fee_charged = tb_fee (tx_body tx), rc_outcome = Success, rc_evm = evm_result\<rparr>"

definition apply_transaction ::
  "exec_env \<Rightarrow> execution_engine \<Rightarrow> scheme \<Rightarrow> memory_store \<Rightarrow> state_snapshot \<Rightarrow> u64 \<Rightarrow> transaction \<Rightarrow>
   memory_store \<times> state_snapshot \<times> (execution_error + receipt)" where
  "apply_transaction X eng S store state height tx =
    (let body = tx_body tx; E = xe_ext X in
     case bind_res (map_err (\<lambda>e. TransactionErr (CTx e)) (validate_transaction E eng S state height tx))
            (\<lambda>_. charge_sender (snapshot_account state (tb_sender body)) body) of
       Inl err \<Rightarrow> (store, state, Inl err)
     | Inr sender \<Rightarrow>
        let state1 = snapshot_put_account state (tb_sender body) sender in
        (case tb_evm body of
           Some evm_tx \<Rightarrow>
             (case en_evm_chain_id eng of
                None \<Rightarrow> (store, state1, Inl (TransactionErr (CText ''evm execution not enabled'')))
              | Some evm_chain_id \<Rightarrow>
                  (case evm_execute E (xe_default_scheme X) (xe_revm X) \<lparr>ex_evm_chain_id = evm_chain_id\<rparr>
                          store (last20 (address_raw (tb_sender body))) evm_tx of
                     (store1, Inl err) \<Rightarrow> (store1, state1, Inl (TransactionErr (CEvm err)))
                   | (store1, Inr result) \<Rightarrow>
                       (store1, state1, Inr (make_receipt E height tx (Some result)))))
         | None \<Rightarrow>
             (store, credit state1 (tb_recipient body) (tb_amount body),
              Inr (make_receipt E height tx None))))"

text \<open>The loop over the transactions of a block: the fees are added up with \<open>+=\<close> and the
  receipts are pushed. It is the same loop in \<open>prepare_block\<close> and \<open>dry_run_transactions\<close>.\<close>

fun apply_all ::
  "exec_env \<Rightarrow> execution_engine \<Rightarrow> scheme \<Rightarrow> u64 \<Rightarrow> memory_store \<Rightarrow> state_snapshot \<Rightarrow> u128 \<Rightarrow>
   receipt list \<Rightarrow> transaction list \<Rightarrow>
   memory_store \<times> (execution_error + (state_snapshot \<times> u128 \<times> receipt list))" where
  "apply_all X eng S height store state fees receipts [] = (store, Inr (state, fees, receipts))"
| "apply_all X eng S height store state fees receipts (tx # txs) =
    (case apply_transaction X eng S store state height tx of
       (store', state', Inl err) \<Rightarrow> (store', Inl err)
     | (store', state', Inr r) \<Rightarrow>
         apply_all X eng S height store' state' (fees + rc_fee_charged r) (receipts @ [r]) txs)"

section \<open>Accounting\<close>

definition treasury_cut_of :: "u128 \<Rightarrow> u16 \<Rightarrow> u128" where
  "treasury_cut_of total_fees bps = saturating_mul total_fees (ucast bps) div 10000"

text \<open>The step at the end of an epoch.\<close>

definition epoch_step :: "ext \<Rightarrow> staking_state \<Rightarrow> governance_state \<Rightarrow> u64 \<Rightarrow>
  state_error + (staking_state \<times> governance_state \<times> epoch_transition)" where
  "epoch_step E staking governance height =
    (case apply_downtime_slashing staking (gs_economics governance) of
       (_, Inl err) \<Rightarrow> Inl err
     | (staking1, Inr _) \<Rightarrow>
        let staking2 = fst (settle_epoch_rewards staking1 0 0 (gs_economics governance));
            governance1 = fst (activate_ready_updates governance (st_epoch staking2)) in
        Inr (staking2, governance1,
             build_epoch_transition E staking2 height (gs_economics governance1)))"

text \<open>With an error the callers drop the snapshot, so only the error is returned.\<close>

definition apply_block_accounting ::
  "ext \<Rightarrow> execution_engine \<Rightarrow> memory_store \<Rightarrow> state_snapshot \<Rightarrow> address \<Rightarrow> u128 \<Rightarrow> u64 \<Rightarrow>
   state_error + (state_snapshot \<times> accounting_artifacts)" where
  "apply_block_accounting E eng store state proposer total_fees height =
    (case en_economics eng of
       Some economics \<Rightarrow>
        let staking = ensure_validators (staking_load store) (en_validators eng);
            governance = governance_load store economics;
            treasury_cut = treasury_cut_of total_fees (treasury_bps economics);
            proposer_reward = saturating_sub total_fees treasury_cut;
            state1 = credit state proposer proposer_reward;
            state2 = credit state1 treasury_address treasury_cut;
            staking1 = staking\<lparr>st_treasury_balance := saturating_add (st_treasury_balance staking) treasury_cut\<rparr> in
        if epoch_length economics \<noteq> 0 \<and> height mod epoch_length economics = 0
        then bind_res (epoch_step E staking1 governance height) (\<lambda>(staking2, governance1, transition).
               Inr (state2, \<lparr>aa_staking = Some staking2, aa_governance = Some governance1,
                             aa_epoch_transition = Some transition\<rparr>))
        else Inr (state2, \<lparr>aa_staking = Some staking1, aa_governance = Some governance,
                           aa_epoch_transition = None\<rparr>)
     | None \<Rightarrow>
        let proposer_account = snapshot_account state proposer;
            state1 = snapshot_put_account state proposer
              (proposer_account\<lparr>acct_balance := acct_balance proposer_account + total_fees\<rparr>) in
        Inr (state1, \<lparr>aa_staking = None, aa_governance = None, aa_epoch_transition = None\<rparr>))"

definition persist_accounting :: "memory_store \<Rightarrow> prepared_block \<Rightarrow> memory_store" where
  "persist_accounting store prepared =
    (let store1 = persist_state (pb_state prepared) store;
         store2 = (case aa_staking (pb_accounting prepared) of None \<Rightarrow> store1
           | Some staking \<Rightarrow> staking_persist staking store1);
         store3 = (case aa_governance (pb_accounting prepared) of None \<Rightarrow> store2
           | Some governance \<Rightarrow> governance_persist governance store2) in
     case aa_epoch_transition (pb_accounting prepared) of None \<Rightarrow> store3
       | Some transition \<Rightarrow> put_epoch_transition store3 transition)"

section \<open>Blocks\<close>

definition expected_parent :: "ext \<Rightarrow> memory_store \<Rightarrow> hash32" where
  "expected_parent E store = (case latest_block store of None \<Rightarrow> Hash32 0
     | Some entry \<Rightarrow> block_hash E (fb_block entry))"

text \<open>The comparison of the header with the roots of the execution.\<close>

definition check_roots :: "ext \<Rightarrow> block \<Rightarrow> receipt list \<Rightarrow> state_snapshot \<Rightarrow> execution_error + unit" where
  "check_roots E b receipts state =
    (if bh_tx_root (bk_header b) \<noteq> transaction_root E (bk_transactions b)
     then Inl (BlockErr (CText ''tx root mismatch''))
     else if bh_receipt_root (bk_header b) \<noteq> receipt_root E receipts
     then Inl (BlockErr (CText ''receipt root mismatch''))
     else if bh_state_root (bk_header b) \<noteq> state_root E state
     then Inl (BlockErr (CText ''state root mismatch''))
     else Inr ())"

definition prepare_block ::
  "exec_env \<Rightarrow> execution_engine \<Rightarrow> scheme \<Rightarrow> memory_store \<Rightarrow> block \<Rightarrow>
   memory_store \<times> (execution_error + prepared_block)" where
  "prepare_block X eng S store b =
    (let E = xe_ext X; height = bh_height (bk_header b) in
     case map_err (\<lambda>e. BlockErr (CAny e)) (verify_block E S b) of
       Inl err \<Rightarrow> (store, Inl err)
     | Inr _ \<Rightarrow>
        if bh_parent_hash (bk_header b) \<noteq> expected_parent E store
        then (store, Inl (BlockErr (CText ''parent hash mismatch'')))
        else case map_err (\<lambda>e. StateErrX (CState e)) (load_state store) of
          Inl err \<Rightarrow> (store, Inl err)
        | Inr state \<Rightarrow>
          (case apply_all X eng S height store state 0 [] (bk_transactions b) of
             (store1, Inl err) \<Rightarrow> (store1, Inl err)
           | (store1, Inr (state1, proposer_fees, receipts)) \<Rightarrow>
               (store1,
                bind_res (map_err (\<lambda>e. StateErrX (CState e))
                  (apply_block_accounting E eng store1 state1 (bh_proposer (bk_header b)) proposer_fees height))
                (\<lambda>(state2, accounting).
                bind_res (check_roots E b receipts state2) (\<lambda>_.
                Inr \<lparr>pb_state = state2, pb_receipts = receipts, pb_proposer_fees = proposer_fees,
                     pb_accounting = accounting\<rparr>)))))"

definition execute_block ::
  "exec_env \<Rightarrow> execution_engine \<Rightarrow> scheme \<Rightarrow> memory_store \<Rightarrow> block \<Rightarrow>
   memory_store \<times> (execution_error + block_execution_result)" where
  "execute_block X eng S store b =
    (case prepare_block X eng S store b of
       (store1, Inl err) \<Rightarrow> (store1, Inl err)
     | (store1, Inr prepared) \<Rightarrow>
         (persist_accounting store1 prepared,
          Inr \<lparr>br_block = b, br_receipts = pb_receipts prepared,
               br_epoch_transition = aa_epoch_transition (pb_accounting prepared),
               br_proposer_fees = pb_proposer_fees prepared, br_state = pb_state prepared\<rparr>))"

definition commit_finalized_block :: "ext \<Rightarrow> memory_store \<Rightarrow> finalized_block \<Rightarrow> state_snapshot \<Rightarrow> memory_store"
where
  "commit_finalized_block E store finalized state = atomic_commit_block E store finalized (ss_accounts state)"

definition validate_and_commit_finalized_block ::
  "exec_env \<Rightarrow> execution_engine \<Rightarrow> scheme \<Rightarrow> memory_store \<Rightarrow> finalized_block \<Rightarrow>
   memory_store \<times> (execution_error + unit)" where
  "validate_and_commit_finalized_block X eng S store finalized =
    (case prepare_block X eng S store (fb_block finalized) of
       (store1, Inl err) \<Rightarrow> (store1, Inl err)
     | (store1, Inr prepared) \<Rightarrow>
         if pb_receipts prepared \<noteq> fb_receipts finalized
         then (store1, Inl (BlockErr (CText ''receipt bundle mismatch'')))
         else if aa_epoch_transition (pb_accounting prepared) \<noteq> fb_epoch_transition finalized
         then (store1, Inl (BlockErr (CText ''epoch transition mismatch'')))
         else (persist_accounting (commit_finalized_block (xe_ext X) store1 finalized (pb_state prepared)) prepared,
               Inr ()))"

definition build_header ::
  "ext \<Rightarrow> execution_engine \<Rightarrow> memory_store \<Rightarrow> address \<Rightarrow> u64 \<Rightarrow> u32 \<Rightarrow> u64 \<Rightarrow> transaction list \<Rightarrow>
   state_snapshot \<Rightarrow> receipt list \<Rightarrow> block_header" where
  "build_header E eng store proposer height round timestamp_ms transactions state_after receipts =
     \<lparr>bh_height = height, bh_round = round, bh_chain_id = en_chain_id eng,
      bh_parent_hash = expected_parent E store, bh_tx_root = transaction_root E transactions,
      bh_state_root = state_root E state_after, bh_receipt_root = receipt_root E receipts,
      bh_proposer = proposer, bh_timestamp_ms = timestamp_ms\<rparr>"

definition dry_run_transactions ::
  "exec_env \<Rightarrow> execution_engine \<Rightarrow> scheme \<Rightarrow> memory_store \<Rightarrow> u64 \<Rightarrow> transaction list \<Rightarrow> address \<Rightarrow>
   memory_store \<times> (dry_run_error + (state_snapshot \<times> receipt list))" where
  "dry_run_transactions X eng S store height transactions proposer =
    (case map_err DryState (load_state store) of
       Inl err \<Rightarrow> (store, Inl err)
     | Inr state \<Rightarrow>
       (case apply_all X eng S height store state 0 [] transactions of
          (store1, Inl err) \<Rightarrow> (store1, Inl (DryExec err))
        | (store1, Inr (state1, fees, receipts)) \<Rightarrow>
            (store1,
             bind_res (map_err DryState (apply_block_accounting (xe_ext X) eng store1 state1 proposer fees height))
             (\<lambda>(state2, _). Inr (state2, receipts)))))"

section \<open>Lemmas on one transaction\<close>

text \<open>The sum of all balances.\<close>

definition total_supply :: "state_snapshot \<Rightarrow> nat" where
  "total_supply s = sum_entries (\<lambda>a. unat (acct_balance a)) (ss_accounts s)"

abbreviation snapshot_wf :: "state_snapshot \<Rightarrow> bool" where
  "snapshot_wf s \<equiv> bt_wf (ss_accounts s)"

abbreviation balance_of :: "state_snapshot \<Rightarrow> address \<Rightarrow> nat" where
  "balance_of s a \<equiv> unat (acct_balance (snapshot_account s a))"

abbreviation nonce_of :: "state_snapshot \<Rightarrow> address \<Rightarrow> u64" where
  "nonce_of s a \<equiv> acct_nonce (snapshot_account s a)"

lemma snapshot_account_put [simp]:
  "snapshot_account (snapshot_put_account s a x) b = (if b = a then x else snapshot_account s b)"
  by (simp add: snapshot_account_def snapshot_put_account_def)

lemma snapshot_wf_put [simp]: "snapshot_wf s \<Longrightarrow> snapshot_wf (snapshot_put_account s a x)"
  by (simp add: snapshot_put_account_def)

lemma snapshot_wf_credit [simp]: "snapshot_wf s \<Longrightarrow> snapshot_wf (credit s a x)"
  by (simp add: credit_def Let_def)

lemma credit_account: "snapshot_account (credit s a x) b = (if b = a
    then (snapshot_account s a)\<lparr>acct_balance := saturating_add (acct_balance (snapshot_account s a)) x\<rparr>
    else snapshot_account s b)"
  by (simp add: credit_def Let_def)

lemma supply_put:
  "snapshot_wf s \<Longrightarrow> total_supply (snapshot_put_account s a x) + balance_of s a = total_supply s + unat (acct_balance x)"
  using sum_entries_bt_insert [of "ss_accounts s" "\<lambda>a. unat (acct_balance a)" a x]
  by (auto simp: total_supply_def snapshot_put_account_def snapshot_account_def split: option.splits)

lemma balance_le_supply: "balance_of s a \<le> total_supply s"
  by (auto simp: total_supply_def snapshot_account_def intro: sum_entries_lookup_le split: option.splits)

lemma supply_credit:
  assumes "snapshot_wf s" "total_supply s + unat x < 2 ^ 128"
  shows "total_supply (credit s a x) = total_supply s + unat x"
  using supply_put [OF assms(1), of a "(snapshot_account s a)\<lparr>acct_balance :=
      saturating_add (acct_balance (snapshot_account s a)) x\<rparr>"] assms(2) balance_le_supply [of s a]
  by (simp add: credit_def Let_def unat_saturating_add)

lemma validate_transaction_Inr:
  "validate_transaction E eng S state h tx = Inr () \<longleftrightarrow>
     (\<exists>bs. verify_transaction E S (en_chain_id eng) tx h = Inr bs) \<and>
     nonce_of state (tb_sender (tx_body tx)) = tb_nonce (tx_body tx) \<and>
     saturating_add (tb_amount (tx_body tx)) (tb_fee (tx_body tx))
       \<le> acct_balance (snapshot_account state (tb_sender (tx_body tx)))"
  by (auto simp: validate_transaction_def bind_res_eq_Inr Let_def)

text \<open>The sender's account after a successful charge.\<close>

definition charged :: "account \<Rightarrow> transaction_body \<Rightarrow> account" where
  "charged sender body = \<lparr>acct_nonce = acct_nonce sender + 1,
     acct_balance = acct_balance sender - (tb_amount body + tb_fee body)\<rparr>"

definition affordable :: "account \<Rightarrow> transaction_body \<Rightarrow> bool" where
  "affordable sender body \<longleftrightarrow> unat (tb_amount body) + unat (tb_fee body) \<le> unat (acct_balance sender) \<and>
     unat (acct_nonce sender) + 1 < 2 ^ 64"

lemma charge_sender_Inr:
  "charge_sender sender body = Inr a \<longleftrightarrow> affordable sender body \<and> a = charged sender body"
proof -
  have "unat (acct_balance sender) < 2 ^ 128"
    using unsigned_less [of "acct_balance sender", where ?'a = nat] by simp
  then show ?thesis
    by (auto simp: charge_sender_def bind_res_eq_Inr checked_add_Some checked_sub_Some affordable_def
        charged_def word_le_nat_alt unat_word_ariths)
qed

lemma unat_charged:
  assumes "affordable sender body"
  shows "unat (acct_balance (charged sender body)) + unat (tb_amount body) + unat (tb_fee body)
      = unat (acct_balance sender)"
    and "unat (acct_nonce (charged sender body)) = unat (acct_nonce sender) + 1"
proof -
  have "unat (acct_balance sender) < 2 ^ 128"
    using unsigned_less [of "acct_balance sender", where ?'a = nat] by simp
  then have total: "unat (tb_amount body + tb_fee body) = unat (tb_amount body) + unat (tb_fee body)"
    using assms by (simp add: affordable_def unat_word_ariths)
  show "unat (acct_balance (charged sender body)) + unat (tb_amount body) + unat (tb_fee body)
      = unat (acct_balance sender)"
    using assms total by (simp add: charged_def affordable_def unat_sub word_le_nat_alt)
  show "unat (acct_nonce (charged sender body)) = unat (acct_nonce sender) + 1"
    using assms by (simp add: charged_def affordable_def unat_word_ariths)
qed

text \<open>The snapshot after a transaction that passed its checks.\<close>

definition settled :: "state_snapshot \<Rightarrow> transaction_body \<Rightarrow> state_snapshot" where
  "settled state body =
    (let state1 = snapshot_put_account state (tb_sender body)
           (charged (snapshot_account state (tb_sender body)) body) in
     if tb_evm body = None then credit state1 (tb_recipient body) (tb_amount body) else state1)"

definition accepted :: "ext \<Rightarrow> execution_engine \<Rightarrow> scheme \<Rightarrow> state_snapshot \<Rightarrow> u64 \<Rightarrow> transaction \<Rightarrow> bool" where
  "accepted E eng S state height tx \<longleftrightarrow>
     validate_transaction E eng S state height tx = Inr () \<and>
     affordable (snapshot_account state (tb_sender (tx_body tx))) (tx_body tx)"

lemma apply_transaction_ok:
  assumes "apply_transaction X eng S store state height tx = (store', state', Inr r)"
  shows "accepted (xe_ext X) eng S state height tx \<and> state' = settled state (tx_body tx) \<and>
    (\<exists>res. r = make_receipt (xe_ext X) height tx res \<and> (res = None \<longleftrightarrow> tb_evm (tx_body tx) = None)) \<and>
    (\<exists>m. store' = store\<lparr>ms_evm_accounts := m\<rparr>) \<and> (tb_evm (tx_body tx) = None \<longrightarrow> store' = store)"
proof -
  have same: "\<exists>m. store = store\<lparr>ms_evm_accounts := m\<rparr>"
    by (rule exI [of _ "ms_evm_accounts store"]) simp
  have frame: "\<exists>m. st' = store\<lparr>ms_evm_accounts := m\<rparr>"
    if "evm_execute E DS R x store caller t = (st', res)" for E DS R x caller t st' res
    using evm_execute_frame [of E DS R x store caller t] that by simp
  show ?thesis
    using assms same
    by (auto simp: apply_transaction_def Let_def accepted_def settled_def map_err_eq_Inl
        bind_res_eq_Inr charge_sender_Inr split: sum.splits option.splits prod.splits dest: frame)
qed

lemma apply_transaction_native:
  assumes "accepted (xe_ext X) eng S state height tx" "tb_evm (tx_body tx) = None"
  shows "apply_transaction X eng S store state height tx
    = (store, settled state (tx_body tx), Inr (make_receipt (xe_ext X) height tx None))"
  using assms by (simp add: apply_transaction_def accepted_def settled_def Let_def
      charge_sender_Inr [THEN iffD2, OF conjI [OF _ refl]])

lemma apply_transaction_frame:
  "apply_transaction X eng S store state height tx = (store', state', res) \<Longrightarrow>
     \<exists>m. store' = store\<lparr>ms_evm_accounts := m\<rparr>"
proof -
  assume eq: "apply_transaction X eng S store state height tx = (store', state', res)"
  have same: "\<exists>m. store = store\<lparr>ms_evm_accounts := m\<rparr>"
    by (rule exI [of _ "ms_evm_accounts store"]) simp
  have frame: "\<exists>m. st' = store\<lparr>ms_evm_accounts := m\<rparr>"
    if "evm_execute E DS R x store caller t = (st', res)" for E DS R x caller t st' res
    using evm_execute_frame [of E DS R x store caller t] that by simp
  show ?thesis
    using eq same by (auto simp: apply_transaction_def Let_def split: sum.splits option.splits prod.splits
        dest: frame)
qed

lemma settled_wf [simp]: "snapshot_wf s \<Longrightarrow> snapshot_wf (settled s body)"
  by (simp add: settled_def Let_def)

text \<open>An accepted transaction moves its amount, drops its fee, and drops the amount too when it
  carries an EVM call.\<close>

definition outflow :: "transaction_body \<Rightarrow> nat" where
  "outflow body = unat (tb_fee body) + (if tb_evm body = None then 0 else unat (tb_amount body))"

lemma supply_settled:
  assumes "snapshot_wf s" "total_supply s < 2 ^ 128" "affordable (snapshot_account s (tb_sender body)) body"
  shows "total_supply (settled s body) + outflow body = total_supply s"
proof -
  let ?s1 = "snapshot_put_account s (tb_sender body) (charged (snapshot_account s (tb_sender body)) body)"
  have one: "total_supply ?s1 + unat (tb_amount body) + unat (tb_fee body) = total_supply s"
    using supply_put [OF assms(1), of "tb_sender body" "charged (snapshot_account s (tb_sender body)) body"]
      unat_charged(1) [OF assms(3)] by simp
  moreover have "total_supply (credit ?s1 (tb_recipient body) (tb_amount body)) = total_supply ?s1 + unat (tb_amount body)"
    using one assms(1,2) by (intro supply_credit) simp_all
  ultimately show ?thesis by (auto simp: settled_def outflow_def Let_def)
qed

lemma nonce_settled:
  "nonce_of (settled s body) a = (if a = tb_sender body then nonce_of s a + 1 else nonce_of s a)"
  by (simp add: settled_def Let_def credit_account charged_def)

section \<open>Lemmas on blocks\<close>

definition settle_all :: "state_snapshot \<Rightarrow> transaction list \<Rightarrow> state_snapshot" where
  "settle_all state txs = foldl (\<lambda>s tx. settled s (tx_body tx)) state txs"

fun accepted_all ::
  "ext \<Rightarrow> execution_engine \<Rightarrow> scheme \<Rightarrow> u64 \<Rightarrow> state_snapshot \<Rightarrow> transaction list \<Rightarrow> bool" where
  "accepted_all E eng S height state [] = True"
| "accepted_all E eng S height state (tx # txs) =
    (accepted E eng S state height tx \<and> accepted_all E eng S height (settled state (tx_body tx)) txs)"

abbreviation native :: "transaction list \<Rightarrow> bool" where
  "native txs \<equiv> \<forall>tx\<in>set txs. tb_evm (tx_body tx) = None"

definition fee_sum :: "transaction list \<Rightarrow> u128" where
  "fee_sum txs = (\<Sum>tx\<leftarrow>txs. tb_fee (tx_body tx))"

lemma settle_all_simps [simp]:
  "settle_all state [] = state"
  "settle_all state (tx # txs) = settle_all (settled state (tx_body tx)) txs"
  by (simp_all add: settle_all_def)

lemma fee_sum_simps [simp]: "fee_sum [] = 0" "fee_sum (tx # txs) = tb_fee (tx_body tx) + fee_sum txs"
  by (simp_all add: fee_sum_def)

lemma make_receipt_sel [simp]:
  "rc_tx_hash (make_receipt E h tx res) = tx_id E tx"
  "rc_fee_charged (make_receipt E h tx res) = tb_fee (tx_body tx)"
  by (simp_all add: make_receipt_def)

lemma apply_all_ok:
  assumes "apply_all X eng S height store state fees receipts txs = (store', Inr (state', fees', receipts'))"
  shows "accepted_all (xe_ext X) eng S height state txs \<and> state' = settle_all state txs \<and>
    fees' = fees + fee_sum txs \<and> (\<exists>m. store' = store\<lparr>ms_evm_accounts := m\<rparr>) \<and>
    (native txs \<longrightarrow> store' = store) \<and>
    (\<exists>rs. receipts' = receipts @ rs \<and> map rc_tx_hash rs = map (tx_id (xe_ext X)) txs)"
  using assms
proof (induction txs arbitrary: store state fees receipts)
  case Nil
  then show ?case by (auto intro: exI [of _ "ms_evm_accounts store"])
next
  case (Cons tx txs)
  obtain store1 state1 r where one: "apply_transaction X eng S store state height tx = (store1, state1, Inr r)"
    and rest: "apply_all X eng S height store1 state1 (fees + rc_fee_charged r) (receipts @ [r]) txs
      = (store', Inr (state', fees', receipts'))"
    using Cons.prems by (auto split: prod.splits sum.splits)
  note head = apply_transaction_ok [OF one] and tail = Cons.IH [OF rest]
  obtain rs where "receipts' = receipts @ r # rs" "map rc_tx_hash rs = map (tx_id (xe_ext X)) txs"
    using tail by auto
  moreover obtain res where r: "r = make_receipt (xe_ext X) height tx res" using head by blast
  moreover have "\<exists>m. store' = store\<lparr>ms_evm_accounts := m\<rparr>" using head tail by auto
  ultimately show ?case using head tail by (auto simp: algebra_simps)
qed

lemma apply_all_frame:
  "apply_all X eng S height store state fees receipts txs = (store', res) \<Longrightarrow>
     \<exists>m. store' = store\<lparr>ms_evm_accounts := m\<rparr>"
proof (induction txs arbitrary: store state fees receipts)
  case Nil
  then show ?case by (auto intro: exI [of _ "ms_evm_accounts store"])
next
  case (Cons tx txs)
  obtain store1 state1 res1 where one: "apply_transaction X eng S store state height tx = (store1, state1, res1)"
    by (metis prod_cases3)
  obtain m where m: "store1 = store\<lparr>ms_evm_accounts := m\<rparr>" using apply_transaction_frame [OF one] by blast
  show ?case
  proof (cases res1)
    case (Inl e)
    then show ?thesis using Cons.prems one m by auto
  next
    case (Inr r)
    then show ?thesis using Cons.prems one m Cons.IH by fastforce
  qed
qed

lemma apply_all_native:
  assumes "accepted_all (xe_ext X) eng S height state txs" "native txs"
  shows "apply_all X eng S height store state fees receipts txs = (store, Inr (settle_all state txs,
    fees + fee_sum txs, receipts @ map (\<lambda>tx. make_receipt (xe_ext X) height tx None) txs))"
  using assms
  by (induction txs arbitrary: state fees receipts) (simp_all add: apply_transaction_native algebra_simps)

lemma settle_all_wf [simp]: "snapshot_wf s \<Longrightarrow> snapshot_wf (settle_all s txs)"
  by (induction txs arbitrary: s) simp_all

lemma accepted_affordable:
  "accepted E eng S state h tx \<Longrightarrow> affordable (snapshot_account state (tb_sender (tx_body tx))) (tx_body tx)"
  by (simp add: accepted_def)

lemma supply_settle_all:
  assumes "accepted_all E eng S height s txs" "snapshot_wf s" "total_supply s < 2 ^ 128"
  shows "total_supply (settle_all s txs) + (\<Sum>tx\<leftarrow>txs. outflow (tx_body tx)) = total_supply s"
  using assms
proof (induction txs arbitrary: s)
  case (Cons tx txs)
  have "total_supply (settled s (tx_body tx)) + outflow (tx_body tx) = total_supply s"
    using Cons.prems by (intro supply_settled) (auto dest: accepted_affordable)
  then show ?case using Cons.IH [of "settled s (tx_body tx)"] Cons.prems by simp
qed simp

lemma unat_fee_sum:
  "(\<Sum>tx\<leftarrow>txs. outflow (tx_body tx)) < 2 ^ 128 \<Longrightarrow> unat (fee_sum txs) = (\<Sum>tx\<leftarrow>txs. unat (tb_fee (tx_body tx)))"
proof (induction txs)
  case (Cons tx txs)
  have "(\<Sum>tx\<leftarrow>txs. unat (tb_fee (tx_body tx))) \<le> (\<Sum>tx\<leftarrow>txs. outflow (tx_body tx))"
    by (rule sum_list_mono) (simp add: outflow_def)
  moreover have "unat (tb_fee (tx_body tx)) \<le> outflow (tx_body tx)" by (simp add: outflow_def)
  ultimately show ?case using Cons by (simp add: unat_word_ariths)
qed simp

lemma accepted_nonce:
  "accepted E eng S s h tx \<Longrightarrow> tb_nonce (tx_body tx) = nonce_of s (tb_sender (tx_body tx)) \<and>
     unat (nonce_of (settled s (tx_body tx)) (tb_sender (tx_body tx))) = unat (tb_nonce (tx_body tx)) + 1"
  by (auto simp: accepted_def validate_transaction_Inr nonce_settled affordable_def unat_word_ariths)

lemma nonces_settle_all:
  "accepted_all E eng S h s txs \<Longrightarrow> unat (nonce_of s a) \<le> unat (nonce_of (settle_all s txs) a) \<and>
    map (\<lambda>tx. unat (tb_nonce (tx_body tx))) (filter (\<lambda>tx. tb_sender (tx_body tx) = a) txs)
      = [unat (nonce_of s a)..<unat (nonce_of (settle_all s txs) a)]"
proof (induction txs arbitrary: s)
  case (Cons tx txs)
  note IH = Cons.IH [of "settled s (tx_body tx)"]
  show ?case
  proof (cases "tb_sender (tx_body tx) = a")
    case True
    then show ?thesis
      using IH accepted_nonce [of E eng S s h tx] Cons.prems by (auto simp: upt_conv_Cons)
  next
    case False
    then have "nonce_of (settled s (tx_body tx)) a = nonce_of s a" by (simp add: nonce_settled)
    then show ?thesis using IH Cons.prems False by simp
  qed
qed simp

section \<open>Lemmas on accounting\<close>

lemma treasury_cut_of_le: "unat bps \<le> 10000 \<Longrightarrow> unat (treasury_cut_of fees bps) \<le> unat fees"
proof -
  assume "unat bps \<le> 10000"
  then have "min (unat fees * unat bps) (2 ^ 128 - 1) div 10000 \<le> (unat fees * 10000) div 10000"
    by (intro div_le_mono) (simp add: min.coboundedI1)
  then show ?thesis
    by (simp add: treasury_cut_of_def unat_div_distrib unat_saturating_mul unat_ucast_up)
qed

text \<open>Fees taken from the senders come back as the reward of the proposer and the treasury's cut.\<close>

lemma supply_accounting:
  assumes "apply_block_accounting E eng store s proposer fees height = Inr (s', accounting)"
    and "snapshot_wf s" "total_supply s + unat fees < 2 ^ 128"
    and "\<forall>economics. en_economics eng = Some economics \<longrightarrow> unat (treasury_bps economics) \<le> 10000"
  shows "total_supply s' = total_supply s + unat fees \<and> snapshot_wf s'"
proof (cases "en_economics eng")
  case None
  have "unat (acct_balance (snapshot_account s proposer) + fees) = balance_of s proposer + unat fees"
    using balance_le_supply [of s proposer] assms(3) by (simp add: unat_word_ariths)
  then show ?thesis
    using assms(1,2) None supply_put [OF assms(2), of proposer "(snapshot_account s proposer)\<lparr>acct_balance :=
        acct_balance (snapshot_account s proposer) + fees\<rparr>"]
    by (auto simp: apply_block_accounting_def Let_def)
next
  case (Some economics)
  let ?cut = "treasury_cut_of fees (treasury_bps economics)"
  let ?s1 = "credit s proposer (saturating_sub fees ?cut)"
  have cut: "unat ?cut \<le> unat fees" using treasury_cut_of_le assms(4) Some by blast
  have s': "s' = credit ?s1 treasury_address ?cut"
    using assms(1) Some by (auto simp: apply_block_accounting_def Let_def bind_res_eq_Inr split: if_splits)
  have one: "total_supply ?s1 = total_supply s + (unat fees - unat ?cut)"
    using supply_credit [OF assms(2), of "saturating_sub fees ?cut"] assms(3) by (simp add: unat_saturating_sub)
  then have "total_supply s' = total_supply ?s1 + unat ?cut"
    unfolding s' using assms(2,3) cut by (intro supply_credit) simp_all
  then show ?thesis using one cut assms(2) by (simp add: s')
qed

section \<open>Lemmas on the store\<close>

lemma prepare_block_frame:
  "prepare_block X eng S store b = (store', res) \<Longrightarrow> \<exists>m. store' = store\<lparr>ms_evm_accounts := m\<rparr>"
proof -
  assume eq: "prepare_block X eng S store b = (store', res)"
  have same: "\<exists>m. store = store\<lparr>ms_evm_accounts := m\<rparr>"
    by (rule exI [of _ "ms_evm_accounts store"]) simp
  show ?thesis
    using eq same by (auto simp: prepare_block_def Let_def split: sum.splits prod.splits if_splits
        dest: apply_all_frame)
qed

text \<open>What an accepted block went through.\<close>

lemma prepare_block_ok:
  assumes "prepare_block X eng S store b = (store', Inr prepared)"
  shows "verify_block (xe_ext X) S b = Inr () \<and>
    bh_parent_hash (bk_header b) = expected_parent (xe_ext X) store \<and>
    apply_all X eng S (bh_height (bk_header b)) store \<lparr>ss_accounts = ms_accounts store\<rparr> 0 [] (bk_transactions b)
      = (store', Inr (settle_all \<lparr>ss_accounts = ms_accounts store\<rparr> (bk_transactions b),
          fee_sum (bk_transactions b), pb_receipts prepared)) \<and>
    apply_block_accounting (xe_ext X) eng store' (settle_all \<lparr>ss_accounts = ms_accounts store\<rparr> (bk_transactions b))
      (bh_proposer (bk_header b)) (fee_sum (bk_transactions b)) (bh_height (bk_header b))
      = Inr (pb_state prepared, pb_accounting prepared) \<and>
    pb_proposer_fees prepared = fee_sum (bk_transactions b) \<and>
    check_roots (xe_ext X) b (pb_receipts prepared) (pb_state prepared) = Inr ()"
proof -
  let ?E = "xe_ext X" and ?h = "bh_height (bk_header b)" and ?s = "\<lparr>ss_accounts = ms_accounts store\<rparr>"
  obtain state1 fees receipts state2 accounting where
    ver: "verify_block ?E S b = Inr ()"
    and par: "bh_parent_hash (bk_header b) = expected_parent ?E store"
    and all: "apply_all X eng S ?h store ?s 0 [] (bk_transactions b) = (store', Inr (state1, fees, receipts))"
    and acc: "apply_block_accounting ?E eng store' state1 (bh_proposer (bk_header b)) fees ?h
      = Inr (state2, accounting)"
    and roots: "check_roots ?E b receipts state2 = Inr ()"
    and prep: "prepared = \<lparr>pb_state = state2, pb_receipts = receipts, pb_proposer_fees = fees,
      pb_accounting = accounting\<rparr>"
    using assms by (auto simp: prepare_block_def load_state_def accounts_def Let_def bind_res_eq_Inr
        split: sum.splits prod.splits if_splits)
  from apply_all_ok [OF all] have "state1 = settle_all ?s (bk_transactions b)" "fees = fee_sum (bk_transactions b)"
    by simp_all
  then show ?thesis using ver par all acc roots prep by simp
qed

lemma check_roots_Inr: "check_roots E b receipts state = Inr () \<longleftrightarrow>
    bh_tx_root (bk_header b) = transaction_root E (bk_transactions b) \<and>
    bh_receipt_root (bk_header b) = receipt_root E receipts \<and>
    bh_state_root (bk_header b) = state_root E state"
  by (auto simp: check_roots_def)

text \<open>Accounts are never removed from a snapshot, so a commit of the snapshot makes the stored
  accounts equal to it.\<close>

definition covers :: "state_snapshot \<Rightarrow> state_snapshot \<Rightarrow> bool" where
  "covers s t \<longleftrightarrow> dom (map_of (ss_accounts t)) \<subseteq> dom (map_of (ss_accounts s))"

lemma covers_put: "covers s t \<Longrightarrow> covers (snapshot_put_account s a x) t"
  by (auto simp: covers_def snapshot_put_account_def)

lemma covers_credit: "covers s t \<Longrightarrow> covers (credit s a x) t"
  by (simp add: credit_def Let_def covers_put)

lemma covers_settle_all: "covers s t \<Longrightarrow> covers (settle_all s txs) t"
  by (induction txs arbitrary: s) (simp_all add: settled_def Let_def covers_put covers_credit)

lemma covers_accounting:
  "apply_block_accounting E eng store s proposer fees height = Inr (s', accounting) \<Longrightarrow> covers s t \<Longrightarrow> covers s' t"
  by (auto simp: apply_block_accounting_def Let_def bind_res_eq_Inr covers_put covers_credit
      split: option.splits if_splits)

lemma accounting_wf:
  "apply_block_accounting E eng store s proposer fees height = Inr (s', accounting) \<Longrightarrow>
     snapshot_wf s \<Longrightarrow> snapshot_wf s'"
  by (auto simp: apply_block_accounting_def Let_def bind_res_eq_Inr split: option.splits if_splits)

lemma accounting_nonce:
  "apply_block_accounting E eng store s proposer fees height = Inr (s', accounting) \<Longrightarrow> nonce_of s' a = nonce_of s a"
  by (auto simp: apply_block_accounting_def Let_def bind_res_eq_Inr credit_account split: option.splits if_splits)

lemma persist_state_accounts:
  "persist_state s store = store\<lparr>ms_accounts := insert_all fst snd (ss_accounts s) (ms_accounts store)\<rparr>"
proof -
  have "foldl (\<lambda>st (a, acct). put_account st a acct) store xs
      = store\<lparr>ms_accounts := insert_all fst snd xs (ms_accounts store)\<rparr>" for xs
    by (induction xs rule: rev_induct) (auto simp: insert_all_def put_account_def)
  then show ?thesis by (simp add: persist_state_def)
qed

lemma insert_all_covering:
  assumes "bt_wf m" "bt_wf n" "dom (map_of m) \<subseteq> dom (map_of n)"
  shows "insert_all fst snd n m = n"
proof (rule bt_eqI)
  show "map_of (insert_all fst snd n m) = map_of n"
  proof
    fix k
    show "map_of (insert_all fst snd n m) k = map_of n k"
      using assms(3) by (auto simp: map_of_insert_all map_of_rev_distinct bt_wf_distinct [OF assms(2)]
          split: option.splits)
  qed
qed (use assms in auto)

lemma persist_accounting_store:
  "ms_accounts (persist_accounting store p) = insert_all fst snd (ss_accounts (pb_state p)) (ms_accounts store) \<and>
   ms_blocks_by_height (persist_accounting store p) = ms_blocks_by_height store \<and>
   ms_blocks_by_hash (persist_accounting store p) = ms_blocks_by_hash store \<and>
   ms_receipts (persist_accounting store p) = ms_receipts store"
  by (simp add: persist_accounting_def persist_state_accounts Let_def staking_persist_def
      governance_persist_def store_ops split: option.splits)

text \<open>A block whose header was built for its own native transactions is accepted by the node
  that built it.\<close>

lemma proposal_prepared:
  assumes "accepted_all (xe_ext X) eng S h \<lparr>ss_accounts = ms_accounts store\<rparr> txs" and "native txs"
    and "apply_block_accounting (xe_ext X) eng store (settle_all \<lparr>ss_accounts = ms_accounts store\<rparr> txs)
      proposer (fee_sum txs) h = Inr (st, accounting)"
    and "rs = map (\<lambda>tx. make_receipt (xe_ext X) h tx None) txs"
    and "bk_header b = build_header (xe_ext X) eng store proposer h round ts txs st rs"
    and "bk_transactions b = txs" and "verify_block (xe_ext X) S b = Inr ()"
  shows "prepare_block X eng S store b = (store, Inr \<lparr>pb_state = st, pb_receipts = rs,
    pb_proposer_fees = fee_sum txs, pb_accounting = accounting\<rparr>)"
  using assms apply_all_native [OF assms(1,2), of store 0 "[]"]
  by (simp add: prepare_block_def load_state_def accounts_def build_header_def Let_def check_roots_def)

text \<open>Sample data of the witnesses: an account with enough balance for the sample transaction.\<close>

definition sample_engine :: execution_engine where
  "sample_engine = engine_new (ChainId ''z'')"

definition sample_env :: exec_env where
  "sample_env = \<lparr>xe_ext = sample_ext, xe_default_scheme = sample_scheme, xe_revm = sample_revm\<rparr>"

definition sample_state :: state_snapshot where
  "sample_state = \<lparr>ss_accounts = [(sample_address, \<lparr>acct_nonce = 1, acct_balance = 100\<rparr>)]\<rparr>"

definition rich_store :: memory_store where
  "rich_store = memory_store_default\<lparr>ms_accounts := ss_accounts sample_state\<rparr>"

lemma sample_accepted: "accepted sample_ext sample_engine sample_scheme sample_state 9 sample_tx"
proof -
  have "verify_transaction sample_ext sample_scheme (ChainId ''z'') sample_tx 9
      = Inr (the (bin_body sample_ext sample_body))"
    using sample_checks sample_address_derived
    by (simp add: verify_transaction_Inr sample_tx_def sample_body_def sample_ext_def sample_scheme_def
        ml_dsa_verify_def sample_oqs_def domain_message_def)
  then show ?thesis
    by (auto simp: accepted_def validate_transaction_Inr sample_engine_def engine_new_def sample_state_def
        snapshot_account_def affordable_def saturating_add_def sample_tx_def sample_body_def)
qed

text \<open>The block the sample engine proposes for the sample transaction.\<close>

definition sample_after :: state_snapshot where
  "sample_after = (let s = settle_all sample_state [sample_tx]; a = snapshot_account s sample_address in
     snapshot_put_account s sample_address (a\<lparr>acct_balance := acct_balance a + 1\<rparr>))"

definition sample_proposal :: block where
  "sample_proposal = \<lparr>bk_header = build_header sample_ext sample_engine rich_store sample_address 9 0 0
       [sample_tx] sample_after [make_receipt sample_ext 9 sample_tx None],
     bk_transactions = [sample_tx], bk_proposer_public_key = [5], bk_proposer_signature = [36]\<rparr>"

definition sample_prepared :: prepared_block where
  "sample_prepared = \<lparr>pb_state = sample_after, pb_receipts = [make_receipt sample_ext 9 sample_tx None],
     pb_proposer_fees = 1,
     pb_accounting = \<lparr>aa_staking = None, aa_governance = None, aa_epoch_transition = None\<rparr>\<rparr>"

lemma sample_proposal_signed:
  "sign_block sample_ext sample_scheme (bk_header sample_proposal) [sample_tx] [5] [5] = Inr sample_proposal"
  by (simp add: sign_block_def sample_scheme_def ml_dsa_sign_def sample_oqs_def domain_message_def
      sample_ext_def sample_proposal_def canonical_block_header_bytes_def build_header_def)

lemma sample_prepares: "prepare_block sample_env sample_engine sample_scheme rich_store sample_proposal
    = (rich_store, Inr sample_prepared)"
proof -
  have store: "\<lparr>ss_accounts = ms_accounts rich_store\<rparr> = sample_state"
    by (simp add: rich_store_def sample_state_def)
  have "verify_block sample_ext sample_scheme sample_proposal = Inr ()"
    using ml_dsa.signed_block_verifies [OF sample_pair sample_proposal_signed [unfolded sample_scheme_def]]
      sample_address_derived by (simp add: sample_scheme_def sample_proposal_def build_header_def)
  then show ?thesis
    using proposal_prepared [of sample_env sample_engine sample_scheme 9 rich_store "[sample_tx]"
        sample_address sample_after _ _ sample_proposal] sample_accepted
    by (simp add: store sample_env_def sample_proposal_def sample_prepared_def sample_after_def
        sample_engine_def engine_new_def apply_block_accounting_def sample_tx_def sample_body_def Let_def)
qed

section \<open>Properties\<close>

text \<open>C6: applying a native transaction: it succeeds exactly when the static checks and the
  signature pass, the nonce is the account's and the balance covers amount and fee without any
  overflow; then the sender pays amount and fee and its nonce grows by one, the recipient gets the
  amount, nobody else changes, and the store is untouched. Otherwise store and state are as
  before.\<close>

theorem native_transaction_spec:
  assumes "tb_evm (tx_body tx) = None" and "snapshot_wf state" and "total_supply state < 2 ^ 128"
    and "apply_transaction X eng S store state h tx = (store', state', res)"
  shows "store' = store \<and>
    (if accepted (xe_ext X) eng S state h tx
     then res = Inr (make_receipt (xe_ext X) h tx None) \<and>
       (let s = tb_sender (tx_body tx); r = tb_recipient (tx_body tx);
            amount = unat (tb_amount (tx_body tx)); fee = unat (tb_fee (tx_body tx)) in
        unat (nonce_of state' s) = unat (nonce_of state s) + 1 \<and>
        (s = r \<longrightarrow> balance_of state' s + fee = balance_of state s) \<and>
        (s \<noteq> r \<longrightarrow> balance_of state' s + amount + fee = balance_of state s \<and>
           balance_of state' r = balance_of state r + amount) \<and>
        (\<forall>a. a \<noteq> s \<longrightarrow> nonce_of state' a = nonce_of state a) \<and>
        (\<forall>a. a \<noteq> s \<and> a \<noteq> r \<longrightarrow> snapshot_account state' a = snapshot_account state a))
     else state' = state \<and> (\<exists>e. res = Inl e))"
proof (cases "accepted (xe_ext X) eng S state h tx")
  case True
  let ?b = "tx_body tx"
  let ?s1 = "snapshot_put_account state (tb_sender ?b) (charged (snapshot_account state (tb_sender ?b)) ?b)"
  have eq: "store' = store" "state' = settled state ?b" "res = Inr (make_receipt (xe_ext X) h tx None)"
    using apply_transaction_native [OF True assms(1), of store] assms(4) by auto
  note aff = accepted_affordable [OF True]
  have "total_supply ?s1 + unat (tb_amount ?b) + unat (tb_fee ?b) = total_supply state"
    using supply_put [OF assms(2), of "tb_sender ?b" "charged (snapshot_account state (tb_sender ?b)) ?b"]
      unat_charged(1) [OF aff] by simp
  then have room: "balance_of ?s1 (tb_recipient ?b) + unat (tb_amount ?b) < 2 ^ 128"
    using balance_le_supply [of ?s1 "tb_recipient ?b"] assms(3) by simp
  have "balance_of state' (tb_recipient ?b) = balance_of ?s1 (tb_recipient ?b) + unat (tb_amount ?b)"
    using room assms(1) by (simp add: eq(2) settled_def Let_def credit_account unat_saturating_add)
  then show ?thesis
    using True eq assms(1) unat_charged [OF aff]
    by (auto simp: Let_def settled_def credit_account charged_def)
next
  case False
  have "\<not> (\<exists>r. res = Inr r)"
    using False apply_transaction_ok assms(4) by blast
  then have "\<exists>e. res = Inl e" by (cases res) auto
  then show ?thesis
    using False assms(1,4) by (auto simp: apply_transaction_def Let_def split: sum.splits)
qed

theorem native_transaction_spec_witness:
  "balance_of (fst (snd (apply_transaction sample_env sample_engine sample_scheme rich_store sample_state 9 sample_tx)))
     (Address 2) = 5"
proof -
  have wf: "snapshot_wf sample_state" "total_supply sample_state < 2 ^ 128"
    by (simp_all add: sample_state_def bt_wf_Cons bt_keys_def total_supply_def)
  have ne: "sample_address \<noteq> Address 2"
    by (simp add: sample_address_def sample_ext_def hash_bytes_def sample_digest_def string_bytes_def)
  have native: "tb_evm (tx_body sample_tx) = None" by (simp add: sample_tx_def sample_body_def)
  obtain store' state' res where run: "apply_transaction sample_env sample_engine sample_scheme rich_store
      sample_state 9 sample_tx = (store', state', res)" by (metis prod_cases3)
  have "accepted (xe_ext sample_env) sample_engine sample_scheme sample_state 9 sample_tx"
    using sample_accepted by (simp add: sample_env_def)
  then have "balance_of state' (Address 2) = balance_of sample_state (Address 2) + 5"
    using native_transaction_spec [OF native wf run] ne
    by (simp add: sample_tx_def sample_body_def Let_def)
  moreover have "balance_of sample_state (Address 2) = 0"
    using ne by (simp add: sample_state_def snapshot_account_def)
  ultimately show ?thesis by (simp add: run)
qed

text \<open>C29: replay protection: the transactions of one sender in an executed block carry consecutive
  nonces, from the one its account had before the block to the one it has after the transactions;
  in particular no two transactions of a block have the same sender and nonce.\<close>

theorem block_nonces_consecutive:
  assumes "prepare_block X eng S store b = (store', Inr prepared)"
    and "state = \<lparr>ss_accounts = ms_accounts store\<rparr>"
    and "state' = settle_all state (bk_transactions b)"
  shows "map (\<lambda>tx. unat (tb_nonce (tx_body tx)))
       (filter (\<lambda>tx. tb_sender (tx_body tx) = a) (bk_transactions b))
     = [unat (nonce_of state a)..<unat (nonce_of state' a)] \<and>
    nonce_of (pb_state prepared) a = nonce_of state' a \<and>
    distinct (map (\<lambda>tx. (tb_sender (tx_body tx), tb_nonce (tx_body tx))) (bk_transactions b))"
proof -
  note ok = prepare_block_ok [OF assms(1), folded assms(2), folded assms(3)]
  have acc: "accepted_all (xe_ext X) eng S (bh_height (bk_header b)) state (bk_transactions b)"
    using ok apply_all_ok by blast
  have seq: "map (\<lambda>tx. unat (tb_nonce (tx_body tx)))
       (filter (\<lambda>tx. tb_sender (tx_body tx) = c) (bk_transactions b))
     = [unat (nonce_of state c)..<unat (nonce_of state' c)]" for c
    using nonces_settle_all [OF acc, of c] by (simp add: assms(3))
  have by_sender: "distinct (map (\<lambda>tx. (tb_sender (tx_body tx), tb_nonce (tx_body tx))) txs)"
    if "\<And>c. distinct (map (\<lambda>tx. unat (tb_nonce (tx_body tx))) (filter (\<lambda>tx. tb_sender (tx_body tx) = c) txs))"
    for txs :: "transaction list"
    using that
  proof (induction txs)
    case (Cons tx txs)
    have "distinct (map (\<lambda>tx. unat (tb_nonce (tx_body tx))) (filter (\<lambda>tx. tb_sender (tx_body tx) = c) txs))" for c
      using Cons.prems [of c] by (auto split: if_splits)
    moreover have "(tb_sender (tx_body tx), tb_nonce (tx_body tx))
        \<notin> (\<lambda>tx. (tb_sender (tx_body tx), tb_nonce (tx_body tx))) ` set txs"
      using Cons.prems [of "tb_sender (tx_body tx)"] by force
    ultimately show ?case using Cons.IH by simp
  qed simp
  have "nonce_of (pb_state prepared) a = nonce_of state' a"
    using ok accounting_nonce by blast
  then show ?thesis using seq [of a] by_sender [of "bk_transactions b"] by (simp add: seq)
qed

theorem block_nonces_consecutive_witness:
  "map (\<lambda>tx. unat (tb_nonce (tx_body tx)))
       (filter (\<lambda>tx. tb_sender (tx_body tx) = sample_address) (bk_transactions sample_proposal))
     = [unat (nonce_of \<lparr>ss_accounts = ms_accounts rich_store\<rparr> sample_address)..<
        unat (nonce_of (settle_all \<lparr>ss_accounts = ms_accounts rich_store\<rparr> (bk_transactions sample_proposal)) sample_address)]"
  using block_nonces_consecutive [OF sample_prepares refl refl] by blast

text \<open>C2: supply: an executed block neither creates nor destroys native balance, except that the
  amount of an EVM transaction is taken from its sender and credited to nobody. Fees come back as
  the proposer's reward and the treasury's cut.\<close>

theorem block_supply:
  assumes "prepare_block X eng S store b = (store', Inr prepared)"
    and "store_wf (xe_ext X) store" and "total_supply \<lparr>ss_accounts = ms_accounts store\<rparr> < 2 ^ 128"
    and "\<forall>economics. en_economics eng = Some economics \<longrightarrow> unat (treasury_bps economics) \<le> 10000"
  shows "total_supply (pb_state prepared)
      + (\<Sum>tx\<leftarrow>filter (\<lambda>tx. tb_evm (tx_body tx) \<noteq> None) (bk_transactions b). unat (tb_amount (tx_body tx)))
    = total_supply \<lparr>ss_accounts = ms_accounts store\<rparr>"
proof -
  let ?s = "\<lparr>ss_accounts = ms_accounts store\<rparr>" and ?txs = "bk_transactions b"
  note ok = prepare_block_ok [OF assms(1)]
  have wf: "snapshot_wf ?s" using assms(2) by (simp add: store_wf_def)
  have acc: "accepted_all (xe_ext X) eng S (bh_height (bk_header b)) ?s ?txs" using ok apply_all_ok by blast
  have sum: "total_supply (settle_all ?s ?txs) + (\<Sum>tx\<leftarrow>?txs. outflow (tx_body tx)) = total_supply ?s"
    using supply_settle_all [OF acc wf assms(3)] .
  then have fees: "unat (fee_sum ?txs) = (\<Sum>tx\<leftarrow>?txs. unat (tb_fee (tx_body tx)))"
    using assms(3) by (intro unat_fee_sum) linarith
  have split: "(\<Sum>tx\<leftarrow>txs. outflow (tx_body tx)) = (\<Sum>tx\<leftarrow>txs. unat (tb_fee (tx_body tx)))
      + (\<Sum>tx\<leftarrow>filter (\<lambda>tx. tb_evm (tx_body tx) \<noteq> None) txs. unat (tb_amount (tx_body tx)))" for txs
    by (induction txs) (auto simp: outflow_def)
  have "total_supply (pb_state prepared) = total_supply (settle_all ?s ?txs) + unat (fee_sum ?txs)"
    using ok supply_accounting [of "xe_ext X" eng store' "settle_all ?s ?txs" "bh_proposer (bk_header b)"
        "fee_sum ?txs" "bh_height (bk_header b)" "pb_state prepared" "pb_accounting prepared"]
      wf sum fees split [of ?txs] assms(3,4) by simp
  then show ?thesis using sum fees split [of ?txs] by simp
qed

theorem block_supply_witness:
  "total_supply (pb_state sample_prepared) = 100"
proof -
  have wf: "store_wf (xe_ext sample_env) rich_store"
    by (simp add: store_wf_def rich_store_def memory_store_default_def sample_state_def bt_wf_Cons bt_keys_def)
  have "total_supply \<lparr>ss_accounts = ms_accounts rich_store\<rparr> = 100"
    by (simp add: rich_store_def sample_state_def total_supply_def)
  with block_supply [OF sample_prepares wf] show ?thesis
    by (simp add: sample_engine_def engine_new_def sample_proposal_def sample_tx_def sample_body_def)
qed

text \<open>C30: a proposal round trip: what the dry run of native transactions returns, put into a header
  by \<open>build_header\<close> and signed by the proposer, is a block that \<open>prepare_block\<close> accepts on the
  same store, with the state and the receipts of the dry run.\<close>

theorem proposal_round_trip:
  assumes "ml_dsa_pair Q pk sk" and "S = ml_dsa_scheme (xe_ext X) Q"
    and "sc_derive_address S pk = Inr (address_raw proposer)" and "native txs"
    and "dry_run_transactions X eng S store h txs proposer = (store1, Inr (st, rs))"
    and "sign_block (xe_ext X) S (build_header (xe_ext X) eng store1 proposer h round ts txs st rs) txs pk sk
      = Inr b"
  shows "store1 = store \<and> (\<exists>fees accounting. prepare_block X eng S store1 b = (store1, Inr \<lparr>pb_state = st,
    pb_receipts = rs, pb_proposer_fees = fees, pb_accounting = accounting\<rparr>))"
proof -
  let ?E = "xe_ext X" and ?s = "\<lparr>ss_accounts = ms_accounts store\<rparr>"
  obtain state1 fees receipts accounting where
    all: "apply_all X eng S h store ?s 0 [] txs = (store1, Inr (state1, fees, receipts))"
    and acc: "apply_block_accounting ?E eng store1 state1 proposer fees h = Inr (st, accounting)"
    and rs: "rs = receipts"
    using assms(5) by (auto simp: dry_run_transactions_def load_state_def accounts_def bind_res_eq_Inr
        split: prod.splits sum.splits)
  note ok = apply_all_ok [OF all]
  have store: "store1 = store" and acc_all: "accepted_all ?E eng S h ?s txs" using ok assms(4) by auto
  have "receipts = map (\<lambda>tx. make_receipt ?E h tx None) txs"
    using all apply_all_native [OF acc_all assms(4), of store 0 "[]"] by auto
  moreover have "verify_block ?E S b = Inr ()"
    unfolding assms(2)
  proof (rule ml_dsa.signed_block_verifies [OF assms(1) assms(6) [unfolded assms(2)]])
    show "sc_derive_address (ml_dsa_scheme ?E Q) pk = Inr (address_raw (bh_proposer
        (build_header ?E eng store1 proposer h round ts txs st rs)))"
      using assms(2,3) by (simp add: build_header_def)
  qed
  moreover have "bk_header b = build_header ?E eng store1 proposer h round ts txs st rs" "bk_transactions b = txs"
    using assms(6) by (auto simp: sign_block_def bind_res_eq_Inr)
  ultimately show ?thesis
    using proposal_prepared [OF acc_all assms(4), of proposer st accounting rs b round ts] ok acc store rs
    by auto
qed

theorem proposal_round_trip_witness:
  "\<exists>fees accounting. prepare_block sample_env sample_engine sample_scheme rich_store sample_proposal
     = (rich_store, Inr \<lparr>pb_state = sample_after, pb_receipts = [make_receipt sample_ext 9 sample_tx None],
         pb_proposer_fees = fees, pb_accounting = accounting\<rparr>)"
proof -
  have store: "\<lparr>ss_accounts = ms_accounts rich_store\<rparr> = sample_state"
    by (simp add: rich_store_def sample_state_def)
  have "dry_run_transactions sample_env sample_engine sample_scheme rich_store 9 [sample_tx] sample_address
      = (rich_store, Inr (sample_after, [make_receipt sample_ext 9 sample_tx None]))"
    using apply_all_native [of sample_env sample_engine sample_scheme 9 sample_state "[sample_tx]" rich_store 0 "[]"]
      sample_accepted
    by (simp add: dry_run_transactions_def load_state_def accounts_def store sample_env_def sample_after_def
        sample_engine_def engine_new_def apply_block_accounting_def sample_tx_def sample_body_def Let_def)
  from proposal_round_trip [OF sample_pair _ _ _ this] show ?thesis
    using sample_proposal_signed sample_address_derived
    by (simp add: sample_env_def sample_scheme_def sample_proposal_def sample_tx_def sample_body_def)
qed

text \<open>C8: replaying a finalized block: with an error, the store is as before up to its EVM accounts,
  so no block, balance, receipt or staking entry of a rejected block is kept; without an error, the
  accounts of the store have the state root the header names, the block is stored under its height
  and its hash, its receipts are the executed ones, one per transaction, and are read back by the
  transaction's identifier.\<close>

theorem commit_all_or_nothing:
  assumes "store_wf (xe_ext X) store"
    and "validate_and_commit_finalized_block X eng S store fb = (store', res)"
  shows "(\<forall>e. res = Inl e \<longrightarrow> (\<exists>m. store' = store\<lparr>ms_evm_accounts := m\<rparr>)) \<and>
    (res = Inr () \<longrightarrow>
       state_root (xe_ext X) \<lparr>ss_accounts = ms_accounts store'\<rparr> = bh_state_root (bk_header (fb_block fb)) \<and>
       bh_parent_hash (bk_header (fb_block fb)) = expected_parent (xe_ext X) store \<and>
       get_block_by_height store' (bh_height (bk_header (fb_block fb))) = Some fb \<and>
       get_block_by_hash store' (block_hash (xe_ext X) (fb_block fb)) = Some fb \<and>
       map rc_tx_hash (fb_receipts fb) = map (tx_id (xe_ext X)) (bk_transactions (fb_block fb)) \<and>
       (distinct (map (tx_id (xe_ext X)) (bk_transactions (fb_block fb))) \<longrightarrow>
          (\<forall>r\<in>set (fb_receipts fb). get_receipt store' (rc_tx_hash r) = Some r)))"
proof (cases "prepare_block X eng S store (fb_block fb)")
  case (Pair store1 pres)
  note frame = prepare_block_frame [OF Pair]
  show ?thesis
  proof (cases "res")
    case (Inl e)
    then show ?thesis
      using assms(2) Pair frame
      by (auto simp: validate_and_commit_finalized_block_def split: sum.splits if_splits)
  next
    case (Inr u)
    then obtain prepared where pres: "pres = Inr prepared" and rec: "pb_receipts prepared = fb_receipts fb"
      and store': "store' = persist_accounting
        (commit_finalized_block (xe_ext X) store1 fb (pb_state prepared)) prepared"
      using assms(2) Pair by (auto simp: validate_and_commit_finalized_block_def split: sum.splits if_splits)
    let ?s = "\<lparr>ss_accounts = ms_accounts store\<rparr>" and ?b = "fb_block fb"
    note ok = prepare_block_ok [OF Pair [unfolded pres]]
    have wf: "bt_wf (ms_accounts store)" using assms(1) by (simp add: store_wf_def)
    have same: "ms_accounts store1 = ms_accounts store" "ms_receipts store1 = ms_receipts store"
      using frame by auto
    have "covers (settle_all ?s (bk_transactions ?b)) ?s" by (rule covers_settle_all) (simp add: covers_def)
    with ok have cov: "covers (pb_state prepared) ?s" by (blast intro: covers_accounting)
    have pwf: "snapshot_wf (pb_state prepared)"
      by (rule accounting_wf [OF ok [THEN conjunct2, THEN conjunct2, THEN conjunct2, THEN conjunct1]])
        (simp add: wf)
    have accts: "insert_all fst snd (ss_accounts (pb_state prepared)) (ms_accounts store)
        = ss_accounts (pb_state prepared)"
      using insert_all_covering [OF wf pwf] cov by (simp add: covers_def)
    have twice: "insert_all fst snd (ss_accounts (pb_state prepared)) (ss_accounts (pb_state prepared))
        = ss_accounts (pb_state prepared)"
      using insert_all_covering [OF pwf pwf] by simp
    have "ms_accounts store' = ss_accounts (pb_state prepared)"
      by (simp add: store' persist_accounting_store commit_finalized_block_def atomic_commit_block_def
          same accts twice)
    moreover have "bh_state_root (bk_header ?b) = state_root (xe_ext X) (pb_state prepared)"
      using ok by (simp add: check_roots_Inr)
    moreover have "map rc_tx_hash (fb_receipts fb) = map (tx_id (xe_ext X)) (bk_transactions ?b)"
      using apply_all_ok [OF ok [THEN conjunct2, THEN conjunct2, THEN conjunct1]] rec by auto
    moreover have "ms_receipts store' = insert_all rc_tx_hash (\<lambda>r. r) (fb_receipts fb) (ms_receipts store)"
      by (simp add: store' persist_accounting_store commit_finalized_block_def atomic_commit_block_def same)
    moreover have "state_root (xe_ext X) \<lparr>ss_accounts = ss_accounts (pb_state prepared)\<rparr>
        = state_root (xe_ext X) (pb_state prepared)" by (simp add: state_root_def)
    ultimately show ?thesis
      using ok Inr
      by (simp add: get_block_by_height_def get_block_by_hash_def get_receipt_def store'
          persist_accounting_store commit_finalized_block_def atomic_commit_block_def
          map_of_insert_all_distinct)
  qed
qed

theorem commit_all_or_nothing_witness:
  "let fb = (sample_block 9)\<lparr>fb_block := sample_proposal, fb_receipts := pb_receipts sample_prepared\<rparr>;
       store' = fst (validate_and_commit_finalized_block sample_env sample_engine sample_scheme rich_store fb) in
   get_block_by_height store' 9 = Some fb \<and>
   state_root sample_ext \<lparr>ss_accounts = ms_accounts store'\<rparr> = bh_state_root (bk_header sample_proposal)"
proof -
  let ?fb = "(sample_block 9)\<lparr>fb_block := sample_proposal, fb_receipts := pb_receipts sample_prepared\<rparr>"
  have wf: "store_wf (xe_ext sample_env) rich_store"
    by (simp add: store_wf_def rich_store_def memory_store_default_def sample_state_def bt_wf_Cons bt_keys_def)
  obtain store' res where run: "validate_and_commit_finalized_block sample_env sample_engine sample_scheme
      rich_store ?fb = (store', res)" by (metis prod.exhaust)
  then have "res = Inr ()"
    using sample_prepares
    by (auto simp: validate_and_commit_finalized_block_def sample_prepared_def sample_block_def)
  then show ?thesis
    using commit_all_or_nothing [OF wf run] run
    by (simp add: Let_def sample_env_def sample_proposal_def build_header_def)
qed

text \<open>The base fee after a block is at least the minimum; it stays the same when the block used
  exactly the target, never falls by more than an eighth below it, and above it rises by at least
  one and, while the block used at most twice the target, by at most an eighth (or one), unless it
  saturates.\<close>

theorem update_base_fee_bounds:
  assumes "update_base_fee current target = Some next"
    and "base = (if gp_base_fee current = 0 then 1 else unat (gp_base_fee current))"
    and "used = unat (gp_last_block_gas_used current)"
  shows "target \<noteq> 0 \<and> gp_last_block_gas_used next = 0 \<and> 1 \<le> unat (gp_base_fee next) \<and>
    (used = unat target \<longrightarrow> unat (gp_base_fee next) = base) \<and>
    (used \<le> unat target \<longrightarrow> base - base div 8 \<le> unat (gp_base_fee next) \<and> unat (gp_base_fee next) \<le> base) \<and>
    (unat target < used \<longrightarrow> min (base + 1) (2 ^ 128 - 1) \<le> unat (gp_base_fee next)) \<and>
    (used \<le> 2 * unat target \<longrightarrow> unat (gp_base_fee next) \<le> base + max 1 (base div 8))"
proof -
  have nz: "target \<noteq> 0" using assms(1) by (auto simp: update_base_fee_def)
  then have pos: "0 < unat target" by (simp add: unat_gt_0)
  define b where "b = (if gp_base_fee current = 0 then MIN_BASE_FEE else gp_base_fee current)"
  have b: "unat b = base" by (auto simp: b_def assms(2) MIN_BASE_FEE_def)
  have base: "1 \<le> base" "base \<le> 2 ^ 128 - 1"
    using assms(2) unat_word_bound [of "gp_base_fee current"] by (auto simp: unat_gt_0 Suc_le_eq)
  define share where "share d = min (base * d) (2 ^ 128 - 1) div unat target div 8" for d
  have delta: "unat (saturating_mul b (ucast d) div ucast target div BASE_FEE_CHANGE_DENOMINATOR) = share (unat d)"
    for d :: u64
    by (simp add: share_def unat_div_distrib unat_saturating_mul unat_ucast_up b BASE_FEE_CHANGE_DENOMINATOR_def)
  have share: "share d \<le> base div 8" if "d \<le> unat target" for d
  proof -
    have "min (base * d) (2 ^ 128 - 1) div unat target \<le> (base * unat target) div unat target"
      using that by (intro div_le_mono) (simp add: min.coboundedI1)
    then show ?thesis using pos by (simp add: share_def div_le_mono)
  qed
  have eighth: "base div 8 \<le> base" by simp
  show ?thesis
  proof (cases "target < gp_last_block_gas_used current")
    case True
    then have used: "unat target < used" by (simp add: word_less_nat_alt assms(3))
    have "unat (gp_base_fee next) = min (base + max (share (used - unat target)) 1) (2 ^ 128 - 1)"
      using assms(1) True nz delta [of "saturating_sub (gp_last_block_gas_used current) target"]
      by (auto simp: update_base_fee_def Let_def b_def [symmetric] unat_saturating_add unat_saturating_sub b
          assms(3) max_def word_le_nat_alt)
    moreover have "gp_last_block_gas_used next = 0"
      using assms(1) by (auto simp: update_base_fee_def Let_def split: if_splits)
    moreover have "used \<le> 2 * unat target \<longrightarrow> share (used - unat target) \<le> base div 8"
      by (intro impI share) simp
    ultimately show ?thesis
      using nz used base by (auto simp: min_def max_def not_le)
  next
    case False
    then have used: "used \<le> unat target" by (simp add: word_less_nat_alt assms(3))
    have "unat (gp_base_fee next) = max (base - share (unat target - used)) 1"
      using assms(1) False nz delta [of "saturating_sub target (gp_last_block_gas_used current)"]
      by (auto simp: update_base_fee_def Let_def b_def [symmetric] unat_saturating_sub b
          assms(3) max_def word_le_nat_alt MIN_BASE_FEE_def)
    moreover have "share 0 = 0" by (simp add: share_def)
    moreover have "gp_last_block_gas_used next = 0"
      using assms(1) by (auto simp: update_base_fee_def Let_def split: if_splits)
    moreover have "base - base div 8 \<le> base - share (unat target - used)"
      using share [of "unat target - used"] by (intro diff_le_mono2) simp
    moreover have "base - share (unat target - used) \<le> base + base div 8" by simp
    ultimately show ?thesis
      using nz used base eighth by (auto simp: max_def)
  qed
qed

theorem update_base_fee_bounds_witness:
  "unat (gp_base_fee (the (update_base_fee \<lparr>gp_base_fee = 800, gp_last_block_gas_used = 40\<rparr> 20))) \<le> 800 + 100"
proof -
  obtain n where "update_base_fee \<lparr>gp_base_fee = 800, gp_last_block_gas_used = 40\<rparr> 20 = Some n"
    by (simp add: update_base_fee_def)
  from update_base_fee_bounds [OF this refl refl] this show ?thesis by simp
qed

end
