(* ===== verification/Zeno_Mempool.thy ===== *)
theory Zeno_Mempool
  imports Zeno_Hash "HOL-Library.Product_Lexorder"
begin

text \<open>
  The crate \<open>zeno-mempool\<close>: pending transactions indexed by hash, by sender and nonce and by
  fee, with replacement by fee, a limit per sender, a bound on nonce gaps and eviction of the
  cheapest transaction of a full pool. A panic of \<open>expect\<close> is \<open>None\<close>. A \<open>BTreeSet\<close> is
  the list of its elements in increasing order. The iteration order of a \<open>HashMap\<close> is
  unspecified, so the selection takes the values in an order given by its caller.
\<close>

section \<open>State\<close>

definition MAX_MEMPOOL_SIZE :: nat where
  "MAX_MEMPOOL_SIZE = 10000"

definition MAX_PER_SENDER :: nat where
  "MAX_PER_SENDER = 64"

datatype mempool_error =
    Duplicate
  | ReplacementFeeTooLow
  | Full
  | SenderLimitExceeded
  | NonceGap u64 u64

record mempool =
  mp_by_hash :: "(hash32, transaction) hash_map"
  mp_by_sender_nonce :: "(address \<times> u64, hash32) hash_map"
  mp_order :: "(u128 \<times> hash32) list"
  mp_by_sender_count :: "(address, nat) hash_map"
  mp_highest_nonce :: "(address, u64) hash_map"

definition mempool_new :: mempool where
  "mempool_new = \<lparr>mp_by_hash = [], mp_by_sender_nonce = [], mp_order = [], mp_by_sender_count = [],
     mp_highest_nonce = []\<rparr>"

definition bs_insert :: "'a::linorder \<Rightarrow> 'a list \<Rightarrow> 'a list" where
  "bs_insert x xs = (if x \<in> set xs then xs else insort x xs)"

definition bs_remove :: "'a \<Rightarrow> 'a list \<Rightarrow> 'a list" where
  "bs_remove x xs = filter (\<lambda>y. y \<noteq> x) xs"

section \<open>Operations\<close>

abbreviation sender_of :: "transaction \<Rightarrow> address" where
  "sender_of tx \<equiv> tb_sender (tx_body tx)"

abbreviation fee_of :: "transaction \<Rightarrow> u128" where
  "fee_of tx \<equiv> tb_fee (tx_body tx)"

abbreviation key_of :: "transaction \<Rightarrow> address \<times> u64" where
  "key_of tx \<equiv> (tb_sender (tx_body tx), tb_nonce (tx_body tx))"

text \<open>\<open>get(a).copied().unwrap_or(0)\<close>.\<close>

definition sender_count :: "mempool \<Rightarrow> address \<Rightarrow> nat" where
  "sender_count m a = (case map_of (mp_by_sender_count m) a of None \<Rightarrow> 0 | Some c \<Rightarrow> c)"

definition highest_nonce :: "mempool \<Rightarrow> address \<Rightarrow> u64" where
  "highest_nonce m a = (case map_of (mp_highest_nonce m) a of None \<Rightarrow> 0 | Some n \<Rightarrow> n)"

text \<open>The capacity check: the outer \<open>None\<close> is the panic of \<open>expect\<close>.\<close>

definition make_room :: "mempool \<Rightarrow> u128 \<Rightarrow> (mempool_error + mempool) option" where
  "make_room m fee =
    (if length (mp_by_hash m) < MAX_MEMPOOL_SIZE then Some (Inr m)
     else case mp_order m of
       [] \<Rightarrow> Some (Inl Full)
     | (lowest_fee, lowest_hash) # _ \<Rightarrow>
         if fee \<le> lowest_fee then Some (Inl Full)
         else (case map_of (mp_by_hash m) lowest_hash of
             None \<Rightarrow> Some (Inr m)
           | Some evicted \<Rightarrow>
              (case map_of (mp_by_sender_count m) (sender_of evicted) of
                 None \<Rightarrow> None
               | Some c \<Rightarrow> Some (Inr (m\<lparr>mp_by_hash := bt_remove lowest_hash (mp_by_hash m),
                   mp_by_sender_nonce := bt_remove (key_of evicted) (mp_by_sender_nonce m),
                   mp_order := bs_remove (lowest_fee, lowest_hash) (mp_order m),
                   mp_by_sender_count := AList.update (sender_of evicted) (c - 1) (mp_by_sender_count m)\<rparr>)))))"

text \<open>The insertions at the end of \<open>insert\<close>.\<close>

definition place :: "mempool \<Rightarrow> hash32 \<Rightarrow> transaction \<Rightarrow> bool \<Rightarrow> mempool" where
  "place m h tx is_replacement = m\<lparr>
     mp_order := bs_insert (fee_of tx, h) (mp_order m),
     mp_by_sender_nonce := AList.update (key_of tx) h (mp_by_sender_nonce m),
     mp_by_sender_count := (if is_replacement then mp_by_sender_count m
       else AList.update (sender_of tx) (sender_count m (sender_of tx) + 1) (mp_by_sender_count m)),
     mp_highest_nonce := AList.update (sender_of tx)
       (max (highest_nonce m (sender_of tx)) (tb_nonce (tx_body tx))) (mp_highest_nonce m),
     mp_by_hash := AList.update h tx (mp_by_hash m)\<rparr>"

definition mp_insert :: "ext \<Rightarrow> mempool \<Rightarrow> transaction \<Rightarrow> (mempool \<times> (mempool_error + unit)) option" where
  "mp_insert E m tx =
    (let h = tx_id E tx; nonce = tb_nonce (tx_body tx) in
     if contains_key (mp_by_hash m) h then Some (m, Inl Duplicate)
     else case map_of (mp_by_sender_nonce m) (key_of tx) of
       Some existing_hash \<Rightarrow>
        (case map_of (mp_by_hash m) existing_hash of
           None \<Rightarrow> None
         | Some existing \<Rightarrow>
             if fee_of tx \<le> fee_of existing then Some (m, Inl ReplacementFeeTooLow)
             else Some (place (m\<lparr>mp_order := bs_remove (fee_of existing, existing_hash) (mp_order m),
                                 mp_by_hash := bt_remove existing_hash (mp_by_hash m)\<rparr>) h tx True, Inr ()))
     | None \<Rightarrow>
        let limit = saturating_add (highest_nonce m (sender_of tx)) (of_nat MAX_PER_SENDER) in
        if MAX_PER_SENDER \<le> sender_count m (sender_of tx) then Some (m, Inl SenderLimitExceeded)
        else if limit < nonce then Some (m, Inl (NonceGap limit nonce))
        else (case make_room m (fee_of tx) of
            None \<Rightarrow> None
          | Some (Inl e) \<Rightarrow> Some (m, Inl e)
          | Some (Inr m') \<Rightarrow> Some (place m' h tx False, Inr ())))"

definition select_for_block :: "mempool \<Rightarrow> nat \<Rightarrow> transaction list" where
  "select_for_block m limit =
     List.map_filter (\<lambda>(_, h). map_of (mp_by_hash m) h) (take limit (rev (mp_order m)))"

text \<open>The body shared by \<open>remove_committed\<close> and \<open>evict_expired\<close> after \<open>by_hash.remove\<close>.\<close>

definition unlink :: "mempool \<Rightarrow> hash32 \<Rightarrow> transaction \<Rightarrow> mempool" where
  "unlink m h tx = m\<lparr>
     mp_by_hash := bt_remove h (mp_by_hash m),
     mp_by_sender_nonce := bt_remove (key_of tx) (mp_by_sender_nonce m),
     mp_order := bs_remove (fee_of tx, h) (mp_order m),
     mp_by_sender_count := (case map_of (mp_by_sender_count m) (sender_of tx) of
         None \<Rightarrow> mp_by_sender_count m
       | Some c \<Rightarrow> if c - 1 = 0 then bt_remove (sender_of tx) (mp_by_sender_count m)
                  else AList.update (sender_of tx) (c - 1) (mp_by_sender_count m))\<rparr>"

definition remove_step :: "ext \<Rightarrow> mempool \<Rightarrow> transaction \<Rightarrow> mempool" where
  "remove_step E m tx =
     (if contains_key (mp_by_hash m) (tx_id E tx) then unlink m (tx_id E tx) tx else m)"

definition remove_committed :: "ext \<Rightarrow> mempool \<Rightarrow> transaction list \<Rightarrow> mempool" where
  "remove_committed E m transactions = foldl (remove_step E) m transactions"

definition mp_contains :: "mempool \<Rightarrow> hash32 \<Rightarrow> bool" where
  "mp_contains m h = contains_key (mp_by_hash m) h"

definition mp_len :: "mempool \<Rightarrow> nat" where
  "mp_len m = length (mp_by_hash m)"

definition mp_is_empty :: "mempool \<Rightarrow> bool" where
  "mp_is_empty m = (mp_len m = 0)"

definition expired :: "u64 \<Rightarrow> transaction \<Rightarrow> bool" where
  "expired current_height tx = (case tb_valid_until (tx_body tx) of None \<Rightarrow> False
     | Some until \<Rightarrow> until < current_height)"

definition evict_step :: "mempool \<Rightarrow> hash32 \<Rightarrow> mempool" where
  "evict_step m h = (case map_of (mp_by_hash m) h of None \<Rightarrow> m | Some tx \<Rightarrow> unlink m h tx)"

definition evict_expired :: "mempool \<Rightarrow> u64 \<Rightarrow> mempool" where
  "evict_expired m current_height =
     foldl evict_step m (map fst (filter (\<lambda>(_, tx). expired current_height tx) (mp_by_hash m)))"

text \<open>The comparator of \<open>sort_by\<close> does not put \<open>a\<close> after \<open>b\<close>.\<close>

definition priority_le :: "transaction \<Rightarrow> transaction \<Rightarrow> bool" where
  "priority_le a b \<longleftrightarrow> (let a_priority = (1000 \<le> fee_of a); b_priority = (1000 \<le> fee_of b) in
     (a_priority \<and> \<not> b_priority) \<or> (a_priority = b_priority \<and> fee_of b \<le> fee_of a))"

text \<open>\<open>values\<close> lists the values of \<open>by_hash\<close> in the order its iterator yields them.\<close>

definition select_for_block_prioritized :: "transaction list \<Rightarrow> nat \<Rightarrow> u64 \<Rightarrow> transaction list" where
  "select_for_block_prioritized values limit current_height =
     take limit (sort_by priority_le (filter (\<lambda>tx. \<not> expired current_height tx) values))"

section \<open>Sorted sets\<close>

lemma set_bs_insert [simp]: "set (bs_insert x xs) = insert x (set xs)"
  by (auto simp: bs_insert_def set_insort_key)

lemma set_bs_remove [simp]: "set (bs_remove x xs) = set xs - {x}"
  by (auto simp: bs_remove_def)

definition bs_wf :: "'a::linorder list \<Rightarrow> bool" where
  "bs_wf xs \<longleftrightarrow> sorted_wrt (<) xs"

lemma bs_wf_iff: "bs_wf xs \<longleftrightarrow> sorted xs \<and> distinct xs"
  by (simp add: bs_wf_def strict_sorted_iff)

lemma bs_wf_insert [simp]: "bs_wf xs \<Longrightarrow> bs_wf (bs_insert x xs)"
  by (auto simp: bs_wf_iff bs_insert_def sorted_insort distinct_insort)

lemma bs_wf_remove [simp]: "bs_wf xs \<Longrightarrow> bs_wf (bs_remove x xs)"
  by (simp add: bs_wf_def bs_remove_def sorted_wrt_filter)

section \<open>The invariant\<close>

text \<open>The four indices read as functions: the transactions by hash, the hash by sender and nonce,
  the set of fee and hash, the number of transactions and the highest nonce of a sender.\<close>

definition pool_of :: "(hash32 \<rightharpoonup> transaction) \<Rightarrow> address \<Rightarrow> hash32 set" where
  "pool_of P a = {h. \<exists>tx. P h = Some tx \<and> sender_of tx = a}"

definition indexed :: "ext \<Rightarrow> (hash32 \<rightharpoonup> transaction) \<Rightarrow> (address \<times> u64 \<rightharpoonup> hash32) \<Rightarrow>
  (u128 \<times> hash32) set \<Rightarrow> (address \<Rightarrow> nat) \<Rightarrow> (address \<Rightarrow> u64) \<Rightarrow> bool" where
  "indexed E P sn ord cnt high \<longleftrightarrow> finite (dom P) \<and>
     (\<forall>h tx. P h = Some tx \<longrightarrow> tx_id E tx = h \<and> tb_nonce (tx_body tx) \<le> high (sender_of tx)) \<and>
     (\<forall>k h. sn k = Some h \<longleftrightarrow> (\<exists>tx. P h = Some tx \<and> key_of tx = k)) \<and>
     (\<forall>f h. (f, h) \<in> ord \<longleftrightarrow> (\<exists>tx. P h = Some tx \<and> fee_of tx = f)) \<and>
     (\<forall>a. cnt a = card (pool_of P a)) \<and> card (dom P) \<le> MAX_MEMPOOL_SIZE \<and> (\<forall>a. cnt a \<le> MAX_PER_SENDER)"

definition mempool_inv :: "ext \<Rightarrow> mempool \<Rightarrow> bool" where
  "mempool_inv E m \<longleftrightarrow> hm_wf (mp_by_hash m) \<and> hm_wf (mp_by_sender_nonce m) \<and> bs_wf (mp_order m) \<and>
     hm_wf (mp_by_sender_count m) \<and> hm_wf (mp_highest_nonce m) \<and>
     indexed E (map_of (mp_by_hash m)) (map_of (mp_by_sender_nonce m)) (set (mp_order m))
       (sender_count m) (highest_nonce m)"

lemma hm_wf_remove [simp]: "hm_wf m \<Longrightarrow> hm_wf (bt_remove k m)"
  unfolding hm_wf_def bt_remove_def by (rule distinct_map_filter)

lemma hm_wf_update [simp]: "hm_wf m \<Longrightarrow> hm_wf (AList.update k v m)"
  by (simp add: hm_wf_def distinct_update)

lemma length_hm: "hm_wf m \<Longrightarrow> length m = card (dom (map_of m))"
  by (metis distinct_card dom_map_of_conv_image_fst hm_wf_def length_map list.set_map)

lemma finite_pool_of: "finite (dom P) \<Longrightarrow> finite (pool_of P a)"
  by (rule finite_subset [of _ "dom P"]) (auto simp: pool_of_def)

text \<open>Removing and adding one transaction in all indices at once.\<close>

lemma indexed_remove:
  assumes "indexed E P sn ord cnt high" "P h = Some tx"
  shows "indexed E (P(h := None)) (sn(key_of tx := None)) (ord - {(fee_of tx, h)})
    (cnt(sender_of tx := cnt (sender_of tx) - 1)) high"
proof -
  have fin: "finite (dom P)" using assms(1) by (simp add: indexed_def)
  have pool: "pool_of (P(h := None)) a = (if a = sender_of tx then pool_of P a - {h} else pool_of P a)" for a
    using assms(2) by (auto simp: pool_of_def)
  have mem: "h \<in> pool_of P (sender_of tx)" using assms(2) by (auto simp: pool_of_def)
  have same: "h' = h" if "P h' = Some t" "key_of t = key_of tx" for h' t
    using assms that unfolding indexed_def by (metis option.inject)
  have "card (dom (P(h := None))) \<le> card (dom P)"
    using fin by (intro card_mono) auto
  moreover have "card (pool_of (P(h := None)) a) = (cnt(sender_of tx := cnt (sender_of tx) - 1)) a" for a
    using assms(1) mem finite_pool_of [OF fin] by (simp add: pool indexed_def)
  moreover have "(sn(key_of tx := None)) k = Some h' \<longleftrightarrow> (\<exists>t. (P(h := None)) h' = Some t \<and> key_of t = k)" for k h'
  proof (cases "k = key_of tx")
    case True
    then show ?thesis using same [of h'] by auto
  next
    case False
    have "sn k = Some h' \<longleftrightarrow> (\<exists>t. P h' = Some t \<and> key_of t = k)"
      using assms(1) unfolding indexed_def by blast
    then show ?thesis using False assms(2) by auto
  qed
  moreover have "(f, h') \<in> ord - {(fee_of tx, h)} \<longleftrightarrow> (\<exists>t. (P(h := None)) h' = Some t \<and> fee_of t = f)" for f h'
  proof -
    have "(f, h') \<in> ord \<longleftrightarrow> (\<exists>t. P h' = Some t \<and> fee_of t = f)"
      using assms(1) unfolding indexed_def by blast
    then show ?thesis using assms(2) by auto
  qed
  ultimately show ?thesis
    using assms(1) fin le_trans [OF _ , of _ "card (dom P)" MAX_MEMPOOL_SIZE] unfolding indexed_def
    by (auto intro: diff_le_self [THEN le_trans])
qed

lemma indexed_add:
  assumes "indexed E P sn ord cnt high" "P h = None" "h = tx_id E tx" "sn (key_of tx) = None"
    and "card (dom P) < MAX_MEMPOOL_SIZE" "cnt (sender_of tx) < MAX_PER_SENDER"
  shows "indexed E (P(h \<mapsto> tx)) (sn(key_of tx \<mapsto> h)) (insert (fee_of tx, h) ord)
    (cnt(sender_of tx := cnt (sender_of tx) + 1))
    (high(sender_of tx := max (high (sender_of tx)) (tb_nonce (tx_body tx))))"
proof -
  have fin: "finite (dom P)" using assms(1) by (simp add: indexed_def)
  have pool: "pool_of (P(h \<mapsto> tx)) a = (if a = sender_of tx then insert h (pool_of P a) else pool_of P a)" for a
    using assms(2) by (auto simp: pool_of_def)
  have new: "h \<notin> pool_of P a" for a using assms(2) by (auto simp: pool_of_def)
  have free: "key_of t \<noteq> key_of tx" if "P h' = Some t" for h' t
    using assms(1,4) that unfolding indexed_def by (metis option.distinct(1))
  have size: "card (dom (P(h \<mapsto> tx))) \<le> MAX_MEMPOOL_SIZE"
    using fin assms(2,5) by (simp add: domIff)
  have counts: "card (pool_of (P(h \<mapsto> tx)) a) = (cnt(sender_of tx := cnt (sender_of tx) + 1)) a" for a
    using assms(1) new finite_pool_of [OF fin] by (simp add: pool indexed_def)
  have keys: "(sn(key_of tx \<mapsto> h)) k = Some h' \<longleftrightarrow> (\<exists>t. (P(h \<mapsto> tx)) h' = Some t \<and> key_of t = k)" for k h'
  proof (cases "k = key_of tx")
    case True
    then show ?thesis using free [of h'] by auto
  next
    case False
    have "sn k = Some h' \<longleftrightarrow> (\<exists>t. P h' = Some t \<and> key_of t = k)"
      using assms(1) unfolding indexed_def by blast
    then show ?thesis using False assms(2) by auto
  qed
  have order: "(f, h') \<in> insert (fee_of tx, h) ord \<longleftrightarrow> (\<exists>t. (P(h \<mapsto> tx)) h' = Some t \<and> fee_of t = f)" for f h'
  proof -
    have "(f, h') \<in> ord \<longleftrightarrow> (\<exists>t. P h' = Some t \<and> fee_of t = f)"
      using assms(1) unfolding indexed_def by blast
    then show ?thesis using assms(2) by auto
  qed
  have nonces: "\<forall>h' t. (P(h \<mapsto> tx)) h' = Some t \<longrightarrow> tx_id E t = h' \<and> tb_nonce (tx_body t)
      \<le> (high(sender_of tx := max (high (sender_of tx)) (tb_nonce (tx_body tx)))) (sender_of t)"
  proof (intro allI impI)
    fix h' t
    assume t: "(P(h \<mapsto> tx)) h' = Some t"
    show "tx_id E t = h' \<and> tb_nonce (tx_body t)
        \<le> (high(sender_of tx := max (high (sender_of tx)) (tb_nonce (tx_body tx)))) (sender_of t)"
    proof (cases "h' = h")
      case True
      then show ?thesis using t assms(3) by simp
    next
      case False
      then have "tx_id E t = h' \<and> tb_nonce (tx_body t) \<le> high (sender_of t)"
        using t assms(1) unfolding indexed_def by simp
      then show ?thesis by (auto intro: max.coboundedI1)
    qed
  qed
  have limit: "(cnt(sender_of tx := cnt (sender_of tx) + 1)) a \<le> MAX_PER_SENDER" for a
  proof -
    have "cnt a \<le> MAX_PER_SENDER" using assms(1) unfolding indexed_def by blast
    then show ?thesis using assms(6) by simp
  qed
  show ?thesis
    unfolding indexed_def
  proof (intro conjI)
    show "finite (dom (P(h \<mapsto> tx)))" using fin by simp
  qed (rule nonces size | (intro allI, rule keys order limit counts [symmetric]))+
qed

lemma indexed_sender: "indexed E P sn ord cnt high \<Longrightarrow> card (pool_of P a) \<le> MAX_PER_SENDER"
  unfolding indexed_def by metis

lemma indexed_count_pos: "indexed E P sn ord cnt high \<Longrightarrow> P h = Some tx \<Longrightarrow> 0 < cnt (sender_of tx)"
  using finite_pool_of [of P "sender_of tx"] by (auto simp: indexed_def card_gt_0_iff pool_of_def)

lemma sender_count_update [simp]:
  "sender_count (m\<lparr>mp_by_sender_count := AList.update a c (mp_by_sender_count m)\<rparr>) = (sender_count m)(a := c)"
  by (auto simp: sender_count_def update_conv' fun_eq_iff)

lemma mempool_inv_new: "mempool_inv E mempool_new"
  by (simp add: mempool_inv_def mempool_new_def hm_wf_def bs_wf_def indexed_def pool_of_def
      sender_count_def highest_nonce_def fun_eq_iff)

text \<open>The count of a sender after a removal, with and without the entry of a count of zero.\<close>

lemma count_after_remove:
  assumes "sc = mp_by_sender_count m" "map_of sc a = Some c"
  shows "(case map_of (if c - 1 = 0 then bt_remove a sc else AList.update a (c - 1) sc) b of
      None \<Rightarrow> 0 | Some c \<Rightarrow> c) = ((sender_count m)(a := sender_count m a - 1)) b"
  using assms by (auto simp: sender_count_def update_conv')

lemma unlink_inv:
  assumes "mempool_inv E m" "map_of (mp_by_hash m) h = Some t" "tx_body t = tx_body tx"
  shows "mempool_inv E (unlink m h tx)"
proof -
  have idx: "indexed E (map_of (mp_by_hash m)) (map_of (mp_by_sender_nonce m)) (set (mp_order m))
      (sender_count m) (highest_nonce m)" using assms(1) by (simp add: mempool_inv_def)
  have "0 < sender_count m (sender_of tx)" using indexed_count_pos [OF idx assms(2)] assms(3) by simp
  then obtain c where c: "map_of (mp_by_sender_count m) (sender_of tx) = Some c"
    by (auto simp: sender_count_def split: option.splits)
  have "sender_count (unlink m h tx) = (sender_count m)(sender_of tx := sender_count m (sender_of tx) - 1)"
    using c by (auto simp: sender_count_def unlink_def fun_eq_iff update_conv')
  moreover have "highest_nonce (unlink m h tx) = highest_nonce m"
    by (simp add: fun_eq_iff highest_nonce_def unlink_def)
  ultimately have "indexed E (map_of (mp_by_hash (unlink m h tx))) (map_of (mp_by_sender_nonce (unlink m h tx)))
      (set (mp_order (unlink m h tx))) (sender_count (unlink m h tx)) (highest_nonce (unlink m h tx))"
    using indexed_remove [OF idx assms(2)] assms(3) by (simp add: unlink_def)
  then show ?thesis
    using assms(1) by (auto simp: mempool_inv_def unlink_def split: option.splits)
qed

lemma make_room_ok:
  assumes "mempool_inv E m"
  shows "\<exists>r. make_room m fee = Some r \<and> (\<forall>m'. r = Inr m' \<longrightarrow> mempool_inv E m' \<and>
    length (mp_by_hash m') < MAX_MEMPOOL_SIZE \<and> map_of (mp_by_hash m') \<subseteq>\<^sub>m map_of (mp_by_hash m) \<and>
    map_of (mp_by_sender_nonce m') \<subseteq>\<^sub>m map_of (mp_by_sender_nonce m) \<and>
    (\<forall>a. sender_count m' a \<le> sender_count m a) \<and> mp_highest_nonce m' = mp_highest_nonce m)"
proof (cases "length (mp_by_hash m) < MAX_MEMPOOL_SIZE")
  case True
  then show ?thesis using assms by (simp add: make_room_def)
next
  case False
  have idx: "indexed E (map_of (mp_by_hash m)) (map_of (mp_by_sender_nonce m)) (set (mp_order m))
      (sender_count m) (highest_nonce m)" using assms(1) by (simp add: mempool_inv_def)
  show ?thesis
  proof (cases "mp_order m")
    case Nil
    then show ?thesis using False by (simp add: make_room_def)
  next
    case (Cons e es)
    obtain lf lh where e: "e = (lf, lh)" by (cases e)
    have "(lf, lh) \<in> set (mp_order m)" by (simp add: Cons e)
    then obtain ev where ev: "map_of (mp_by_hash m) lh = Some ev" "fee_of ev = lf"
      using idx unfolding indexed_def by blast
    have "0 < sender_count m (sender_of ev)" using indexed_count_pos [OF idx ev(1)] .
    then obtain c where c: "map_of (mp_by_sender_count m) (sender_of ev) = Some c"
      by (auto simp: sender_count_def split: option.splits)
    let ?m = "m\<lparr>mp_by_hash := bt_remove lh (mp_by_hash m),
      mp_by_sender_nonce := bt_remove (key_of ev) (mp_by_sender_nonce m),
      mp_order := bs_remove (lf, lh) (mp_order m),
      mp_by_sender_count := AList.update (sender_of ev) (c - 1) (mp_by_sender_count m)\<rparr>"
    have cnt: "sender_count ?m = (sender_count m)(sender_of ev := sender_count m (sender_of ev) - 1)"
      using c by (auto simp: sender_count_def fun_eq_iff update_conv')
    have high: "highest_nonce ?m = highest_nonce m" by (simp add: fun_eq_iff highest_nonce_def)
    have inv: "mempool_inv E ?m"
      using assms indexed_remove [OF idx ev(1)] unfolding mempool_inv_def cnt high by (simp add: ev(2))
    have "card (dom (map_of (mp_by_hash m))) \<le> MAX_MEMPOOL_SIZE" using idx by (simp add: indexed_def)
    moreover have "length (mp_by_hash ?m) < length (mp_by_hash m)"
      using ev(1) unfolding bt_remove_def
      by (auto dest!: map_of_SomeD intro: length_filter_less)
    ultimately have "length (mp_by_hash ?m) < MAX_MEMPOOL_SIZE"
      using assms length_hm [of "mp_by_hash m"] by (simp add: mempool_inv_def)
    then show ?thesis
      using False Cons e ev(1) c inv cnt by (auto simp: make_room_def map_le_def)
  qed
qed

lemma place_inv_new:
  assumes "mempool_inv E m" "map_of (mp_by_hash m) (tx_id E tx) = None"
    and "map_of (mp_by_sender_nonce m) (key_of tx) = None"
    and "length (mp_by_hash m) < MAX_MEMPOOL_SIZE" "sender_count m (sender_of tx) < MAX_PER_SENDER"
  shows "mempool_inv E (place m (tx_id E tx) tx False)"
proof -
  let ?m = "place m (tx_id E tx) tx False"
  have idx: "indexed E (map_of (mp_by_hash m)) (map_of (mp_by_sender_nonce m)) (set (mp_order m))
      (sender_count m) (highest_nonce m)" using assms(1) by (simp add: mempool_inv_def)
  have "card (dom (map_of (mp_by_hash m))) < MAX_MEMPOOL_SIZE"
    using assms(1,4) by (simp add: mempool_inv_def length_hm)
  from indexed_add [OF idx assms(2) refl assms(3) this assms(5)]
  have "indexed E (map_of (mp_by_hash ?m)) (map_of (mp_by_sender_nonce ?m)) (set (mp_order ?m))
      ((sender_count m)(sender_of tx := sender_count m (sender_of tx) + 1))
      ((highest_nonce m)(sender_of tx := max (highest_nonce m (sender_of tx)) (tb_nonce (tx_body tx))))"
    by (simp add: place_def update_conv')
  moreover have "sender_count ?m = (sender_count m)(sender_of tx := sender_count m (sender_of tx) + 1)"
    by (auto simp: sender_count_def place_def update_conv' fun_eq_iff)
  moreover have "highest_nonce ?m
      = (highest_nonce m)(sender_of tx := max (highest_nonce m (sender_of tx)) (tb_nonce (tx_body tx)))"
    by (auto simp: highest_nonce_def place_def update_conv' fun_eq_iff)
  ultimately show ?thesis
    using assms(1) by (simp add: mempool_inv_def place_def)
qed

lemma place_inv_replace:
  assumes "mempool_inv E m" "map_of (mp_by_hash m) (tx_id E tx) = None"
    and "map_of (mp_by_sender_nonce m) (key_of tx) = Some h" "map_of (mp_by_hash m) h = Some old"
  shows "mempool_inv E (place (m\<lparr>mp_order := bs_remove (fee_of old, h) (mp_order m),
    mp_by_hash := bt_remove h (mp_by_hash m)\<rparr>) (tx_id E tx) tx True)"
proof -
  let ?s = "sender_of tx"
  let ?m = "place (m\<lparr>mp_order := bs_remove (fee_of old, h) (mp_order m),
    mp_by_hash := bt_remove h (mp_by_hash m)\<rparr>) (tx_id E tx) tx True"
  have idx: "indexed E (map_of (mp_by_hash m)) (map_of (mp_by_sender_nonce m)) (set (mp_order m))
      (sender_count m) (highest_nonce m)" using assms(1) by (simp add: mempool_inv_def)
  have old: "key_of old = key_of tx"
    using idx assms(3,4) unfolding indexed_def by (metis option.inject)
  have pos: "0 < sender_count m ?s" using indexed_count_pos [OF idx assms(4)] old by simp
  note idx1 = indexed_remove [OF idx assms(4)]
  have "h \<in> dom (map_of (mp_by_hash m))" "finite (dom (map_of (mp_by_hash m)))"
    using assms(4) idx by (auto simp: indexed_def)
  then have "card (dom (map_of (mp_by_hash m)) - {h}) < card (dom (map_of (mp_by_hash m)))"
    by (meson card_Diff1_less)
  then have room: "card (dom ((map_of (mp_by_hash m))(h := None))) < MAX_MEMPOOL_SIZE"
    using idx by (simp add: indexed_def)
  have lim: "sender_count m ?s - 1 < MAX_PER_SENDER" using pos idx
    by (auto simp: indexed_def MAX_PER_SENDER_def intro: less_le_trans [OF diff_less])
  have "indexed E (map_of (mp_by_hash ?m)) (map_of (mp_by_sender_nonce ?m)) (set (mp_order ?m))
      (((sender_count m)(?s := sender_count m ?s - 1))(?s := sender_count m ?s - 1 + 1))
      ((highest_nonce m)(?s := max (highest_nonce m ?s) (tb_nonce (tx_body tx))))"
    using indexed_add [OF idx1, of "tx_id E tx" tx] assms(2) room lim old
    by (simp add: place_def update_conv' highest_nonce_def)
  moreover have "sender_count ?m = ((sender_count m)(?s := sender_count m ?s - 1))(?s := sender_count m ?s - 1 + 1)"
    using pos by (auto simp: sender_count_def place_def fun_eq_iff)
  moreover have "highest_nonce ?m = (highest_nonce m)(?s := max (highest_nonce m ?s) (tb_nonce (tx_body tx)))"
    by (auto simp: highest_nonce_def place_def update_conv' fun_eq_iff)
  ultimately show ?thesis
    using assms(1) by (simp add: mempool_inv_def place_def)
qed

lemma insert_ok:
  assumes "mempool_inv E m"
  shows "\<exists>m' r. mp_insert E m tx = Some (m', r) \<and> mempool_inv E m' \<and> (\<forall>e. r = Inl e \<longrightarrow> m' = m)"
proof (cases "map_of (mp_by_hash m) (tx_id E tx)")
  case (Some t)
  then show ?thesis using assms by (simp add: mp_insert_def contains_key_def Let_def)
next
  case None
  have idx: "indexed E (map_of (mp_by_hash m)) (map_of (mp_by_sender_nonce m)) (set (mp_order m))
      (sender_count m) (highest_nonce m)" using assms(1) by (simp add: mempool_inv_def)
  show ?thesis
  proof (cases "map_of (mp_by_sender_nonce m) (key_of tx)")
    case (Some h)
    then obtain old where old: "map_of (mp_by_hash m) h = Some old"
      using idx unfolding indexed_def by blast
    show ?thesis
      using None Some old assms place_inv_replace [OF assms None Some old]
      by (simp add: mp_insert_def contains_key_def Let_def)
  next
    case free: None
    obtain r where r: "make_room m (fee_of tx) = Some r" and ok: "\<forall>m'. r = Inr m' \<longrightarrow> mempool_inv E m' \<and>
      length (mp_by_hash m') < MAX_MEMPOOL_SIZE \<and> map_of (mp_by_hash m') \<subseteq>\<^sub>m map_of (mp_by_hash m) \<and>
      map_of (mp_by_sender_nonce m') \<subseteq>\<^sub>m map_of (mp_by_sender_nonce m) \<and>
      (\<forall>a. sender_count m' a \<le> sender_count m a) \<and> mp_highest_nonce m' = mp_highest_nonce m"
      using make_room_ok [OF assms, of "fee_of tx"] by blast
    have "mempool_inv E (place m' (tx_id E tx) tx False)"
      if "r = Inr m'" "sender_count m (sender_of tx) < MAX_PER_SENDER" for m'
    proof (rule place_inv_new)
      show "map_of (mp_by_hash m') (tx_id E tx) = None"
        using ok that(1) None by (metis domIff map_le_implies_dom_le subsetD)
      show "map_of (mp_by_sender_nonce m') (key_of tx) = None"
        using ok that(1) free by (metis domIff map_le_implies_dom_le subsetD)
    qed (use ok that in \<open>auto intro: le_less_trans\<close>)
    then show ?thesis
      using None free r assms
      by (cases r) (auto simp: mp_insert_def contains_key_def Let_def not_le)
  qed
qed

text \<open>Two transactions with one identifier have one body: the identifier is a digest.\<close>

definition ids_bind :: "ext \<Rightarrow> transaction set \<Rightarrow> bool" where
  "ids_bind E T \<longleftrightarrow> (\<forall>t\<in>T. \<forall>u\<in>T. tx_id E t = tx_id E u \<longrightarrow> tx_body t = tx_body u)"

definition pool_txs :: "mempool \<Rightarrow> transaction set" where
  "pool_txs m = snd ` set (mp_by_hash m)"

lemma ids_bind_mono: "ids_bind E T \<Longrightarrow> U \<subseteq> T \<Longrightarrow> ids_bind E U"
  unfolding ids_bind_def by blast

lemma remove_step_inv:
  assumes "mempool_inv E m" "ids_bind E (insert tx (pool_txs m))"
  shows "mempool_inv E (remove_step E m tx) \<and> pool_txs (remove_step E m tx) \<subseteq> pool_txs m"
proof (cases "map_of (mp_by_hash m) (tx_id E tx)")
  case None
  then show ?thesis using assms by (simp add: remove_step_def contains_key_def)
next
  case (Some t)
  have "tx_id E t = tx_id E tx" using assms(1) Some by (auto simp: mempool_inv_def indexed_def)
  moreover have "t \<in> pool_txs m" using Some by (force simp: pool_txs_def dest: map_of_SomeD)
  ultimately have "tx_body t = tx_body tx" using assms(2) unfolding ids_bind_def by blast
  then have "mempool_inv E (unlink m (tx_id E tx) tx)" using unlink_inv [OF assms(1) Some] by simp
  then show ?thesis
    using Some by (auto simp: remove_step_def contains_key_def unlink_def pool_txs_def bt_remove_def)
qed

lemma remove_committed_inv:
  assumes "mempool_inv E m" "ids_bind E (set txs \<union> pool_txs m)"
  shows "mempool_inv E (remove_committed E m txs)"
  using assms
proof (induction txs arbitrary: m)
  case (Cons tx txs)
  have one: "mempool_inv E (remove_step E m tx) \<and> pool_txs (remove_step E m tx) \<subseteq> pool_txs m"
    using Cons.prems(1) ids_bind_mono [OF Cons.prems(2)] by (intro remove_step_inv) auto
  moreover from this have "ids_bind E (set txs \<union> pool_txs (remove_step E m tx))"
    by (intro ids_bind_mono [OF Cons.prems(2)]) auto
  ultimately show ?case using Cons.IH [of "remove_step E m tx"] by (simp add: remove_committed_def)
qed (simp add: remove_committed_def)

lemma evict_steps_inv: "mempool_inv E m \<Longrightarrow> mempool_inv E (foldl evict_step m hs)"
  by (induction hs arbitrary: m) (auto simp: evict_step_def split: option.splits intro: unlink_inv)

lemma evict_expired_inv: "mempool_inv E m \<Longrightarrow> mempool_inv E (evict_expired m h)"
  by (simp add: evict_expired_def evict_steps_inv)

inductive mempool_step :: "ext \<Rightarrow> mempool \<Rightarrow> mempool \<Rightarrow> bool" for E where
  insert: "mp_insert E m tx = Some (m', r) \<Longrightarrow> mempool_step E m m'"
| commit: "ids_bind E (set txs \<union> pool_txs m) \<Longrightarrow> mempool_step E m (remove_committed E m txs)"
| evict: "mempool_step E m (evict_expired m h)"

lemma mempool_step_inv:
  assumes "mempool_inv E m" "mempool_step E m m'"
  shows "mempool_inv E m'"
  using assms(2,1)
proof (cases rule: mempool_step.cases)
  case (insert tx r)
  then show ?thesis using insert_ok [OF assms(1), of tx] by auto
qed (auto intro: remove_committed_inv evict_expired_inv)

interpretation pool_machine: state_machine "\<lambda>m. m = mempool_new" "mempool_step E" "mempool_inv E" for E
  by unfold_locales (auto intro: mempool_inv_new mempool_step_inv)

section \<open>Selection\<close>

lemma priority_le_fee: "priority_le a b \<longleftrightarrow> fee_of b \<le> fee_of a"
  by (auto simp: priority_le_def Let_def)

lemma sorted_selection: "sorted_wrt priority_le (sort_by priority_le xs)"
  by (rule sorted_sort_by) (auto simp: priority_le_fee)

lemma evict_steps_pool:
  "mp_by_hash (foldl evict_step m hs) = filter (\<lambda>e. fst e \<notin> set hs) (mp_by_hash m)"
proof (induction hs arbitrary: m)
  case (Cons h hs)
  have "mp_by_hash (evict_step m h) = filter (\<lambda>e. fst e \<noteq> h) (mp_by_hash m)"
  proof (cases "map_of (mp_by_hash m) h")
    case None
    then have "\<forall>e\<in>set (mp_by_hash m). fst e \<noteq> h" by (force simp: map_of_eq_None_iff)
    then show ?thesis using None by (simp add: evict_step_def)
  next
    case (Some t)
    then show ?thesis by (simp add: evict_step_def unlink_def bt_remove_def)
  qed
  then show ?case using Cons.IH [of "evict_step m h"] by (simp add: conj_commute)
qed simp

text \<open>Eviction removes exactly the expired transactions.\<close>

lemma evict_expired_pool:
  assumes "hm_wf (mp_by_hash m)"
  shows "mp_by_hash (evict_expired m h) = filter (\<lambda>(_, tx). \<not> expired h tx) (mp_by_hash m)"
proof -
  have "fst e \<notin> set (map fst (filter (\<lambda>(_, tx). expired h tx) (mp_by_hash m))) \<longleftrightarrow> \<not> expired h (snd e)"
    if "e \<in> set (mp_by_hash m)" for e
    using that assms unfolding hm_wf_def by (force simp: distinct_map inj_on_def)
  then show ?thesis
    unfolding evict_expired_def evict_steps_pool by (intro filter_cong) auto
qed

text \<open>Sample data of the witnesses.\<close>

definition sample_pool :: mempool where
  "sample_pool = (case mp_insert sample_ext mempool_new \<lparr>tx_body = \<lparr>tb_chain_id = ChainId ''z'',
     tb_sender = Address 7, tb_recipient = Address 2, tb_amount = 5, tb_nonce = 1, tb_fee = 1, tb_evm = None,
     tb_memo = None, tb_valid_until = None\<rparr>, tx_public_key = [5], tx_signature = [24]\<rparr> of
       None \<Rightarrow> mempool_new | Some (m, _) \<Rightarrow> m)"

definition sample_cheap :: transaction where
  "sample_cheap = \<lparr>tx_body = \<lparr>tb_chain_id = ChainId ''z'', tb_sender = Address 7,
     tb_recipient = Address 2, tb_amount = 5, tb_nonce = 1, tb_fee = 1, tb_evm = None,
     tb_memo = None, tb_valid_until = None\<rparr>, tx_public_key = [5], tx_signature = [24]\<rparr>"

definition sample_dear :: transaction where
  "sample_dear = sample_cheap\<lparr>tx_body := (tx_body sample_cheap)\<lparr>tb_nonce := 2, tb_fee := 9\<rparr>\<rparr>"

lemma sample_pool_step: "mempool_step sample_ext mempool_new sample_pool"
proof -
  obtain m r where "mp_insert sample_ext mempool_new sample_cheap = Some (m, r)"
    using insert_ok [OF mempool_inv_new] by blast
  then show ?thesis
    using mempool_step.insert [of sample_ext mempool_new sample_cheap m r]
    by (simp add: sample_pool_def sample_cheap_def [symmetric])
qed

section \<open>Properties\<close>

text \<open>C26: in every reachable mempool the indices agree: a transaction is filed under its identifier
  and under its sender and nonce, the order holds exactly its fee and identifier, the counts are
  right, the pool holds at most \<open>MAX_MEMPOOL_SIZE\<close> transactions and at most \<open>MAX_PER_SENDER\<close> of
  a sender. So \<open>insert\<close> never panics, and an insert that returns an error changes nothing.\<close>

theorem mempool_reachable_consistent:
  assumes "(mempool_step E)\<^sup>*\<^sup>* mempool_new m"
  shows "mempool_inv E m \<and> mp_len m \<le> MAX_MEMPOOL_SIZE \<and>
    (\<forall>a. length (filter (\<lambda>(_, tx). sender_of tx = a) (mp_by_hash m)) \<le> MAX_PER_SENDER) \<and>
    (\<exists>m' r. mp_insert E m tx = Some (m', r) \<and> (\<forall>e. r = Inl e \<longrightarrow> m' = m))"
proof -
  have inv: "mempool_inv E m" using pool_machine.reachable_inv [OF refl assms] .
  then have wf: "hm_wf (mp_by_hash m)" and idx: "indexed E (map_of (mp_by_hash m))
      (map_of (mp_by_sender_nonce m)) (set (mp_order m)) (sender_count m) (highest_nonce m)"
    by (simp_all add: mempool_inv_def)
  have "length (filter (\<lambda>(_, tx). sender_of tx = a) (mp_by_hash m)) \<le> MAX_PER_SENDER" for a
  proof -
    let ?es = "filter (\<lambda>(_, tx). sender_of tx = a) (mp_by_hash m)"
    have "distinct (map fst ?es)" using wf unfolding hm_wf_def by (rule distinct_map_filter)
    then have "length ?es = card (set (map fst ?es))" using distinct_card [of "map fst ?es"] by simp
    also have "set (map fst ?es) = pool_of (map_of (mp_by_hash m)) a"
      using wf by (force simp: pool_of_def hm_wf_def)
    finally show ?thesis using indexed_sender [OF idx] by simp
  qed
  then show ?thesis
    using inv insert_ok [OF inv, of tx] idx length_hm [OF wf] by (auto simp: mp_len_def indexed_def)
qed

theorem mempool_reachable_consistent_witness:
  "mempool_inv sample_ext sample_pool"
  using mempool_reachable_consistent [of sample_ext sample_pool] sample_pool_step by blast

text \<open>A successful insert files the transaction as the only one of its sender and nonce; every
  other transaction stays, except one that paid a strictly lower fee and either had the same sender
  and nonce or was the cheapest of a full pool.\<close>

theorem insert_replaces_cheaper:
  assumes "mempool_inv E m" and "mp_insert E m tx = Some (m', Inr ())"
  shows "map_of (mp_by_hash m') (tx_id E tx) = Some tx \<and>
    map_of (mp_by_sender_nonce m') (key_of tx) = Some (tx_id E tx) \<and>
    (\<forall>h t. map_of (mp_by_hash m') h = Some t \<and> t \<noteq> tx \<longrightarrow> map_of (mp_by_hash m) h = Some t) \<and>
    (\<forall>h t. map_of (mp_by_hash m) h = Some t \<and> map_of (mp_by_hash m') h \<noteq> Some t \<longrightarrow>
       fee_of t < fee_of tx \<and> (key_of t = key_of tx \<or>
         (mp_len m = MAX_MEMPOOL_SIZE \<and> (\<forall>h' u. map_of (mp_by_hash m) h' = Some u \<longrightarrow> fee_of t \<le> fee_of u))))"
proof -
  have idx: "indexed E (map_of (mp_by_hash m)) (map_of (mp_by_sender_nonce m)) (set (mp_order m))
      (sender_count m) (highest_nonce m)" using assms(1) by (simp add: mempool_inv_def)
  have absent: "map_of (mp_by_hash m) (tx_id E tx) = None"
    using assms(2) by (auto simp: mp_insert_def contains_key_def Let_def split: if_splits)
  show ?thesis
  proof (cases "map_of (mp_by_sender_nonce m) (key_of tx)")
    case (Some h)
    then obtain old where old: "map_of (mp_by_hash m) h = Some old" "key_of old = key_of tx"
      using idx unfolding indexed_def by blast
    have fee: "fee_of old < fee_of tx" and m': "m' = place (m\<lparr>mp_order := bs_remove (fee_of old, h) (mp_order m),
        mp_by_hash := bt_remove h (mp_by_hash m)\<rparr>) (tx_id E tx) tx True"
      using assms(2) absent Some old(1)
      by (auto simp: mp_insert_def contains_key_def Let_def not_le split: if_splits)
    show ?thesis
      using absent old fee by (auto simp: m' place_def update_conv' split: if_splits)
  next
    case None
    obtain m1 where room: "make_room m (fee_of tx) = Some (Inr m1)" and m': "m' = place m1 (tx_id E tx) tx False"
      using assms(2) absent None
      by (auto simp: mp_insert_def contains_key_def Let_def split: if_splits option.splits sum.splits)
    have gone: "fee_of t < fee_of tx \<and> mp_len m = MAX_MEMPOOL_SIZE \<and>
        (\<forall>h' u. map_of (mp_by_hash m) h' = Some u \<longrightarrow> fee_of t \<le> fee_of u)"
      if "map_of (mp_by_hash m) h = Some t" "map_of (mp_by_hash m1) h \<noteq> Some t" for h t
    proof -
      have full: "\<not> length (mp_by_hash m) < MAX_MEMPOOL_SIZE"
        using room that by (auto simp: make_room_def)
      obtain lf lh es where ord: "mp_order m = (lf, lh) # es" and lf: "lf < fee_of tx"
        and m1: "\<forall>k. k \<noteq> lh \<longrightarrow> map_of (mp_by_hash m1) k = map_of (mp_by_hash m) k"
        using room full by (auto simp: make_room_def not_le split: list.splits if_splits option.splits)
      have "h = lh" using that m1 by metis
      moreover have "(lf, lh) \<in> set (mp_order m)" by (simp add: ord)
      then obtain v where "map_of (mp_by_hash m) lh = Some v" "fee_of v = lf"
        using idx unfolding indexed_def by blast
      ultimately have "fee_of t = lf" using that by simp
      moreover have "lf \<le> fee_of u" if "map_of (mp_by_hash m) h' = Some u" for h' u
      proof -
        have "(fee_of u, h') \<in> set (mp_order m)" using idx that unfolding indexed_def by blast
        then show ?thesis
          using assms(1) by (auto simp: mempool_inv_def bs_wf_def ord less_prod_def)
      qed
      moreover have "mp_len m = MAX_MEMPOOL_SIZE"
        using full idx length_hm [of "mp_by_hash m"] assms(1)
        by (simp add: mp_len_def mempool_inv_def indexed_def)
      ultimately show ?thesis using lf by simp
    qed
    have sub: "map_of (mp_by_hash m1) \<subseteq>\<^sub>m map_of (mp_by_hash m)"
      using make_room_ok [OF assms(1), of "fee_of tx"] room by auto
    then have "map_of (mp_by_hash m) h = Some t" if "map_of (mp_by_hash m1) h = Some t" for h t
      using that by (metis domI map_le_def)
    then show ?thesis
      using gone absent by (auto simp: m' place_def update_conv' split: if_splits)
  qed
qed

theorem insert_replaces_cheaper_witness:
  "map_of (mp_by_hash (fst (the (mp_insert sample_ext mempool_new sample_cheap)))) (tx_id sample_ext sample_cheap)
     = Some sample_cheap"
proof -
  obtain m where m: "mp_insert sample_ext mempool_new sample_cheap = Some (m, Inr ())"
    by (simp add: mp_insert_def mempool_new_def contains_key_def make_room_def MAX_MEMPOOL_SIZE_def
        MAX_PER_SENDER_def sender_count_def highest_nonce_def saturating_add_def sample_cheap_def Let_def)
  from insert_replaces_cheaper [OF mempool_inv_new m] show ?thesis by (simp add: m)
qed

text \<open>The selection for a block returns as many unexpired transactions as it may, sorted by
  decreasing fee, and none that it leaves out pays more than one it takes. The priority lane adds
  nothing to the order of the fees, and the nonces of a sender play no part in it.\<close>

theorem selection_by_fee:
  assumes "mset values = mset (map snd (mp_by_hash m))"
    and "chosen = select_for_block_prioritized values limit h"
  shows "sorted_wrt (\<lambda>a b. fee_of b \<le> fee_of a) chosen \<and>
    length chosen = min limit (length (filter (\<lambda>(_, tx). \<not> expired h tx) (mp_by_hash m))) \<and>
    (\<exists>rest. mset chosen + mset rest = mset (map snd (filter (\<lambda>(_, tx). \<not> expired h tx) (mp_by_hash m))) \<and>
       (\<forall>a\<in>set chosen. \<forall>b\<in>set rest. fee_of b \<le> fee_of a))"
proof -
  let ?all = "sort_by priority_le (filter (\<lambda>tx. \<not> expired h tx) values)"
  have bag: "mset ?all = mset (map snd (filter (\<lambda>(_, tx). \<not> expired h tx) (mp_by_hash m)))"
  proof -
    have "mset ?all = filter_mset (\<lambda>tx. \<not> expired h tx) (mset (map snd (mp_by_hash m)))"
      using assms(1) by simp
    also have "\<dots> = mset (filter (\<lambda>tx. \<not> expired h tx) (map snd (mp_by_hash m)))" by (simp only: mset_filter)
    also have "filter (\<lambda>tx. \<not> expired h tx) (map snd (mp_by_hash m))
        = map snd (filter (\<lambda>(_, tx). \<not> expired h tx) (mp_by_hash m))"
      by (simp add: filter_map comp_def case_prod_beta')
    finally show ?thesis .
  qed
  have sorted: "sorted_wrt (\<lambda>a b. fee_of b \<le> fee_of a) ?all"
    using sorted_selection by (simp add: priority_le_fee [abs_def])
  have parts: "?all = chosen @ drop limit ?all"
    by (simp add: assms(2) select_for_block_prioritized_def)
  have "mset chosen + mset (drop limit ?all) = mset ?all"
    by (metis parts mset_append)
  moreover have "sorted_wrt (\<lambda>a b. fee_of b \<le> fee_of a) (chosen @ drop limit ?all)"
    using sorted parts by metis
  moreover have "length chosen = min limit (length (filter (\<lambda>(_, tx). \<not> expired h tx) (mp_by_hash m)))"
    using mset_eq_length [OF bag] by (simp add: assms(2) select_for_block_prioritized_def min.commute)
  ultimately show ?thesis
    unfolding bag [symmetric] sorted_wrt_append by blast
qed

theorem selection_by_fee_witness:
  "sorted_wrt (\<lambda>a b. fee_of b \<le> fee_of a) (select_for_block_prioritized [sample_cheap, sample_dear] 2 9)"
  using selection_by_fee [of "[sample_cheap, sample_dear]"
      "mempool_new\<lparr>mp_by_hash := [(Hash32 1, sample_cheap), (Hash32 2, sample_dear)]\<rparr>", OF _ refl]
  by simp

end
