(* ===== verification/Zeno_Consensus.thy ===== *)
theory Zeno_Consensus
  imports Zeno_Action Zeno_Execution Zeno_Mempool "HOL-Library.Option_ord"
begin

text \<open>
  The crate \<open>zeno-consensus\<close>: the round state of a validator, its handlers for proposals, votes,
  commits and timeouts, the checks of proposals and commit certificates, and the recovery from
  the write-ahead log. A handler is an action on the node: the round state, the store, the mempool
  and the messages handed to the network. What a single call meets outside the node (the clock,
  whether the network task still takes messages, the iteration order of the mempool's map, the
  EVM) is the record \<open>call_env\<close>. A panic is the error \<open>CePanic\<close>, which ends the task.
\<close>

section \<open>State\<close>

record local_validator =
  lv_validator :: validator
  lv_secret_key :: "u8 list"

record consensus_engine =
  ce_chain_id :: chain_id
  ce_validators :: "validator list"
  ce_scheme :: scheme
  ce_execution :: execution_engine
  ce_params :: consensus_params
  ce_economics :: economics_params
  ce_local :: "local_validator option"

definition NIL_HASH :: hash32 where
  "NIL_HASH = Hash32 0"

definition MAX_ROUND_TIMEOUT_MS :: u64 where
  "MAX_ROUND_TIMEOUT_MS = 60000"

record round_state =
  rs_height :: u64
  rs_round :: u32
  rs_proposal :: "block option"
  rs_prevotes :: "(hash32, address list) btree_map"
  rs_precommits :: "(hash32, address list) btree_map"
  rs_votes :: "vote list"
  rs_evidence :: "evidence list"
  rs_processed_evidence :: "(address \<times> u64 \<times> u32) list"
  rs_prevoted :: bool
  rs_precommitted :: bool
  rs_locked_round :: "u32 option"
  rs_locked_block :: "block option"
  rs_valid_round :: "u32 option"
  rs_valid_block :: "block option"

definition round_state_default :: round_state where
  "round_state_default = \<lparr>rs_height = 1, rs_round = 0, rs_proposal = None, rs_prevotes = [],
     rs_precommits = [], rs_votes = [], rs_evidence = [], rs_processed_evidence = [],
     rs_prevoted = False, rs_precommitted = False, rs_locked_round = None, rs_locked_block = None,
     rs_valid_round = None, rs_valid_block = None\<rparr>"

record node =
  nd_state :: round_state
  nd_store :: memory_store
  nd_mempool :: mempool
  nd_sent :: "network_message list"

record call_env =
  cv_exec :: exec_env
  cv_now :: u64
  cv_takes :: "network_message \<Rightarrow> bool"
  cv_values :: "mempool \<Rightarrow> transaction list"

datatype consensus_error =
    CeText string
  | CeAny anyhow
  | CeExec execution_error
  | CeDry dry_run_error
  | CeState state_error
  | CeTx transaction_error
  | CePanic

type_synonym 'a node_action = "(node, consensus_error, 'a) action"

abbreviation ce_ext :: "call_env \<Rightarrow> ext" where
  "ce_ext X \<equiv> xe_ext (cv_exec X)"

section \<open>Recovery\<close>

record recovered_state =
  rv_snapshot :: consensus_snapshot
  rv_locked_round :: "u32 option"
  rv_locked_block :: "block option"
  rv_valid_round :: "u32 option"
  rv_valid_block :: "block option"

definition recovered_at :: "u64 \<Rightarrow> recovered_state" where
  "recovered_at height = \<lparr>rv_snapshot = \<lparr>cs_height = height, cs_round = 0\<rparr>, rv_locked_round = None,
     rv_locked_block = None, rv_valid_round = None, rv_valid_block = None\<rparr>"

fun recover_step :: "recovered_state \<Rightarrow> consensus_wal_entry \<Rightarrow> recovered_state" where
  "recover_step r (SnapshotPersisted height round) =
    (if (cs_height (rv_snapshot r), cs_round (rv_snapshot r)) \<le> (height, round)
     then r\<lparr>rv_snapshot := \<lparr>cs_height = height, cs_round = round\<rparr>\<rparr> else r)"
| "recover_step r (HeightAdvanced next_height) =
    (if cs_height (rv_snapshot r) < next_height then recovered_at next_height else r)"
| "recover_step r (RoundAdvanced height next_round) =
    (if height = cs_height (rv_snapshot r) \<and> cs_round (rv_snapshot r) < next_round
     then r\<lparr>rv_snapshot := (rv_snapshot r)\<lparr>cs_round := next_round\<rparr>\<rparr> else r)"
| "recover_step r (CommitFinalized height _ _) =
    (if cs_height (rv_snapshot r) < saturating_add height 1
     then recovered_at (saturating_add height 1) else r)"
| "recover_step r (Locked height lr _ b) =
    (if height = cs_height (rv_snapshot r)
     then r\<lparr>rv_locked_round := Some lr, rv_locked_block := Some b\<rparr> else r)"
| "recover_step r (PolkaObserved height vr _ b) =
    (if height = cs_height (rv_snapshot r)
     then r\<lparr>rv_valid_round := Some vr, rv_valid_block := Some b\<rparr> else r)"
| "recover_step r (ProposalAccepted _ _ _) = r"
| "recover_step r (ProposalBroadcast _ _ _) = r"
| "recover_step r (VoteRecorded _ _ _ _ _) = r"
| "recover_step r (VoteBroadcast _ _ _ _ _) = r"
| "recover_step r (EvidenceRecorded _ _ _ _) = r"

definition recover_snapshot :: "consensus_snapshot \<Rightarrow> consensus_wal_entry list \<Rightarrow> recovered_state" where
  "recover_snapshot snapshot wal = foldl recover_step
     \<lparr>rv_snapshot = snapshot, rv_locked_round = None, rv_locked_block = None, rv_valid_round = None,
      rv_valid_block = None\<rparr> wal"

text \<open>The state a new engine starts from.\<close>

definition initial_snapshot :: "memory_store \<Rightarrow> consensus_snapshot" where
  "initial_snapshot store = (case get_consensus_snapshot store of
     Some s \<Rightarrow> s
   | None \<Rightarrow> \<lparr>cs_height = (case latest_block store of
         None \<Rightarrow> 1 | Some fb \<Rightarrow> bh_height (bk_header (fb_block fb)) + 1), cs_round = 0\<rparr>)"

definition engine_start :: "memory_store \<Rightarrow> round_state" where
  "engine_start store =
    (let r = recover_snapshot (initial_snapshot store) (load_consensus_wal store) in
     round_state_default\<lparr>rs_height := cs_height (rv_snapshot r), rs_round := cs_round (rv_snapshot r),
       rs_locked_round := rv_locked_round r, rs_locked_block := rv_locked_block r,
       rs_valid_round := rv_valid_round r, rs_valid_block := rv_valid_block r\<rparr>)"

text \<open>The engine of a genesis; the mempool, the store and the network are in the node.\<close>

definition consensus_engine_new ::
  "genesis \<Rightarrow> scheme \<Rightarrow> execution_engine \<Rightarrow> local_validator option \<Rightarrow> consensus_engine" where
  "consensus_engine_new g S execution local = \<lparr>ce_chain_id = gn_chain_id g, ce_validators = gn_validators g,
     ce_scheme = S, ce_execution = execution, ce_params = gn_consensus g, ce_economics = gn_economics g,
     ce_local = local\<rparr>"

section \<open>Validators\<close>

text \<open>The validators by address collect into a \<open>BTreeMap\<close>, where a later one wins.\<close>

definition loaded_staking :: "consensus_engine \<Rightarrow> memory_store \<Rightarrow> staking_state" where
  "loaded_staking C store = ensure_validators (staking_load store) (ce_validators C)"

definition current_validators :: "consensus_engine \<Rightarrow> memory_store \<Rightarrow> validator list" where
  "current_validators C store =
    (let ordered_addresses = effective_validator_set (loaded_staking C store) (ce_economics C) in
     if ordered_addresses = [] then ce_validators C
     else
       let by_address = foldl (\<lambda>m v. bt_insert (va_address v) v m) [] (ce_validators C) in
       List.map_filter (map_of by_address) ordered_addresses)"

definition quorum :: "consensus_engine \<Rightarrow> memory_store \<Rightarrow> nat" where
  "quorum C store = length (current_validators C store) * 2 div 3 + 1"

definition round_timeout :: "consensus_engine \<Rightarrow> u32 \<Rightarrow> u64" where
  "round_timeout C round =
    (let base = proposal_timeout_ms (ce_params C) + vote_timeout_ms (ce_params C);
         shift = min round 5;
         backoff = saturating_mul base (push_bit (unat shift) 1) in
     min backoff MAX_ROUND_TIMEOUT_MS)"

text \<open>The remainder by an empty set of validators panics.\<close>

definition proposer_for :: "consensus_engine \<Rightarrow> memory_store \<Rightarrow> u64 \<Rightarrow> u32 \<Rightarrow> validator option" where
  "proposer_for C store height round =
    (let validators = current_validators C store in
     if validators = [] then None
     else Some (validators ! (unat (height + ucast round) mod length validators)))"

definition local_validator_active :: "consensus_engine \<Rightarrow> memory_store \<Rightarrow> bool" where
  "local_validator_active C store = (case ce_local C of None \<Rightarrow> False
     | Some lv \<Rightarrow> is_validator_active (loaded_staking C store) (va_address (lv_validator lv)) (ce_economics C))"

section \<open>Primitive actions\<close>

definition update_state :: "(round_state \<Rightarrow> round_state) \<Rightarrow> unit node_action" where
  "update_state f = act_write (\<lambda>n. n\<lparr>nd_state := f (nd_state n)\<rparr>)"

definition update_store :: "(memory_store \<Rightarrow> memory_store) \<Rightarrow> unit node_action" where
  "update_store f = act_write (\<lambda>n. n\<lparr>nd_store := f (nd_store n)\<rparr>)"

definition update_mempool :: "(mempool \<Rightarrow> mempool) \<Rightarrow> unit node_action" where
  "update_mempool f = act_write (\<lambda>n. n\<lparr>nd_mempool := f (nd_mempool n)\<rparr>)"

text \<open>A call on the store that may fail after writing to it.\<close>

definition on_store :: "(memory_store \<Rightarrow> memory_store \<times> ('e + 'a)) \<Rightarrow> ('e \<Rightarrow> consensus_error) \<Rightarrow> 'a node_action" where
  "on_store f err = (\<lambda>n. case f (nd_store n) of (store, r) \<Rightarrow> (n\<lparr>nd_store := store\<rparr>, map_err err r))"

definition append_wal :: "consensus_wal_entry \<Rightarrow> unit node_action" where
  "append_wal entry = update_store (\<lambda>s. append_consensus_wal s entry)"

definition broadcast :: "call_env \<Rightarrow> network_message \<Rightarrow> unit node_action" where
  "broadcast X message = (if cv_takes X message
     then act_write (\<lambda>n. n\<lparr>nd_sent := nd_sent n @ [message]\<rparr>)
     else act_fail (CeText ''network stopped''))"

definition current_snapshot :: "round_state \<Rightarrow> consensus_snapshot" where
  "current_snapshot s = \<lparr>cs_height = rs_height s, cs_round = rs_round s\<rparr>"

definition persist_snapshot :: "unit node_action" where
  "persist_snapshot = act_bind (act_read (\<lambda>n. current_snapshot (nd_state n))) (\<lambda>snapshot.
     act_then (update_store (\<lambda>s. put_consensus_snapshot s snapshot))
       (append_wal (SnapshotPersisted (cs_height snapshot) (cs_round snapshot))))"

definition note_validator_liveness :: "consensus_engine \<Rightarrow> address \<Rightarrow> unit node_action" where
  "note_validator_liveness C a = on_store (\<lambda>store.
     case note_liveness (loaded_staking C store) a of
       (staking, Inl e) \<Rightarrow> (store, Inl e)
     | (staking, Inr _) \<Rightarrow> (staking_persist staking store, Inr ())) CeState"

definition apply_pending_evidence :: "consensus_engine \<Rightarrow> unit node_action" where
  "apply_pending_evidence C = act_bind (act_read (\<lambda>n. rs_evidence (nd_state n))) (\<lambda>evidence.
     act_then (update_state (\<lambda>s. s\<lparr>rs_evidence := []\<rparr>))
     (act_unless (evidence = []) ()
       (on_store (\<lambda>store.
          case apply_evidence (loaded_staking C store) evidence (ce_economics C) of
            (staking, Inl e) \<Rightarrow> (store, Inl e)
          | (staking, Inr _) \<Rightarrow> (staking_persist staking store, Inr ())) CeState)))"

section \<open>Checks\<close>

text \<open>The loop over the votes of a certificate collects the addresses of the voters.\<close>

fun certificate_voters ::
  "ext \<Rightarrow> scheme \<Rightarrow> commit_certificate \<Rightarrow> address list \<Rightarrow> vote list \<Rightarrow> consensus_error + address list" where
  "certificate_voters E S c unique [] = Inr unique"
| "certificate_voters E S c unique (v # vs) =
    bind_res (map_err CeAny (verify_vote E S v)) (\<lambda>_.
    if vt_height v \<noteq> cc_height c \<or> vt_round v \<noteq> cc_round c
    then Inl (CeText ''certificate vote height/round mismatch'')
    else if vt_step v \<noteq> Precommit
    then Inl (CeText ''certificate must contain only precommit votes'')
    else if vt_block_hash v \<noteq> cc_block_hash c
    then Inl (CeText ''certificate vote block hash mismatch'')
    else certificate_voters E S c (bs_insert (vt_validator_address v) unique) vs)"

definition validate_commit_certificate ::
  "ext \<Rightarrow> consensus_engine \<Rightarrow> memory_store \<Rightarrow> block \<Rightarrow> commit_certificate \<Rightarrow> consensus_error + unit" where
  "validate_commit_certificate E C store b c =
    (if cc_block_hash c \<noteq> block_hash E b then Inl (CeText ''certificate block hash mismatch'')
     else if cc_height c \<noteq> bh_height (bk_header b) then Inl (CeText ''certificate height mismatch'')
     else if cc_round c \<noteq> bh_round (bk_header b) then Inl (CeText ''certificate round mismatch'')
     else
       bind_res (certificate_voters E (ce_scheme C) c [] (cc_votes c)) (\<lambda>unique.
       if length unique < quorum C store then Inl (CeText ''certificate quorum not reached'')
       else Inr ()))"

text \<open>The body of the loop over the transactions of a proposal.\<close>

definition check_proposal_tx ::
  "ext \<Rightarrow> scheme \<Rightarrow> execution_engine \<Rightarrow> chain_id \<Rightarrow> u64 \<Rightarrow> state_snapshot \<Rightarrow> transaction \<Rightarrow>
   consensus_error + state_snapshot" where
  "check_proposal_tx E S execution chain_id height state tx =
    (let body = tx_body tx in
     bind_res (map_err CeTx (validate_transaction E execution S state height tx)) (\<lambda>_.
     let sender = snapshot_account state (tb_sender body) in
     bind_res (ok_or (CeText ''proposal sender underflow'')
       (checked_sub (acct_balance sender) (saturating_add (tb_amount body) (tb_fee body)))) (\<lambda>balance.
     let state1 = snapshot_put_account state (tb_sender body)
           (sender\<lparr>acct_balance := balance, acct_nonce := acct_nonce sender + 1\<rparr>);
         state2 = (if tb_evm body = None then credit state1 (tb_recipient body) (tb_amount body) else state1) in
     bind_res (map_err CeTx (sender_from_public_key S (tx_public_key tx))) (\<lambda>derived.
     if derived \<noteq> tb_sender body then Inl (CeText ''proposal transaction sender mismatch'')
     else bind_res (map_err CeAny (canonical_transaction_bytes E body)) (\<lambda>body_bytes.
     bind_res (map_err CeTx (verify_transaction E S chain_id tx height)) (\<lambda>_.
     if body_bytes = [] then Inl (CeText ''proposal transaction canonical bytes unexpectedly empty'')
     else Inr state2))))))"

definition validate_incoming_proposal ::
  "ext \<Rightarrow> scheme \<Rightarrow> validator \<Rightarrow> proposal \<Rightarrow> chain_id \<Rightarrow> memory_store \<Rightarrow> execution_engine \<Rightarrow> nat \<Rightarrow>
   consensus_error + unit" where
  "validate_incoming_proposal E S leader p chain_id store execution max_transactions =
    (let b = pr_block p; h = bk_header b in
     if va_address leader \<noteq> pr_validator_address p
     then Inl (CeText ''proposal from unexpected proposer'')
     else if bh_proposer h \<noteq> va_address leader
     then Inl (CeText ''proposal block header proposer mismatch'')
     else if bk_proposer_public_key b \<noteq> va_public_key leader
     then Inl (CeText ''proposal public key does not match validator set'')
     else if bh_chain_id h \<noteq> chain_id then Inl (CeText ''proposal chain id mismatch'')
     else if bh_height h \<noteq> pr_height p then Inl (CeText ''proposal height/header mismatch'')
     else if bh_round h \<noteq> pr_round p then Inl (CeText ''proposal round/header mismatch'')
     else if max_transactions < length (bk_transactions b)
     then Inl (CeText ''proposal exceeds transaction limit'')
     else if bh_parent_hash h \<noteq> expected_parent E store
     then Inl (CeText ''proposal parent hash mismatch'')
     else
       bind_res (map_err CeAny (verify_block E S b)) (\<lambda>_.
       bind_res (map_err CeState (load_state store)) (\<lambda>state.
       bind_res (fold_res (check_proposal_tx E S execution chain_id (pr_height p)) state (bk_transactions b))
         (\<lambda>_. Inr ()))))"

definition engine_validate_proposal :: "call_env \<Rightarrow> consensus_engine \<Rightarrow> proposal \<Rightarrow> unit node_action" where
  "engine_validate_proposal X C p = act_bind (act_read nd_store) (\<lambda>store.
     case proposer_for C store (pr_height p) (pr_round p) of
       None \<Rightarrow> act_fail CePanic
     | Some leader \<Rightarrow> act_lift (validate_incoming_proposal (ce_ext X) (ce_scheme C) leader p (ce_chain_id C)
         store (ce_execution C) (max_transactions_per_block (ce_params C))))"

section \<open>Votes\<close>

text \<open>The locking rule of \<open>emit_prevote\<close>; \<open>None\<close> is below every round in the derived order
  of \<open>Option\<close>.\<close>

definition prevote_hash :: "ext \<Rightarrow> round_state \<Rightarrow> hash32" where
  "prevote_hash E s = (case rs_proposal s of
     None \<Rightarrow> NIL_HASH
   | Some p \<Rightarrow>
      (case rs_locked_block s of
         None \<Rightarrow> block_hash E p
       | Some locked \<Rightarrow>
           if block_hash E locked = block_hash E p then block_hash E p
           else if (case rs_valid_block s of None \<Rightarrow> False | Some vb \<Rightarrow> block_hash E vb = block_hash E p) \<and>
                   rs_locked_round s \<le> rs_valid_round s
           then block_hash E p
           else NIL_HASH))"

text \<open>What \<open>emit_prevote\<close> and \<open>emit_precommit\<close> do with the vote they have chosen; \<open>mark\<close> sets
  the flag of the step.\<close>

definition cast_vote ::
  "call_env \<Rightarrow> consensus_engine \<Rightarrow> local_validator \<Rightarrow> vote_step \<Rightarrow> (round_state \<Rightarrow> round_state) \<Rightarrow>
   u64 \<Rightarrow> u32 \<Rightarrow> hash32 \<Rightarrow> vote option node_action" where
  "cast_vote X C lv step mark height round bhash =
    (let v = lv_validator lv in
     act_bind (act_lift (map_err CeAny (sign_vote (ce_ext X) (ce_scheme C)
       \<lparr>vt_height = height, vt_round = round, vt_step = step, vt_block_hash = bhash,
        vt_validator_address = va_address v, vt_public_key = va_public_key v, vt_signature = []\<rparr>
       (lv_secret_key lv)))) (\<lambda>vote.
     act_then (note_validator_liveness C (va_address v))
     (act_then (append_wal (VoteBroadcast height round step bhash (va_address v)))
     (act_then (update_state mark)
     (act_then (broadcast X (VoteMsg vote))
     (act_return (Some vote)))))))"

definition emit_prevote :: "call_env \<Rightarrow> consensus_engine \<Rightarrow> vote option node_action" where
  "emit_prevote X C = (case ce_local C of None \<Rightarrow> act_return None
   | Some lv \<Rightarrow> act_bind (act_read nd_store) (\<lambda>store.
       act_unless (\<not> local_validator_active C store) None
       (act_bind (act_read nd_state) (\<lambda>s.
        act_unless (rs_prevoted s) None
        (cast_vote X C lv Prevote (\<lambda>s. s\<lparr>rs_prevoted := True\<rparr>) (rs_height s) (rs_round s)
          (prevote_hash (ce_ext X) s))))))"

definition emit_precommit :: "call_env \<Rightarrow> consensus_engine \<Rightarrow> hash32 \<Rightarrow> vote option node_action" where
  "emit_precommit X C bhash = (case ce_local C of None \<Rightarrow> act_return None
   | Some lv \<Rightarrow> act_bind (act_read nd_store) (\<lambda>store.
       act_unless (\<not> local_validator_active C store) None
       (act_bind (act_read nd_state) (\<lambda>s.
        act_unless (rs_precommitted s) None
        (cast_vote X C lv Precommit (\<lambda>s. s\<lparr>rs_precommitted := True\<rparr>) (rs_height s) (rs_round s) bhash)))))"

text \<open>The parts of \<open>record_vote\<close> under its write lock. A vote conflicts when the same validator
  already voted for another block in the same step.\<close>

definition conflicts :: "round_state \<Rightarrow> vote \<Rightarrow> bool" where
  "conflicts s v \<longleftrightarrow> list_ex (\<lambda>e. vt_height e = vt_height v \<and> vt_round e = vt_round v \<and> vt_step e = vt_step v \<and>
     vt_validator_address e = vt_validator_address v \<and> vt_block_hash e \<noteq> vt_block_hash v) (rs_votes s)"

definition note_duplicate_vote :: "vote \<Rightarrow> round_state \<Rightarrow> round_state" where
  "note_duplicate_vote v s =
    (let key = (vt_validator_address v, vt_height v, vt_round v) in
     if key \<in> set (rs_processed_evidence s) then s
     else s\<lparr>rs_processed_evidence := bs_insert key (rs_processed_evidence s),
            rs_evidence := rs_evidence s @ [\<lparr>ev_validator_address = vt_validator_address v,
              ev_height = vt_height v, ev_round = vt_round v, ev_reason = ''duplicate vote''\<rparr>]\<rparr>)"

definition voters_of :: "(hash32, address list) btree_map \<Rightarrow> hash32 \<Rightarrow> address list" where
  "voters_of m h = (case map_of m h of None \<Rightarrow> [] | Some voters \<Rightarrow> voters)"

definition add_voter :: "(hash32, address list) btree_map \<Rightarrow> hash32 \<Rightarrow> address \<Rightarrow> (hash32, address list) btree_map" where
  "add_voter m h a = bt_insert h (bs_insert a (voters_of m h)) m"

definition tally :: "round_state \<Rightarrow> vote_step \<Rightarrow> (hash32, address list) btree_map" where
  "tally s step = (case step of Prevote \<Rightarrow> rs_prevotes s | Precommit \<Rightarrow> rs_precommits s)"

definition count_vote :: "vote \<Rightarrow> round_state \<Rightarrow> round_state" where
  "count_vote v s =
    (let s1 = s\<lparr>rs_votes := rs_votes s @ [v]\<rparr> in
     case vt_step v of
       Prevote \<Rightarrow> s1\<lparr>rs_prevotes := add_voter (rs_prevotes s) (vt_block_hash v) (vt_validator_address v)\<rparr>
     | Precommit \<Rightarrow> s1\<lparr>rs_precommits := add_voter (rs_precommits s) (vt_block_hash v) (vt_validator_address v)\<rparr>)"

text \<open>On a quorum of prevotes the node locks the voted block when it is its proposal.\<close>

definition observe_polka :: "ext \<Rightarrow> vote \<Rightarrow> unit node_action" where
  "observe_polka E v = act_bind (act_read (\<lambda>n. rs_proposal (nd_state n))) (\<lambda>proposal.
     case proposal of
       None \<Rightarrow> act_return ()
     | Some p \<Rightarrow>
         if vt_block_hash v = NIL_HASH \<or> block_hash E p \<noteq> vt_block_hash v then act_return ()
         else
           act_then (update_state (\<lambda>s. s\<lparr>rs_valid_round := Some (vt_round v), rs_valid_block := Some p\<rparr>))
           (act_then (append_wal (PolkaObserved (vt_height v) (vt_round v) (vt_block_hash v) p))
           (act_then (update_state (\<lambda>s. s\<lparr>rs_locked_round := Some (vt_round v), rs_locked_block := Some p\<rparr>))
           (append_wal (Locked (vt_height v) (vt_round v) (vt_block_hash v) p)))))"

definition record_vote :: "call_env \<Rightarrow> consensus_engine \<Rightarrow> vote \<Rightarrow> (hash32 option \<times> hash32 option) node_action" where
  "record_vote X C v =
     act_bind (act_lift (map_err CeAny (verify_vote (ce_ext X) (ce_scheme C) v))) (\<lambda>_.
     act_then (note_validator_liveness C (vt_validator_address v))
     (act_bind (act_read nd_state) (\<lambda>s.
      act_unless (vt_height v \<noteq> rs_height s \<or> vt_round v \<noteq> rs_round s) (None, None)
      (if conflicts s v then
         act_then (update_state (note_duplicate_vote v))
         (act_then (append_wal (EvidenceRecorded (vt_height v) (vt_round v) (vt_validator_address v) ''duplicate vote''))
         (act_return (None, None)))
       else
         act_then (append_wal (VoteRecorded (vt_height v) (vt_round v) (vt_step v) (vt_block_hash v)
           (vt_validator_address v)))
         (act_then (update_state (count_vote v))
         (act_bind (act_read (\<lambda>n. quorum C (nd_store n)
             \<le> length (voters_of (tally (nd_state n) (vt_step v)) (vt_block_hash v)))) (\<lambda>reached.
          case vt_step v of
            Prevote \<Rightarrow>
              if reached then act_then (observe_polka (ce_ext X) v) (act_return (Some (vt_block_hash v), None))
              else act_return (None, None)
          | Precommit \<Rightarrow>
              act_return (None, if reached \<and> vt_block_hash v \<noteq> NIL_HASH then Some (vt_block_hash v) else None))))))))"

section \<open>Height and round\<close>

definition reset_round :: "round_state \<Rightarrow> round_state" where
  "reset_round s = s\<lparr>rs_proposal := None, rs_prevotes := [], rs_precommits := [], rs_votes := [],
     rs_prevoted := False, rs_precommitted := False\<rparr>"

definition advance_height :: "u64 \<Rightarrow> unit node_action" where
  "advance_height next_height =
     act_then (update_state (\<lambda>s. (reset_round s)\<lparr>rs_height := next_height, rs_round := 0,
       rs_locked_round := None, rs_locked_block := None, rs_valid_round := None, rs_valid_block := None\<rparr>))
     (act_then persist_snapshot (append_wal (HeightAdvanced next_height)))"

definition advance_round :: "unit node_action" where
  "advance_round =
     act_then (update_state (\<lambda>s. (reset_round s)\<lparr>rs_round := rs_round s + 1\<rparr>))
     (act_bind (act_read (\<lambda>n. current_snapshot (nd_state n))) (\<lambda>snapshot.
      act_then persist_snapshot (append_wal (RoundAdvanced (cs_height snapshot) (cs_round snapshot)))))"

section \<open>Finalization\<close>

definition commit_votes :: "round_state \<Rightarrow> hash32 \<Rightarrow> vote list" where
  "commit_votes s bhash = filter (\<lambda>v. vt_step v = Precommit \<and> vt_block_hash v = bhash) (rs_votes s)"

definition finalize :: "call_env \<Rightarrow> consensus_engine \<Rightarrow> hash32 \<Rightarrow> unit node_action" where
  "finalize X C bhash = act_bind (act_read nd_state) (\<lambda>s.
     case rs_proposal s of
       None \<Rightarrow> act_fail (CeText ''missing proposal for finalize'')
     | Some b \<Rightarrow>
        let height = rs_height s; round = rs_round s;
            certificate = \<lparr>cc_block_hash = bhash, cc_height = height, cc_round = round,
              cc_votes = commit_votes s bhash\<rparr> in
        act_unless (block_hash (ce_ext X) b \<noteq> bhash) ()
        (act_bind (act_read nd_store) (\<lambda>store.
         act_then (act_lift (validate_commit_certificate (ce_ext X) C store b certificate))
         (act_bind (on_store (\<lambda>st. execute_block (cv_exec X) (ce_execution C) (ce_scheme C) st b) CeExec) (\<lambda>executed.
          let finalized = \<lparr>fb_block = br_block executed, fb_certificate = certificate,
                fb_receipts = br_receipts executed, fb_epoch_transition = br_epoch_transition executed\<rparr> in
          act_then (append_wal (CommitFinalized height round bhash))
          (act_then (update_store (\<lambda>st. commit_finalized_block (ce_ext X) st finalized (br_state executed)))
          (act_then (apply_pending_evidence C)
          (act_then (update_mempool (\<lambda>m. remove_committed (ce_ext X) m (bk_transactions (fb_block finalized))))
          (act_then (broadcast X (CommitMsg finalized))
          (act_then (if 10 < height
             then update_store (\<lambda>st. fst (compact_consensus_wal st (saturating_sub height 10))) else act_return ())
          (act_then (if 1000 < height
             then update_store (\<lambda>st. fst (prune_blocks_below (ce_ext X) st (saturating_sub height 1000)))
             else act_return ())
          (advance_height (height + 1)))))))))))))"

definition handle_vote_actions :: "call_env \<Rightarrow> consensus_engine \<Rightarrow> vote \<Rightarrow> unit node_action" where
  "handle_vote_actions X C v = act_bind (record_vote X C v) (\<lambda>(should_precommit, should_finalize).
     act_bind (case should_precommit of None \<Rightarrow> act_return should_finalize
       | Some bhash \<Rightarrow> act_bind (emit_precommit X C bhash) (\<lambda>vote.
           case vote of None \<Rightarrow> act_return should_finalize
           | Some precommit_vote \<Rightarrow> act_bind (record_vote X C precommit_vote) (\<lambda>(_, local_finalize).
               act_return (case should_finalize of None \<Rightarrow> local_finalize | Some h \<Rightarrow> Some h))))
     (\<lambda>final. case final of None \<Rightarrow> act_return () | Some bhash \<Rightarrow> finalize X C bhash))"

definition on_vote :: "call_env \<Rightarrow> consensus_engine \<Rightarrow> vote \<Rightarrow> unit node_action" where
  "on_vote X C v = handle_vote_actions X C v"

text \<open>\<open>if let Some(vote) = self.emit_prevote()? \<dots>\<close>\<close>

definition prevote_and_drive :: "call_env \<Rightarrow> consensus_engine \<Rightarrow> unit node_action" where
  "prevote_and_drive X C = act_bind (emit_prevote X C) (\<lambda>vote.
     case vote of None \<Rightarrow> act_return () | Some v \<Rightarrow> handle_vote_actions X C v)"

definition import_external_finalized_block ::
  "call_env \<Rightarrow> consensus_engine \<Rightarrow> finalized_block \<Rightarrow> unit node_action" where
  "import_external_finalized_block X C fb = act_bind (act_read (\<lambda>n. rs_height (nd_state n))) (\<lambda>current.
     let c = fb_certificate fb in
     act_unless (cc_height c < current) ()
     (act_bind (act_read nd_store) (\<lambda>store.
      act_then (act_lift (validate_commit_certificate (ce_ext X) C store (fb_block fb) c))
      (act_then (append_wal (CommitFinalized (cc_height c) (cc_round c) (cc_block_hash c)))
      (act_then (on_store (\<lambda>st. validate_and_commit_finalized_block (cv_exec X) (ce_execution C) (ce_scheme C) st fb)
         CeExec)
      (act_then (update_mempool (\<lambda>m. remove_committed (ce_ext X) m (bk_transactions (fb_block fb))))
      (advance_height (bh_height (bk_header (fb_block fb)) + 1))))))))"

definition on_commit :: "call_env \<Rightarrow> consensus_engine \<Rightarrow> finalized_block \<Rightarrow> unit node_action" where
  "on_commit X C fb = import_external_finalized_block X C fb"

section \<open>Proposals\<close>

definition note_conflicting_proposal :: "proposal \<Rightarrow> round_state \<Rightarrow> round_state" where
  "note_conflicting_proposal p s = s\<lparr>
     rs_processed_evidence := bs_insert (pr_validator_address p, pr_height p, pr_round p) (rs_processed_evidence s),
     rs_evidence := rs_evidence s @ [\<lparr>ev_validator_address = pr_validator_address p,
       ev_height = pr_height p, ev_round = pr_round p, ev_reason = ''conflicting proposal''\<rparr>]\<rparr>"

definition on_proposal :: "call_env \<Rightarrow> consensus_engine \<Rightarrow> proposal \<Rightarrow> unit node_action" where
  "on_proposal X C p =
     act_then (engine_validate_proposal X C p)
     (act_bind (act_read nd_state) (\<lambda>s.
      act_unless (pr_height p \<noteq> rs_height s \<or> pr_round p \<noteq> rs_round s) ()
      (case rs_proposal s of
         Some existing \<Rightarrow>
           if block_hash (ce_ext X) existing \<noteq> block_hash (ce_ext X) (pr_block p) \<and>
              (pr_validator_address p, pr_height p, pr_round p) \<notin> set (rs_processed_evidence s)
           then act_then (append_wal (EvidenceRecorded (pr_height p) (pr_round p) (pr_validator_address p)
                  ''conflicting proposal''))
                (update_state (note_conflicting_proposal p))
           else act_return ()
       | None \<Rightarrow>
           act_then (append_wal (ProposalAccepted (pr_height p) (pr_round p) (block_hash (ce_ext X) (pr_block p))))
           (act_then (update_state (\<lambda>s. s\<lparr>rs_proposal := Some (pr_block p)\<rparr>))
           (prevote_and_drive X C)))))"

text \<open>The slashing protection of a proposal: \<open>None\<close> when the height was already signed.\<close>

definition protect_proposal :: "address \<Rightarrow> u64 \<Rightarrow> memory_store \<Rightarrow> memory_store option" where
  "protect_proposal a height store =
    (let protection = (case get_slashing_protection store a of None \<Rightarrow> slashing_protection_default | Some p \<Rightarrow> p) in
     if height \<le> last_signed_proposal_height protection then None
     else Some (put_slashing_protection store a (protection\<lparr>last_signed_proposal_height := height\<rparr>)))"

text \<open>The tail of \<open>maybe_propose\<close> once the block is signed.\<close>

definition publish_proposal :: "call_env \<Rightarrow> consensus_engine \<Rightarrow> address \<Rightarrow> address \<Rightarrow> consensus_snapshot \<Rightarrow> block \<Rightarrow> unit node_action"
where
  "publish_proposal X C local_address proposer snapshot b =
    (let h = block_hash (ce_ext X) b; height = cs_height snapshot; round = cs_round snapshot in
     act_then (note_validator_liveness C local_address)
     (act_then (append_wal (ProposalAccepted height round h))
     (act_then (update_state (\<lambda>s. s\<lparr>rs_proposal := Some b\<rparr>))
     (act_then (append_wal (ProposalBroadcast height round h))
     (act_then (broadcast X (ProposalMsg \<lparr>pr_height = height, pr_round = round, pr_block = b,
        pr_validator_address = proposer\<rparr>))
     (prevote_and_drive X C))))))"

text \<open>Building the block: eviction, selection, dry run, header and signature.\<close>

definition build_proposal ::
  "call_env \<Rightarrow> consensus_engine \<Rightarrow> local_validator \<Rightarrow> address \<Rightarrow> consensus_snapshot \<Rightarrow> block node_action" where
  "build_proposal X C lv proposer snapshot =
    (let height = cs_height snapshot; E = ce_ext X in
     act_then (update_mempool (\<lambda>m. evict_expired m height))
     (act_bind (act_read nd_mempool) (\<lambda>m.
      let txs = select_for_block_prioritized (cv_values X m) (max_transactions_per_block (ce_params C)) height in
      act_bind (on_store (\<lambda>st. dry_run_transactions (cv_exec X) (ce_execution C) (ce_scheme C) st height txs proposer)
        CeDry) (\<lambda>(state_after, receipts).
      act_bind (act_read nd_store) (\<lambda>store.
      act_lift (map_err CeAny (sign_block E (ce_scheme C)
        (build_header E (ce_execution C) store proposer height (cs_round snapshot) (cv_now X) txs state_after receipts)
        txs (va_public_key (lv_validator lv)) (lv_secret_key lv))))))))"

definition maybe_propose :: "call_env \<Rightarrow> consensus_engine \<Rightarrow> unit node_action" where
  "maybe_propose X C = (case ce_local C of None \<Rightarrow> act_return ()
   | Some lv \<Rightarrow> act_bind (act_read nd_store) (\<lambda>store. act_bind (act_read nd_state) (\<lambda>s.
       let snapshot = current_snapshot s; local_address = va_address (lv_validator lv) in
       act_unless (\<not> local_validator_active C store) ()
       (case proposer_for C store (cs_height snapshot) (cs_round snapshot) of
          None \<Rightarrow> act_fail CePanic
        | Some proposer \<Rightarrow>
            act_unless (va_address proposer \<noteq> local_address) ()
            (act_unless (rs_proposal s \<noteq> None) ()
            (case protect_proposal local_address (cs_height snapshot) store of
               None \<Rightarrow> act_return ()
             | Some store1 \<Rightarrow>
                 act_then (update_store (\<lambda>_. store1))
                 (act_bind (build_proposal X C lv (va_address proposer) snapshot) (\<lambda>b.
                  case bin_block (ce_ext X) b of
                    None \<Rightarrow> act_fail (CeText ''encode block'')
                  | Some bytes \<Rightarrow>
                      act_unless (max_block_bytes (ce_params C) < length bytes) ()
                        (publish_proposal X C local_address (va_address proposer) snapshot b)))))))))"

section \<open>The task\<close>

text \<open>One turn of the loop in \<open>run\<close>. An error of a message handler is logged, an error of the
  timeout branch and a panic end the task.\<close>

datatype consensus_event =
    ProposalEvent proposal
  | VoteEvent vote
  | CommitEvent finalized_block
  | OtherEvent
  | TimeoutEvent

definition logged :: "unit node_action \<Rightarrow> unit node_action" where
  "logged m = (\<lambda>n. case m n of
     (n', Inl CePanic) \<Rightarrow> (n', Inl CePanic)
   | (n', _) \<Rightarrow> (n', Inr ()))"

fun run_turn :: "call_env \<Rightarrow> consensus_engine \<Rightarrow> consensus_event \<Rightarrow> unit node_action" where
  "run_turn X C (ProposalEvent p) = logged (on_proposal X C p)"
| "run_turn X C (VoteEvent v) = logged (on_vote X C v)"
| "run_turn X C (CommitEvent fb) = logged (on_commit X C fb)"
| "run_turn X C OtherEvent = act_return ()"
| "run_turn X C TimeoutEvent =
     act_then (prevote_and_drive X C) (act_then advance_round (maybe_propose X C))"

definition run_start :: "call_env \<Rightarrow> consensus_engine \<Rightarrow> unit node_action" where
  "run_start X C = act_then persist_snapshot (maybe_propose X C)"

definition node_start :: "memory_store \<Rightarrow> mempool \<Rightarrow> node" where
  "node_start store m = \<lparr>nd_state = engine_start store, nd_store = store, nd_mempool = m, nd_sent = []\<rparr>"

end
