(* ===== verification/Zeno_Safety.thy ===== *)
theory Zeno_Safety
  imports Zeno_Consensus
begin

text \<open>
  Properties of the consensus handlers of \<open>Zeno_Consensus\<close>: the invariant of a running node (its
  own votes never conflict, its lock and its polka agree, its tallies count every validator for
  one block only), the locking rule, commit certificates and quorums, timeouts and recovery.
  The invariant is proved handler by handler with the triples of \<open>Zeno_Action\<close>.
\<close>

section \<open>Rules for the primitive actions\<close>

text \<open>A predicate that looks at the round state and the sent messages only.\<close>

definition stateful :: "(round_state \<Rightarrow> network_message list \<Rightarrow> bool) \<Rightarrow> node \<Rightarrow> bool" where
  "stateful P n = P (nd_state n) (nd_sent n)"

lemma keeps_update_store [triple_rules]: "keeps (update_store f) (stateful P)"
  by (simp add: triple_def update_store_def stateful_def)

lemma keeps_update_mempool [triple_rules]: "keeps (update_mempool f) (stateful P)"
  by (simp add: triple_def update_mempool_def stateful_def)

lemma keeps_on_store [triple_rules]: "keeps (on_store f e) (stateful P)"
  by (auto simp: triple_def on_store_def stateful_def split: prod.splits)

lemma keeps_append_wal [triple_rules]: "keeps (append_wal e) (stateful P)"
  unfolding append_wal_def by (rule keeps_update_store)

lemma keeps_persist_snapshot [triple_rules]: "keeps persist_snapshot (stateful P)"
  unfolding persist_snapshot_def by (intro triple_rules)

lemma keeps_liveness [triple_rules]: "keeps (note_validator_liveness C a) (stateful P)"
  unfolding note_validator_liveness_def by (rule keeps_on_store)

lemma triple_update_state: "(\<And>s m. P s m \<Longrightarrow> Q (f s) m) \<Longrightarrow> triple (stateful P) (update_state f) (\<lambda>_. stateful Q)"
  by (simp add: triple_def update_state_def stateful_def)

lemma triple_broadcast:
  "(\<And>s l. P s l \<Longrightarrow> Q s (l @ [m])) \<Longrightarrow> (\<And>s l. P s l \<Longrightarrow> Q s l) \<Longrightarrow>
     triple (stateful P) (broadcast X m) (\<lambda>_. stateful Q)"
  by (simp add: triple_def broadcast_def stateful_def)

lemma triple_seq:
  assumes "triple P m (\<lambda>_. R)" "\<And>a. triple R (f a) (\<lambda>_. Q)" "\<And>s. R s \<Longrightarrow> Q s"
  shows "triple P (act_bind m f) (\<lambda>_. Q)"
  by (rule triple_bind [where R = "\<lambda>_. R"], rule triple_conseq [OF assms(1)])
    (auto split: sum.splits intro: assms(2,3))

lemma triple_then:
  "triple P m (\<lambda>_. R) \<Longrightarrow> triple R k (\<lambda>_. Q) \<Longrightarrow> (\<And>s. R s \<Longrightarrow> Q s) \<Longrightarrow> triple P (act_then m k) (\<lambda>_. Q)"
  unfolding act_then_def by (rule triple_seq)

lemma triple_weaken: "keeps m P \<Longrightarrow> (\<And>s. P s \<Longrightarrow> Q s) \<Longrightarrow> triple P m (\<lambda>_. Q)"
  by (erule triple_conseq)

section \<open>The invariant\<close>

text \<open>Where a node is: the pair of height and round, ordered lexicographically.\<close>

definition position :: "round_state \<Rightarrow> nat \<times> nat" where
  "position s = (unat (rs_height s), unat (rs_round s))"

definition vote_position :: "vote \<Rightarrow> nat \<times> nat" where
  "vote_position v = (unat (vt_height v), unat (vt_round v))"

definition has_voted :: "round_state \<Rightarrow> vote_step \<Rightarrow> bool" where
  "has_voted s step = (case step of Prevote \<Rightarrow> rs_prevoted s | Precommit \<Rightarrow> rs_precommitted s)"

text \<open>No vote was sent for a later position; one for the current position has set its flag; two
  votes for the same position and step are the same.\<close>

definition own_ok :: "round_state \<Rightarrow> network_message list \<Rightarrow> bool" where
  "own_ok s sent \<longleftrightarrow>
     (\<forall>v. VoteMsg v \<in> set sent \<longrightarrow> vote_position v < position s \<or>
        (vote_position v = position s \<and> has_voted s (vt_step v))) \<and>
     (\<forall>v w. VoteMsg v \<in> set sent \<longrightarrow> VoteMsg w \<in> set sent \<longrightarrow> vote_position v = vote_position w \<longrightarrow>
        vt_step v = vt_step w \<longrightarrow> v = w)"

definition lock_ok :: "round_state \<Rightarrow> bool" where
  "lock_ok s \<longleftrightarrow> rs_locked_block s = rs_valid_block s \<and> rs_locked_round s = rs_valid_round s"

text \<open>The recorded votes are verified votes of the current position, no validator has votes for two
  blocks in one step, and a tally lists exactly the validators with a recorded vote.\<close>

definition votes_ok :: "ext \<Rightarrow> scheme \<Rightarrow> round_state \<Rightarrow> bool" where
  "votes_ok E S s \<longleftrightarrow>
     (\<forall>v\<in>set (rs_votes s). verify_vote E S v = Inr () \<and> vt_height v = rs_height s \<and> vt_round v = rs_round s) \<and>
     (\<forall>v\<in>set (rs_votes s). \<forall>w\<in>set (rs_votes s). vt_step v = vt_step w \<longrightarrow>
        vt_validator_address v = vt_validator_address w \<longrightarrow> vt_block_hash v = vt_block_hash w) \<and>
     (\<forall>step h. distinct (voters_of (tally s step) h) \<and> set (voters_of (tally s step) h)
        = {vt_validator_address v | v. v \<in> set (rs_votes s) \<and> vt_step v = step \<and> vt_block_hash v = h})"

text \<open>Room for \<open>k\<close> more heights and \<open>j\<close> more rounds before the counters wrap.\<close>

definition node_inv :: "ext \<Rightarrow> scheme \<Rightarrow> nat \<Rightarrow> nat \<Rightarrow> round_state \<Rightarrow> network_message list \<Rightarrow> bool" where
  "node_inv E S k j s sent \<longleftrightarrow> own_ok s sent \<and> lock_ok s \<and> votes_ok E S s \<and>
     unat (rs_height s) + k < 2 ^ 64 \<and> unat (rs_round s) + j < 2 ^ 32"

abbreviation inv_at :: "ext \<Rightarrow> scheme \<Rightarrow> nat \<Rightarrow> nat \<Rightarrow> node \<Rightarrow> bool" where
  "inv_at E S k j \<equiv> stateful (node_inv E S k j)"

lemma inv_at_weaken: "inv_at E S k j n \<Longrightarrow> k' \<le> k \<Longrightarrow> j' \<le> j \<Longrightarrow> inv_at E S k' j' n"
  by (auto simp: stateful_def node_inv_def)

text \<open>Changes of the round state the invariant does not look at.\<close>

lemma votes_ok_cong:
  assumes "rs_height s' = rs_height s" "rs_round s' = rs_round s" "rs_votes s' = rs_votes s"
    and "tally s' = tally s"
  shows "votes_ok E S s' = votes_ok E S s"
  unfolding votes_ok_def assms ..

lemma own_ok_cong:
  assumes "rs_height s' = rs_height s" "rs_round s' = rs_round s" "rs_prevoted s' = rs_prevoted s"
    and "rs_precommitted s' = rs_precommitted s"
  shows "own_ok s' sent = own_ok s sent"
proof -
  have "position s' = position s" using assms by (simp add: position_def)
  moreover have "has_voted s' = has_voted s"
    using assms by (simp add: fun_eq_iff has_voted_def split: vote_step.split)
  ultimately show ?thesis unfolding own_ok_def by (simp only:)
qed

lemma node_inv_cong:
  assumes "node_inv E S k j s sent"
    and "rs_height s' = rs_height s" "rs_round s' = rs_round s" "rs_prevoted s' = rs_prevoted s"
    and "rs_precommitted s' = rs_precommitted s" "rs_votes s' = rs_votes s" "rs_prevotes s' = rs_prevotes s"
    and "rs_precommits s' = rs_precommits s" "rs_locked_round s' = rs_locked_round s"
    and "rs_locked_block s' = rs_locked_block s" "rs_valid_round s' = rs_valid_round s"
    and "rs_valid_block s' = rs_valid_block s"
  shows "node_inv E S k j s' sent"
proof -
  have tallies: "tally s' = tally s"
    using assms(7,8) by (simp add: fun_eq_iff tally_def split: vote_step.split)
  show ?thesis
    using assms(1) votes_ok_cong [OF assms(2,3,6) tallies, of E S] own_ok_cong [OF assms(2-5), of sent]
    unfolding node_inv_def lock_ok_def assms(2,3,9-12) by blast
qed

lemma keeps_quiet_update:
  assumes "\<And>s. rs_height (f s) = rs_height s \<and> rs_round (f s) = rs_round s \<and> rs_prevoted (f s) = rs_prevoted s \<and>
    rs_precommitted (f s) = rs_precommitted s \<and> rs_votes (f s) = rs_votes s \<and> rs_prevotes (f s) = rs_prevotes s \<and>
    rs_precommits (f s) = rs_precommits s \<and> rs_locked_round (f s) = rs_locked_round s \<and>
    rs_locked_block (f s) = rs_locked_block s \<and> rs_valid_round (f s) = rs_valid_round s \<and>
    rs_valid_block (f s) = rs_valid_block s"
  shows "keeps (update_state f) (inv_at E S k j)"
  by (rule triple_update_state, erule node_inv_cong) (simp_all add: assms)

lemma keeps_quiet_broadcast:
  assumes "\<And>v. m \<noteq> VoteMsg v"
  shows "keeps (broadcast X m) (inv_at E S k j)"
  using assms by (intro triple_broadcast) (auto simp: node_inv_def own_ok_def)

section \<open>Casting a vote\<close>

lemma keeps_cast_vote:
  assumes "\<And>s. rs_height (mark s) = rs_height s \<and> rs_round (mark s) = rs_round s \<and> rs_votes (mark s) = rs_votes s \<and>
    rs_prevotes (mark s) = rs_prevotes s \<and> rs_precommits (mark s) = rs_precommits s \<and> lock_ok (mark s) = lock_ok s \<and>
    has_voted (mark s) step \<and> (\<forall>t. has_voted s t \<longrightarrow> has_voted (mark s) t)"
    and "\<not> has_voted cur step" and "h = rs_height cur" and "r = rs_round cur"
  shows "triple (\<lambda>n. nd_state n = cur \<and> inv_at E S k j n) (cast_vote X C lv step mark h r bh) (\<lambda>_. inv_at E S k j)"
proof (rule tripleI)
  fix n n' res
  assume pre: "nd_state n = cur \<and> inv_at E S k j n"
    and run: "cast_vote X C lv step mark h r bh n = (n', res)"
  have inv: "node_inv E S k j cur (nd_sent n)" using pre by (auto simp: stateful_def)
  have marked: "node_inv E S k j (mark cur) (nd_sent n)"
  proof -
    have pos: "position (mark cur) = position cur" using assms(1) by (simp add: position_def)
    have tallies: "tally (mark cur) = tally cur"
      using assms(1) by (simp add: fun_eq_iff tally_def split: vote_step.split)
    note same = assms(1) [of cur]
    have "own_ok (mark cur) (nd_sent n)"
      using inv same unfolding node_inv_def own_ok_def pos by blast
    moreover have "votes_ok E S (mark cur)"
      using inv same votes_ok_cong [of "mark cur" cur E S] tallies by (simp add: node_inv_def)
    ultimately show ?thesis
      using inv same by (simp only: node_inv_def simp_thms)
  qed
  have sent: "node_inv E S k j (mark cur) (nd_sent n @ [VoteMsg v])"
    if v: "vt_height v = h" "vt_round v = r" "vt_step v = step" for v
  proof -
    have here: "vote_position v = position (mark cur)"
      using v assms(1) [of cur] assms(3,4) by (simp add: vote_position_def position_def)
    have "w = v" if w: "VoteMsg w \<in> set (nd_sent n)" "vote_position w = vote_position v" "vt_step w = step" for w
    proof -
      have "vote_position w = position cur"
        using w(2) here assms(1) [of cur] by (simp add: position_def)
      then have "has_voted cur step" using inv w by (auto simp: node_inv_def own_ok_def)
      then show ?thesis using assms(2) by simp
    qed
    then show ?thesis
      using marked here v(3) assms(1) [of cur] by (auto simp: node_inv_def own_ok_def)
  qed
  have "(nd_state n' = cur \<and> nd_sent n' = nd_sent n) \<or> (nd_state n' = mark cur \<and> (nd_sent n' = nd_sent n \<or>
      (\<exists>v. nd_sent n' = nd_sent n @ [VoteMsg v] \<and> vt_height v = h \<and> vt_round v = r \<and> vt_step v = step)))"
    using run pre
    by (auto simp: cast_vote_def Let_def act_bind_def act_then_def note_validator_liveness_def on_store_def
        append_wal_def update_store_def update_state_def broadcast_def sign_vote_def bind_res_eq_Inr
        split: sum.splits prod.splits if_splits)
  then show "inv_at E S k j n'"
    using inv marked sent by (auto simp: stateful_def)
qed

lemma keeps_emit_prevote [triple_rules]: "keeps (emit_prevote X C) (inv_at E S k j)"
proof (rule tripleI)
  fix n n' res
  assume inv: "inv_at E S k j n" and run: "emit_prevote X C n = (n', res)"
  show "inv_at E S k j n'"
  proof (cases "n' = n")
    case False
    then obtain lv where voted: "\<not> rs_prevoted (nd_state n)"
      and cast: "cast_vote X C lv Prevote (\<lambda>s. s\<lparr>rs_prevoted := True\<rparr>) (rs_height (nd_state n))
        (rs_round (nd_state n)) (prevote_hash (ce_ext X) (nd_state n)) n = (n', res)"
      using run by (auto simp: emit_prevote_def act_unless_def split: option.splits if_splits)
    show ?thesis
      by (rule tripleD [OF keeps_cast_vote [where cur = "nd_state n"] _ cast])
        (use inv voted in \<open>auto simp: has_voted_def lock_ok_def split: vote_step.splits\<close>)
  qed (use inv in simp)
qed

lemma keeps_emit_precommit [triple_rules]: "keeps (emit_precommit X C bh) (inv_at E S k j)"
proof (rule tripleI)
  fix n n' res
  assume inv: "inv_at E S k j n" and run: "emit_precommit X C bh n = (n', res)"
  show "inv_at E S k j n'"
  proof (cases "n' = n")
    case False
    then obtain lv where voted: "\<not> rs_precommitted (nd_state n)"
      and cast: "cast_vote X C lv Precommit (\<lambda>s. s\<lparr>rs_precommitted := True\<rparr>) (rs_height (nd_state n))
        (rs_round (nd_state n)) bh n = (n', res)"
      using run by (auto simp: emit_precommit_def act_unless_def split: option.splits if_splits)
    show ?thesis
      by (rule tripleD [OF keeps_cast_vote [where cur = "nd_state n"] _ cast])
        (use inv voted in \<open>auto simp: has_voted_def lock_ok_def split: vote_step.splits\<close>)
  qed (use inv in simp)
qed

section \<open>Recording a vote\<close>

text \<open>The round state with the lock and the polka on a block.\<close>

definition locked_on :: "block \<Rightarrow> u32 \<Rightarrow> round_state \<Rightarrow> round_state" where
  "locked_on b r s = s\<lparr>rs_locked_round := Some r, rs_locked_block := Some b, rs_valid_round := Some r,
     rs_valid_block := Some b\<rparr>"

lemmas action_defs = act_bind_def act_then_def act_unless_def note_validator_liveness_def on_store_def
  append_wal_def update_store_def update_state_def act_defs

lemma observe_polka_result:
  "observe_polka E v n = (n', r) \<Longrightarrow> r = Inr () \<and> nd_sent n' = nd_sent n \<and> nd_mempool n' = nd_mempool n \<and>
     (if \<exists>p. rs_proposal (nd_state n) = Some p \<and> block_hash E p = vt_block_hash v \<and> vt_block_hash v \<noteq> NIL_HASH
      then nd_state n' = locked_on (the (rs_proposal (nd_state n))) (vt_round v) (nd_state n)
      else nd_state n' = nd_state n)"
  by (auto simp: observe_polka_def action_defs locked_on_def split: option.splits if_splits)

lemma observe_polka_pair: "observe_polka E v n = (fst (observe_polka E v n), Inr ())"
  using observe_polka_result [of E v n] by (metis prod.collapse)

text \<open>The node once a vote is counted, before any polka.\<close>

definition counted_node :: "vote \<Rightarrow> node \<Rightarrow> node" where
  "counted_node v n = n\<lparr>nd_store := append_consensus_wal (nd_store n)
     (VoteRecorded (vt_height v) (vt_round v) (vt_step v) (vt_block_hash v) (vt_validator_address v)),
     nd_state := count_vote v (nd_state n)\<rparr>"

definition reached_quorum :: "consensus_engine \<Rightarrow> vote \<Rightarrow> node \<Rightarrow> bool" where
  "reached_quorum C v n \<longleftrightarrow> quorum C (nd_store n) \<le> length (voters_of (tally (nd_state n) (vt_step v)) (vt_block_hash v))"

lemma record_vote_run:
  assumes "verify_vote (ce_ext X) (ce_scheme C) v = Inr ()"
    and "note_validator_liveness C (vt_validator_address v) n = (n1, Inr ())"
  shows "record_vote X C v n =
    (if vt_height v \<noteq> rs_height (nd_state n1) \<or> vt_round v \<noteq> rs_round (nd_state n1) then (n1, Inr (None, None))
     else if conflicts (nd_state n1) v
     then (n1\<lparr>nd_state := note_duplicate_vote v (nd_state n1), nd_store := append_consensus_wal (nd_store n1)
        (EvidenceRecorded (vt_height v) (vt_round v) (vt_validator_address v) ''duplicate vote'')\<rparr>, Inr (None, None))
     else if vt_step v = Prevote
     then (if reached_quorum C v (counted_node v n1)
           then (fst (observe_polka (ce_ext X) v (counted_node v n1)), Inr (Some (vt_block_hash v), None))
           else (counted_node v n1, Inr (None, None)))
     else (counted_node v n1, Inr (None,
        if reached_quorum C v (counted_node v n1) \<and> vt_block_hash v \<noteq> NIL_HASH then Some (vt_block_hash v) else None)))"
proof -
  have polka: "act_then (observe_polka (ce_ext X) v) (act_return (Some (vt_block_hash v), None :: hash32 option)) m
      = (fst (observe_polka (ce_ext X) v m), Inr (Some (vt_block_hash v), None))" for m
    by (simp add: act_then_def act_bind_def) (subst observe_polka_pair, simp)
  show ?thesis
    using assms polka
    by (cases "vt_step v") (simp_all add: record_vote_def act_bind_def act_then_def act_unless_def append_wal_def
        update_store_def update_state_def act_defs reached_quorum_def counted_node_def)
qed

lemma record_vote_stop:
  assumes "record_vote X C v n = (n', r)"
    and "\<not> (verify_vote (ce_ext X) (ce_scheme C) v = Inr () \<and>
      (\<exists>n1. note_validator_liveness C (vt_validator_address v) n = (n1, Inr ())))"
  shows "nd_state n' = nd_state n \<and> nd_sent n' = nd_sent n \<and> nd_mempool n' = nd_mempool n"
proof (cases "verify_vote (ce_ext X) (ce_scheme C) v")
  case (Inl e)
  then show ?thesis using assms(1) by (simp add: record_vote_def act_bind_def)
next
  case (Inr u)
  obtain n1 r1 where live: "note_validator_liveness C (vt_validator_address v) n = (n1, r1)"
    by (metis prod.exhaust)
  then obtain e where "r1 = Inl e" using assms(2) Inr by (cases r1) auto
  then show ?thesis
    using assms(1) Inr live
    by (auto simp: record_vote_def act_bind_def act_then_def note_validator_liveness_def on_store_def split: prod.splits)
qed

lemma record_vote_result:
  assumes "record_vote X C v n = (n', r)"
  shows "nd_sent n' = nd_sent n \<and> nd_mempool n' = nd_mempool n \<and> (nd_state n' = nd_state n \<or>
    (verify_vote (ce_ext X) (ce_scheme C) v = Inr () \<and> vt_height v = rs_height (nd_state n) \<and>
     vt_round v = rs_round (nd_state n) \<and>
     ((conflicts (nd_state n) v \<and> nd_state n' = note_duplicate_vote v (nd_state n)) \<or>
      (\<not> conflicts (nd_state n) v \<and> (nd_state n' = count_vote v (nd_state n) \<or>
        (\<exists>p. nd_state n' = locked_on p (vt_round v) (count_vote v (nd_state n))))))))"
proof (cases "verify_vote (ce_ext X) (ce_scheme C) v = Inr () \<and>
      (\<exists>n1. note_validator_liveness C (vt_validator_address v) n = (n1, Inr ()))")
  case False
  then show ?thesis using record_vote_stop [OF assms False] by simp
next
  case True
  then obtain n1 where live: "note_validator_liveness C (vt_validator_address v) n = (n1, Inr ())" by blast
  then have n1: "nd_state n1 = nd_state n" "nd_sent n1 = nd_sent n" "nd_mempool n1 = nd_mempool n"
    by (auto simp: note_validator_liveness_def on_store_def split: prod.splits)
  have polka: "nd_sent (fst (observe_polka (ce_ext X) v m)) = nd_sent m \<and>
      nd_mempool (fst (observe_polka (ce_ext X) v m)) = nd_mempool m \<and>
      (nd_state (fst (observe_polka (ce_ext X) v m)) = nd_state m \<or>
       (\<exists>p. nd_state (fst (observe_polka (ce_ext X) v m)) = locked_on p (vt_round v) (nd_state m)))" for m
    using observe_polka_result [OF observe_polka_pair, of "ce_ext X" v m] by (auto split: if_splits)
  have counted: "nd_state (counted_node v n1) = count_vote v (nd_state n)" "nd_sent (counted_node v n1) = nd_sent n"
    "nd_mempool (counted_node v n1) = nd_mempool n"
    by (simp_all add: counted_node_def n1)
  show ?thesis
    using assms record_vote_run [OF conjunct1 [OF True] live] polka [of "counted_node v n1"] conjunct1 [OF True] n1
    by (auto simp: counted split: if_splits)
qed

lemma voters_of_add: "voters_of (add_voter m h a) h' = (if h' = h then bs_insert a (voters_of m h) else voters_of m h')"
  by (simp add: voters_of_def add_voter_def)

lemma tally_count_vote: "tally (count_vote v s) step
    = (if step = vt_step v then add_voter (tally s step) (vt_block_hash v) (vt_validator_address v) else tally s step)"
  by (cases step; cases "vt_step v") (simp_all add: tally_def count_vote_def)

lemma count_vote_sel [simp]:
  "rs_votes (count_vote v s) = rs_votes s @ [v]" "rs_height (count_vote v s) = rs_height s"
  "rs_round (count_vote v s) = rs_round s" "rs_prevoted (count_vote v s) = rs_prevoted s"
  "rs_precommitted (count_vote v s) = rs_precommitted s" "rs_proposal (count_vote v s) = rs_proposal s"
  "rs_locked_block (count_vote v s) = rs_locked_block s" "rs_locked_round (count_vote v s) = rs_locked_round s"
  "rs_valid_block (count_vote v s) = rs_valid_block s" "rs_valid_round (count_vote v s) = rs_valid_round s"
  by (cases "vt_step v"; simp add: count_vote_def)+

lemma distinct_bs_insert [simp]: "distinct (bs_insert a xs) = distinct xs"
  by (simp add: bs_insert_def distinct_insort)

lemma votes_ok_count:
  assumes "votes_ok E S s" "verify_vote E S v = Inr ()" "vt_height v = rs_height s" "vt_round v = rs_round s"
    and "\<not> conflicts s v"
  shows "votes_ok E S (count_vote v s)"
proof -
  have same: "vt_block_hash w = vt_block_hash v"
    if "w \<in> set (rs_votes s)" "vt_step w = vt_step v" "vt_validator_address w = vt_validator_address v" for w
  proof -
    have "vt_height w = rs_height s" "vt_round w = rs_round s"
      using assms(1) that(1) unfolding votes_ok_def by blast+
    then show ?thesis using assms(3-5) that by (auto simp: conflicts_def list_ex_iff)
  qed
  have one: "\<forall>w\<in>set (rs_votes (count_vote v s)). verify_vote E S w = Inr () \<and>
      vt_height w = rs_height (count_vote v s) \<and> vt_round w = rs_round (count_vote v s)"
  proof -
    have "\<forall>w\<in>set (rs_votes s). verify_vote E S w = Inr () \<and> vt_height w = rs_height s \<and> vt_round w = rs_round s"
      using assms(1) unfolding votes_ok_def by blast
    then show ?thesis using assms(2-4) by simp
  qed
  have two: "vt_block_hash u = vt_block_hash w"
    if "u \<in> set (rs_votes (count_vote v s))" "w \<in> set (rs_votes (count_vote v s))" "vt_step u = vt_step w"
      "vt_validator_address u = vt_validator_address w" for u w
  proof (cases "u = v \<or> w = v")
    case True
    then show ?thesis using that same [of u] same [of w] by auto
  next
    case False
    then have "u \<in> set (rs_votes s)" "w \<in> set (rs_votes s)" using that by auto
    then show ?thesis using that(3,4) assms(1) unfolding votes_ok_def by blast
  qed
  have three: "distinct (voters_of (tally (count_vote v s) step) h) \<and> set (voters_of (tally (count_vote v s) step) h)
        = {vt_validator_address w | w. w \<in> set (rs_votes (count_vote v s)) \<and> vt_step w = step \<and> vt_block_hash w = h}"
    for step h
  proof -
    have old: "distinct (voters_of (tally s step) h)" "set (voters_of (tally s step) h)
        = {vt_validator_address w | w. w \<in> set (rs_votes s) \<and> vt_step w = step \<and> vt_block_hash w = h}"
      using assms(1) unfolding votes_ok_def by blast+
    show ?thesis
    proof (cases "step = vt_step v \<and> h = vt_block_hash v")
      case True
      then show ?thesis using old by (auto simp: tally_count_vote voters_of_add)
    next
      case False
      then show ?thesis using old by (auto simp: tally_count_vote voters_of_add)
    qed
  qed
  show ?thesis unfolding votes_ok_def using one two three by blast
qed

lemma locked_on_sel [simp]:
  "rs_height (locked_on b r s) = rs_height s" "rs_round (locked_on b r s) = rs_round s"
  "rs_votes (locked_on b r s) = rs_votes s" "rs_prevoted (locked_on b r s) = rs_prevoted s"
  "rs_precommitted (locked_on b r s) = rs_precommitted s"
  by (simp_all add: locked_on_def)

lemma tally_locked_on [simp]: "tally (locked_on b r s) = tally s"
  by (simp add: fun_eq_iff tally_def locked_on_def split: vote_step.split)

lemma keeps_record_vote [triple_rules]:
  assumes "ce_ext X = E" "ce_scheme C = S"
  shows "keeps (record_vote X C v) (inv_at E S k j)"
proof (rule tripleI)
  fix n n' r
  assume inv: "inv_at E S k j n" and run: "record_vote X C v n = (n', r)"
  let ?s = "nd_state n"
  note res = record_vote_result [OF run, unfolded assms]
  have old: "node_inv E S k j ?s (nd_sent n)" using inv by (simp add: stateful_def)
  have counted: "node_inv E S k j (count_vote v ?s) (nd_sent n)"
    if "verify_vote E S v = Inr ()" "vt_height v = rs_height ?s" "vt_round v = rs_round ?s" "\<not> conflicts ?s v"
  proof -
    have "own_ok (count_vote v ?s) (nd_sent n) = own_ok ?s (nd_sent n)"
      by (rule own_ok_cong) simp_all
    then show ?thesis
      using old votes_ok_count [OF _ that] by (simp add: node_inv_def lock_ok_def)
  qed
  have locked: "node_inv E S k j (locked_on p rd s) l" if "node_inv E S k j s l" for p rd s l
  proof -
    have "own_ok (locked_on p rd s) l = own_ok s l"
      by (rule own_ok_cong) simp_all
    moreover have "votes_ok E S (locked_on p rd s) = votes_ok E S s"
      by (rule votes_ok_cong) simp_all
    ultimately show ?thesis using that by (simp add: node_inv_def lock_ok_def locked_on_def)
  qed
  have noted: "node_inv E S k j (note_duplicate_vote v ?s) (nd_sent n)"
    using old by (rule node_inv_cong) (simp_all add: note_duplicate_vote_def Let_def)
  show "inv_at E S k j n'"
    using res old counted locked noted unfolding stateful_def by metis
qed

section \<open>Advancing\<close>

text \<open>A move to a later position with empty tallies.\<close>

lemma node_inv_advance:
  assumes "node_inv E S k j s sent" "position s < position s'" "rs_votes s' = []" "rs_prevotes s' = []"
    and "rs_precommits s' = []" "lock_ok s'" "unat (rs_height s') + k' < 2 ^ 64" "unat (rs_round s') + j' < 2 ^ 32"
  shows "node_inv E S k' j' s' sent"
proof -
  have old: "own_ok s sent" using assms(1) by (simp add: node_inv_def)
  have "vote_position v < position s'" if "VoteMsg v \<in> set sent" for v
  proof -
    have "vote_position v \<le> position s"
      using old that unfolding own_ok_def by (metis order_le_less)
    then show ?thesis using assms(2) by simp
  qed
  then have "own_ok s' sent" using old unfolding own_ok_def by blast
  moreover have "votes_ok E S s'"
    using assms(3-5) by (auto simp: votes_ok_def tally_def voters_of_def split: vote_step.split)
  ultimately show ?thesis using assms(6-8) by (simp add: node_inv_def)
qed

lemma triple_advance_height:
  assumes "\<And>n. P n \<Longrightarrow> \<exists>i. inv_at E S i j n \<and> unat (rs_height (nd_state n)) < unat h \<and> unat h + k < 2 ^ 64"
  shows "triple P (advance_height h) (\<lambda>_. inv_at E S k j)"
  unfolding advance_height_def
proof (rule triple_then)
  show "triple P (update_state (\<lambda>s. (reset_round s)\<lparr>rs_height := h, rs_round := 0, rs_locked_round := None,
      rs_locked_block := None, rs_valid_round := None, rs_valid_block := None\<rparr>)) (\<lambda>_. inv_at E S k j)"
  proof (rule tripleI)
    fix n n' r
    assume "P n" and run: "update_state (\<lambda>s. (reset_round s)\<lparr>rs_height := h, rs_round := 0,
      rs_locked_round := None, rs_locked_block := None, rs_valid_round := None, rs_valid_block := None\<rparr>) n = (n', r)"
    then obtain i where inv: "node_inv E S i j (nd_state n) (nd_sent n)"
      and h: "unat (rs_height (nd_state n)) < unat h" "unat h + k < 2 ^ 64"
      using assms by (fastforce simp: stateful_def)
    have "j < 2 ^ 32" using inv by (simp add: node_inv_def)
    then show "inv_at E S k j n'"
      using run h node_inv_advance [OF inv, of "(reset_round (nd_state n))\<lparr>rs_height := h, rs_round := 0,
        rs_locked_round := None, rs_locked_block := None, rs_valid_round := None, rs_valid_block := None\<rparr>" k j]
      by (auto simp: update_state_def act_defs stateful_def reset_round_def position_def lock_ok_def less_prod_def)
  qed
qed (intro triple_rules, simp)

lemma triple_advance_round: "triple (inv_at E S k (Suc j)) advance_round (\<lambda>_. inv_at E S k j)"
  unfolding advance_round_def
proof (rule triple_then)
  show "triple (inv_at E S k (Suc j)) (update_state (\<lambda>s. (reset_round s)\<lparr>rs_round := rs_round s + 1\<rparr>)) (\<lambda>_. inv_at E S k j)"
  proof (rule triple_update_state)
    fix s l
    assume inv: "node_inv E S k (Suc j) s l"
    have "unat (rs_round s + 1) = unat (rs_round s) + 1"
      using inv by (simp add: node_inv_def unat_word_ariths)
    then show "node_inv E S k j ((reset_round s)\<lparr>rs_round := rs_round s + 1\<rparr>) l"
      using inv by (intro node_inv_advance [OF inv])
        (auto simp: reset_round_def position_def lock_ok_def node_inv_def less_prod_def)
  qed
qed (intro triple_rules, simp)

section \<open>Handlers\<close>

lemma keeps_pending_evidence [triple_rules]: "keeps (apply_pending_evidence C) (inv_at E S k j)"
  unfolding apply_pending_evidence_def by (intro triple_rules keeps_quiet_update) simp

lemma height_succ: "unat (h :: u64) + Suc k < 2 ^ 64 \<Longrightarrow> unat (h + 1) = unat h + 1"
  by (simp add: unat_word_ariths)

text \<open>The steps of \<open>finalize\<close> before \<open>advance_height\<close> keep the height.\<close>

definition at_height :: "ext \<Rightarrow> scheme \<Rightarrow> nat \<Rightarrow> nat \<Rightarrow> u64 \<Rightarrow> node \<Rightarrow> bool" where
  "at_height E S k j h n \<longleftrightarrow> inv_at E S k j n \<and> rs_height (nd_state n) = h"

lemma at_height_stateful: "at_height E S k j h = stateful (\<lambda>s l. node_inv E S k j s l \<and> rs_height s = h)"
  by (simp add: fun_eq_iff at_height_def stateful_def)

lemma keeps_quiet_at_height:
  assumes "\<And>s l. node_inv E S k j s l \<Longrightarrow> node_inv E S k j (f s) l" "\<And>s. rs_height (f s) = rs_height s"
  shows "keeps (update_state f) (at_height E S k j h)"
  unfolding at_height_stateful by (rule triple_update_state) (simp add: assms)

lemma bind_on_store: "f (nd_store n) = (st, Inr a) \<Longrightarrow>
    act_bind (on_store f e) g n = g a (n\<lparr>nd_store := st\<rparr>)"
  by (simp add: act_bind_def on_store_def)

lemma then_lift: "act_then (act_lift (Inr ())) m n = m n"
  by (simp add: act_then_def act_bind_def)

lemma triple_finalize: "triple (inv_at E S (Suc k) j) (finalize X C bh) (\<lambda>_. inv_at E S k j)"
proof (rule tripleI)
  fix n n' r
  assume inv: "inv_at E S (Suc k) j n" and run: "finalize X C bh n = (n', r)"
  let ?h = "rs_height (nd_state n)"
  have here: "at_height E S (Suc k) j ?h n" using inv by (simp add: at_height_def)
  have weak: "inv_at E S k j m" if "at_height E S (Suc k) j ?h m" for m
    using that by (auto simp: at_height_def intro: inv_at_weaken)
  have adv: "triple (at_height E S (Suc k) j ?h) (advance_height (?h + 1)) (\<lambda>_. inv_at E S k j)"
  proof (rule triple_advance_height)
    fix m
    assume at: "at_height E S (Suc k) j ?h m"
    then have room: "unat ?h + Suc k < 2 ^ 64" by (auto simp: at_height_def stateful_def node_inv_def)
    show "\<exists>i. inv_at E S i j m \<and> unat (rs_height (nd_state m)) < unat (?h + 1) \<and> unat (?h + 1) + k < 2 ^ 64"
      using at room height_succ [OF room] by (auto simp: at_height_def)
  qed
  have tail: "triple (at_height E S (Suc k) j ?h)
      (act_then (append_wal w) (act_then (update_store f) (act_then (apply_pending_evidence C)
        (act_then (update_mempool g) (act_then (broadcast X (CommitMsg fb))
        (act_then (if c then update_store f1 else act_return ()) (act_then (if d then update_store f2 else act_return ())
          (advance_height (?h + 1))))))))) (\<lambda>_. inv_at E S k j)" for w f g fb c d f1 f2
  proof -
    have wal: "keeps (append_wal w) (at_height E S (Suc k) j ?h)"
      and upd: "keeps (update_store f) (at_height E S (Suc k) j ?h)"
      and pool: "keeps (update_mempool g) (at_height E S (Suc k) j ?h)" for f
      unfolding at_height_stateful by (intro triple_rules)+
    have ev: "keeps (apply_pending_evidence C) (at_height E S (Suc k) j ?h)"
      unfolding apply_pending_evidence_def
      by (intro triple_rules keeps_quiet_at_height)
        (auto intro: node_inv_cong simp: at_height_stateful keeps_on_store)
    have send: "keeps (broadcast X (CommitMsg fb)) (at_height E S (Suc k) j ?h)"
      unfolding at_height_stateful by (intro triple_broadcast) (auto simp: node_inv_def own_ok_def)
    show ?thesis
      by (intro triple_then [OF wal] triple_then [OF upd] triple_then [OF ev] triple_then [OF pool]
          triple_then [OF send] triple_then [OF keeps_if [OF upd keeps_return]] adv) (fact weak)+
  qed
  show "inv_at E S k j n'"
  proof (cases "rs_proposal (nd_state n)")
    case None
    then show ?thesis using run inv inv_at_weaken [OF inv, of k j] by (simp add: finalize_def)
  next
    case (Some b)
    show ?thesis
    proof (cases "block_hash (ce_ext X) b = bh")
      case False
      then show ?thesis using run Some inv inv_at_weaken [OF inv, of k j]
        by (simp add: finalize_def act_unless_def Let_def)
    next
      case True
      define c where "c = \<lparr>cc_block_hash = bh, cc_height = ?h, cc_round = rs_round (nd_state n),
          cc_votes = commit_votes (nd_state n) bh\<rparr>"
      note run' = run [unfolded finalize_def, simplified, unfolded Some option.case Let_def c_def [symmetric],
          simplified True act_unless_def simp_thms if_False, simplified]
      show ?thesis
      proof (cases "validate_commit_certificate (ce_ext X) C (nd_store n) b c")
        case (Inl e)
        then have "n' = n" using run' by (simp add: act_then_def act_bind_def)
        then show ?thesis using inv inv_at_weaken [OF inv, of k j] by simp
      next
        case (Inr u)
        obtain st res where exec: "execute_block (cv_exec X) (ce_execution C) (ce_scheme C) (nd_store n) b = (st, res)"
          by (metis prod.exhaust)
        have at: "at_height E S (Suc k) j ?h (n\<lparr>nd_store := st\<rparr>)"
          using here by (simp add: at_height_def stateful_def)
        show ?thesis
        proof (cases res)
          case (Inl e)
          then have "n' = n\<lparr>nd_store := st\<rparr>"
            using run' Inr exec by (simp add: act_then_def act_bind_def on_store_def)
          then show ?thesis using weak [OF at] by simp
        next
          case (Inr executed)
          then show ?thesis
            using run' \<open>validate_commit_certificate _ _ _ _ _ = _\<close> exec
            by (simp add: bind_on_store [where a = executed] then_lift)
              (erule tripleD [OF tail at])
        qed
      qed
    qed
  qed
qed

lemma triple_option:
  "triple P m Q \<Longrightarrow> (\<And>a. triple P (f a) Q) \<Longrightarrow> triple P (case x of None \<Rightarrow> m | Some a \<Rightarrow> f a) Q"
  by (cases x) simp_all

lemma triple_prod: "(\<And>a b. triple P (f a b) Q) \<Longrightarrow> triple P (case x of (a, b) \<Rightarrow> f a b) Q"
  by (cases x) simp

lemma triple_unless: "triple P k Q \<Longrightarrow> (\<And>s. P s \<Longrightarrow> Q (Inr a) s) \<Longrightarrow> triple P (act_unless c a k) Q"
  by (simp add: act_unless_def triple_def)

lemma triple_here: "(\<And>s. P s \<Longrightarrow> Q r s) \<Longrightarrow> triple P (act_lift r) Q"
  by (simp add: triple_def)

lemma triple_return: "(\<And>s. P s \<Longrightarrow> Q s) \<Longrightarrow> triple P (act_return a) (\<lambda>_. Q)"
  by (simp add: triple_def)

lemma triple_fail: "(\<And>s. P s \<Longrightarrow> Q s) \<Longrightarrow> triple P (act_fail e) (\<lambda>_. Q)"
  by (simp add: triple_def)

lemma inv_at_Suc: "inv_at E S (Suc k) j n \<Longrightarrow> inv_at E S k j n"
  by (erule inv_at_weaken) simp_all

text \<open>Handlers that use up one height of the room: quiet steps first, the step that may finalize last.\<close>

lemma triple_spend:
  "keeps m (inv_at E S (Suc k) j) \<Longrightarrow> (\<And>a. triple (inv_at E S (Suc k) j) (f a) (\<lambda>_. inv_at E S k j)) \<Longrightarrow>
     triple (inv_at E S (Suc k) j) (act_bind m f) (\<lambda>_. inv_at E S k j)"
  by (erule triple_seq) (auto intro: inv_at_Suc)

lemma triple_spend_then:
  "keeps m (inv_at E S (Suc k) j) \<Longrightarrow> triple (inv_at E S (Suc k) j) f (\<lambda>_. inv_at E S k j) \<Longrightarrow>
     triple (inv_at E S (Suc k) j) (act_then m f) (\<lambda>_. inv_at E S k j)"
  by (erule triple_then) (auto intro: inv_at_Suc)

lemma triple_spend_return: "triple (inv_at E S (Suc k) j) (act_return a) (\<lambda>_. inv_at E S k j)"
  by (rule triple_return) (rule inv_at_Suc)

lemma triple_spend_fail: "triple (inv_at E S (Suc k) j) (act_fail e) (\<lambda>_. inv_at E S k j)"
  by (rule triple_fail) (rule inv_at_Suc)

lemma triple_spend_unless:
  "triple (inv_at E S (Suc k) j) m (\<lambda>_. inv_at E S k j) \<Longrightarrow>
     triple (inv_at E S (Suc k) j) (act_unless c a m) (\<lambda>_. inv_at E S k j)"
  by (rule triple_unless) (auto intro: inv_at_Suc)

lemmas spend_rules = triple_spend triple_spend_then triple_spend_return triple_spend_fail triple_spend_unless
  triple_option triple_prod

lemma triple_vote_actions:
  assumes "ce_ext X = E" "ce_scheme C = S"
  shows "triple (inv_at E S (Suc k) j) (handle_vote_actions X C v) (\<lambda>_. inv_at E S k j)"
  unfolding handle_vote_actions_def
proof (rule triple_spend, goal_cases)
  case 1
  show ?case by (rule keeps_record_vote [OF assms])
next
  case (2 a)
  show ?case
  proof (rule triple_prod, rule triple_spend, goal_cases)
    case 1
    show ?case by (intro triple_rules assms)
  next
    case (2 _ _ f)
    show ?case by (intro spend_rules triple_finalize)
  qed
qed

lemma triple_prevote_and_drive:
  assumes "ce_ext X = E" "ce_scheme C = S"
  shows "triple (inv_at E S (Suc k) j) (prevote_and_drive X C) (\<lambda>_. inv_at E S k j)"
  unfolding prevote_and_drive_def
  by (rule triple_spend [OF keeps_emit_prevote]) (intro spend_rules triple_vote_actions assms)

lemma keeps_validate_proposal [triple_rules]: "keeps (engine_validate_proposal X C p) P"
  unfolding engine_validate_proposal_def by (intro triple_rules)

lemma keeps_set_proposal [triple_rules]: "keeps (update_state (\<lambda>s. s\<lparr>rs_proposal := b\<rparr>)) (inv_at E S k j)"
  by (rule keeps_quiet_update) simp

lemma keeps_note_conflicting [triple_rules]: "keeps (update_state (note_conflicting_proposal p)) (inv_at E S k j)"
  by (rule keeps_quiet_update) (simp add: note_conflicting_proposal_def)

lemma triple_on_proposal:
  assumes "ce_ext X = E" "ce_scheme C = S"
  shows "triple (inv_at E S (Suc k) j) (on_proposal X C p) (\<lambda>_. inv_at E S k j)"
  unfolding on_proposal_def
proof (rule triple_spend_then [OF keeps_validate_proposal], rule triple_spend [OF keeps_read],
    rule triple_spend_unless, rule triple_option, goal_cases)
  case (1 s)
  show ?case
    by (intro triple_spend_then [OF keeps_append_wal] triple_spend_then [OF keeps_set_proposal]
        triple_prevote_and_drive assms)
next
  case (2 s b)
  show ?case
    by (rule triple_weaken [OF keeps_if [OF keeps_then [OF keeps_append_wal keeps_note_conflicting] keeps_return]])
      (rule inv_at_Suc)
qed

lemma keeps_build_proposal [triple_rules]: "keeps (build_proposal X C lv p snapshot) (stateful P)"
  unfolding build_proposal_def Let_def by (intro triple_rules)

lemma triple_maybe_propose:
  assumes "ce_ext X = E" "ce_scheme C = S"
  shows "triple (inv_at E S (Suc k) j) (maybe_propose X C) (\<lambda>_. inv_at E S k j)"
proof -
  have publish: "triple (inv_at E S (Suc k) j) (publish_proposal X C a p snapshot b) (\<lambda>_. inv_at E S k j)" for a p snapshot b
    unfolding publish_proposal_def Let_def
    by (intro triple_spend_then [OF keeps_liveness] triple_spend_then [OF keeps_append_wal]
        triple_spend_then [OF keeps_set_proposal] triple_spend_then [OF keeps_quiet_broadcast]
        triple_prevote_and_drive assms) simp
  show ?thesis
    unfolding maybe_propose_def Let_def
    by (intro spend_rules publish triple_rules)
qed

lemma certificate_of_header:
  "validate_commit_certificate E C store b c = Inr () \<Longrightarrow> cc_height c = bh_height (bk_header b)"
  by (auto simp: validate_commit_certificate_def split: if_splits)

lemma triple_import:
  assumes "ce_ext X = E" "ce_scheme C = S"
    and "unat (bh_height (bk_header (fb_block fb))) + 1 + k < 2 ^ 64"
  shows "triple (inv_at E S k j) (import_external_finalized_block X C fb) (\<lambda>_. inv_at E S k j)"
proof (rule tripleI)
  fix n n' r
  let ?h = "bh_height (bk_header (fb_block fb))"
  assume inv: "inv_at E S k j n" and run: "import_external_finalized_block X C fb n = (n', r)"
  let ?P = "stateful (\<lambda>s l. node_inv E S k j s l \<and> rs_height s \<le> ?h)"
  show "inv_at E S k j n'"
  proof (cases "cc_height (fb_certificate fb) < rs_height (nd_state n) \<or>
      validate_commit_certificate (ce_ext X) C (nd_store n) (fb_block fb) (fb_certificate fb) \<noteq> Inr ()")
    case True
    then have "n' = n"
      using run by (cases "validate_commit_certificate (ce_ext X) C (nd_store n) (fb_block fb) (fb_certificate fb)")
        (auto simp: import_external_finalized_block_def act_unless_def act_then_def act_bind_def Let_def split: if_splits)
    then show ?thesis using inv by simp
  next
    case False
    then have "rs_height (nd_state n) \<le> ?h" using certificate_of_header by fastforce
    then have pre: "?P n" using inv by (simp add: stateful_def)
    have step: "(h :: u64) \<le> ?h \<Longrightarrow> unat h < unat (?h + 1)" for h
      using assms(3) height_succ [of ?h k] by (simp add: word_le_nat_alt)
    have adv: "triple ?P (advance_height (?h + 1)) (\<lambda>_. inv_at E S k j)"
      by (rule triple_advance_height) (use assms(3) step height_succ [of ?h k] in \<open>auto simp: stateful_def\<close>)
    have tail: "triple ?P (act_then (append_wal w) (act_then (on_store f e) (act_then (update_mempool g) (advance_height (?h + 1)))))
      (\<lambda>_. inv_at E S k j)" for w f e g
      by (intro triple_then [OF keeps_append_wal] triple_then [OF keeps_on_store] triple_then [OF keeps_update_mempool] adv)
        (auto simp: stateful_def)
    show ?thesis
      using run False by (simp add: import_external_finalized_block_def act_unless_def Let_def then_lift)
        (erule tripleD [OF tail pre])
  qed
qed

lemma triple_logged: "triple P m (\<lambda>_. Q) \<Longrightarrow> triple P (logged m) (\<lambda>_. Q)"
  by (fastforce simp: triple_def logged_def split: prod.splits sum.splits consensus_error.splits)

text \<open>The room one turn needs.\<close>

definition turn_guard :: "round_state \<Rightarrow> consensus_event \<Rightarrow> bool" where
  "turn_guard s ev \<longleftrightarrow> unat (rs_height s) + 2 < 2 ^ 64 \<and> unat (rs_round s) + 1 < 2 ^ 32 \<and>
     (case ev of CommitEvent fb \<Rightarrow> unat (bh_height (bk_header (fb_block fb))) + 1 < 2 ^ 64 | _ \<Rightarrow> True)"

lemma run_turn_inv:
  assumes "inv_at E S 0 0 n" "turn_guard (nd_state n) ev" "ce_ext X = E" "ce_scheme C = S"
    and "run_turn X C ev n = (n', r)"
  shows "inv_at E S 0 0 n'"
proof -
  have room: "inv_at E S (Suc (Suc 0)) (Suc 0) n"
    using assms(1,2) by (auto simp: stateful_def node_inv_def turn_guard_def)
  have one: "inv_at E S (Suc 0) 0 n" using room by (rule inv_at_weaken) simp_all
  note drive = triple_prevote_and_drive [OF assms(3,4)] and handlers = triple_on_proposal [OF assms(3,4)]
    triple_vote_actions [OF assms(3,4)]
  show ?thesis
  proof (cases ev)
    case (ProposalEvent p)
    then show ?thesis
      using tripleD [OF triple_logged [OF handlers(1)] one] assms(5) by simp
  next
    case (VoteEvent v)
    then show ?thesis
      using tripleD [OF triple_logged [OF handlers(2)] one] assms(5) by (simp add: on_vote_def)
  next
    case (CommitEvent fb)
    then show ?thesis
      using tripleD [OF triple_logged [OF triple_import [OF assms(3,4), of fb 0 0]] assms(1)] assms(2,5)
      by (simp add: on_commit_def turn_guard_def)
  next
    case OtherEvent
    then show ?thesis using assms(1,5) by simp
  next
    case TimeoutEvent
    have turn: "triple (inv_at E S (Suc (Suc 0)) (Suc 0)) (run_turn X C ev) (\<lambda>_. inv_at E S 0 0)"
      using TimeoutEvent
      by (simp, intro triple_then [OF drive] triple_then [OF triple_advance_round] triple_maybe_propose assms)
        (auto elim: inv_at_weaken)
    show ?thesis by (rule tripleD [OF turn room assms(5)])
  qed
qed

section \<open>The running node\<close>

text \<open>A node starts on a store without write-ahead log; it takes turns, and between two turns other
  tasks change the store and the mempool. Restarts are the subject of \<open>engine_start\<close> below.\<close>

definition fresh_node :: "node \<Rightarrow> bool" where
  "fresh_node n \<longleftrightarrow> (\<exists>store m. load_consensus_wal store = [] \<and> n = node_start store m)"

inductive consensus_step :: "ext \<Rightarrow> consensus_engine \<Rightarrow> node \<Rightarrow> node \<Rightarrow> bool" for E C where
  start: "ce_ext X = E \<Longrightarrow> turn_guard (nd_state n) OtherEvent \<Longrightarrow> run_start X C n = (n', r) \<Longrightarrow> consensus_step E C n n'"
| turn: "ce_ext X = E \<Longrightarrow> turn_guard (nd_state n) ev \<Longrightarrow> run_turn X C ev n = (n', r) \<Longrightarrow> consensus_step E C n n'"
| elsewhere: "consensus_step E C n (n\<lparr>nd_store := store, nd_mempool := m\<rparr>)"

lemma run_start_inv:
  assumes "inv_at E S 0 0 n" "turn_guard (nd_state n) OtherEvent" "ce_ext X = E" "ce_scheme C = S"
    and "run_start X C n = (n', r)"
  shows "inv_at E S 0 0 n'"
proof -
  have room: "inv_at E S (Suc 0) 0 n"
    using assms(1,2) by (auto simp: stateful_def node_inv_def turn_guard_def)
  have "triple (inv_at E S (Suc 0) 0) (run_start X C) (\<lambda>_. inv_at E S 0 0)"
    unfolding run_start_def
    by (intro triple_spend_then [OF keeps_persist_snapshot] triple_maybe_propose assms)
  from tripleD [OF this room assms(5)] show ?thesis .
qed

lemma fresh_node_inv: "fresh_node n \<Longrightarrow> inv_at E S 0 0 n"
  using unsigned_less [where ?'b = 64 and ?'a = nat] unsigned_less [where ?'b = 32 and ?'a = nat]
  by (auto simp: fresh_node_def node_start_def engine_start_def recover_snapshot_def stateful_def node_inv_def own_ok_def
      lock_ok_def votes_ok_def round_state_default_def tally_def voters_of_def Let_def split: vote_step.splits)

lemma consensus_step_inv:
  assumes "consensus_step E C n n'" "inv_at E (ce_scheme C) 0 0 n"
  shows "inv_at E (ce_scheme C) 0 0 n'"
  using assms
proof (cases rule: consensus_step.cases)
  case (start X r)
  then show ?thesis using run_start_inv [OF assms(2)] by blast
next
  case (turn X ev r)
  then show ?thesis using run_turn_inv [OF assms(2)] by blast
next
  case (elsewhere store m)
  then show ?thesis using assms(2) by (simp add: stateful_def)
qed

interpretation node_machine: state_machine fresh_node "consensus_step E C" "inv_at E (ce_scheme C) 0 0"
  for E C
  by unfold_locales (auto intro: fresh_node_inv consensus_step_inv)

end
