(* ===== verification/Zeno_Agreement.thy ===== *)
theory Zeno_Agreement
  imports Zeno_Safety
begin

text \<open>
  What the consensus handlers promise: a node never votes twice, counts every validator for one
  block, respects its lock, accepts exactly the certificates with a quorum of precommits, commits
  what it finalizes, and recovers its position from the write-ahead log. The node invariant comes
  from \<open>Zeno_Safety\<close>; the demo node at the start is the instance the witnesses run.
\<close>

section \<open>A node of two validators\<close>

definition demo_params :: consensus_params where
  "demo_params = \<lparr>proposal_timeout_ms = 1000, vote_timeout_ms = 500, max_transactions_per_block = 10,
     max_block_bytes = 1000, target_gas_per_block = 1000, max_gas_per_block = 2000\<rparr>"

definition demo_engine :: consensus_engine where
  "demo_engine = \<lparr>ce_chain_id = ChainId ''z'',
     ce_validators = [sample_validator, sample_validator\<lparr>va_address := Address 7\<rparr>], ce_scheme = sample_scheme,
     ce_execution = sample_engine, ce_params = demo_params,
     ce_economics = sample_economics\<lparr>minimum_self_bond := 0\<rparr>,
     ce_local = Some \<lparr>lv_validator = sample_validator, lv_secret_key = [5]\<rparr>\<rparr>"

definition demo_env :: call_env where
  "demo_env = \<lparr>cv_exec = sample_env, cv_now = 0, cv_takes = (\<lambda>_. True), cv_values = (\<lambda>_. [])\<rparr>"

definition demo_node :: node where
  "demo_node = node_start memory_store_default mempool_new"

definition demo_stake :: "address \<Rightarrow> validator_stake" where
  "demo_stake a = \<lparr>vs_validator_address = a, vs_self_bond = 0, vs_total_stake = 0,
     vs_commission_bps = 0, vs_status = Active, vs_last_liveness_epoch = 0\<rparr>"

definition demo_staking :: staking_state where
  "demo_staking = staking_state_default\<lparr>st_validators := [(Address 7, demo_stake (Address 7)),
     (sample_address, demo_stake sample_address)]\<rparr>"

definition demo_vote :: vote where
  "demo_vote = \<lparr>vt_height = 1, vt_round = 0, vt_step = Prevote, vt_block_hash = NIL_HASH,
     vt_validator_address = sample_address, vt_public_key = [5], vt_signature = [36]\<rparr>"

definition demo_voted :: node where
  "demo_voted = demo_node\<lparr>nd_store := append_consensus_wal (put_staking_state memory_store_default demo_staking)
     (VoteBroadcast 1 0 Prevote NIL_HASH sample_address), nd_state := round_state_default\<lparr>rs_prevoted := True\<rparr>,
     nd_sent := [VoteMsg demo_vote]\<rparr>"

definition demo_counted :: node where
  "demo_counted = counted_node demo_vote (demo_voted\<lparr>nd_store := put_staking_state (nd_store demo_voted) demo_staking\<rparr>)"

lemma demo_address: "sample_address = Address 173902967197231551118941472248443603386"
  by (simp add: sample_address_def sample_ext_def hash_bytes_def sample_digest_def string_bytes_def)

lemma demo_sel [simp]:
  "ce_scheme demo_engine = sample_scheme"
  "ce_local demo_engine = Some \<lparr>lv_validator = sample_validator, lv_secret_key = [5]\<rparr>"
  "ce_economics demo_engine = sample_economics\<lparr>minimum_self_bond := 0\<rparr>"
  "ce_validators demo_engine = [sample_validator, sample_validator\<lparr>va_address := Address 7\<rparr>]"
  "ce_ext demo_env = sample_ext" "cv_takes demo_env m" "va_address sample_validator = sample_address"
  "va_public_key sample_validator = [5]"
  by (simp_all add: demo_engine_def demo_env_def sample_env_def sample_validator_def)

lemma demo_start:
  "nd_state demo_node = round_state_default" "nd_store demo_node = memory_store_default" "nd_sent demo_node = []"
  by (simp_all add: demo_node_def node_start_def engine_start_def recover_snapshot_def initial_snapshot_def
      load_consensus_wal_def memory_store_default_def get_consensus_snapshot_def latest_block_def bt_last_def
      Let_def round_state_default_def)

lemma demo_loaded:
  "get_staking_state store = None \<or> get_staking_state store = Some demo_staking \<Longrightarrow>
     loaded_staking demo_engine store = demo_staking"
  by (auto simp: loaded_staking_def staking_load_def ensure_validators_def ensure_validator_def demo_stake_def
      staking_state_default_def demo_staking_def demo_address contains_key_def)

lemma demo_note: "note_liveness demo_staking sample_address = (demo_staking, Inr ())"
  by (simp add: note_liveness_def demo_staking_def demo_address staking_state_default_def demo_stake_def)

lemma demo_active:
  "loaded_staking demo_engine store = demo_staking \<Longrightarrow> local_validator_active demo_engine store"
  by (simp add: local_validator_active_def is_validator_active_def demo_staking_def demo_address eligible_def
      demo_stake_def)

lemma demo_current:
  "loaded_staking demo_engine store = demo_staking \<Longrightarrow>
     current_validators demo_engine store = [sample_validator\<lparr>va_address := Address 7\<rparr>, sample_validator]"
  by (simp add: current_validators_def Let_def demo_staking_def effective_validator_set_def bt_values_def
      eligible_def demo_stake_def demo_address validator_le_def sort_by_def List.map_filter_def)

lemma demo_signed:
  "sign_vote sample_ext sample_scheme (demo_vote\<lparr>vt_signature := []\<rparr>) [5] = Inr demo_vote"
  by (simp add: sign_vote_def vote_bytes_def canonical_vote_bytes_def sample_ext_def sample_scheme_def
      ml_dsa_sign_def sample_oqs_def domain_message_def demo_vote_def NIL_HASH_def)

lemma demo_verified: "verify_vote sample_ext sample_scheme demo_vote = Inr ()"
  by (rule ml_dsa.signed_vote_verifies [OF _ demo_signed [unfolded sample_scheme_def], folded sample_scheme_def])
    (simp_all add: demo_vote_def sample_pair sample_address_derived)

lemma demo_liveness:
  "loaded_staking demo_engine (nd_store n) = demo_staking \<Longrightarrow>
     note_validator_liveness demo_engine sample_address n
       = (n\<lparr>nd_store := put_staking_state (nd_store n) demo_staking\<rparr>, Inr ())"
  by (simp add: note_validator_liveness_def on_store_def demo_note staking_persist_def)

lemma demo_emit: "emit_prevote demo_env demo_engine demo_node = (demo_voted, Inr (Some demo_vote))"
proof -
  have fresh: "loaded_staking demo_engine memory_store_default = demo_staking"
    by (rule demo_loaded) (simp add: memory_store_default_def get_staking_state_def)
  show ?thesis
    using demo_active [OF fresh] demo_liveness [of demo_node] fresh demo_signed
    by (simp add: emit_prevote_def demo_start act_unless_def round_state_default_def prevote_hash_def cast_vote_def
        act_bind_def append_wal_def update_store_def update_state_def broadcast_def demo_voted_def act_then_def
        act_defs demo_vote_def)
qed

lemma demo_record: "record_vote demo_env demo_engine demo_vote demo_voted = (demo_counted, Inr (None, None))"
proof -
  have staking: "loaded_staking demo_engine (nd_store demo_voted) = demo_staking"
    by (rule demo_loaded) (simp add: demo_voted_def store_ops)
  then have live: "note_validator_liveness demo_engine (vt_validator_address demo_vote) demo_voted
      = (demo_voted\<lparr>nd_store := put_staking_state (nd_store demo_voted) demo_staking\<rparr>, Inr ())"
    using demo_liveness by (simp add: demo_vote_def)
  have "loaded_staking demo_engine (nd_store demo_counted) = demo_staking"
    by (rule demo_loaded) (simp add: demo_counted_def counted_node_def store_ops)
  then have "\<not> reached_quorum demo_engine demo_vote demo_counted"
    by (simp add: reached_quorum_def quorum_def demo_current demo_counted_def counted_node_def demo_vote_def
        demo_voted_def count_vote_def tally_def voters_of_def add_voter_def bs_insert_def round_state_default_def)
  then show ?thesis
    using record_vote_run [OF _ live] demo_verified
    by (simp add: demo_counted_def) (simp add: demo_voted_def demo_vote_def round_state_default_def conflicts_def)
qed

lemma demo_run: "VoteMsg demo_vote \<in> set (nd_sent (fst (run_turn demo_env demo_engine TimeoutEvent demo_node)))"
proof -
  define adv where "adv = fst (advance_round demo_counted)"
  have drive: "prevote_and_drive demo_env demo_engine demo_node = (demo_counted, Inr ())"
    by (simp add: prevote_and_drive_def act_bind_def demo_emit handle_vote_actions_def demo_record)
  have advance: "advance_round demo_counted = (adv, Inr ())"
    "nd_sent adv = nd_sent demo_counted" "nd_state adv = (nd_state demo_counted)\<lparr>rs_round := 1,
       rs_prevoted := False, rs_votes := [], rs_prevotes := []\<rparr>"
    "get_staking_state (nd_store adv) = Some demo_staking"
    by (simp_all add: adv_def advance_round_def act_then_def act_bind_def update_state_def update_store_def act_defs
        persist_snapshot_def append_wal_def reset_round_def demo_counted_def counted_node_def count_vote_def
        demo_vote_def demo_voted_def round_state_default_def current_snapshot_def store_ops)
  have staking: "loaded_staking demo_engine (nd_store adv) = demo_staking"
    by (rule demo_loaded) (simp add: advance(4))
  have "rs_height (nd_state demo_counted) = 1"
    by (simp add: demo_counted_def counted_node_def demo_voted_def round_state_default_def)
  then have at: "rs_height (nd_state adv) = 1" "rs_round (nd_state adv) = 1"
    by (simp_all add: advance(3))
  have even: "(2 :: nat) mod Suc (Suc 0) = 0" by (simp add: numeral_2_eq_2)
  have other: "proposer_for demo_engine (nd_store adv) 1 1 = Some (sample_validator\<lparr>va_address := Address 7\<rparr>)"
    by (simp add: proposer_for_def demo_current [OF staking] even)
  have "maybe_propose demo_env demo_engine adv = (adv, Inr ())"
    using demo_active [OF staking] other
    by (simp add: maybe_propose_def Let_def act_bind_def act_unless_def at current_snapshot_def demo_address)
  then have "run_turn demo_env demo_engine TimeoutEvent demo_node = (adv, Inr ())"
    using drive advance(1) by (simp add: act_then_def act_bind_def)
  moreover have "VoteMsg demo_vote \<in> set (nd_sent demo_counted)"
    by (simp add: demo_counted_def counted_node_def demo_voted_def)
  ultimately show ?thesis by (simp add: advance(2))
qed

definition demo_after :: node where
  "demo_after = fst (run_turn demo_env demo_engine TimeoutEvent demo_node)"

lemma demo_reachable: "fresh_node demo_node" "(consensus_step sample_ext demo_engine)\<^sup>*\<^sup>* demo_node demo_after"
proof -
  show "fresh_node demo_node"
    unfolding fresh_node_def demo_node_def
    by (intro exI [of _ memory_store_default] exI [of _ mempool_new]) (simp add: memory_store_default_def store_ops)
  obtain r where "run_turn demo_env demo_engine TimeoutEvent demo_node = (demo_after, r)"
    unfolding demo_after_def by (metis prod.collapse)
  then have "consensus_step sample_ext demo_engine demo_node demo_after"
    by (rule consensus_step.turn [rotated 2]) (simp_all add: turn_guard_def demo_start round_state_default_def)
  then show "(consensus_step sample_ext demo_engine)\<^sup>*\<^sup>* demo_node demo_after" by (rule r_into_rtranclp)
qed

text \<open>The same node after the vote has come back from the network.\<close>

definition demo_heard :: node where
  "demo_heard = counted_node demo_vote (demo_node\<lparr>nd_store := put_staking_state memory_store_default demo_staking\<rparr>)"

lemma demo_heard_state: "nd_state demo_heard = count_vote demo_vote round_state_default"
  by (simp add: demo_heard_def counted_node_def demo_start)

lemma demo_hear: "record_vote demo_env demo_engine demo_vote demo_node = (demo_heard, Inr (None, None))"
proof -
  have "loaded_staking demo_engine (nd_store demo_node) = demo_staking"
    by (rule demo_loaded) (simp add: demo_start memory_store_default_def store_ops)
  then have live: "note_validator_liveness demo_engine (vt_validator_address demo_vote) demo_node
      = (demo_node\<lparr>nd_store := put_staking_state memory_store_default demo_staking\<rparr>, Inr ())"
    using demo_liveness [of demo_node] by (simp add: demo_vote_def demo_start)
  have "loaded_staking demo_engine (nd_store demo_heard) = demo_staking"
    by (rule demo_loaded) (simp add: demo_heard_def counted_node_def store_ops)
  then have "\<not> reached_quorum demo_engine demo_vote demo_heard"
    by (simp add: reached_quorum_def quorum_def demo_current demo_heard_state demo_vote_def count_vote_def
        tally_def voters_of_def add_voter_def bs_insert_def round_state_default_def)
  then show ?thesis
    using record_vote_run [OF _ live] demo_verified
    by (simp add: demo_heard_def demo_start) (simp add: demo_vote_def round_state_default_def conflicts_def)
qed

lemma demo_heard_reachable: "(consensus_step sample_ext demo_engine)\<^sup>*\<^sup>* demo_node demo_heard"
proof -
  have "run_turn demo_env demo_engine (VoteEvent demo_vote) demo_node = (demo_heard, Inr ())"
    by (simp add: logged_def on_vote_def handle_vote_actions_def act_bind_def demo_hear)
  then have "consensus_step sample_ext demo_engine demo_node demo_heard"
    by (rule consensus_step.turn [rotated 2]) (simp_all add: turn_guard_def demo_start round_state_default_def)
  then show ?thesis by (rule r_into_rtranclp)
qed

section \<open>Votes\<close>



text \<open>C10: in a running node a validator is counted for at most one block in each step of a round:
  when an address is in the tallies of two blocks, the blocks are the same; every counted address
  has a recorded vote for that block, verified and for the current height and round.\<close>

theorem votes_counted_once:
  assumes "fresh_node n" and "(consensus_step E C)\<^sup>*\<^sup>* n n'"
    and "a \<in> set (voters_of (tally (nd_state n') step) h)"
  shows "(\<exists>v\<in>set (rs_votes (nd_state n')). vt_validator_address v = a \<and> vt_step v = step \<and> vt_block_hash v = h \<and>
      verify_vote E (ce_scheme C) v = Inr () \<and> vt_height v = rs_height (nd_state n') \<and>
      vt_round v = rs_round (nd_state n')) \<and>
    (\<forall>h'. a \<in> set (voters_of (tally (nd_state n') step) h') \<longrightarrow> h' = h)"
proof -
  have ok: "votes_ok E (ce_scheme C) (nd_state n')"
    using node_machine.reachable_inv [OF assms(1,2)] by (simp add: stateful_def node_inv_def)
  have counted: "\<exists>v\<in>set (rs_votes (nd_state n')). vt_validator_address v = a \<and> vt_step v = step \<and> vt_block_hash v = k"
    if "a \<in> set (voters_of (tally (nd_state n') step) k)" for k
  proof -
    have "set (voters_of (tally (nd_state n') step) k) = {vt_validator_address v | v. v \<in> set (rs_votes (nd_state n')) \<and>
        vt_step v = step \<and> vt_block_hash v = k}"
      using ok [unfolded votes_ok_def] by blast
    then show ?thesis using that by auto
  qed
  then obtain v where v: "v \<in> set (rs_votes (nd_state n'))" "vt_validator_address v = a" "vt_step v = step"
    "vt_block_hash v = h" using assms(3) by blast
  have "verify_vote E (ce_scheme C) v = Inr () \<and> vt_height v = rs_height (nd_state n') \<and>
      vt_round v = rs_round (nd_state n')"
    using ok v(1) unfolding votes_ok_def by blast
  moreover have "h' = h" if other: "a \<in> set (voters_of (tally (nd_state n') step) h')" for h'
  proof -
    obtain w where w: "w \<in> set (rs_votes (nd_state n'))" "vt_validator_address w = a" "vt_step w = step"
      "vt_block_hash w = h'" using counted [OF other] by blast
    have "vt_block_hash w = vt_block_hash v"
      using ok v w unfolding votes_ok_def by metis
    then show ?thesis using v(4) w(4) by simp
  qed
  ultimately show ?thesis using v by blast
qed

theorem votes_counted_once_witness:
  "\<exists>v\<in>set (rs_votes (nd_state demo_heard)). vt_validator_address v = sample_address \<and>
     verify_vote sample_ext sample_scheme v = Inr ()"
proof -
  have "sample_address \<in> set (voters_of (tally (nd_state demo_heard) Prevote) NIL_HASH)"
    by (simp add: demo_heard_state demo_vote_def count_vote_def tally_def voters_of_def add_voter_def bs_insert_def
        round_state_default_def)
  from votes_counted_once [OF demo_reachable(1) demo_heard_reachable this] show ?thesis by auto
qed

lemma quorum_cong: "get_staking_state s = get_staking_state s' \<Longrightarrow> quorum C s = quorum C s'"
  by (simp add: quorum_def current_validators_def loaded_staking_def staking_load_def)

lemma reached_quorum_polka [simp]:
  "reached_quorum C v (fst (observe_polka E v n)) = reached_quorum C v n"
proof -
  have "get_staking_state (nd_store (fst (observe_polka E v n))) = get_staking_state (nd_store n)"
    by (simp add: observe_polka_def action_defs store_ops split: option.splits)
  moreover have "tally (nd_state (fst (observe_polka E v n))) = tally (nd_state n)"
    using observe_polka_result [OF observe_polka_pair, of E v n] by (auto split: if_splits)
  ultimately show ?thesis unfolding reached_quorum_def by (simp cong: quorum_cong)
qed

lemma run_record_vote:
  assumes "record_vote X C v n = (n', Inr p)"
  obtains n1 where "verify_vote (ce_ext X) (ce_scheme C) v = Inr ()"
    "note_validator_liveness C (vt_validator_address v) n = (n1, Inr ())" "nd_state n1 = nd_state n"
    "nd_sent n1 = nd_sent n" "nd_mempool n1 = nd_mempool n"
proof (cases "verify_vote (ce_ext X) (ce_scheme C) v")
  case (Inl e)
  then show ?thesis using assms by (simp add: record_vote_def act_bind_def)
next
  case (Inr u)
  obtain n1 r1 where live: "note_validator_liveness C (vt_validator_address v) n = (n1, r1)"
    by (metis prod.exhaust)
  then have "\<exists>u. r1 = Inr u" using assms Inr
    by (cases r1) (simp_all add: record_vote_def act_bind_def act_then_def)
  then show ?thesis
    using that Inr live by (auto simp: note_validator_liveness_def on_store_def split: prod.splits)
qed

text \<open>C13: a vote that is recorded. One for another height or round changes nothing but the
  liveness of its sender; a conflicting one is not counted and leaves evidence at most once per
  validator and round; any other is counted, the node locks its proposal exactly when the prevote
  completes a quorum for it, asks for a precommit exactly when a prevote quorum is complete
  (for the nil block and for a block it has not seen as well), and for finalization exactly on a
  precommit quorum for a real block.\<close>

theorem record_vote_spec:
  assumes "record_vote X C v n = (n', Inr (should_precommit, should_finalize))"
  shows "nd_sent n' = nd_sent n \<and> nd_mempool n' = nd_mempool n \<and>
    (let s = nd_state n in
     if vt_height v \<noteq> rs_height s \<or> vt_round v \<noteq> rs_round s
     then nd_state n' = s \<and> should_precommit = None \<and> should_finalize = None
     else if conflicts s v
     then nd_state n' = note_duplicate_vote v s \<and> should_precommit = None \<and> should_finalize = None
     else
       (should_precommit = Some (vt_block_hash v) \<longleftrightarrow> vt_step v = Prevote \<and> reached_quorum C v n') \<and>
       (should_precommit = None \<or> should_precommit = Some (vt_block_hash v)) \<and>
       (should_finalize = Some (vt_block_hash v) \<longleftrightarrow>
          vt_step v = Precommit \<and> reached_quorum C v n' \<and> vt_block_hash v \<noteq> NIL_HASH) \<and>
       (should_finalize = None \<or> should_finalize = Some (vt_block_hash v)) \<and>
       nd_state n' = (case rs_proposal s of
          Some p \<Rightarrow> if vt_step v = Prevote \<and> reached_quorum C v n' \<and> vt_block_hash v \<noteq> NIL_HASH \<and>
                block_hash (ce_ext X) p = vt_block_hash v
             then locked_on p (vt_round v) (count_vote v s) else count_vote v s
        | None \<Rightarrow> count_vote v s))"
proof -
  obtain n1 where ok: "verify_vote (ce_ext X) (ce_scheme C) v = Inr ()"
    "note_validator_liveness C (vt_validator_address v) n = (n1, Inr ())"
    and n1: "nd_state n1 = nd_state n" "nd_sent n1 = nd_sent n" "nd_mempool n1 = nd_mempool n"
    using run_record_vote [OF assms] .
  have counted: "nd_state (counted_node v n1) = count_vote v (nd_state n)"
    "nd_sent (counted_node v n1) = nd_sent n" "nd_mempool (counted_node v n1) = nd_mempool n"
    by (simp_all add: counted_node_def n1)
  show ?thesis
    using assms record_vote_run [OF ok] n1 counted
      observe_polka_result [OF observe_polka_pair, of "ce_ext X" v "counted_node v n1"]
    by (cases "vt_step v") (auto simp: Let_def split: if_splits option.splits)
qed

theorem record_vote_spec_witness:
  "nd_state demo_heard = count_vote demo_vote round_state_default \<and> \<not> reached_quorum demo_engine demo_vote demo_heard"
  using record_vote_spec [OF demo_hear]
  by (auto simp: demo_start Let_def demo_vote_def round_state_default_def conflicts_def)

section \<open>Locking\<close>

lemma sign_vote_fields: "sign_vote E S v sk = Inr w \<Longrightarrow> \<exists>sg. w = v\<lparr>vt_signature := sg\<rparr>"
  by (auto simp: sign_vote_def bind_res_eq_Inr)

lemma cast_vote_result:
  assumes "cast_vote X C lv step mark h r bh n = (n', Inr (Some v))"
  shows "vt_height v = h \<and> vt_round v = r \<and> vt_step v = step \<and> vt_block_hash v = bh \<and>
    nd_state n' = mark (nd_state n) \<and> nd_sent n' = nd_sent n @ [VoteMsg v]"
  using assms
  by (auto simp: cast_vote_def Let_def action_defs broadcast_def dest!: sign_vote_fields
      split: sum.splits prod.splits if_splits)



section \<open>Certificates\<close>

text \<open>The checks of one vote in a certificate.\<close>

definition certificate_vote_ok :: "ext \<Rightarrow> scheme \<Rightarrow> commit_certificate \<Rightarrow> vote \<Rightarrow> bool" where
  "certificate_vote_ok E S c v \<longleftrightarrow> verify_vote E S v = Inr () \<and> vt_height v = cc_height c \<and>
     vt_round v = cc_round c \<and> vt_step v = Precommit \<and> vt_block_hash v = cc_block_hash c"

definition certificate_signers :: "commit_certificate \<Rightarrow> address set" where
  "certificate_signers c = vt_validator_address ` set (cc_votes c)"

lemma certificate_voters_Inr:
  "certificate_voters E S c acc vs = Inr unique \<longleftrightarrow>
     (\<forall>v\<in>set vs. certificate_vote_ok E S c v) \<and> unique = foldl (\<lambda>u v. bs_insert (vt_validator_address v) u) acc vs"
proof (induction vs arbitrary: acc)
  case (Cons v vs)
  show ?case
    by (cases "verify_vote E S v") (auto simp: Cons certificate_vote_ok_def)
qed auto

lemma foldl_bs_insert:
  "distinct acc \<Longrightarrow> distinct (foldl (\<lambda>u v. bs_insert (f v) u) acc vs) \<and>
     set (foldl (\<lambda>u v. bs_insert (f v) u) acc vs) = set acc \<union> f ` set vs"
  by (induction vs arbitrary: acc) auto

lemma certificate_check:
  "validate_commit_certificate E C store b c = Inr () \<longleftrightarrow>
     cc_block_hash c = block_hash E b \<and> cc_height c = bh_height (bk_header b) \<and> cc_round c = bh_round (bk_header b) \<and>
     (\<forall>v\<in>set (cc_votes c). certificate_vote_ok E (ce_scheme C) c v) \<and>
     quorum C store \<le> card (certificate_signers c)"
proof -
  let ?unique = "foldl (\<lambda>u v. bs_insert (vt_validator_address v) u) [] (cc_votes c)"
  have "card (certificate_signers c) = length ?unique"
    using foldl_bs_insert [of "[]" vt_validator_address "cc_votes c"] distinct_card [of ?unique]
    by (simp add: certificate_signers_def)
  then show ?thesis
    by (auto simp: validate_commit_certificate_def bind_res_eq_Inr certificate_voters_Inr)
qed

text \<open>C12: the check of a commit certificate accepts exactly the certificates for the given block and
  its height and round in which every vote is a verified precommit for that block, height and
  round, with at least a quorum of different signers. (That a signer is a validator is no part of
  the check.)\<close>

theorem certificate_accepted_iff:
  "validate_commit_certificate E C store b c = Inr () \<longleftrightarrow>
     cc_block_hash c = block_hash E b \<and> cc_height c = bh_height (bk_header b) \<and> cc_round c = bh_round (bk_header b) \<and>
     (\<forall>v\<in>set (cc_votes c). certificate_vote_ok E (ce_scheme C) c v) \<and>
     quorum C store \<le> card (certificate_signers c)"
  by (rule certificate_check)

text \<open>Two sets of at least \<open>q\<close> members share more than a third of them.\<close>

locale quorum_system =
  fixes members :: "'a set" and q :: nat
  assumes finite_members: "finite members" and two_thirds: "2 * card members < 3 * q"
begin

lemma shared_third:
  assumes "A \<subseteq> members" "B \<subseteq> members" "q \<le> card A" "q \<le> card B"
  shows "card members < 3 * card (A \<inter> B)"
proof -
  have fin: "finite A" "finite B" using assms(1,2) finite_members finite_subset by blast+
  have "card (A \<union> B) \<le> card members" using assms(1,2) finite_members by (intro card_mono) auto
  then show ?thesis using card_Un_Int [OF fin] assms(3,4) two_thirds by linarith
qed

lemma quorums_meet: "A \<subseteq> members \<Longrightarrow> B \<subseteq> members \<Longrightarrow> q \<le> card A \<Longrightarrow> q \<le> card B \<Longrightarrow> A \<inter> B \<noteq> {}"
  using shared_third [of A B] by auto

end

definition validator_addresses :: "consensus_engine \<Rightarrow> memory_store \<Rightarrow> address set" where
  "validator_addresses C store = va_address ` set (current_validators C store)"

lemma card_validators: "card (validator_addresses C store) \<le> length (current_validators C store)"
  unfolding validator_addresses_def by (rule order_trans [OF card_image_le card_length]) simp

interpretation quorums: quorum_system "validator_addresses C store" "quorum C store" for C store
proof unfold_locales
  show "finite (validator_addresses C store)" by (simp add: validator_addresses_def)
  show "2 * card (validator_addresses C store) < 3 * quorum C store"
    using card_validators [of C store] by (simp add: quorum_def)
qed

text \<open>The validators that signed precommits for two blocks at one height and round.\<close>

definition double_signers :: "ext \<Rightarrow> scheme \<Rightarrow> commit_certificate \<Rightarrow> commit_certificate \<Rightarrow> address set" where
  "double_signers E S c d = {a. \<exists>v\<in>set (cc_votes c). \<exists>w\<in>set (cc_votes d). vt_validator_address v = a \<and>
     vt_validator_address w = a \<and> verify_vote E S v = Inr () \<and> verify_vote E S w = Inr () \<and>
     vt_step v = Precommit \<and> vt_step w = Precommit \<and> vt_height v = vt_height w \<and> vt_round v = vt_round w \<and>
     vt_block_hash v \<noteq> vt_block_hash w}"

text \<open>C3: accountable agreement: when certificates for two different blocks are accepted at the same
  height and round and are signed by validators, more than a third of the validators have signed
  verified precommits for both blocks.\<close>

theorem conflicting_certificates_accountable:
  assumes "validate_commit_certificate E C store b c = Inr ()"
    and "validate_commit_certificate E C store b' d = Inr ()"
    and "cc_height c = cc_height d" and "cc_round c = cc_round d" and "block_hash E b \<noteq> block_hash E b'"
    and "certificate_signers c \<subseteq> validator_addresses C store"
    and "certificate_signers d \<subseteq> validator_addresses C store"
  shows "card (validator_addresses C store) < 3 * card (double_signers E (ce_scheme C) c d)"
proof -
  note c = assms(1) [unfolded certificate_check] and d = assms(2) [unfolded certificate_check]
  have "card (validator_addresses C store) < 3 * card (certificate_signers c \<inter> certificate_signers d)"
    using quorums.shared_third assms(6,7) c d by blast
  also have "\<dots> \<le> 3 * card (double_signers E (ce_scheme C) c d)"
  proof (intro mult_le_mono2 card_mono)
    show "finite (double_signers E (ce_scheme C) c d)"
      by (rule finite_subset [of _ "certificate_signers c"]) (auto simp: double_signers_def certificate_signers_def)
    show "certificate_signers c \<inter> certificate_signers d \<subseteq> double_signers E (ce_scheme C) c d"
    proof
      fix a assume "a \<in> certificate_signers c \<inter> certificate_signers d"
      then obtain v w where vw: "v \<in> set (cc_votes c)" "w \<in> set (cc_votes d)" "vt_validator_address v = a"
        "vt_validator_address w = a" by (auto simp: certificate_signers_def)
      then have "certificate_vote_ok E (ce_scheme C) c v" "certificate_vote_ok E (ce_scheme C) d w"
        using c d by blast+
      then show "a \<in> double_signers E (ce_scheme C) c d"
        using vw assms(3-5) c d unfolding double_signers_def certificate_vote_ok_def
        by (intro CollectI bexI [OF _ vw(1)] bexI [OF _ vw(2)]) simp
    qed
  qed
  finally show ?thesis .
qed

text \<open>An engine with the one validator at address \<open>a\<close>, and two blocks that differ in their
  timestamps with a certificate for each, signed by the sample validator.\<close>

definition twin_ext :: ext where
  "twin_ext = sample_ext\<lparr>bin_block := (\<lambda>b. Some [ucast (bh_timestamp_ms (bk_header b))])\<rparr>"

definition single_engine :: "address \<Rightarrow> consensus_engine" where
  "single_engine a = demo_engine\<lparr>ce_validators := [sample_validator\<lparr>va_address := a\<rparr>]\<rparr>"

definition twin_block :: "u64 \<Rightarrow> block" where
  "twin_block t = \<lparr>bk_header = sample_header\<lparr>bh_timestamp_ms := t\<rparr>, bk_transactions = [],
     bk_proposer_public_key = [5], bk_proposer_signature = []\<rparr>"

definition twin_vote :: "u64 \<Rightarrow> vote" where
  "twin_vote t = \<lparr>vt_height = 1, vt_round = 0, vt_step = Precommit, vt_block_hash = block_hash twin_ext (twin_block t),
     vt_validator_address = sample_address, vt_public_key = [5], vt_signature = [36]\<rparr>"

definition twin_certificate :: "u64 \<Rightarrow> commit_certificate" where
  "twin_certificate t = \<lparr>cc_block_hash = block_hash twin_ext (twin_block t), cc_height = 1, cc_round = 0,
     cc_votes = [twin_vote t]\<rparr>"

lemma twin_verified: "verify_vote twin_ext sample_scheme (twin_vote t) = Inr ()"
proof -
  have signed: "sign_vote twin_ext sample_scheme (twin_vote t\<lparr>vt_signature := []\<rparr>) [5] = Inr (twin_vote t)"
    by (simp add: sign_vote_def vote_bytes_def canonical_vote_bytes_def twin_ext_def sample_ext_def sample_scheme_def
        ml_dsa_sign_def sample_oqs_def domain_message_def twin_vote_def)
  show ?thesis
    by (rule ml_dsa.signed_vote_verifies [OF _ signed [unfolded sample_scheme_def], folded sample_scheme_def])
      (simp_all add: twin_vote_def sample_pair sample_address_derived)
qed

lemma single_sel [simp]: "ce_scheme (single_engine a) = sample_scheme"
  "ce_economics (single_engine a) = sample_economics\<lparr>minimum_self_bond := 0\<rparr>"
  "ce_validators (single_engine a) = [sample_validator\<lparr>va_address := a\<rparr>]"
  by (simp_all add: single_engine_def)

lemma single_validators: "current_validators (single_engine a) memory_store_default = [sample_validator\<lparr>va_address := a\<rparr>]"
  by (simp add: current_validators_def Let_def loaded_staking_def staking_load_def ensure_validators_def
      ensure_validator_def staking_state_default_def memory_store_default_def get_staking_state_def
      contains_key_def effective_validator_set_def bt_values_def eligible_def validator_le_def sort_by_def
      List.map_filter_def)

lemma twin_accepted:
  "validate_commit_certificate twin_ext (single_engine a) memory_store_default (twin_block t) (twin_certificate t) = Inr ()"
  using twin_verified [of t]
  by (simp add: certificate_check certificate_vote_ok_def certificate_signers_def twin_certificate_def
      quorum_def single_validators) (simp add: twin_vote_def twin_block_def sample_header_def)

theorem certificate_accepted_iff_witness:
  "validate_commit_certificate twin_ext (single_engine sample_address) memory_store_default (twin_block 0)
     (twin_certificate 0) = Inr ()"
  using twin_verified [of 0]
  by (simp add: certificate_accepted_iff certificate_vote_ok_def certificate_signers_def twin_certificate_def
      quorum_def single_validators) (simp add: twin_vote_def twin_block_def sample_header_def)

lemma twin_differ: "block_hash twin_ext (twin_block 0) \<noteq> block_hash twin_ext (twin_block 1)"
  by (simp add: block_hash_def twin_ext_def sample_ext_def twin_block_def hash_bytes_def sample_digest_def)

theorem conflicting_certificates_accountable_witness:
  "card (validator_addresses (single_engine sample_address) memory_store_default)
     < 3 * card (double_signers twin_ext sample_scheme (twin_certificate 0) (twin_certificate 1))"
  using conflicting_certificates_accountable [OF twin_accepted twin_accepted [where t = 1] _ _ twin_differ,
      of sample_address]
  by (simp add: twin_certificate_def certificate_signers_def validator_addresses_def single_validators twin_vote_def)

text \<open>A certificate of a stranger: nothing checks that its signer is a validator.\<close>

theorem outsider_certificate_accepted:
  "validate_commit_certificate twin_ext (single_engine (Address 7)) memory_store_default (twin_block 0)
     (twin_certificate 0) = Inr () \<and>
   certificate_signers (twin_certificate 0) \<inter> validator_addresses (single_engine (Address 7)) memory_store_default = {}"
  using twin_accepted
  by (simp add: certificate_signers_def twin_certificate_def twin_vote_def validator_addresses_def
      single_validators demo_address)

section \<open>Timeouts and proposers\<close>

text \<open>The round timeout is the base timeout, doubled each round up to the fifth, saturating, and
  never more than the maximum of a minute; it does not decrease from one round to the next.\<close>

theorem round_timeout_bounds:
  "unat (round_timeout C r) = min (min (unat (proposal_timeout_ms (ce_params C) + vote_timeout_ms (ce_params C)) *
      2 ^ unat (min r 5)) (2 ^ 64 - 1)) 60000 \<and>
   (unat r < 2 ^ 32 - 1 \<longrightarrow> round_timeout C r \<le> round_timeout C (r + 1))"
proof -
  have val: "unat (round_timeout C r) = min (min (unat (proposal_timeout_ms (ce_params C) + vote_timeout_ms (ce_params C)) *
      2 ^ unat (min r 5)) (2 ^ 64 - 1)) 60000" for r
  proof -
    have "unat (min r 5) \<le> 5" by (simp add: min_def word_le_nat_alt split: if_splits)
    then have small: "(2 :: nat) ^ unat (min r 5) < 2 ^ 64" by (intro power_strict_increasing) auto
    have "unat (push_bit (unat (min r 5)) (1 :: u64)) = 2 ^ unat (min r 5)"
      by (subst unsigned_push_bit_eq) (use small in \<open>simp add: push_bit_eq_mult take_bit_eq_mod\<close>)
    then have product: "unat (saturating_mul b (push_bit (unat (min r 5)) 1)) = min (unat b * 2 ^ unat (min r 5)) (2 ^ 64 - 1)"
      for b :: u64
      by (simp add: unat_saturating_mul)
    have cap: "unat (min a MAX_ROUND_TIMEOUT_MS) = min (unat a) 60000" for a
      by (simp add: MAX_ROUND_TIMEOUT_MS_def min_def word_le_nat_alt)
    show ?thesis by (simp only: round_timeout_def Let_def cap product)
  qed
  have "round_timeout C r \<le> round_timeout C (r + 1)" if "unat r < 2 ^ 32 - 1"
  proof -
    have "unat (r + 1) = unat r + 1" using that by (simp add: unat_word_ariths)
    then have "unat (min r 5) \<le> unat (min (r + 1) 5)" by (auto simp: min_def word_le_nat_alt)
    then have "(2 :: nat) ^ unat (min r 5) \<le> 2 ^ unat (min (r + 1) 5)" by (rule power_increasing) simp
    then show ?thesis
      unfolding word_le_nat_alt val by (intro min.mono mult_le_mono order_refl)
  qed
  then show ?thesis using val by blast
qed

theorem round_timeout_bounds_witness:
  "unat (round_timeout demo_engine 2) = 6000 \<and> round_timeout demo_engine 2 \<le> round_timeout demo_engine 3"
  using round_timeout_bounds [of demo_engine 2] by (simp add: demo_engine_def demo_params_def)

text \<open>Proposer rotation: at a height, any \<open>m\<close> consecutive rounds over \<open>m\<close> validators give each
  of them a round in which it is the proposer, as long as neither the round nor its sum with the
  height wraps; and there always is a proposer when there is a validator.\<close>

theorem proposers_rotate:
  assumes "v \<in> set (current_validators C store)"
    and "unat r + length (current_validators C store) \<le> 2 ^ 32"
    and "unat h + unat r + length (current_validators C store) \<le> 2 ^ 64"
  shows "\<exists>k < length (current_validators C store). proposer_for C store h (r + of_nat k) = Some v"
proof -
  let ?vs = "current_validators C store"
  let ?m = "length ?vs" and ?s = "unat h + unat r"
  obtain i where i: "i < ?m" "?vs ! i = v" using assms(1) by (auto simp: in_set_conv_nth)
  define k where "k = (i + ?m - ?s mod ?m) mod ?m"
  have pos: "0 < ?m" using i(1) by linarith
  then have k: "k < ?m" unfolding k_def by (rule mod_less_divisor)
  have le: "?s mod ?m \<le> i + ?m" using mod_le_divisor [OF pos, of ?s] by linarith
  have "(?s + k) mod ?m = (?s mod ?m + (i + ?m - ?s mod ?m)) mod ?m" by (simp add: k_def mod_simps)
  also have "\<dots> = i" using le i(1) by simp
  finally have index: "(?s + k) mod ?m = i" .
  have "unat (r + of_nat k) = unat r + k"
    using assms(2) k by (simp add: unat_word_ariths unat_of_nat)
  then have "unat (ucast (r + of_nat k) :: u64) = unat r + k"
    using assms(2) k by (simp add: unsigned_ucast_eq take_bit_nat_eq_self)
  then have "unat (h + ucast (r + of_nat k)) = ?s + k"
    using assms(3) k by (simp add: unat_word_ariths)
  then have "proposer_for C store h (r + of_nat k) = Some v"
    using i index by (auto simp: proposer_for_def Let_def)
  then show ?thesis using k by blast
qed

theorem proposers_rotate_witness:
  "\<exists>k<1. proposer_for (single_engine sample_address) memory_store_default 9 (3 + of_nat k)
     = Some (sample_validator\<lparr>va_address := sample_address\<rparr>)"
  using proposers_rotate [where C = "single_engine sample_address" and store = memory_store_default
      and v = "sample_validator\<lparr>va_address := sample_address\<rparr>" and r = 3 and h = 9]
  by (simp add: single_validators)

section \<open>Proposals\<close>

lemma saturating_le:
  assumes "unat (acct_balance sender) < 2 ^ 128 - 1"
  shows "saturating_add a f \<le> acct_balance sender \<longleftrightarrow> unat a + unat f \<le> unat (acct_balance sender)"
  using assms by (auto simp: word_le_nat_alt unat_saturating_add)

text \<open>The snapshot the proposal check goes on with.\<close>

definition proposal_settled :: "state_snapshot \<Rightarrow> transaction_body \<Rightarrow> state_snapshot" where
  "proposal_settled s b = (let a = snapshot_account s (tb_sender b);
       s1 = snapshot_put_account s (tb_sender b) (a\<lparr>acct_balance := acct_balance a -
         saturating_add (tb_amount b) (tb_fee b), acct_nonce := acct_nonce a + 1\<rparr>) in
     if tb_evm b = None then credit s1 (tb_recipient b) (tb_amount b) else s1)"

lemma if_Inl_eq_Inr: "(if c then Inl e else r) = Inr x \<longleftrightarrow> \<not> c \<and> r = Inr x"
  by simp

lemma account_eqI: "(a :: account)\<lparr>acct_balance := x, acct_nonce := y\<rparr> = \<lparr>acct_nonce = y, acct_balance = x\<rparr>"
  by simp

lemma check_proposal_tx_steps:
  "check_proposal_tx E S eng chain h s tx = Inr s' \<longleftrightarrow>
     validate_transaction E eng S s h tx = Inr () \<and>
     saturating_add (tb_amount (tx_body tx)) (tb_fee (tx_body tx))
       \<le> acct_balance (snapshot_account s (tb_sender (tx_body tx))) \<and>
     sc_derive_address S (tx_public_key tx) = Inr (address_raw (tb_sender (tx_body tx))) \<and>
     (\<exists>bs. bin_body E (tx_body tx) = Some bs \<and> bs \<noteq> []) \<and>
     (\<exists>bs. verify_transaction E S chain tx h = Inr bs) \<and> s' = proposal_settled s (tx_body tx)"
proof -
  let ?b = "tx_body tx"
  have body: "(canonical_transaction_bytes E ?b = Inr bs) = (bin_body E ?b = Some bs)" for bs
    by (simp add: canonical_transaction_bytes_def)
  show ?thesis
    unfolding check_proposal_tx_def Let_def proposal_settled_def
    by (simp add: bind_res_eq_Inr body checked_sub_Some if_Inl_eq_Inr cong: conj_cong) blast
qed

lemma check_proposal_tx_Inr:
  assumes "en_chain_id eng = chain" and "unat (acct_balance (snapshot_account s (tb_sender (tx_body tx)))) < 2 ^ 128 - 1"
    and "unat (nonce_of s (tb_sender (tx_body tx))) + 1 < 2 ^ 64" and "bin_body E (tx_body tx) \<noteq> Some []"
  shows "check_proposal_tx E S eng chain h s tx = Inr s' \<longleftrightarrow>
    accepted E eng S s h tx \<and> s' = settled s (tx_body tx)"
proof -
  let ?b = "tx_body tx"
  let ?a = "snapshot_account s (tb_sender ?b)"
  have afford: "affordable ?a ?b \<longleftrightarrow> saturating_add (tb_amount ?b) (tb_fee ?b) \<le> acct_balance ?a"
    using assms(2,3) by (simp add: affordable_def saturating_le)
  have same: "proposal_settled s ?b = settled s ?b" if "affordable ?a ?b"
  proof -
    have "saturating_add (tb_amount ?b) (tb_fee ?b) = tb_amount ?b + tb_fee ?b"
      using that assms(2) by (simp add: saturating_add_def affordable_def)
    then show ?thesis by (simp add: proposal_settled_def settled_def charged_def Let_def account_eqI)
  qed
  have verified: "validate_transaction E eng S s h tx = Inr () \<Longrightarrow>
      (\<exists>bs. verify_transaction E S chain tx h = Inr bs) \<and>
      sc_derive_address S (tx_public_key tx) = Inr (address_raw (tb_sender ?b)) \<and>
      (\<exists>bs. bin_body E ?b = Some bs \<and> bs \<noteq> [])"
    using assms(1,4) by (auto simp: validate_transaction_Inr verify_transaction_Inr)
  show ?thesis
  proof
    assume "check_proposal_tx E S eng chain h s tx = Inr s'"
    then show "accepted E eng S s h tx \<and> s' = settled s ?b"
      using same unfolding check_proposal_tx_steps accepted_def afford [symmetric] by simp
  next
    assume "accepted E eng S s h tx \<and> s' = settled s ?b"
    then show "check_proposal_tx E S eng chain h s tx = Inr s'"
      using same verified unfolding check_proposal_tx_steps accepted_def afford [symmetric] by simp
  qed
qed

lemma proposal_checked:
  assumes "en_chain_id eng = chain" and "snapshot_wf s" and "total_supply s < 2 ^ 128 - 1"
    and "\<forall>a. unat (nonce_of s a) + length txs < 2 ^ 64" and "\<forall>tx\<in>set txs. bin_body E (tx_body tx) \<noteq> Some []"
  shows "fold_res (check_proposal_tx E S eng chain h) s txs = Inr s' \<longleftrightarrow>
    accepted_all E eng S h s txs \<and> s' = settle_all s txs"
  using assms(2-5)
proof (induction txs arbitrary: s)
  case Nil
  show ?case by auto
next
  case (Cons tx txs)
  let ?b = "tx_body tx"
  have low: "unat (acct_balance (snapshot_account s (tb_sender ?b))) < 2 ^ 128 - 1"
    using balance_le_supply [of s "tb_sender ?b"] Cons.prems(2) by simp
  have nonce: "unat (nonce_of s (tb_sender ?b)) + 1 < 2 ^ 64"
    using spec [OF Cons.prems(3), of "tb_sender ?b"] by simp
  have head: "check_proposal_tx E S eng chain h s tx = Inr t \<longleftrightarrow> accepted E eng S s h tx \<and> t = settled s ?b" for t
    by (rule check_proposal_tx_Inr [OF assms(1) low nonce]) (use Cons.prems(4) in simp)
  have tail: "fold_res (check_proposal_tx E S eng chain h) (settled s ?b) txs = Inr s' \<longleftrightarrow>
      accepted_all E eng S h (settled s ?b) txs \<and> s' = settle_all (settled s ?b) txs" if ok: "accepted E eng S s h tx"
  proof (rule Cons.IH)
    show "snapshot_wf (settled s ?b)" using Cons.prems(1) by simp
    have "total_supply (settled s ?b) \<le> total_supply s"
      using supply_settled [OF Cons.prems(1) _ accepted_affordable [OF ok]] Cons.prems(2) by simp
    then show "total_supply (settled s ?b) < 2 ^ 128 - 1" using Cons.prems(2) by simp
    show "\<forall>a. unat (nonce_of (settled s ?b) a) + length txs < 2 ^ 64"
    proof
      fix a
      have "unat (nonce_of s a) + Suc (length txs) < 2 ^ 64" using spec [OF Cons.prems(3), of a] by simp
      moreover have "unat (nonce_of (settled s ?b) a) \<le> unat (nonce_of s a) + 1"
        unfolding nonce_settled by (simp add: unat_word_ariths mod_less_eq_dividend)
      ultimately show "unat (nonce_of (settled s ?b) a) + length txs < 2 ^ 64" by linarith
    qed
    show "\<forall>tx\<in>set txs. bin_body E (tx_body tx) \<noteq> Some []" using Cons.prems(4) by simp
  qed
  show ?case
    unfolding fold_res.simps bind_res_eq_Inr head accepted_all.simps settle_all_simps using tail by blast
qed



text \<open>A proposal a node accepts comes from the proposer of its height and round, whose address
  and key are in its header and signature; the header is for the node's chain, the height and the
  round of the proposal and the node's latest block; the number of transactions is within the limit;
  and native transactions all execute on the node's accounts.\<close>

theorem accepted_proposal_executes:
  assumes "engine_validate_proposal X C p n = (n', Inr ())" and "en_chain_id (ce_execution C) = ce_chain_id C"
    and "native (bk_transactions (pr_block p))" and "bt_wf (ms_accounts (nd_store n))"
    and "total_supply \<lparr>ss_accounts = ms_accounts (nd_store n)\<rparr> < 2 ^ 128 - 1"
    and "\<forall>a. unat (nonce_of \<lparr>ss_accounts = ms_accounts (nd_store n)\<rparr> a) + length (bk_transactions (pr_block p)) < 2 ^ 64"
    and "\<forall>tx\<in>set (bk_transactions (pr_block p)). bin_body (ce_ext X) (tx_body tx) \<noteq> Some []"
  shows "n' = n \<and> (\<exists>leader. proposer_for C (nd_store n) (pr_height p) (pr_round p) = Some leader \<and>
      pr_validator_address p = va_address leader \<and> bh_proposer (bk_header (pr_block p)) = va_address leader \<and>
      bk_proposer_public_key (pr_block p) = va_public_key leader) \<and>
    bh_chain_id (bk_header (pr_block p)) = ce_chain_id C \<and> bh_height (bk_header (pr_block p)) = pr_height p \<and>
    bh_round (bk_header (pr_block p)) = pr_round p \<and>
    length (bk_transactions (pr_block p)) \<le> max_transactions_per_block (ce_params C) \<and>
    bh_parent_hash (bk_header (pr_block p)) = expected_parent (ce_ext X) (nd_store n) \<and>
    verify_block (ce_ext X) (ce_scheme C) (pr_block p) = Inr () \<and>
    (\<exists>receipts. apply_all (cv_exec X) (ce_execution C) (ce_scheme C) (pr_height p) (nd_store n)
        \<lparr>ss_accounts = ms_accounts (nd_store n)\<rparr> 0 [] (bk_transactions (pr_block p))
      = (nd_store n, Inr (settle_all \<lparr>ss_accounts = ms_accounts (nd_store n)\<rparr> (bk_transactions (pr_block p)),
          fee_sum (bk_transactions (pr_block p)), receipts)))"
proof -
  let ?s = "\<lparr>ss_accounts = ms_accounts (nd_store n)\<rparr>" and ?txs = "bk_transactions (pr_block p)"
  obtain leader where leader: "proposer_for C (nd_store n) (pr_height p) (pr_round p) = Some leader"
    and ok: "n' = n" "validate_incoming_proposal (ce_ext X) (ce_scheme C) leader p (ce_chain_id C) (nd_store n)
      (ce_execution C) (max_transactions_per_block (ce_params C)) = Inr ()"
    using assms(1) by (auto simp: engine_validate_proposal_def split: option.splits)
  obtain s' where fold: "fold_res (check_proposal_tx (ce_ext X) (ce_scheme C) (ce_execution C) (ce_chain_id C)
      (pr_height p)) ?s ?txs = Inr s'"
    and rest: "va_address leader = pr_validator_address p" "bh_proposer (bk_header (pr_block p)) = va_address leader"
      "bk_proposer_public_key (pr_block p) = va_public_key leader" "bh_chain_id (bk_header (pr_block p)) = ce_chain_id C"
      "bh_height (bk_header (pr_block p)) = pr_height p" "bh_round (bk_header (pr_block p)) = pr_round p"
      "length ?txs \<le> max_transactions_per_block (ce_params C)"
      "bh_parent_hash (bk_header (pr_block p)) = expected_parent (ce_ext X) (nd_store n)"
      "verify_block (ce_ext X) (ce_scheme C) (pr_block p) = Inr ()"
    using ok(2) by (auto simp: validate_incoming_proposal_def Let_def bind_res_eq_Inr load_state_def accounts_def
        split: if_splits)
  have "accepted_all (ce_ext X) (ce_execution C) (ce_scheme C) (pr_height p) ?s ?txs"
    using proposal_checked [OF assms(2) _ assms(5-7)] fold assms(4) by simp
  from apply_all_native [OF this assms(3)] show ?thesis
    using leader ok(1) rest by auto
qed

definition demo_proposal :: proposal where
  "demo_proposal = \<lparr>pr_height = 1, pr_round = 0, pr_block = \<lparr>bk_header = sample_header, bk_transactions = [],
     bk_proposer_public_key = [5], bk_proposer_signature = [36]\<rparr>, pr_validator_address = sample_address\<rparr>"

theorem accepted_proposal_executes_witness:
  "verify_block sample_ext sample_scheme (pr_block demo_proposal) = Inr () \<and>
   bh_chain_id (bk_header (pr_block demo_proposal)) = ChainId ''z''"
proof -
  have signed: "sign_block sample_ext sample_scheme sample_header [] [5] [5] = Inr (pr_block demo_proposal)"
    by (simp add: sign_block_def canonical_block_header_bytes_def sample_ext_def sample_scheme_def
        ml_dsa_sign_def sample_oqs_def domain_message_def demo_proposal_def)
  have "verify_block sample_ext sample_scheme (pr_block demo_proposal) = Inr ()"
    by (rule ml_dsa.signed_block_verifies [OF sample_pair signed [unfolded sample_scheme_def], folded sample_scheme_def])
      (simp_all add: sample_address_derived sample_header_def)
  then have run: "engine_validate_proposal demo_env (single_engine sample_address) demo_proposal demo_node = (demo_node, Inr ())"
    by (simp add: engine_validate_proposal_def act_bind_def proposer_for_def demo_start single_validators Let_def
        validate_incoming_proposal_def load_state_def)
      (simp add: demo_proposal_def sample_header_def single_engine_def demo_engine_def demo_params_def
        expected_parent_def memory_store_default_def store_ops bt_last_def)
  show ?thesis
    using accepted_proposal_executes [OF run]
    by (simp add: demo_start) (simp add: demo_proposal_def memory_store_default_def single_engine_def demo_engine_def
        sample_engine_def engine_new_def total_supply_def snapshot_account_def account_default_def)
qed

section \<open>Finalization\<close>

lemma advance_height_run:
  "advance_height h n = (n\<lparr>nd_state := (reset_round (nd_state n))\<lparr>rs_height := h, rs_round := 0, rs_locked_round := None,
       rs_locked_block := None, rs_valid_round := None, rs_valid_block := None\<rparr>,
     nd_store := append_consensus_wal (append_consensus_wal (put_consensus_snapshot (nd_store n)
       \<lparr>cs_height = h, cs_round = 0\<rparr>) (SnapshotPersisted h 0)) (HeightAdvanced h)\<rparr>, Inr ())"
  by (simp add: advance_height_def act_then_def act_bind_def update_state_def update_store_def act_defs
      persist_snapshot_def append_wal_def current_snapshot_def)

lemma pending_evidence_run:
  "apply_pending_evidence C n = (n', r) \<Longrightarrow> nd_state n' = (nd_state n)\<lparr>rs_evidence := []\<rparr> \<and> nd_sent n' = nd_sent n \<and>
     nd_mempool n' = nd_mempool n \<and> (\<exists>st. nd_store n' = (nd_store n)\<lparr>ms_staking_state := st\<rparr>)"
  by (auto simp: apply_pending_evidence_def act_bind_def act_then_def act_unless_def update_state_def act_defs on_store_def
      staking_persist_def store_ops split: sum.splits prod.splits if_splits
      intro: exI [of _ "ms_staking_state (nd_store n)"])

text \<open>The store after the two housekeeping steps of \<open>finalize\<close>.\<close>

definition housekept :: "ext \<Rightarrow> u64 \<Rightarrow> memory_store \<Rightarrow> memory_store" where
  "housekept E h st =
    (let st1 = (if 10 < h then fst (compact_consensus_wal st (saturating_sub h 10)) else st) in
     if 1000 < h then fst (prune_blocks_below E st1 (saturating_sub h 1000)) else st1)"

definition certificate_of :: "round_state \<Rightarrow> hash32 \<Rightarrow> commit_certificate" where
  "certificate_of s bh = \<lparr>cc_block_hash = bh, cc_height = rs_height s, cc_round = rs_round s,
     cc_votes = commit_votes s bh\<rparr>"

lemma finalize_run:
  assumes "finalize X C bh n = (n', Inr ())" and "rs_proposal (nd_state n) = Some b" and "block_hash (ce_ext X) b = bh"
  obtains store1 executed n2 fb where
    "validate_commit_certificate (ce_ext X) C (nd_store n) b (certificate_of (nd_state n) bh) = Inr ()"
    "execute_block (cv_exec X) (ce_execution C) (ce_scheme C) (nd_store n) b = (store1, Inr executed)"
    "fb = \<lparr>fb_block = br_block executed, fb_certificate = certificate_of (nd_state n) bh,
       fb_receipts = br_receipts executed, fb_epoch_transition = br_epoch_transition executed\<rparr>"
    "apply_pending_evidence C (n\<lparr>nd_store := commit_finalized_block (ce_ext X) (append_consensus_wal store1
       (CommitFinalized (rs_height (nd_state n)) (rs_round (nd_state n)) bh)) fb (br_state executed)\<rparr>) = (n2, Inr ())"
    "(n', Inr ()) = advance_height (rs_height (nd_state n) + 1) (n2\<lparr>nd_mempool := remove_committed (ce_ext X)
       (nd_mempool n2) (bk_transactions (br_block executed)), nd_sent := nd_sent n2 @ [CommitMsg fb],
       nd_store := housekept (ce_ext X) (rs_height (nd_state n)) (nd_store n2)\<rparr>)"
proof -
  have one: "update_store f m = (m\<lparr>nd_store := f (nd_store m)\<rparr>, Inr ())" for f m
    by (simp add: update_store_def)
  have two: "update_mempool f m = (m\<lparr>nd_mempool := f (nd_mempool m)\<rparr>, Inr ())" for f m
    by (simp add: update_mempool_def)
  note run = assms(1) [unfolded finalize_def, simplified, unfolded assms(2) option.case Let_def
      certificate_of_def [symmetric], simplified assms(3) act_unless_def simp_thms if_False, simplified]
  show ?thesis
    using run that
    by (auto simp: act_then_Inr act_bind_Inr on_store_def append_wal_def one two broadcast_def housekept_def
        act_defs split: prod.splits if_splits)
qed

lemma prune_steps_accounts: "ms_accounts (foldl (prune_step E) s ks) = ms_accounts s"
  by (induction ks arbitrary: s) (simp_all add: prune_step_def split: option.splits)

lemma housekept_reads [simp]:
  "get_block_by_height (housekept E h st) h = get_block_by_height st h"
  "ms_accounts (housekept E h st) = ms_accounts st"
proof -
  have "\<not> h < saturating_sub h 1000" by (auto simp: saturating_sub_def word_le_nat_alt word_less_nat_alt unat_sub_if')
  then have "h \<notin> set (filter (\<lambda>k. k < saturating_sub h 1000) ks)" for ks by simp
  then show "get_block_by_height (housekept E h st) h = get_block_by_height st h"
    by (simp add: housekept_def Let_def get_block_by_height_def prune_blocks_below_def prune_steps_heights
        compact_consensus_wal_def del: set_filter)
  show "ms_accounts (housekept E h st) = ms_accounts st"
    by (simp add: housekept_def Let_def prune_blocks_below_def prune_steps_accounts compact_consensus_wal_def)
qed

text \<open>C9: finalizing a block: when it succeeds, the certificate built from the recorded precommits was
  accepted, the block is stored with it under the node's height, the accounts have the state root of
  its header, its transactions have left the mempool, it was announced last to the network, and
  the node has moved to the next height in round zero with no lock, no votes and a matching
  snapshot.\<close>

theorem finalize_spec:
  assumes "finalize X C bh n = (n', Inr ())" and "rs_proposal (nd_state n) = Some b" and "block_hash (ce_ext X) b = bh"
    and "store_wf (ce_ext X) (nd_store n)"
  shows "validate_commit_certificate (ce_ext X) C (nd_store n) b (certificate_of (nd_state n) bh) = Inr () \<and>
    (\<exists>fb. fb_block fb = b \<and> fb_certificate fb = certificate_of (nd_state n) bh \<and>
      get_block_by_height (nd_store n') (rs_height (nd_state n)) = Some fb \<and>
      nd_sent n' = nd_sent n @ [CommitMsg fb]) \<and>
    state_root (ce_ext X) \<lparr>ss_accounts = ms_accounts (nd_store n')\<rparr> = bh_state_root (bk_header b) \<and>
    nd_mempool n' = remove_committed (ce_ext X) (nd_mempool n) (bk_transactions b) \<and>
    rs_height (nd_state n') = rs_height (nd_state n) + 1 \<and> rs_round (nd_state n') = 0 \<and>
    rs_votes (nd_state n') = [] \<and> rs_locked_block (nd_state n') = None \<and>
    get_consensus_snapshot (nd_store n') = Some (current_snapshot (nd_state n'))"
proof -
  let ?E = "ce_ext X" and ?h = "rs_height (nd_state n)"
  obtain store1 executed n2 fb where
    cert: "validate_commit_certificate ?E C (nd_store n) b (certificate_of (nd_state n) bh) = Inr ()"
    and exec: "execute_block (cv_exec X) (ce_execution C) (ce_scheme C) (nd_store n) b = (store1, Inr executed)"
    and fb: "fb = \<lparr>fb_block = br_block executed, fb_certificate = certificate_of (nd_state n) bh,
       fb_receipts = br_receipts executed, fb_epoch_transition = br_epoch_transition executed\<rparr>"
    and ev: "apply_pending_evidence C (n\<lparr>nd_store := commit_finalized_block ?E (append_consensus_wal store1
       (CommitFinalized ?h (rs_round (nd_state n)) bh)) fb (br_state executed)\<rparr>) = (n2, Inr ())"
    and fin: "(n', Inr ()) = advance_height (?h + 1) (n2\<lparr>nd_mempool := remove_committed ?E (nd_mempool n2)
       (bk_transactions (br_block executed)), nd_sent := nd_sent n2 @ [CommitMsg fb],
       nd_store := housekept ?E ?h (nd_store n2)\<rparr>)"
    using finalize_run [OF assms(1-3)] .
  obtain store0 prepared where prep: "prepare_block (cv_exec X) (ce_execution C) (ce_scheme C) (nd_store n) b
      = (store0, Inr prepared)"
    and ex: "store1 = persist_accounting store0 prepared" "br_block executed = b" "br_state executed = pb_state prepared"
    using exec by (auto simp: execute_block_def split: prod.splits sum.splits)
  note ok = prepare_block_ok [OF prep]
  have same: "ms_accounts store0 = ms_accounts (nd_store n)" using prepare_block_frame [OF prep] by auto
  let ?s = "\<lparr>ss_accounts = ms_accounts (nd_store n)\<rparr>"
  have wf: "bt_wf (ms_accounts (nd_store n))" using assms(4) by (simp add: store_wf_def)
  have "covers (settle_all ?s (bk_transactions b)) ?s" by (rule covers_settle_all) (simp add: covers_def)
  with ok have cov: "covers (pb_state prepared) ?s" by (blast intro: covers_accounting)
  have pwf: "snapshot_wf (pb_state prepared)"
    by (rule accounting_wf [OF ok [THEN conjunct2, THEN conjunct2, THEN conjunct2, THEN conjunct1]]) (simp add: wf)
  have height: "?h = bh_height (bk_header b)"
    using certificate_of_header [OF cert] by (simp add: certificate_of_def)
  obtain st where n2: "nd_store n2 = (commit_finalized_block ?E (append_consensus_wal store1
       (CommitFinalized ?h (rs_round (nd_state n)) bh)) fb (br_state executed))\<lparr>ms_staking_state := st\<rparr>"
    "nd_sent n2 = nd_sent n" "nd_mempool n2 = nd_mempool n"
    using pending_evidence_run [OF ev] by auto
  have "ms_accounts store1 = ss_accounts (pb_state prepared)"
    using insert_all_covering [OF wf pwf] cov by (simp add: ex persist_accounting_store same covers_def)
  then have accts: "ms_accounts (nd_store n2) = ss_accounts (pb_state prepared)"
    using insert_all_covering [OF pwf pwf]
    by (simp add: n2 ex commit_finalized_block_def atomic_commit_block_def append_consensus_wal_def)
  have stored: "get_block_by_height (nd_store n2) ?h = Some fb"
    by (simp add: n2 height commit_finalized_block_def atomic_commit_block_def get_block_by_height_def fb ex(2))
  have root: "bh_state_root (bk_header b) = state_root ?E (pb_state prepared)"
    using ok by (simp add: check_roots_Inr)
  have root_eq: "state_root ?E \<lparr>ss_accounts = ss_accounts (pb_state prepared)\<rparr> = state_root ?E (pb_state prepared)"
    by (simp add: state_root_def)
  have "get_block_by_height (append_consensus_wal (append_consensus_wal (put_consensus_snapshot st' q) w) w') k
      = get_block_by_height st' k"
    "ms_accounts (append_consensus_wal (append_consensus_wal (put_consensus_snapshot st' q) w) w') = ms_accounts st'"
    "get_consensus_snapshot (append_consensus_wal (append_consensus_wal (put_consensus_snapshot st' q) w) w') = Some q"
    for st' q w w' k
    by (simp_all add: store_ops)
  then show ?thesis
    using fin cert accts stored root root_eq n2(2,3) fb ex(2)
    by (simp add: advance_height_run reset_round_def current_snapshot_def)
qed

definition final_vote :: vote where
  "final_vote = \<lparr>vt_height = 9, vt_round = 0, vt_step = Precommit, vt_block_hash = block_hash sample_ext sample_proposal,
     vt_validator_address = sample_address, vt_public_key = [5], vt_signature = [36]\<rparr>"

definition final_node :: node where
  "final_node = \<lparr>nd_state = round_state_default\<lparr>rs_height := 9, rs_proposal := Some sample_proposal,
     rs_votes := [final_vote]\<rparr>, nd_store = rich_store, nd_mempool = mempool_new, nd_sent = []\<rparr>"

lemma final_verified: "verify_vote sample_ext sample_scheme final_vote = Inr ()"
proof -
  have signed: "sign_vote sample_ext sample_scheme (final_vote\<lparr>vt_signature := []\<rparr>) [5] = Inr final_vote"
    by (simp add: sign_vote_def vote_bytes_def canonical_vote_bytes_def sample_ext_def sample_scheme_def
        ml_dsa_sign_def sample_oqs_def domain_message_def final_vote_def)
  show ?thesis
    by (rule ml_dsa.signed_vote_verifies [OF _ signed [unfolded sample_scheme_def], folded sample_scheme_def])
      (simp_all add: final_vote_def sample_pair sample_address_derived)
qed

lemma final_staking: "current_validators (single_engine a) rich_store = current_validators (single_engine a) memory_store_default"
  by (simp add: current_validators_def loaded_staking_def staking_load_def rich_store_def get_staking_state_def)

lemma final_state: "rs_proposal (nd_state final_node) = Some sample_proposal" "nd_store final_node = rich_store"
  "rs_height (nd_state final_node) = 9" "rs_evidence (nd_state final_node) = []" "nd_sent final_node = []"
  by (simp_all add: final_node_def round_state_default_def)

lemma final_run: "\<exists>n'. finalize demo_env (single_engine sample_address) (block_hash sample_ext sample_proposal) final_node = (n', Inr ())"
proof -
  let ?C = "single_engine sample_address" and ?bh = "block_hash sample_ext sample_proposal"
  have cert: "validate_commit_certificate sample_ext ?C rich_store sample_proposal (certificate_of (nd_state final_node) ?bh) = Inr ()"
    using final_verified
    by (simp add: certificate_check certificate_of_def final_node_def commit_votes_def certificate_vote_ok_def
        certificate_signers_def quorum_def final_staking single_validators)
      (simp add: final_vote_def sample_proposal_def build_header_def round_state_default_def)
  have exec: "execute_block (cv_exec demo_env) (ce_execution ?C) sample_scheme rich_store sample_proposal
      = (persist_accounting rich_store sample_prepared, Inr \<lparr>br_block = sample_proposal, br_receipts = pb_receipts sample_prepared,
           br_epoch_transition = aa_epoch_transition (pb_accounting sample_prepared),
           br_proposer_fees = pb_proposer_fees sample_prepared, br_state = pb_state sample_prepared\<rparr>)"
    using sample_prepares by (simp add: execute_block_def demo_env_def single_engine_def demo_engine_def)
  have evidence: "apply_pending_evidence ?C m = (m\<lparr>nd_state := (nd_state m)\<lparr>rs_evidence := []\<rparr>\<rparr>, Inr ())"
    if "rs_evidence (nd_state m) = []" for m
    using that by (simp add: apply_pending_evidence_def act_bind_def act_then_def act_unless_def update_state_def act_defs)
  have ups: "update_store f m = (m\<lparr>nd_store := f (nd_store m)\<rparr>, Inr ())"
    "update_mempool g m = (m\<lparr>nd_mempool := g (nd_mempool m)\<rparr>, Inr ())" for f g m
    by (simp_all add: update_store_def update_mempool_def)
  show ?thesis
    using cert unfolding certificate_of_def
    by (simp add: finalize_def final_state act_unless_def Let_def act_then_def act_bind_def exec on_store_def append_wal_def ups
        evidence broadcast_def advance_height_run)
qed

theorem finalize_spec_witness:
  "\<exists>n' :: node. rs_height (nd_state n') = 10 \<and> (\<exists>fb. fb_block fb = sample_proposal \<and>
     get_block_by_height (nd_store n') 9 = Some fb \<and> nd_sent n' = [CommitMsg fb])"
proof -
  obtain n' where run: "finalize demo_env (single_engine sample_address) (block_hash sample_ext sample_proposal) final_node = (n', Inr ())"
    using final_run by blast
  have "store_wf sample_ext rich_store"
    by (simp add: store_wf_def rich_store_def memory_store_default_def sample_state_def bt_wf_Cons bt_keys_def)
  then have "rs_height (nd_state n') = 10 \<and> (\<exists>fb. fb_block fb = sample_proposal \<and>
     get_block_by_height (nd_store n') 9 = Some fb \<and> nd_sent n' = [CommitMsg fb])"
    using finalize_spec [OF run final_state(1)] by (auto simp: final_state)
  then show ?thesis by blast
qed

section \<open>Recovery\<close>

definition recovered_position :: "recovered_state \<Rightarrow> u64 \<times> u32" where
  "recovered_position r = (cs_height (rv_snapshot r), cs_round (rv_snapshot r))"

text \<open>The positions an entry of the log promises.\<close>

fun entry_position :: "consensus_wal_entry \<Rightarrow> (u64 \<times> u32) option" where
  "entry_position (SnapshotPersisted h r) = Some (h, r)"
| "entry_position (HeightAdvanced h) = Some (h, 0)"
| "entry_position (CommitFinalized h _ _) = Some (saturating_add h 1, 0)"
| "entry_position _ = None"

lemma recover_step_mono: "recovered_position r \<le> recovered_position (recover_step r e)"
  by (cases e) (auto simp: recovered_position_def recovered_at_def less_eq_prod_def)

lemma recover_step_reaches: "entry_position e = Some p \<Longrightarrow> p \<le> recovered_position (recover_step r e)"
  by (cases e) (auto simp: recovered_position_def recovered_at_def less_eq_prod_def not_less not_le)

lemma recover_position:
  "recovered_position r \<le> recovered_position (foldl recover_step r wal) \<and>
   (\<forall>e\<in>set wal. \<forall>p. entry_position e = Some p \<longrightarrow> p \<le> recovered_position (foldl recover_step r wal))"
proof (induction wal rule: rev_induct)
  case (snoc e wal)
  let ?r = "foldl recover_step r wal"
  note mono = recover_step_mono [of ?r e] and here = recover_step_reaches [of e _ ?r]
  show ?case
  proof (intro conjI ballI allI impI)
    show "recovered_position r \<le> recovered_position (foldl recover_step r (wal @ [e]))"
      using snoc mono by (auto intro: order_trans)
    fix x p
    assume x: "x \<in> set (wal @ [e])" and p: "entry_position x = Some p"
    show "p \<le> recovered_position (foldl recover_step r (wal @ [e]))"
    proof (cases "x = e")
      case True
      then show ?thesis using here [of p] p by simp
    next
      case False
      then have "x \<in> set wal" using x by simp
      then have "p \<le> recovered_position ?r" using conjunct2 [OF snoc] p by blast
      then show ?thesis using mono by simp
    qed
  qed
qed simp

lemma recover_lock:
  assumes "rv_locked_block (foldl recover_step r wal) = Some b" "rv_locked_block r = None"
  shows "\<exists>h lr bh. Locked h lr bh b \<in> set wal \<and> rv_locked_round (foldl recover_step r wal) = Some lr"
  using assms
proof (induction wal rule: rev_induct)
  case (snoc e wal)
  then show ?case
    by (cases e) (fastforce simp: recovered_at_def split: if_splits)+
qed simp

lemma engine_start_sel:
  "rs_height (engine_start store) = cs_height (rv_snapshot (recover_snapshot (initial_snapshot store) (load_consensus_wal store)))"
  "rs_round (engine_start store) = cs_round (rv_snapshot (recover_snapshot (initial_snapshot store) (load_consensus_wal store)))"
  "rs_locked_block (engine_start store) = rv_locked_block (recover_snapshot (initial_snapshot store) (load_consensus_wal store))"
  "rs_locked_round (engine_start store) = rv_locked_round (recover_snapshot (initial_snapshot store) (load_consensus_wal store))"
  "rs_prevoted (engine_start store) = False" "rs_precommitted (engine_start store) = False"
  "rs_votes (engine_start store) = []" "rs_proposal (engine_start store) = None"
  by (simp_all add: engine_start_def Let_def round_state_default_def)

lemma start_position:
  "recovered_position (recover_snapshot (initial_snapshot store) (load_consensus_wal store))
     = (rs_height (engine_start store), rs_round (engine_start store))"
  by (simp add: recovered_position_def engine_start_sel)

lemma restart_reaches:
  assumes "e \<in> set (load_consensus_wal store)" "entry_position e = Some p"
  shows "p \<le> (rs_height (engine_start store), rs_round (engine_start store))"
proof -
  let ?r = "\<lparr>rv_snapshot = initial_snapshot store, rv_locked_round = None, rv_locked_block = None,
    rv_valid_round = None, rv_valid_block = None\<rparr>"
  note pos = recover_position [of ?r "load_consensus_wal store", folded recover_snapshot_def, unfolded start_position]
  show ?thesis using conjunct2 [OF pos] assms by blast
qed

text \<open>A restarted engine is never behind what it has written: its position is at or after the
  persisted snapshot and every snapshot, height and commit entry of the log (the height after a
  committed one), and a lock it recovers was logged, with that block and round. The flags that
  say it has voted are not recovered, nor are the recorded votes and the proposal.\<close>

theorem restart_position:
  "(cs_height (initial_snapshot store), cs_round (initial_snapshot store))
     \<le> (rs_height (engine_start store), rs_round (engine_start store)) \<and>
   (\<forall>e\<in>set (load_consensus_wal store). \<forall>p. entry_position e = Some p \<longrightarrow>
      p \<le> (rs_height (engine_start store), rs_round (engine_start store))) \<and>
   (\<forall>b. rs_locked_block (engine_start store) = Some b \<longrightarrow>
      (\<exists>h lr bh. Locked h lr bh b \<in> set (load_consensus_wal store) \<and> rs_locked_round (engine_start store) = Some lr)) \<and>
   \<not> rs_prevoted (engine_start store) \<and> \<not> rs_precommitted (engine_start store) \<and>
   rs_votes (engine_start store) = [] \<and> rs_proposal (engine_start store) = None"
proof -
  let ?r = "\<lparr>rv_snapshot = initial_snapshot store, rv_locked_round = None, rv_locked_block = None,
    rv_valid_round = None, rv_valid_block = None\<rparr>"
  note pos = recover_position [of ?r "load_consensus_wal store", folded recover_snapshot_def, unfolded start_position]
  have first: "recovered_position ?r = (cs_height (initial_snapshot store), cs_round (initial_snapshot store))"
    by (simp add: recovered_position_def)
  show ?thesis
    using pos recover_lock [of ?r "load_consensus_wal store", folded recover_snapshot_def]
    unfolding first by (simp add: engine_start_sel)
qed

theorem restart_position_witness:
  "5 \<le> rs_height (engine_start (append_consensus_wal memory_store_default (CommitFinalized 4 0 (Hash32 7))))"
proof -
  have entry: "CommitFinalized 4 0 (Hash32 7)
      \<in> set (load_consensus_wal (append_consensus_wal memory_store_default (CommitFinalized 4 0 (Hash32 7))))"
    by (simp add: store_ops)
  have "entry_position (CommitFinalized 4 0 (Hash32 7)) = Some (5, 0)" by (simp add: saturating_add_def)
  with entry restart_position [of "append_consensus_wal memory_store_default (CommitFinalized 4 0 (Hash32 7))"]
  have "(5, 0) \<le> (rs_height (engine_start (append_consensus_wal memory_store_default (CommitFinalized 4 0 (Hash32 7)))),
      rs_round (engine_start (append_consensus_wal memory_store_default (CommitFinalized 4 0 (Hash32 7)))))" by blast
  then show ?thesis by (auto simp: less_eq_prod_def)
qed

lemma certificate_not_exec: "validate_commit_certificate E C store b c \<noteq> Inl (CeExec e)"
proof -
  have "certificate_voters E S c acc vs \<noteq> Inl (CeExec e)" for S acc vs
    by (induction vs arbitrary: acc) (auto simp: bind_res_eq_Inl map_err_eq_Inl)
  then show ?thesis by (auto simp: validate_commit_certificate_def bind_res_eq_Inl)
qed

lemma saturating_add_one_less: "h \<noteq> - 1 \<Longrightarrow> h < saturating_add (h :: u64) 1"
proof -
  assume "h \<noteq> - 1"
  then have "unat h \<noteq> unat (- 1 :: u64)" using word_unat_eq_iff by blast
  then have "unat h \<noteq> 2 ^ 64 - 1" by (simp add: unsigned_minus_1_eq_mask mask_eq_exp_minus_1)
  moreover have "unat h < 2 ^ 64" using unsigned_less [of h, where ?'a = nat] by simp
  ultimately show ?thesis by (simp add: word_less_nat_alt unat_saturating_add)
qed

text \<open>C39: importing a block whose certificate is valid but which the executor rejects: the handler
  fails and the node stays at its height, but the commit entry is in the log already, so after a
  restart the node starts above the height of the block it does not have.\<close>

theorem failed_import_skips_height:
  assumes "import_external_finalized_block X C fb n = (n', Inl (CeExec e))"
  shows "rs_height (nd_state n') = rs_height (nd_state n) \<and>
    ms_blocks_by_height (nd_store n') = ms_blocks_by_height (nd_store n) \<and>
    (cc_height (fb_certificate fb) \<noteq> - 1 \<longrightarrow>
       cc_height (fb_certificate fb) < rs_height (engine_start (nd_store n')))"
proof -
  let ?c = "fb_certificate fb"
  let ?n1 = "n\<lparr>nd_store := append_consensus_wal (nd_store n)
    (CommitFinalized (cc_height ?c) (cc_round ?c) (cc_block_hash ?c))\<rparr>"
  have guard: "\<not> cc_height ?c < rs_height (nd_state n)"
    using assms by (auto simp: import_external_finalized_block_def act_unless_def Let_def)
  have cert: "validate_commit_certificate (ce_ext X) C (nd_store n) (fb_block fb) ?c = Inr ()"
    using assms guard certificate_not_exec [of "ce_ext X" C "nd_store n" "fb_block fb" ?c e]
    by (cases "validate_commit_certificate (ce_ext X) C (nd_store n) (fb_block fb) ?c")
      (simp_all add: import_external_finalized_block_def act_unless_def Let_def act_then_def act_bind_def)
  obtain store res where commit': "validate_and_commit_finalized_block (cv_exec X) (ce_execution C) (ce_scheme C)
      (nd_store ?n1) fb = (store, res)" by (metis prod.exhaust)
  have "res = Inl e" "n' = ?n1\<lparr>nd_store := store\<rparr>"
    using assms guard cert commit'
    by (cases res; simp add: import_external_finalized_block_def act_unless_def Let_def then_lift act_then_def
        act_bind_def append_wal_def update_store_def update_mempool_def on_store_def advance_height_run)+
  then have commit: "validate_and_commit_finalized_block (cv_exec X) (ce_execution C) (ce_scheme C)
      (nd_store ?n1) fb = (store, Inl e)" and n': "n' = ?n1\<lparr>nd_store := store\<rparr>" using commit' by simp_all
  obtain m where "store = (nd_store ?n1)\<lparr>ms_evm_accounts := m\<rparr>"
    using commit prepare_block_frame
    by (fastforce simp: validate_and_commit_finalized_block_def split: prod.splits sum.splits if_splits)
  then have store: "nd_store n' = (nd_store ?n1)\<lparr>ms_evm_accounts := m\<rparr>" by (simp add: n')
  have logged: "CommitFinalized (cc_height ?c) (cc_round ?c) (cc_block_hash ?c) \<in> set (load_consensus_wal (nd_store n'))"
    by (simp add: store store_ops)
  have "(saturating_add (cc_height ?c) 1, 0) \<le> (rs_height (engine_start (nd_store n')), rs_round (engine_start (nd_store n')))"
    by (rule restart_reaches [OF logged]) simp
  then have reach: "saturating_add (cc_height ?c) 1 \<le> rs_height (engine_start (nd_store n'))"
    by (auto simp: less_eq_prod_def)
  have "cc_height ?c < saturating_add (cc_height ?c) 1" if "cc_height ?c \<noteq> - 1"
    using that by (simp add: saturating_add_one_less)
  then show ?thesis using reach n' store by (auto simp: store_ops append_consensus_wal_def)
qed

definition twin_env :: call_env where
  "twin_env = demo_env\<lparr>cv_exec := sample_env\<lparr>xe_ext := twin_ext\<rparr>\<rparr>"

definition twin_final :: finalized_block where
  "twin_final = \<lparr>fb_block = twin_block 0, fb_certificate = twin_certificate 0, fb_receipts = [], fb_epoch_transition = None\<rparr>"

theorem failed_import_skips_height_witness:
  "\<exists>n' :: node. rs_height (nd_state n') = 1 \<and> ms_blocks_by_height (nd_store n') = [] \<and>
     1 < rs_height (engine_start (nd_store n'))"
proof -
  let ?C = "single_engine sample_address"
  have sel: "fb_block twin_final = twin_block 0" "fb_certificate twin_final = twin_certificate 0"
    "cc_height (twin_certificate 0) = 1" "ce_ext twin_env = twin_ext" "cc_height (twin_certificate 0) \<noteq> - 1"
    by (simp_all add: twin_final_def twin_certificate_def twin_env_def)
  have height: "rs_height round_state_default = 1" by (simp add: round_state_default_def)
  have reject: "\<exists>e. verify_block twin_ext sample_scheme (twin_block 0) = Inl e"
    by (simp add: verify_block_def twin_block_def sample_header_def bind_res_def map_err_def canonical_block_header_bytes_def
        sample_scheme_def ml_dsa_verify_def sample_oqs_def ml_dsa_derive_address_def split: sum.splits)
  then obtain e where "validate_and_commit_finalized_block (cv_exec twin_env) (ce_execution ?C) sample_scheme st twin_final
      = (st, Inl e)" for st
    by (auto simp: validate_and_commit_finalized_block_def prepare_block_def sel(1,4))
  then have "\<exists>n'. import_external_finalized_block twin_env ?C twin_final demo_node = (n', Inl (CeExec e))"
    using twin_accepted [of sample_address 0]
    by (simp add: import_external_finalized_block_def sel act_unless_def demo_start height Let_def act_then_def act_bind_def
        append_wal_def update_store_def on_store_def)
  then obtain n' where run: "import_external_finalized_block twin_env ?C twin_final demo_node = (n', Inl (CeExec e))" ..
  have "rs_height (nd_state n') = 1 \<and> ms_blocks_by_height (nd_store n') = [] \<and> 1 < rs_height (engine_start (nd_store n'))"
    using failed_import_skips_height [OF run] sel by (simp add: demo_start height) (simp add: memory_store_default_def)
  then show ?thesis by blast
qed

end
