(* ===== verification/Zeno_EthTx.thy ===== *)
theory Zeno_EthTx
  imports Zeno_Evm "HOL-Library.Sublist"
begin

text \<open>
  The decoder of raw Ethereum transactions (\<open>zeno-evm/src/eth_tx.rs\<close>): the minimal RLP codec, the
  legacy and EIP-1559 layouts, the recovery of the sender over the \<open>k256\<close> crate, and
  \<open>execute_raw_ethereum_tx\<close>. Sizes are 64 bit words and additions wrap, as in a release build; a
  slice out of range is the error \<open>EthPanic\<close>. The loop over the items of a list may not end, so it
  is a partial function: \<open>None\<close> stands for a call that never returns.
\<close>

unbundle bit_operations_syntax

section \<open>The codec\<close>

datatype eth_error = EthText string | EthPanic

type_synonym 'a eth_result = "eth_error + 'a"

abbreviation len64 :: "'a list \<Rightarrow> u64" where
  "len64 xs \<equiv> word_of_nat (length xs)"

text \<open>\<open>data[a..b]\<close>\<close>

definition slice_range :: "u8 list \<Rightarrow> u64 \<Rightarrow> u64 \<Rightarrow> u8 list eth_result" where
  "slice_range xs a b = (if b < a \<or> len64 xs < b then Inl EthPanic
     else Inr (take (unat b - unat a) (drop (unat a) xs)))"

definition be_to_usize :: "u8 list \<Rightarrow> u64" where
  "be_to_usize bytes = array_of_bytes bytes"

function usize_digits :: "u64 \<Rightarrow> u8 list" where
  "usize_digits v = (if v = 0 then [] else ucast (v AND 0xff) # usize_digits (drop_bit 8 v))"
  by auto

termination
proof (relation "measure unat")
  fix v :: u64
  assume "v \<noteq> 0"
  then have "0 < unat v" by (simp add: unat_gt_0)
  moreover have "unat (drop_bit 8 v) = unat v div 256"
    by (subst unat_drop_bit_eq) (simp add: drop_bit_eq_div)
  ultimately have "unat (drop_bit 8 v) < unat v" by simp
  then show "(drop_bit 8 v, v) \<in> measure unat" by simp
qed simp

declare usize_digits.simps [simp del]

definition usize_to_be :: "u64 \<Rightarrow> u8 list" where
  "usize_to_be v = (if v = 0 then [0] else rev (usize_digits v))"

definition rlp_to_u64 :: "u8 list \<Rightarrow> u64" where
  "rlp_to_u64 bytes = array_of_bytes bytes"

definition rlp_to_u128 :: "u8 list \<Rightarrow> u128" where
  "rlp_to_u128 bytes = array_of_bytes bytes"

definition rlp_to_address :: "u8 list \<Rightarrow> evm_address option" where
  "rlp_to_address bytes = (if length bytes = 20 then Some (EvmAddress (array_of_bytes bytes)) else None)"

definition rlp_from_u64 :: "u64 \<Rightarrow> u8 list" where
  "rlp_from_u64 v = (if v = 0 then [] else dropWhile (\<lambda>b. b = 0) (array_bytes 8 v))"

definition left_pad_32 :: "u8 list \<Rightarrow> u8 list" where
  "left_pad_32 bytes = replicate (32 - length bytes) 0 @ take 32 bytes"

definition rlp_encode_bytes :: "u8 list \<Rightarrow> u8 list" where
  "rlp_encode_bytes bytes =
    (case bytes of
       [b] \<Rightarrow> if b < 0x80 then [b] else [0x80 + 1, b]
     | _ \<Rightarrow>
        if length bytes \<le> 55 then (0x80 + word_of_nat (length bytes)) # bytes
        else let len_bytes = usize_to_be (len64 bytes) in
             (0xb7 + word_of_nat (length len_bytes)) # len_bytes @ bytes)"

definition rlp_encode_list_header :: "nat \<Rightarrow> u8 list" where
  "rlp_encode_list_header payload_len =
    (if payload_len \<le> 55 then [0xc0 + word_of_nat payload_len]
     else let len_bytes = usize_to_be (word_of_nat payload_len) in
          (0xf7 + word_of_nat (length len_bytes)) # len_bytes)"

definition rlp_encode_list :: "u8 list list \<Rightarrow> u8 list" where
  "rlp_encode_list items = (let payload = concat (map rlp_encode_bytes items) in
     rlp_encode_list_header (length payload) @ payload)"

text \<open>The long forms: a length of \<open>len_len\<close> bytes, then the payload. \<open>from_start\<close> says whether the
  item keeps its prefix byte.\<close>

definition long_form :: "string \<Rightarrow> string \<Rightarrow> bool \<Rightarrow> u8 list \<Rightarrow> u64 \<Rightarrow> (u8 list \<times> u64) eth_result" where
  "long_form no_length no_payload from_start data len_len =
    (if len64 data < 1 + len_len then Inl (EthText no_length)
     else bind_res (slice_range data 1 (1 + len_len)) (\<lambda>len_bytes.
       let len = be_to_usize len_bytes; start = 1 + len_len in
       if len64 data < start + len then Inl (EthText no_payload)
       else bind_res (slice_range data (if from_start then 0 else start) (start + len)) (\<lambda>item.
         Inr (item, start + len))))"

definition short_form :: "string \<Rightarrow> bool \<Rightarrow> u8 list \<Rightarrow> u64 \<Rightarrow> (u8 list \<times> u64) eth_result" where
  "short_form err from_start data len =
    (if len64 data < 1 + len then Inl (EthText err)
     else bind_res (slice_range data (if from_start then 0 else 1) (1 + len)) (\<lambda>item. Inr (item, 1 + len)))"

definition rlp_list_payload :: "u8 list \<Rightarrow> (u8 list \<times> u64) eth_result" where
  "rlp_list_payload data =
    (case data of
       [] \<Rightarrow> Inl EthPanic
     | lead # _ \<Rightarrow>
        if 0xf8 \<le> lead then long_form ''rlp: truncated long list length'' ''rlp: truncated long list payload''
          False data (ucast (lead - 0xf7))
        else if 0xc0 \<le> lead then short_form ''rlp: truncated short list payload'' False data (ucast (lead - 0xc0))
        else Inl (EthText ''rlp: expected list''))"

definition rlp_next_item :: "u8 list \<Rightarrow> (u8 list \<times> u64) eth_result" where
  "rlp_next_item data =
    (case data of
       [] \<Rightarrow> Inl (EthText ''rlp: unexpected end'')
     | lead # _ \<Rightarrow>
        if lead < 0x80 then Inr ([lead], 1)
        else if lead \<le> 0xb7 then short_form ''rlp: truncated short string'' False data (ucast (lead - 0x80))
        else if lead \<le> 0xbf then long_form ''rlp: truncated long string length''
          ''rlp: truncated long string payload'' False data (ucast (lead - 0xb7))
        else if lead \<le> 0xf7 then short_form ''rlp: truncated short list'' True data (ucast (lead - 0xc0))
        else long_form ''rlp: truncated long list length'' ''rlp: truncated long list'' True data (ucast (lead - 0xf7)))"

partial_function (option) rlp_items :: "u8 list \<Rightarrow> u64 \<Rightarrow> u8 list list \<Rightarrow> (u8 list list eth_result) option" where
  "rlp_items payload pos items =
    (if len64 payload \<le> pos then Some (Inr items)
     else case bind_res (slice_range payload pos (len64 payload)) rlp_next_item of
       Inl e \<Rightarrow> Some (Inl e)
     | Inr r \<Rightarrow> rlp_items payload (pos + snd r) (items @ [fst r]))"

definition rlp_decode_list :: "u8 list \<Rightarrow> (u8 list list eth_result) option" where
  "rlp_decode_list data =
    (if data = [] then Some (Inl (EthText ''empty RLP''))
     else case rlp_list_payload data of
       Inl e \<Rightarrow> Some (Inl e)
     | Inr (payload, _) \<Rightarrow> rlp_items payload 0 [])"

section \<open>Transactions\<close>

text \<open>What the code uses of the \<open>k256\<close> crate: whether 64 bytes are a signature, whether a byte is a
  recovery id, and the uncompressed point of the recovered key.\<close>

record k256 =
  kc_signature_ok :: "u8 list \<Rightarrow> bool"
  kc_recovery_id_ok :: "u8 \<Rightarrow> bool"
  kc_recover :: "256 word \<Rightarrow> u8 list \<Rightarrow> u8 \<Rightarrow> u8 list option"

record decoded_eth_tx =
  de_sender :: "160 word"
  de_nonce :: u64
  de_gas_price :: u128
  de_gas_limit :: u64
  de_to :: "evm_address option"
  de_value :: u128
  de_data :: "u8 list"
  de_chain_id :: u64
  de_tx_hash :: "256 word"

definition recover_sender ::
  "ext \<Rightarrow> k256 \<Rightarrow> 256 word \<Rightarrow> u8 list \<Rightarrow> u8 list \<Rightarrow> u8 \<Rightarrow> (160 word) eth_result" where
  "recover_sender E K signing_hash r_bytes s_bytes v =
    (let sig_bytes = left_pad_32 r_bytes @ left_pad_32 s_bytes in
     if \<not> kc_signature_ok K sig_bytes then Inl (EthText ''invalid ECDSA signature'')
     else if \<not> kc_recovery_id_ok K v then Inl (EthText ''invalid recovery id'')
     else case kc_recover K signing_hash sig_bytes v of
       None \<Rightarrow> Inl (EthText ''ECDSA recovery failed'')
     | Some point \<Rightarrow> Inr (ucast (keccak_256 E (drop 1 point))))"

definition legacy_fields :: "ext \<Rightarrow> k256 \<Rightarrow> 256 word \<Rightarrow> u8 list list \<Rightarrow> decoded_eth_tx eth_result" where
  "legacy_fields E K tx_hash items =
    (if length items \<noteq> 9 then Inl (EthText ''legacy tx must have 9 RLP fields'')
     else
       let v = rlp_to_u64 (items ! 6);
           chain_id = (if 35 \<le> v then (v - 35) div 2 else 0);
           signing_payload = rlp_encode_list [items ! 0, items ! 1, items ! 2, items ! 3, items ! 4, items ! 5,
             rlp_from_u64 chain_id, [], []];
           recovery_v = (if 35 \<le> v then ucast (v - 35 - 2 * chain_id) else ucast (saturating_sub v 27)) in
       bind_res (recover_sender E K (keccak_256 E signing_payload) (items ! 7) (items ! 8) recovery_v) (\<lambda>sender.
       Inr \<lparr>de_sender = sender, de_nonce = rlp_to_u64 (items ! 0), de_gas_price = rlp_to_u128 (items ! 1),
            de_gas_limit = rlp_to_u64 (items ! 2), de_to = rlp_to_address (items ! 3),
            de_value = rlp_to_u128 (items ! 4), de_data = items ! 5, de_chain_id = chain_id, de_tx_hash = tx_hash\<rparr>))"

definition decode_legacy :: "ext \<Rightarrow> k256 \<Rightarrow> u8 list \<Rightarrow> 256 word \<Rightarrow> (decoded_eth_tx eth_result) option" where
  "decode_legacy E K raw tx_hash =
     map_option (\<lambda>r. bind_res r (legacy_fields E K tx_hash)) (rlp_decode_list raw)"

definition eip1559_signing_input :: "u8 list list \<Rightarrow> u8 list" where
  "eip1559_signing_input items = 0x02 # rlp_encode_list (map (\<lambda>i. items ! i) [0..<9])"

definition eip1559_fields :: "ext \<Rightarrow> k256 \<Rightarrow> 256 word \<Rightarrow> u8 list list \<Rightarrow> decoded_eth_tx eth_result" where
  "eip1559_fields E K tx_hash items =
    (if length items \<noteq> 12 then Inl (EthText ''EIP-1559 tx must have 12 RLP fields'')
     else
       bind_res (recover_sender E K (keccak_256 E (eip1559_signing_input items)) (items ! 10) (items ! 11)
           (ucast (rlp_to_u64 (items ! 9)))) (\<lambda>sender.
       Inr \<lparr>de_sender = sender, de_nonce = rlp_to_u64 (items ! 1), de_gas_price = rlp_to_u128 (items ! 3),
            de_gas_limit = rlp_to_u64 (items ! 4), de_to = rlp_to_address (items ! 5),
            de_value = rlp_to_u128 (items ! 6), de_data = items ! 7, de_chain_id = rlp_to_u64 (items ! 0),
            de_tx_hash = tx_hash\<rparr>))"

definition decode_eip1559 :: "ext \<Rightarrow> k256 \<Rightarrow> u8 list \<Rightarrow> 256 word \<Rightarrow> (decoded_eth_tx eth_result) option" where
  "decode_eip1559 E K raw tx_hash =
     map_option (\<lambda>r. bind_res r (eip1559_fields E K tx_hash)) (rlp_decode_list (drop 1 raw))"

definition strip_0x :: "string \<Rightarrow> string" where
  "strip_0x s = (if take 2 s = ''0x'' then drop 2 s else s)"

definition decode_raw_tx ::
  "ext \<Rightarrow> k256 \<Rightarrow> (string \<Rightarrow> u8 list option) \<Rightarrow> string \<Rightarrow> (decoded_eth_tx eth_result) option" where
  "decode_raw_tx E K from_hex raw_hex =
    (case from_hex (strip_0x raw_hex) of
       None \<Rightarrow> Some (Inl (EthText ''invalid hex''))
     | Some raw \<Rightarrow>
        (case raw of
           [] \<Rightarrow> Some (Inl (EthText ''empty transaction''))
         | b # _ \<Rightarrow>
            let tx_hash = keccak_256 E raw in
            if b = 0x02 then decode_eip1559 E K raw tx_hash else decode_legacy E K raw tx_hash))"

definition eth_transaction :: "decoded_eth_tx \<Rightarrow> evm_transaction" where
  "eth_transaction d = \<lparr>et_kind = (case de_to d of
        Some to_addr \<Rightarrow> Call to_addr (de_data d) | None \<Rightarrow> Create (de_data d)),
     et_value = de_value d, et_gas_limit = de_gas_limit d, et_gas_price = de_gas_price d\<rparr>"

text \<open>A panic of the decoder ends the task of the request; the error \<open>None\<close> in the sum stands for it.\<close>

definition execute_raw_ethereum_tx ::
  "ext \<Rightarrow> scheme \<Rightarrow> revm \<Rightarrow> k256 \<Rightarrow> (string \<Rightarrow> u8 list option) \<Rightarrow> evm_executor \<Rightarrow> memory_store \<Rightarrow> string \<Rightarrow>
   (memory_store \<times> (evm_error option + (256 word \<times> evm_call_result))) option" where
  "execute_raw_ethereum_tx E S R K from_hex x store raw_hex =
     map_option (\<lambda>r. case r of
       Inl EthPanic \<Rightarrow> (store, Inl None)
     | Inl (EthText e) \<Rightarrow> (store, Inl (Some (Execution ''tx decode failed'')))
     | Inr d \<Rightarrow>
        if de_chain_id d \<noteq> ex_evm_chain_id x then (store, Inl (Some (Execution ''chain id mismatch'')))
        else case evm_execute E S R x store (de_sender d) (eth_transaction d) of
          (store', Inl e) \<Rightarrow> (store', Inl (Some e))
        | (store', Inr res) \<Rightarrow> (store', Inr (de_tx_hash d, res)))
     (decode_raw_tx E K from_hex raw_hex)"

section \<open>Lemmas on the codec\<close>

lemma array_of_bytes_snoc: "array_of_bytes (bs @ [b]) = push_bit 8 (array_of_bytes bs) OR ucast b"
  by (simp add: array_of_bytes_def)

lemma join_byte: "push_bit 8 (drop_bit 8 v) OR ucast (ucast (v AND 0xff) :: u8) = (v :: u64)"
proof (rule bit_word_eqI)
  fix n
  assume "n < LENGTH(64)"
  have mask: "bit (0xff :: u64) n \<longleftrightarrow> n < 8"
  proof -
    have eq: "(0xff :: u64) = mask 8" by (simp add: mask_eq_exp_minus_1)
    show ?thesis unfolding eq using \<open>n < LENGTH(64)\<close> by (auto simp: bit_simps)
  qed
  show "bit (push_bit 8 (drop_bit 8 v) OR ucast (ucast (v AND 0xff) :: u8)) n = bit v n"
    using \<open>n < LENGTH(64)\<close> mask by (cases "n < 8") (auto simp: bit_simps)
qed

lemma usize_digits_0 [simp]: "usize_digits 0 = []"
  by (subst usize_digits.simps) simp

lemma be_usize_digits: "be_to_usize (rev (usize_digits v)) = v"
proof (induction v rule: usize_digits.induct)
  case (1 v)
  show ?case
  proof (cases "v = 0")
    case True
    then show ?thesis by (simp add: be_to_usize_def array_of_bytes_def)
  next
    case False
    then show ?thesis
      using 1 by (subst usize_digits.simps) (simp add: be_to_usize_def array_of_bytes_snoc join_byte)
  qed
qed

lemma length_usize_digits: "unat v < 256 ^ n \<Longrightarrow> length (usize_digits v) \<le> n"
proof (induction n arbitrary: v)
  case 0
  then show ?case by (simp add: unat_eq_0)
next
  case (Suc n)
  have "unat (drop_bit 8 v) = unat v div 256"
    by (subst unat_drop_bit_eq) (simp add: drop_bit_eq_div)
  then have "unat (drop_bit 8 v) < 256 ^ n" using Suc.prems by (simp add: less_mult_imp_div_less mult.commute)
  then show ?case using Suc.IH by (subst usize_digits.simps) auto
qed

lemma usize_to_be_inverse [simp]: "be_to_usize (usize_to_be v) = v"
  by (simp add: usize_to_be_def be_usize_digits) (simp add: be_to_usize_def array_of_bytes_def)

lemma length_usize_to_be: "1 \<le> length (usize_to_be v) \<and> length (usize_to_be v) \<le> 8"
proof -
  have "unat v < 256 ^ 8" using unsigned_less [of v, where ?'a = nat] by simp
  from length_usize_digits [OF this] show ?thesis
    by (cases "v = 0") (simp_all add: usize_to_be_def, subst usize_digits.simps, simp)
qed

lemma slice_range_Inr:
  assumes "length xs < 2 ^ 64"
  shows "slice_range xs a b = Inr ys \<longleftrightarrow> unat a \<le> unat b \<and> unat b \<le> length xs \<and>
    ys = take (unat b - unat a) (drop (unat a) xs)"
proof -
  have "unat (len64 xs) = length xs" using assms by (simp add: unat_of_nat)
  then show ?thesis by (auto simp: slice_range_def word_less_nat_alt not_less)
qed

lemma slice_range_mid:
  assumes "length (xs @ ys @ zs) < 2 ^ 64" "unat a = length xs" "unat b = length xs + length ys"
  shows "slice_range (xs @ ys @ zs) a b = Inr ys"
  using assms by (simp add: slice_range_Inr)

lemma unat_len64 [simp]: "length xs < 2 ^ 64 \<Longrightarrow> unat (len64 xs) = length xs"
  by (simp add: unat_of_nat)

lemma short_form_encoded:
  assumes "length (p # item @ rest) < 2 ^ 64" "unat len = length item"
  shows "short_form err False (p # item @ rest) len = Inr (item, 1 + len)"
proof -
  have total: "unat (1 + len) = 1 + length item" using assms by (simp add: unat_word_ariths)
  have "slice_range ([p] @ item @ rest) 1 (1 + len) = Inr item"
    by (rule slice_range_mid) (use assms total in simp_all)
  moreover have "\<not> len64 (p # item @ rest) < 1 + len"
    using assms total unat_len64 [of "p # item @ rest"] by (simp add: word_less_nat_alt del: unat_len64)
  ultimately show ?thesis by (simp add: short_form_def)
qed

lemma long_form_encoded:
  assumes "length (p # lb @ item @ rest) < 2 ^ 64" "lb = usize_to_be (len64 item)" "unat ll = length lb"
  shows "long_form e1 e2 False (p # lb @ item @ rest) ll = Inr (item, 1 + ll + len64 item)"
proof -
  have one: "unat (1 + ll) = 1 + length lb" using assms(1,3) by (simp add: unat_word_ariths)
  have item: "unat (len64 item) = length item" using assms(1) by simp
  have two: "unat (1 + ll + len64 item) = 1 + length lb + length item"
    using assms(1) one item by (simp add: unat_word_ariths)
  have "slice_range ([p] @ lb @ item @ rest) 1 (1 + ll) = Inr lb"
    by (rule slice_range_mid) (use assms(1) one in simp_all)
  moreover have "slice_range ((p # lb) @ item @ rest) (1 + ll) (1 + ll + len64 item) = Inr item"
    by (rule slice_range_mid) (use assms(1) one two in simp_all)
  moreover have "\<not> len64 (p # lb @ item @ rest) < 1 + ll" "\<not> len64 (p # lb @ item @ rest) < 1 + ll + len64 item"
    using assms(1) one two unat_len64 [of "p # lb @ item @ rest"]
    by (simp_all add: word_less_nat_alt del: unat_len64)
  moreover have "be_to_usize lb = len64 item" using assms(2) by simp
  ultimately show ?thesis by (simp add: long_form_def Let_def)
qed

lemma prefix_word:
  assumes "n \<le> 55" "base \<in> {0x80, 0xc0}"
  shows "unat (base + word_of_nat n :: u8) = unat (base :: u8) + n" "unat (ucast (base + word_of_nat n - base) :: u64) = n"
proof -
  have n: "unat (word_of_nat n :: u8) = n" using assms(1) by (simp add: unat_of_nat)
  then show "unat (base + word_of_nat n :: u8) = unat base + n"
    using assms by (auto simp: unat_word_ariths)
  show "unat (ucast (base + word_of_nat n - base) :: u64) = n"
    using n by (simp add: unat_ucast_up)
qed

lemma long_prefix_word:
  assumes "1 \<le> n" "n \<le> 8" "base \<in> {0xb7, 0xf7}"
  shows "unat (base + word_of_nat n :: u8) = unat (base :: u8) + n" "unat (ucast (base + word_of_nat n - base) :: u64) = n"
proof -
  have n: "unat (word_of_nat n :: u8) = n" using assms(2) by (simp add: unat_of_nat)
  then show "unat (base + word_of_nat n :: u8) = unat base + n"
    using assms by (auto simp: unat_word_ariths)
  show "unat (ucast (base + word_of_nat n - base) :: u64) = n"
    using n by (simp add: unat_ucast_up)
qed

lemma len64_eqI: "unat (w :: u64) = length xs \<Longrightarrow> w = len64 xs"
  using unsigned_less [of w, where ?'a = nat] by (simp add: word_unat_eq_iff)

lemma next_short:
  assumes "length ((0x80 + word_of_nat (length item)) # item @ rest) < 2 ^ 64" "length item \<le> 55"
  shows "rlp_next_item ((0x80 + word_of_nat (length item)) # item @ rest)
    = Inr (item, len64 ((0x80 + word_of_nat (length item) :: u8) # item))"
proof -
  let ?p = "0x80 + word_of_nat (length item) :: u8"
  note p = prefix_word [OF assms(2), of "0x80"]
  have "\<not> ?p < 0x80" "?p \<le> 0xb7" using p(1) assms(2) by (simp_all add: word_less_nat_alt word_le_nat_alt)
  moreover have "short_form err False (?p # item @ rest) (ucast (?p - 0x80)) = Inr (item, 1 + ucast (?p - 0x80))" for err
    by (rule short_form_encoded) (use assms(1) p(2) in simp_all)
  moreover have "1 + ucast (?p - 0x80) = len64 (?p # item)"
    using p(2) assms by (intro len64_eqI) (simp add: unat_word_ariths)
  ultimately show ?thesis by (simp add: rlp_next_item_def)
qed

lemma next_long:
  assumes "lb = usize_to_be (len64 item)" "length ((0xb7 + word_of_nat (length lb)) # lb @ item @ rest) < 2 ^ 64"
  shows "rlp_next_item ((0xb7 + word_of_nat (length lb)) # lb @ item @ rest)
    = Inr (item, len64 ((0xb7 + word_of_nat (length lb) :: u8) # lb @ item))"
proof -
  let ?p = "0xb7 + word_of_nat (length lb) :: u8"
  have len: "1 \<le> length lb" "length lb \<le> 8" using length_usize_to_be [of "len64 item"] assms(1) by simp_all
  note p = long_prefix_word [OF len, of "0xb7"]
  have "\<not> ?p < 0x80" "\<not> ?p \<le> 0xb7" "?p \<le> 0xbf"
    using p(1) len by (auto simp: word_less_nat_alt word_le_nat_alt)
  moreover have "long_form e1 e2 False (?p # lb @ item @ rest) (ucast (?p - 0xb7))
      = Inr (item, 1 + ucast (?p - 0xb7) + len64 item)" for e1 e2
    by (rule long_form_encoded) (use assms p(2) in simp_all)
  moreover have "1 + ucast (?p - 0xb7) + len64 item = len64 (?p # lb @ item)"
    using p(2) assms(2) by (intro len64_eqI) (simp add: unat_word_ariths)
  ultimately show ?thesis by (simp add: rlp_next_item_def)
qed

lemma next_encoded:
  assumes "length (rlp_encode_bytes item @ rest) < 2 ^ 64"
  shows "rlp_next_item (rlp_encode_bytes item @ rest) = Inr (item, len64 (rlp_encode_bytes item))"
proof (cases "\<exists>b. item = [b] \<and> b < 0x80")
  case True
  then show ?thesis by (auto simp: rlp_encode_bytes_def rlp_next_item_def)
next
  case False
  show ?thesis
  proof (cases "length item \<le> 55")
    case True
    have enc: "rlp_encode_bytes item = (0x80 + word_of_nat (length item)) # item"
      using False True by (auto simp: rlp_encode_bytes_def split: list.splits)
    show ?thesis using next_short [of item rest] assms True unfolding enc by simp
  next
    case False
    then have enc: "rlp_encode_bytes item = (0xb7 + word_of_nat (length (usize_to_be (len64 item)))) #
        usize_to_be (len64 item) @ item"
      by (auto simp: rlp_encode_bytes_def Let_def split: list.splits)
    show ?thesis using next_long [OF refl, of item rest] assms unfolding enc by simp
  qed
qed

lemma encoded_nonempty: "rlp_encode_bytes item \<noteq> []"
  by (auto simp: rlp_encode_bytes_def Let_def split: list.splits)

lemma items_encoded:
  assumes "length (pre @ concat (map rlp_encode_bytes items)) < 2 ^ 64"
  shows "rlp_items (pre @ concat (map rlp_encode_bytes items)) (len64 pre) acc = Some (Inr (acc @ items))"
  using assms
proof (induction items arbitrary: pre acc)
  case Nil
  then show ?case by (subst rlp_items.simps) simp
next
  case (Cons item items)
  let ?e = "rlp_encode_bytes item" and ?rest = "concat (map rlp_encode_bytes items)"
  let ?p = "pre @ ?e @ ?rest"
  have total: "length ?p < 2 ^ 64" using Cons.prems by simp
  have more: "\<not> len64 ?p \<le> len64 pre"
    using total encoded_nonempty [of item] unat_len64 [of ?p] unat_len64 [of pre]
    by (simp add: word_le_nat_alt del: unat_len64)
  have "slice_range (pre @ (?e @ ?rest) @ []) (len64 pre) (len64 ?p) = Inr (?e @ ?rest)"
    by (rule slice_range_mid) (use total unat_len64 [of ?p] in simp_all)
  then have slice: "slice_range ?p (len64 pre) (len64 ?p) = Inr (?e @ ?rest)" by simp
  have step: "rlp_next_item (?e @ ?rest) = Inr (item, len64 ?e)" by (rule next_encoded) (use total in simp)
  have "len64 pre + len64 ?e = len64 (pre @ ?e)" by simp
  moreover have "rlp_items ((pre @ ?e) @ ?rest) (len64 (pre @ ?e)) (acc @ [item]) = Some (Inr ((acc @ [item]) @ items))"
    by (rule Cons.IH) (use total in simp)
  ultimately have "rlp_items ?p (len64 pre) acc = Some (Inr (acc @ item # items))"
    using more slice step by (subst rlp_items.simps) (simp del: of_nat_add)
  then show ?case by simp
qed

lemma list_payload_encoded:
  assumes "length (rlp_encode_list_header (length payload) @ payload) < 2 ^ 64"
  shows "\<exists>n. rlp_list_payload (rlp_encode_list_header (length payload) @ payload) = Inr (payload, n)"
proof (cases "length payload \<le> 55")
  case True
  let ?p = "0xc0 + word_of_nat (length payload) :: u8"
  note p = prefix_word [OF True, of "0xc0"]
  have "\<not> 0xf8 \<le> ?p" "0xc0 \<le> ?p" using p(1) True by (simp_all add: word_le_nat_alt)
  moreover have "short_form err False (?p # payload @ []) (ucast (?p - 0xc0)) = Inr (payload, 1 + ucast (?p - 0xc0))" for err
    by (rule short_form_encoded) (use assms True p(2) in \<open>simp_all add: rlp_encode_list_header_def\<close>)
  ultimately show ?thesis using True by (simp add: rlp_encode_list_header_def rlp_list_payload_def)
next
  case False
  let ?lb = "usize_to_be (len64 payload)"
  let ?p = "0xf7 + word_of_nat (length ?lb) :: u8"
  have len: "1 \<le> length ?lb" "length ?lb \<le> 8" using length_usize_to_be [of "len64 payload"] by simp_all
  note p = long_prefix_word [OF len, of "0xf7"]
  have "0xf8 \<le> ?p" using p(1) len by (simp add: word_le_nat_alt)
  moreover have "long_form e1 e2 False (?p # ?lb @ payload @ []) (ucast (?p - 0xf7))
      = Inr (payload, 1 + ucast (?p - 0xf7) + len64 payload)" for e1 e2
    by (rule long_form_encoded) (use assms False p(2) in \<open>simp_all add: rlp_encode_list_header_def Let_def\<close>)
  ultimately show ?thesis using False by (simp add: rlp_encode_list_header_def rlp_list_payload_def Let_def)
qed

lemma decode_encoded_list:
  assumes "length (rlp_encode_list items) < 2 ^ 64"
  shows "rlp_decode_list (rlp_encode_list items) = Some (Inr items)"
proof -
  let ?payload = "concat (map rlp_encode_bytes items)"
  have total: "length (rlp_encode_list_header (length ?payload) @ ?payload) < 2 ^ 64"
    using assms by (simp add: rlp_encode_list_def Let_def)
  obtain n where payload: "rlp_list_payload (rlp_encode_list_header (length ?payload) @ ?payload) = Inr (?payload, n)"
    using list_payload_encoded [OF total] by blast
  have "rlp_encode_list_header (length ?payload) \<noteq> []" by (simp add: rlp_encode_list_header_def Let_def)
  then show ?thesis
    using payload items_encoded [of "[]" items "[]"] total
    by (simp add: rlp_decode_list_def rlp_encode_list_def Let_def)
qed

section \<open>Termination\<close>

text \<open>An item that does not announce the wrapping length consumes at least one byte and
  at most what is left.\<close>

lemma short_form_bounds:
  assumes "short_form err b data len = Inr (item, n)" "length data < 2 ^ 64" "unat len < 256"
  shows "1 \<le> unat n \<and> unat n \<le> length data"
proof -
  have "unat (1 + len) = 1 + unat len" using assms(3) by (simp add: unat_word_ariths)
  then show ?thesis
    using assms(1,2) unat_len64 [OF assms(2)]
    by (auto simp: short_form_def bind_res_eq_Inr word_less_nat_alt not_less split: if_splits)
qed

lemma array_of_bytes_snoc_unat:
  assumes "unat (array_of_bytes bs :: u64) < 256 ^ 7"
  shows "unat (array_of_bytes (bs @ [b]) :: u64) = unat (array_of_bytes bs :: u64) * 256 + unat b"
proof -
  let ?w = "array_of_bytes bs :: u64"
  have byte: "unat b < 256" using unsigned_less [of b, where ?'a = nat] by simp
  have fits: "unat ?w * 256 + 255 < 2 ^ 64" using assms by simp
  have "push_bit 8 ?w AND ucast b = 0"
    by (rule bit_word_eqI) (auto simp: bit_simps dest: bit_imp_le_length)
  then have "array_of_bytes (bs @ [b]) = push_bit 8 ?w + ucast b"
    by (simp only: array_of_bytes_snoc disjunctive_add_eq_or)
  moreover have "unat (ucast b :: u64) = unat b" by (rule unat_ucast_up) simp
  moreover have "unat (push_bit 8 ?w) = unat ?w * 256"
    using fits by (subst unsigned_push_bit_eq) (simp add: push_bit_eq_mult take_bit_eq_mod)
  ultimately show ?thesis using byte fits by (simp add: unat_word_ariths)
qed

lemma array_of_bytes_bound: "length bs \<le> 8 \<Longrightarrow> unat (array_of_bytes bs :: u64) < 256 ^ length bs"
proof (induction bs rule: rev_induct)
  case (snoc b bs)
  have small: "unat (array_of_bytes bs :: u64) < 256 ^ length bs" by (rule snoc.IH) (use snoc.prems in auto)
  have "(256 :: nat) ^ length bs \<le> 256 ^ 7" using snoc.prems by (intro power_increasing) auto
  then have "unat (array_of_bytes (bs @ [b]) :: u64) = unat (array_of_bytes bs :: u64) * 256 + unat b"
    using small by (intro array_of_bytes_snoc_unat) simp
  moreover have "unat b < 256" using unsigned_less [of b, where ?'a = nat] by simp
  ultimately show ?case using small by simp
qed (simp add: array_of_bytes_def)

lemma base_256:
  fixes a b c d :: nat
  assumes "a * 256 + b = c * 256 + d" "b < 256" "d < 256"
  shows "a = c \<and> b = d"
proof -
  have "(a * 256 + b) div 256 = a" "(c * 256 + d) div 256 = c" using assms(2,3) by simp_all
  then show ?thesis using assms(1) by simp
qed

lemma array_of_bytes_inj:
  "length bs = length cs \<Longrightarrow> length cs \<le> 8 \<Longrightarrow> array_of_bytes bs = (array_of_bytes cs :: u64) \<Longrightarrow> bs = cs"
proof (induction bs arbitrary: cs rule: rev_induct)
  case (snoc b bs)
  obtain c ds where cs: "cs = ds @ [c]" using snoc.prems(1) by (cases cs rule: rev_cases) auto
  have len: "length bs \<le> 7" "length ds = length bs" using snoc.prems cs by auto
  have small: "unat (array_of_bytes xs :: u64) < 256 ^ 7" if "length xs = length bs" for xs
  proof -
    have "(256 :: nat) ^ length xs \<le> 256 ^ 7" using that len(1) by (intro power_increasing) auto
    then show ?thesis using array_of_bytes_bound [of xs] that len(1) by linarith
  qed
  have "unat (array_of_bytes (bs @ [b]) :: u64) = unat (array_of_bytes (ds @ [c]) :: u64)"
    using snoc.prems(3) by (simp only: cs)
  then have "unat (array_of_bytes bs :: u64) * 256 + unat b = unat (array_of_bytes ds :: u64) * 256 + unat c"
    by (simp only: array_of_bytes_snoc_unat [OF small [OF refl]] array_of_bytes_snoc_unat [OF small [OF len(2)]])
  moreover have "unat b < 256" "unat c < 256"
    using unsigned_less [of b, where ?'a = nat] unsigned_less [of c, where ?'a = nat] by simp_all
  ultimately have "unat (array_of_bytes bs :: u64) = unat (array_of_bytes ds :: u64) \<and> unat b = unat c"
    by (rule base_256)
  then have "b = c" "array_of_bytes bs = (array_of_bytes ds :: u64)" by (simp_all only: word_unat_eq_iff)
  moreover have "bs = ds" by (rule snoc.IH) (use len calculation in auto)
  ultimately show ?case by (simp only: cs)
qed simp

text \<open>The nine bytes of a list whose announced end wraps around to its own start.\<close>

definition wrapping_item :: "u8 list" where
  "wrapping_item = [0xff, 0xff, 0xff, 0xff, 0xff, 0xff, 0xff, 0xff, 0xf7]"

lemma long_form_bounds:
  assumes "long_form e1 e2 b data ll = Inr (item, n)" "length data < 2 ^ 64" "1 \<le> unat ll" "unat ll \<le> 8"
    and "b \<Longrightarrow> unat ll = 8 \<Longrightarrow> take 8 (drop 1 data) \<noteq> drop 1 wrapping_item"
  shows "1 \<le> unat n \<and> unat n \<le> length data"
proof -
  have one: "unat (1 + ll) = 1 + unat ll" using assms(4) by (simp add: unat_word_ariths)
  obtain len_bytes where bytes: "slice_range data 1 (1 + ll) = Inr len_bytes"
    and n: "n = 1 + ll + be_to_usize len_bytes" "\<not> len64 data < n"
    and slice: "\<exists>ys. slice_range data (if b then 0 else 1 + ll) n = Inr ys"
    using assms(1) by (auto simp: long_form_def Let_def bind_res_eq_Inr split: if_splits)
  have upper: "unat n \<le> length data"
    using n(2) unat_len64 [OF assms(2)] by (simp add: word_less_nat_alt not_less)
  have len_bytes: "len_bytes = take (unat ll) (drop 1 data)" "length len_bytes = unat ll"
    using bytes one by (auto simp: slice_range_Inr [OF assms(2)])
  have "n \<noteq> 0"
  proof (cases b)
    case True
    show ?thesis
    proof (cases "unat ll = 8")
      case eight: True
      then have "ll = 8" by (simp add: word_unat_eq_iff)
      have "be_to_usize len_bytes \<noteq> be_to_usize (drop 1 wrapping_item)"
        using array_of_bytes_inj [of len_bytes "drop 1 wrapping_item"] assms(5) [OF True eight] len_bytes eight
        by (auto simp: be_to_usize_def wrapping_item_def)
      moreover have "be_to_usize (drop 1 wrapping_item) = - 9" by code_simp
      ultimately show ?thesis using \<open>ll = 8\<close> n(1) by (auto simp: add_eq_0_iff)
    next
      case False
      then have small: "unat ll \<le> 7" using assms(4) by simp
      then have "unat (be_to_usize len_bytes) < 256 ^ unat ll"
        using array_of_bytes_bound [of len_bytes] len_bytes(2) by (simp add: be_to_usize_def)
      moreover have "(256 :: nat) ^ unat ll \<le> 256 ^ 7" using small by (intro power_increasing) auto
      ultimately have "unat n = 1 + unat ll + unat (be_to_usize len_bytes)"
        using one assms(4) by (simp add: n(1) unat_word_ariths)
      then show ?thesis by auto
    qed
  next
    case False
    then have "unat (1 + ll) \<le> unat n" using slice by (auto simp: slice_range_Inr [OF assms(2)])
    then show ?thesis using one by auto
  qed
  then show ?thesis using upper by (simp add: unat_gt_0 Suc_le_eq)
qed

lemma next_item_bounds:
  assumes "rlp_next_item data = Inr (item, n)" "length data < 2 ^ 64" "\<not> sublist wrapping_item data"
  shows "1 \<le> unat n \<and> unat n \<le> length data"
proof -
  obtain p rest where data: "data = p # rest" using assms(1) by (cases data) (auto simp: rlp_next_item_def)
  have up: "unat (ucast (p - q) :: u64) = unat (p - q)" for q by (rule unat_ucast_up) simp
  have sub: "unat (p - q) = unat p - unat q" if "q \<le> p" for q using that by (simp add: unat_sub)
  have byte: "unat p < 256" using unsigned_less [of p, where ?'a = nat] by simp
  consider "p < 0x80" | "0x80 \<le> p" "p \<le> 0xb7" | "0xb7 < p" "p \<le> 0xbf" | "0xbf < p" "p \<le> 0xf7" | "0xf7 < p"
    by fastforce
  then show ?thesis
  proof cases
    case 1
    then show ?thesis using assms(1) data by (auto simp: rlp_next_item_def)
  next
    case 2
    have "\<not> p < 0x80" using 2 by (auto simp: word_less_nat_alt word_le_nat_alt)
    then show ?thesis
      using 2 assms(1,2) short_form_bounds [of _ False data "ucast (p - 0x80)" item n] up [of "0x80"] byte
        unsigned_less [of "p - 0x80", where ?'a = nat]
      by (auto simp: rlp_next_item_def data)
  next
    case 3
    then have "1 \<le> unat (ucast (p - 0xb7) :: u64)" "unat (ucast (p - 0xb7) :: u64) \<le> 8"
      using up [of "0xb7"] sub [of "0xb7"] by (auto simp: word_less_nat_alt word_le_nat_alt)
    moreover have "\<not> p < 0x80" "\<not> p \<le> 0xb7" using 3 by (auto simp: word_less_nat_alt word_le_nat_alt)
    ultimately show ?thesis
      using assms(1,2) 3 long_form_bounds [of _ _ False data "ucast (p - 0xb7)" item n]
      by (auto simp: rlp_next_item_def data)
  next
    case 4
    have "\<not> p < 0x80" "\<not> p \<le> 0xb7" "\<not> p \<le> 0xbf" using 4 by (auto simp: word_less_nat_alt word_le_nat_alt)
    then show ?thesis
      using 4 assms(1,2) short_form_bounds [of _ True data "ucast (p - 0xc0)" item n] up [of "0xc0"] byte
        unsigned_less [of "p - 0xc0", where ?'a = nat]
      by (auto simp: rlp_next_item_def data)
  next
    case 5
    then have ll: "unat (ucast (p - 0xf7) :: u64) = unat p - 0xf7"
      using up [of "0xf7"] sub [of "0xf7"] by (auto simp: word_less_nat_alt word_le_nat_alt)
    have "take 8 (drop 1 data) \<noteq> drop 1 wrapping_item" if "unat (ucast (p - 0xf7) :: u64) = 8"
    proof
      assume found: "take 8 (drop 1 data) = drop 1 wrapping_item"
      have "unat p = 255" using that ll by simp
      then have "p = 0xff" by (simp add: word_unat_eq_iff)
      then have "data = wrapping_item @ drop 8 rest"
        using found append_take_drop_id [of 8 rest] by (simp add: data wrapping_item_def)
      then show False using assms(3) by (metis sublist_appendI append_Nil)
    qed
    moreover have "\<not> p < 0x80" "\<not> p \<le> 0xb7" "\<not> p \<le> 0xbf" "\<not> p \<le> 0xf7"
      using 5 by (auto simp: word_less_nat_alt word_le_nat_alt)
    moreover have "1 \<le> unat (ucast (p - 0xf7) :: u64)" "unat (ucast (p - 0xf7) :: u64) \<le> 8"
      using ll byte 5 by (auto simp: word_less_nat_alt)
    ultimately show ?thesis
      using assms(1,2) long_form_bounds [of _ _ True data "ucast (p - 0xf7)" item n]
      by (auto simp: rlp_next_item_def data)
  qed
qed

lemma items_terminate:
  assumes "length payload < 2 ^ 64" "\<not> sublist wrapping_item payload"
  shows "\<exists>r. rlp_items payload pos acc = Some r"
proof (induction "length payload - unat pos" arbitrary: pos acc rule: less_induct)
  case less
  show ?case
  proof (cases "len64 payload \<le> pos")
    case True
    then show ?thesis by (subst rlp_items.simps) simp
  next
    case False
    then have pos: "unat pos < length payload" using assms(1) by (simp add: word_le_nat_alt)
    let ?rest = "drop (unat pos) payload"
    have slice: "slice_range payload pos (len64 payload) = Inr ?rest"
      using pos assms(1) by (simp add: slice_range_Inr)
    show ?thesis
    proof (cases "rlp_next_item ?rest")
      case (Inl e)
      then show ?thesis using False slice by (subst rlp_items.simps) simp
    next
      case (Inr p)
      obtain item n where p: "p = (item, n)" by (cases p)
      have "\<not> sublist wrapping_item ?rest"
        using assms(2) sublist_drop sublist_order.order_trans by blast
      then have "1 \<le> unat n \<and> unat n \<le> length ?rest"
        by (intro next_item_bounds [OF Inr [unfolded p]]) (use assms(1) in auto)
      then have "unat (pos + n) = unat pos + unat n" "1 \<le> unat n" using assms(1) pos by (auto simp: unat_word_ariths)
      then have "length payload - unat (pos + n) < length payload - unat pos" using pos by linarith
      then obtain r where "rlp_items payload (pos + n) (acc @ [item]) = Some r" using less.hyps by blast
      then show ?thesis using False slice Inr p by (subst rlp_items.simps) simp
    qed
  qed
qed

lemma next_of_wrapping: "rlp_next_item wrapping_item = Inr ([], 0)"
  by code_simp

lemma items_of_wrapping: "rlp_items wrapping_item 0 acc = None"
proof -
  have "\<not> (payload = wrapping_item \<and> pos = 0)" if "rlp_items payload pos items = Some r" for payload pos items r
  proof (rule rlp_items.raw_induct [OF _ that])
    fix rec :: "u8 list \<Rightarrow> u64 \<Rightarrow> u8 list list \<Rightarrow> (u8 list list eth_result) option"
      and payload pos items r
    assume IH: "\<And>payload pos items r. rec payload pos items = Some r \<Longrightarrow> \<not> (payload = wrapping_item \<and> pos = 0)"
    assume body: "(if len64 payload \<le> pos then Some (Inr items)
      else case bind_res (slice_range payload pos (len64 payload)) rlp_next_item of
        Inl e \<Rightarrow> Some (Inl e) | Inr p \<Rightarrow> rec payload (pos + snd p) (items @ [fst p])) = Some r"
    show "\<not> (payload = wrapping_item \<and> pos = 0)"
    proof
      assume start: "payload = wrapping_item \<and> pos = 0"
      have "slice_range wrapping_item 0 (len64 wrapping_item) = Inr wrapping_item" by code_simp
      moreover have "\<not> len64 wrapping_item \<le> 0" by code_simp
      ultimately have "rec wrapping_item 0 (items @ [[]]) = Some r"
        using body start next_of_wrapping by simp
      then show False using IH by blast
    qed
  qed
  then show ?thesis by (cases "rlp_items wrapping_item 0 acc") auto
qed

section \<open>The properties\<close>

text \<open>C32: decoding an encoded list returns its items, whatever they are, as long as the encoding has fewer
  than 2^64 bytes: short and long strings, single bytes and empty items all come back.\<close>

theorem rlp_round_trip:
  assumes "length (rlp_encode_list items) < 2 ^ 64"
  shows "rlp_decode_list (rlp_encode_list items) = Some (Inr items)"
  by (rule decode_encoded_list [OF assms])

lemma rlp_round_trip_witness: "rlp_decode_list (rlp_encode_list [[1], [], [200, 3]]) = Some (Inr [[1], [], [200, 3]])"
  by (rule rlp_round_trip) (simp add: rlp_encode_list_def rlp_encode_bytes_def rlp_encode_list_header_def)

lemma payload_sublist:
  assumes "rlp_list_payload data = Inr (payload, n)" "length data < 2 ^ 64"
  shows "sublist payload data"
proof -
  have "sublist ys data" if "slice_range data a b = Inr ys" for a b ys
    using that slice_range_Inr [OF assms(2)] sublist_take sublist_drop sublist_order.order_trans by metis
  then show ?thesis
    using assms(1)
    by (auto simp: rlp_list_payload_def long_form_def short_form_def Let_def bind_res_eq_Inr
        split: list.splits if_splits)
qed

text \<open>The decoder of RLP lists returns, with the items, an error or a panic, on every input of fewer than
  2^64 bytes in which the nine bytes \<open>ff ff ff ff ff ff ff ff f7\<close> do not occur.\<close>

theorem rlp_decode_terminates:
  assumes "length data < 2 ^ 64" "\<not> sublist wrapping_item data"
  shows "rlp_decode_list data \<noteq> None"
proof (cases "rlp_list_payload data")
  case (Inl e)
  then show ?thesis by (simp add: rlp_decode_list_def)
next
  case (Inr p)
  obtain payload n where p: "p = (payload, n)" by (cases p)
  have sub: "sublist payload data" by (rule payload_sublist [OF Inr [unfolded p] assms(1)])
  have "length payload < 2 ^ 64" using sublist_length_le [OF sub] assms(1) by simp
  moreover have "\<not> sublist wrapping_item payload" using sub assms(2) sublist_order.order_trans by blast
  ultimately have "\<exists>r. rlp_items payload 0 [] = Some r" by (rule items_terminate)
  then show ?thesis using Inr p by (auto simp: rlp_decode_list_def)
qed

lemma rlp_decode_terminates_witness: "rlp_decode_list [0xc3, 0xff, 0xff, 0xf7] \<noteq> None"
  by (rule rlp_decode_terminates) (simp, code_simp)

text \<open>C31: a raw transaction of ten bytes, \<open>c9 ff ff ff ff ff ff ff ff f7\<close>, is never answered: the length of
  its only item wraps the end of the item around to zero, no byte is consumed and the loop goes on pushing empty
  items for ever.\<close>

theorem wrapping_transaction_never_returns:
  assumes "from_hex (strip_0x raw_hex) = Some (0xc9 # wrapping_item)"
  shows "execute_raw_ethereum_tx E S R K from_hex x store raw_hex = None"
proof -
  have "rlp_list_payload (0xc9 # wrapping_item) = Inr (wrapping_item, 10)" by code_simp
  then have "rlp_decode_list (0xc9 # wrapping_item) = None"
    using items_of_wrapping [of "[]"] by (simp add: rlp_decode_list_def)
  then show ?thesis
    using assms by (simp add: execute_raw_ethereum_tx_def decode_raw_tx_def decode_legacy_def Let_def)
qed

text \<open>A library that accepts 64 bytes as a signature and recovers a fixed point, for the witnesses.\<close>

definition sample_k256 :: k256 where
  "sample_k256 = \<lparr>kc_signature_ok = (\<lambda>bs. length bs = 64), kc_recovery_id_ok = (\<lambda>v. v < 4),
     kc_recover = (\<lambda>_ _ v. Some (replicate 65 v))\<rparr>"

lemma wrapping_transaction_never_returns_witness:
  "execute_raw_ethereum_tx sample_ext sample_scheme sample_revm sample_k256 (\<lambda>_. Some (0xc9 # wrapping_item))
     \<lparr>ex_evm_chain_id = 1\<rparr> memory_store_default ''0xc9'' = None"
  by (rule wrapping_transaction_never_returns) simp

text \<open>What a wallet signs of an EIP-1559 transaction: the access list, whose item is the raw encoding
  of a list, stands in the payload as it is.\<close>

definition eip1559_signed_by_wallets :: "u8 list list \<Rightarrow> u8 list" where
  "eip1559_signed_by_wallets items =
    (let payload = concat (map rlp_encode_bytes (take 8 items)) @ items ! 8 in
     0x02 # rlp_encode_list_header (length payload) @ payload)"

lemma nth_9: "9 \<le> length items \<Longrightarrow> map (\<lambda>i. items ! i) [0..<9] = take 8 items @ [items ! 8]"
  by (rule nth_equalityI) (auto simp: nth_append numeral_eq_Suc less_Suc_eq)

lemma usize_digits_mono: "v \<le> w \<Longrightarrow> length (usize_digits v) \<le> length (usize_digits w)"
proof (induction v arbitrary: w rule: usize_digits.induct)
  case (1 v)
  show ?case
  proof (cases "v = 0")
    case False
    then have "w \<noteq> 0" using "1.prems" by auto
    have "unat (drop_bit 8 u) = unat u div 256" for u :: u64
      by (subst unat_drop_bit_eq) (simp add: drop_bit_eq_div)
    then have "drop_bit 8 v \<le> drop_bit 8 w" using "1.prems" by (simp add: word_le_nat_alt div_le_mono)
    then have "length (usize_digits (drop_bit 8 v)) \<le> length (usize_digits (drop_bit 8 w))"
      using "1.IH" False by blast
    then show ?thesis using False \<open>w \<noteq> 0\<close> by (subst usize_digits.simps, subst (2) usize_digits.simps) simp
  qed simp
qed

lemma header_mono:
  assumes "n < 2 ^ 64 - 1"
  shows "length (rlp_encode_list_header n) \<le> length (rlp_encode_list_header (Suc n))"
proof -
  have "word_of_nat n \<le> (word_of_nat (Suc n) :: u64)"
    using assms by (simp add: word_le_nat_alt unat_of_nat del: of_nat_Suc)
  from usize_digits_mono [OF this] show ?thesis
    using length_usize_to_be [of "word_of_nat (Suc n)"] length_usize_to_be [of "word_of_nat n"]
    by (auto simp: rlp_encode_list_header_def usize_to_be_def Let_def simp del: of_nat_Suc split: if_splits)
qed

lemma rlp_encode_empty_list: "rlp_encode_bytes [0xc0] = [0x81, 0xc0]"
  by (simp add: rlp_encode_bytes_def)

text \<open>The decoder of an EIP-1559 transaction with the empty access list, as wallets send it, recovers
  the sender from another payload than the one the wallet signed: the access list is encoded again as a string.\<close>

theorem eip1559_access_list_not_signed:
  assumes "length items = 12" "items ! 8 = [0xc0]" "length (eip1559_signed_by_wallets items) < 2 ^ 64 - 1"
  shows "eip1559_signing_input items \<noteq> eip1559_signed_by_wallets items"
proof -
  let ?p = "concat (map rlp_encode_bytes (take 8 items))"
  have "eip1559_signing_input items = 0x02 # rlp_encode_list_header (Suc (length (?p @ [0xc0]))) @ ?p @ [0x81, 0xc0]"
    using assms(1,2) by (simp add: eip1559_signing_input_def rlp_encode_list_def Let_def nth_9 rlp_encode_empty_list)
  moreover have "eip1559_signed_by_wallets items = 0x02 # rlp_encode_list_header (length (?p @ [0xc0])) @ ?p @ [0xc0]"
    using assms(2) by (simp add: eip1559_signed_by_wallets_def Let_def)
  moreover have "length (rlp_encode_list_header (length (?p @ [0xc0])))
      \<le> length (rlp_encode_list_header (Suc (length (?p @ [0xc0]))))"
    by (rule header_mono) (use assms(2,3) in \<open>simp add: eip1559_signed_by_wallets_def Let_def\<close>)
  ultimately have "length (eip1559_signed_by_wallets items) < length (eip1559_signing_input items)" by simp
  then show ?thesis by auto
qed

lemma eip1559_access_list_not_signed_witness:
  "eip1559_signing_input (replicate 8 [] @ [[0xc0], [], [], []])
    \<noteq> eip1559_signed_by_wallets (replicate 8 [] @ [[0xc0], [], [], []])"
  by (rule eip1559_access_list_not_signed)
    (simp_all add: nth_append eip1559_signed_by_wallets_def rlp_encode_bytes_def rlp_encode_list_header_def)

lemma array_of_bytes_dropWhile: "array_of_bytes (dropWhile (\<lambda>b. b = 0) bs) = (array_of_bytes bs :: u64)"
  by (induction bs) (simp_all add: array_of_bytes_def)

lemma rlp_u64_inverse [simp]: "rlp_to_u64 (rlp_from_u64 v) = v"
proof (cases "v = 0")
  case True
  then show ?thesis by (simp add: rlp_to_u64_def rlp_from_u64_def array_of_bytes_def)
next
  case False
  then show ?thesis
    using array_of_array_bytes [of 8 v] by (simp add: rlp_to_u64_def rlp_from_u64_def array_of_bytes_dropWhile)
qed

lemma header_lead:
  "\<exists>lead rest. rlp_encode_list items = lead # rest \<and> lead \<noteq> 0x02"
proof -
  let ?n = "length (concat (map rlp_encode_bytes items))"
  show ?thesis
  proof (cases "?n \<le> 55")
    case True
    define x :: u8 where "x = 0xc0 + word_of_nat ?n"
    have "unat x = 0xc0 + ?n" using prefix_word(1) [OF True, of "0xc0"] by (simp add: x_def)
    then have "x \<noteq> 2" by auto
    then show ?thesis using True unfolding x_def by (simp add: rlp_encode_list_def rlp_encode_list_header_def Let_def)
  next
    case False
    define lb where "lb = usize_to_be (word_of_nat ?n)"
    have "1 \<le> length lb" "length lb \<le> 8" using length_usize_to_be [of "word_of_nat ?n"] by (simp_all add: lb_def)
    define x :: u8 where "x = 0xf7 + word_of_nat (length lb)"
    have "unat x = 0xf7 + length lb"
      using long_prefix_word(1) [of "length lb" "0xf7"] \<open>1 \<le> length lb\<close> \<open>length lb \<le> 8\<close> by (simp add: x_def)
    then have "x \<noteq> 2" by auto
    then show ?thesis using False unfolding x_def by (simp add: rlp_encode_list_def rlp_encode_list_header_def Let_def lb_def)
  qed
qed

lemma eip155_v:
  fixes chain parity :: u64
  assumes "parity < 2" "chain < 2 ^ 62"
  shows "35 \<le> 35 + 2 * chain + parity" "(2 * chain + parity) div 2 = chain"
proof -
  have p: "unat parity < 2" and c: "unat chain < 2 ^ 62"
    using assms by (simp_all add: word_less_nat_alt)
  then have "unat (35 + 2 * chain + parity) = 35 + 2 * unat chain + unat parity"
    "unat (2 * chain + parity) = 2 * unat chain + unat parity"
    by (simp_all add: unat_word_ariths)
  then show "35 \<le> 35 + 2 * chain + parity" "(2 * chain + parity) div 2 = chain"
    using p by (simp_all add: word_le_nat_alt word_unat_eq_iff unat_div)
qed

text \<open>A legacy transaction signed for a chain decodes to the fields that were encoded: \<open>v\<close> gives the
  chain and the recovery id back, and the sender is recovered from the payload of EIP-155 for that chain.\<close>

theorem legacy_transaction_decodes:
  assumes raw: "from_hex (strip_0x raw_hex) = Some (rlp_encode_list [rlp_from_u64 nonce, price, rlp_from_u64 gas,
      target, amount, call_data, rlp_from_u64 (35 + 2 * chain + parity), r, s])" (is "_ = Some ?raw")
    and small: "length (rlp_encode_list [rlp_from_u64 nonce, price, rlp_from_u64 gas,
      target, amount, call_data, rlp_from_u64 (35 + 2 * chain + parity), r, s]) < 2 ^ 64"
      "parity < 2" "chain < 2 ^ 62"
  shows "decode_raw_tx E K from_hex raw_hex = Some (bind_res
    (recover_sender E K (keccak_256 E (rlp_encode_list [rlp_from_u64 nonce, price, rlp_from_u64 gas, target, amount,
      call_data, rlp_from_u64 chain, [], []])) r s (ucast parity)) (\<lambda>sender.
    Inr \<lparr>de_sender = sender, de_nonce = nonce, de_gas_price = rlp_to_u128 price, de_gas_limit = gas,
      de_to = rlp_to_address target, de_value = rlp_to_u128 amount, de_data = call_data, de_chain_id = chain,
      de_tx_hash = keccak_256 E (rlp_encode_list [rlp_from_u64 nonce, price, rlp_from_u64 gas, target, amount,
        call_data, rlp_from_u64 (35 + 2 * chain + parity), r, s])\<rparr>))"
proof -
  obtain lead rest where lead: "?raw = lead # rest" "lead \<noteq> 0x02" using header_lead by metis
  have "decode_raw_tx E K from_hex raw_hex = decode_legacy E K ?raw (keccak_256 E ?raw)"
    using raw lead(2) unfolding lead(1) by (simp add: decode_raw_tx_def Let_def)
  also have "\<dots> = Some (legacy_fields E K (keccak_256 E ?raw) [rlp_from_u64 nonce, price, rlp_from_u64 gas, target,
      amount, call_data, rlp_from_u64 (35 + 2 * chain + parity), r, s])"
    by (simp only: decode_legacy_def decode_encoded_list [OF small(1)]) simp
  finally show ?thesis using eip155_v [OF small(2,3)] by (simp add: legacy_fields_def Let_def algebra_simps)
qed

lemma legacy_transaction_decodes_witness:
  "\<exists>d. decode_raw_tx sample_ext sample_k256 (\<lambda>_. Some (rlp_encode_list [rlp_from_u64 4, [9], rlp_from_u64 100,
      [], [5], [1, 2], rlp_from_u64 (35 + 2 * 7 + 1), [8], [6]])) ''0xf8'' = Some (Inr d)
    \<and> de_nonce d = 4 \<and> de_chain_id d = 7 \<and> de_to d = None"
proof -
  have short: "length (rlp_from_u64 v) \<le> 8" for v
    using length_dropWhile_le [of "\<lambda>b. b = 0" "array_bytes 8 v"] by (simp add: rlp_from_u64_def)
  have encoded: "length (rlp_encode_bytes bs) \<le> 9" if "length bs \<le> 8" for bs
    using that by (auto simp: rlp_encode_bytes_def split: list.splits)
  have size: "length (rlp_encode_list [rlp_from_u64 4, [9], rlp_from_u64 100, [], [5], [1, 2],
      rlp_from_u64 (35 + 2 * 7 + 1), [8], [6]]) < 2 ^ 64"
  proof -
    have header: "length (rlp_encode_list_header n) \<le> 9" for n
      using length_usize_to_be [of "word_of_nat n"] by (simp add: rlp_encode_list_header_def Let_def)
    have total: "length (rlp_encode_list items) \<le> 9 + 9 * length items" if "\<forall>bs \<in> set items. length bs \<le> 8" for items
    proof -
      have "length (concat (map rlp_encode_bytes items)) \<le> 9 * length items"
        using that by (induction items) (auto dest: encoded)
      then show ?thesis
        using header [of "length (concat (map rlp_encode_bytes items))"] by (simp add: rlp_encode_list_def Let_def)
    qed
    show ?thesis by (rule le_less_trans [OF total]) (simp_all add: short)
  qed
  show ?thesis
    by (subst legacy_transaction_decodes [OF refl size])
      (simp_all add: recover_sender_def sample_k256_def left_pad_32_def rlp_to_address_def)
qed

end
