(* ===== verification/Zeno_Network.thy ===== *)
theory Zeno_Network
  imports Zeno_Hash "HOL-Library.Char_ord" "HOL-Library.List_Lexorder"
begin

text \<open>
  The peer-to-peer service of \<open>zeno-network/src/lib.rs\<close>: the peer table with its reputation scores
  and bans, the filter of repeated messages, the task of one connection and the task that fans
  messages out. Sockets and channels are the events of a step relation: a step is what a task does
  between two waits. Scores are \<open>i64\<close> values kept as integers; \<open>network_reachable\<close> shows that they
  stay within a few hundred. Log lines are left out.
\<close>

section \<open>Peers\<close>

definition SCORE_INITIAL :: int where "SCORE_INITIAL = 10"
definition SCORE_VALID_MESSAGE :: int where "SCORE_VALID_MESSAGE = 1"
definition SCORE_DUPLICATE_MESSAGE :: int where "SCORE_DUPLICATE_MESSAGE = - 2"
definition SCORE_INVALID_MESSAGE :: int where "SCORE_INVALID_MESSAGE = - 10"
definition SCORE_USEFUL_BLOCK :: int where "SCORE_USEFUL_BLOCK = 5"
definition SCORE_BAN_THRESHOLD :: int where "SCORE_BAN_THRESHOLD = - 50"
definition SCORE_MAX :: int where "SCORE_MAX = 100"
definition MAX_INBOUND_CONNECTIONS :: nat where "MAX_INBOUND_CONNECTIONS = 50"
definition BAN_DURATION_MS :: u64 where "BAN_DURATION_MS = 300000"

lemmas score_constants = SCORE_INITIAL_def SCORE_VALID_MESSAGE_def SCORE_DUPLICATE_MESSAGE_def
  SCORE_USEFUL_BLOCK_def SCORE_BAN_THRESHOLD_def SCORE_MAX_def

record peer_state =
  ps_score :: int
  ps_best_height :: u64
  ps_connected_at :: u64
  ps_last_message_at :: u64
  ps_messages_received :: u64
  ps_is_outbound :: bool
  ps_banned_until :: "u64 option"
  ps_node_id :: string

type_synonym peer_table = "(string, peer_state) btree_map"

record network_event =
  ne_peer :: string
  ne_message :: network_message

text \<open>\<open>get_mut\<close> of one peer.\<close>

definition update_peer :: "string \<Rightarrow> (peer_state \<Rightarrow> peer_state) \<Rightarrow> peer_table \<Rightarrow> peer_table" where
  "update_peer peer f peers =
    (case map_of peers peer of Some state \<Rightarrow> bt_insert peer (f state) peers | None \<Rightarrow> peers)"

definition ban_active :: "u64 \<Rightarrow> peer_state \<Rightarrow> bool" where
  "ban_active now state = (case ps_banned_until state of Some t \<Rightarrow> now < t | None \<Rightarrow> False)"

definition ban_peer :: "string \<Rightarrow> u64 \<Rightarrow> u64 \<Rightarrow> peer_table \<Rightarrow> peer_table" where
  "ban_peer peer duration now = update_peer peer (\<lambda>state. state
     \<lparr>ps_banned_until := Some (saturating_add now duration), ps_score := SCORE_BAN_THRESHOLD\<rparr>)"

definition is_banned :: "string \<Rightarrow> u64 \<Rightarrow> peer_table \<Rightarrow> bool" where
  "is_banned peer now peers = (case map_of peers peer of Some state \<Rightarrow> ban_active now state | None \<Rightarrow> False)"

definition peer_names :: "peer_table \<Rightarrow> string list" where
  "peer_names peers = bt_keys peers"

definition peer_scores :: "peer_table \<Rightarrow> (string, int) btree_map" where
  "peer_scores peers = map (\<lambda>(peer, state). (peer, ps_score state)) peers"

definition peer_count :: "peer_table \<Rightarrow> nat" where
  "peer_count peers = length peers"

section \<open>The filter of repeated messages\<close>

record recent_messages =
  rm_seen :: "hash32 set"
  rm_order :: "hash32 list"

definition MAX_RECENT :: nat where "MAX_RECENT = 2048"

fun trim_recent :: "hash32 set \<Rightarrow> hash32 list \<Rightarrow> hash32 set \<times> hash32 list" where
  "trim_recent seen [] = (seen, [])"
| "trim_recent seen (oldest # order) =
    (if MAX_RECENT < length (oldest # order) then trim_recent (seen - {oldest}) order else (seen, oldest # order))"

definition recent_default :: recent_messages where
  "recent_default = \<lparr>rm_seen = {}, rm_order = []\<rparr>"

definition remember :: "hash32 \<Rightarrow> recent_messages \<Rightarrow> bool \<times> recent_messages" where
  "remember h r =
    (if h \<in> rm_seen r then (False, r)
     else case trim_recent (insert h (rm_seen r)) (rm_order r @ [h]) of
       (seen, order) \<Rightarrow> (True, \<lparr>rm_seen = seen, rm_order = order\<rparr>))"

definition message_id :: "ext \<Rightarrow> network_message \<Rightarrow> hash32 option" where
  "message_id E m = map_option (hash_bytes E) (bin_message E m)"

section \<open>One connection\<close>

text \<open>What a connection is started with; \<open>nv_decode\<close> is \<open>bincode\<close> on messages.\<close>

record net_env =
  nv_ext :: ext
  nv_decode :: "u8 list \<Rightarrow> network_message option"
  nv_chain_id :: chain_id

definition inbound_count :: "peer_table \<Rightarrow> nat" where
  "inbound_count peers = length (filter (\<lambda>state. \<not> ps_is_outbound state) (bt_values peers))"

definition new_peer :: "bool \<Rightarrow> u64 \<Rightarrow> handshake \<Rightarrow> peer_state" where
  "new_peer inbound_only now payload =
    \<lparr>ps_score = SCORE_INITIAL, ps_best_height = hs_best_height payload, ps_connected_at = now,
     ps_last_message_at = now, ps_messages_received = 0, ps_is_outbound = (\<not> inbound_only),
     ps_banned_until = None, ps_node_id = hs_node_id payload\<rparr>"

definition accept_handshake ::
  "net_env \<Rightarrow> bool \<Rightarrow> string \<Rightarrow> u64 \<Rightarrow> network_message \<Rightarrow> peer_table \<Rightarrow> string + peer_table" where
  "accept_handshake V inbound_only peer now remote peers =
    (if inbound_only \<and> MAX_INBOUND_CONNECTIONS \<le> inbound_count peers then Inl ''inbound connection limit reached''
     else case remote of
       HandshakeMsg payload \<Rightarrow>
         if hs_chain_id payload = nv_chain_id V then
           if \<exists>state \<in> set (bt_values peers). ps_node_id state = hs_node_id payload \<and> ban_active now state
           then Inl ''node is banned''
           else Inr (bt_insert peer (new_peer inbound_only now payload) peers)
         else Inl ''chain id mismatch''
     | _ \<Rightarrow> Inl ''expected handshake'')"

definition note_message :: "u64 \<Rightarrow> network_message \<Rightarrow> peer_state \<Rightarrow> peer_state" where
  "note_message now m state =
    (let state = state\<lparr>ps_last_message_at := now, ps_messages_received := ps_messages_received state + 1\<rparr> in
     case m of
       StatusMsg status \<Rightarrow> state\<lparr>ps_best_height := max (ps_best_height state) (ct_latest_height status)\<rparr>
     | CommitMsg finalized \<Rightarrow>
         let new_height = bh_height (bk_header (fb_block finalized)) in
         if ps_best_height state < new_height
         then state\<lparr>ps_best_height := new_height, ps_score := min (ps_score state + SCORE_USEFUL_BLOCK) SCORE_MAX\<rparr>
         else state
     | _ \<Rightarrow> state)"

text \<open>\<open>Ended\<close> leaves the loop and removes the peer; \<open>Failed\<close> is an early return with the question-mark
  operator, which skips the removal.\<close>

datatype link_state = Running | Ended | Failed string

definition handle_frame ::
  "net_env \<Rightarrow> string \<Rightarrow> u64 \<Rightarrow> string + u8 list \<Rightarrow> peer_table \<Rightarrow> recent_messages \<Rightarrow>
   (peer_table \<times> recent_messages \<times> network_event list) \<times> link_state" where
  "handle_frame V peer now frame peers recent =
    (case frame of
       Inl err \<Rightarrow> ((peers, recent, []), Failed err)
     | Inr bytes \<Rightarrow>
        (case nv_decode V bytes of
           None \<Rightarrow> ((peers, recent, []), Failed ''decode'')
         | Some m \<Rightarrow>
            let peers = update_peer peer (note_message now m) peers in
            (case message_id (nv_ext V) m of
               None \<Rightarrow> ((peers, recent, []), Failed ''encode'')
             | Some h \<Rightarrow>
                let (is_new, recent) = remember h recent;
                    peers = (if is_new
                      then update_peer peer (\<lambda>s. s\<lparr>ps_score := min (ps_score s + SCORE_VALID_MESSAGE) SCORE_MAX\<rparr>) peers
                      else update_peer peer (\<lambda>s. s\<lparr>ps_score := ps_score s + SCORE_DUPLICATE_MESSAGE\<rparr>) peers);
                    events = (if is_new then [\<lparr>ne_peer = peer, ne_message = m\<rparr>] else []);
                    should_ban = (case map_of peers peer of
                      Some s \<Rightarrow> ps_score s \<le> SCORE_BAN_THRESHOLD | None \<Rightarrow> False) in
                if should_ban then
                  ((bt_remove peer (update_peer peer
                      (\<lambda>s. s\<lparr>ps_banned_until := Some (saturating_add now BAN_DURATION_MS)\<rparr>) peers), recent, events), Ended)
                else ((peers, recent, events), Running))))"

section \<open>The service\<close>

record outbound_message =
  om_target_peer :: "string option"
  om_message :: network_message

definition handle_broadcast :: "network_message \<Rightarrow> outbound_message" where
  "handle_broadcast m = \<lparr>om_target_peer = None, om_message = m\<rparr>"

definition handle_send_to :: "string \<Rightarrow> network_message \<Rightarrow> outbound_message" where
  "handle_send_to peer m = \<lparr>om_target_peer = Some peer, om_message = m\<rparr>"

definition request_sync :: "u64 \<Rightarrow> sync_request \<Rightarrow> outbound_message" where
  "request_sync request_id request = handle_broadcast (SyncRequestMsg request_id request)"

definition request_sync_from :: "string \<Rightarrow> u64 \<Rightarrow> sync_request \<Rightarrow> outbound_message" where
  "request_sync_from peer request_id request = handle_send_to peer (SyncRequestMsg request_id request)"

text \<open>One connection with the queue of its channel; the channels hold 256, 128 and 1024 messages.\<close>

record link =
  lk_peer :: string
  lk_recent :: recent_messages
  lk_queue :: "network_message list"
  lk_state :: link_state

record network =
  nw_peers :: peer_table
  nw_links :: "link list"
  nw_registrations :: "(string \<times> nat) list"
  nw_sinks :: "(string, nat) btree_map"
  nw_outbound :: "outbound_message list"
  nw_events :: "network_event list"

definition start_network :: network where
  "start_network = \<lparr>nw_peers = [], nw_links = [], nw_registrations = [], nw_sinks = [], nw_outbound = [], nw_events = []\<rparr>"

definition running :: "network \<Rightarrow> nat \<Rightarrow> bool" where
  "running n i = (i < length (nw_links n) \<and> lk_state (nw_links n ! i) = Running)"

definition push_queue :: "network_message \<Rightarrow> nat \<Rightarrow> link list \<Rightarrow> link list" where
  "push_queue m i links = links[i := (links ! i)\<lparr>lk_queue := lk_queue (links ! i) @ [m]\<rparr>]"

text \<open>One outbound message of the fan-out task: \<open>None\<close> while a channel it sends to is full.\<close>

definition fan_out :: "outbound_message \<Rightarrow> network \<Rightarrow> network option" where
  "fan_out out n =
    (let sinks = filter (\<lambda>(_, i). running n i) (nw_sinks n);
         receivers = (case om_target_peer out of
            Some p \<Rightarrow> (case map_of sinks p of Some i \<Rightarrow> [i] | None \<Rightarrow> [])
          | None \<Rightarrow> bt_values sinks) in
     if \<exists>i \<in> set receivers. 256 \<le> length (lk_queue (nw_links n ! i)) then None
     else Some (n\<lparr>nw_sinks := sinks, nw_links := fold (push_queue (om_message out)) receivers (nw_links n)\<rparr>))"

definition connect :: "net_env \<Rightarrow> bool \<Rightarrow> string \<Rightarrow> u64 \<Rightarrow> network_message \<Rightarrow> network \<Rightarrow> string + network" where
  "connect V inbound_only peer now remote n =
     bind_res (accept_handshake V inbound_only peer now remote (nw_peers n)) (\<lambda>peers.
     Inr (n\<lparr>nw_peers := peers,
       nw_links := nw_links n @ [\<lparr>lk_peer = peer, lk_recent = recent_default, lk_queue = [], lk_state = Running\<rparr>],
       nw_registrations := nw_registrations n @ [(peer, length (nw_links n))]\<rparr>))"

definition receive_frame :: "net_env \<Rightarrow> nat \<Rightarrow> u64 \<Rightarrow> string + u8 list \<Rightarrow> network \<Rightarrow> network" where
  "receive_frame V i now frame n =
    (let lk = nw_links n ! i in
     case handle_frame V (lk_peer lk) now frame (nw_peers n) (lk_recent lk) of
       ((peers, recent, events), state) \<Rightarrow>
         n\<lparr>nw_peers := peers, nw_links := (nw_links n)[i := lk\<lparr>lk_recent := recent, lk_state := state\<rparr>],
           nw_events := nw_events n @ events\<rparr>)"

text \<open>The queue of a connection is written to the socket: \<open>sent\<close> says whether the socket takes it.\<close>

definition transmit :: "net_env \<Rightarrow> nat \<Rightarrow> bool \<Rightarrow> network \<Rightarrow> network" where
  "transmit V i sent n =
    (let lk = nw_links n ! i in
     case lk_queue lk of
       [] \<Rightarrow> n
     | m # rest \<Rightarrow>
        let state = (if bin_message (nv_ext V) m = None then Failed ''encode'' else if sent then Running else Failed ''send'') in
        n\<lparr>nw_links := (nw_links n)[i := lk\<lparr>lk_queue := rest, lk_state := state\<rparr>]\<rparr>)"

text \<open>Socket closed and no sender left: the \<open>else\<close> branch of the selection.\<close>

definition sender_dropped :: "network \<Rightarrow> nat \<Rightarrow> bool" where
  "sender_dropped n i = (i \<notin> snd ` set (nw_registrations n) \<and> i \<notin> set (bt_values (nw_sinks n)))"

definition finish_link :: "nat \<Rightarrow> network \<Rightarrow> network" where
  "finish_link i n = (let lk = nw_links n ! i in
     n\<lparr>nw_peers := bt_remove (lk_peer lk) (nw_peers n), nw_links := (nw_links n)[i := lk\<lparr>lk_state := Ended\<rparr>]\<rparr>)"

definition register_sink :: "network \<Rightarrow> network" where
  "register_sink n = (case nw_registrations n of
       [] \<Rightarrow> n
     | (peer, i) # rest \<Rightarrow> n\<lparr>nw_registrations := rest, nw_sinks := bt_insert peer i (nw_sinks n)\<rparr>)"

text \<open>The steps of the tasks, the rest of the program posting messages through the handle; and the
  calls of \<open>ban_peer\<close>.\<close>

inductive task_step :: "net_env \<Rightarrow> network \<Rightarrow> network \<Rightarrow> bool" for V where
  connected: "connect V inbound_only peer now remote n = Inr n' \<Longrightarrow> length (nw_registrations n) < 128 \<Longrightarrow>
    task_step V n n'"
| received: "running n i \<Longrightarrow> task_step V n (receive_frame V i now frame n)"
| transmitted: "running n i \<Longrightarrow> lk_queue (nw_links n ! i) \<noteq> [] \<Longrightarrow> task_step V n (transmit V i sent n)"
| finished: "running n i \<Longrightarrow> sender_dropped n i \<Longrightarrow> lk_queue (nw_links n ! i) = [] \<Longrightarrow>
    task_step V n (finish_link i n)"
| registered: "task_step V n (register_sink n)"
| posted: "length (nw_outbound n) < 1024 \<Longrightarrow> task_step V n (n\<lparr>nw_outbound := nw_outbound n @ [out]\<rparr>)"
| fanned: "nw_outbound n = out # rest \<Longrightarrow> fan_out out n = Some n' \<Longrightarrow> task_step V n (n'\<lparr>nw_outbound := rest\<rparr>)"

inductive network_step :: "net_env \<Rightarrow> network \<Rightarrow> network \<Rightarrow> bool" for V where
  task: "task_step V n n' \<Longrightarrow> network_step V n n'"
| banned: "network_step V n (n\<lparr>nw_peers := ban_peer peer duration now (nw_peers n)\<rparr>)"

section \<open>The filter is a sliding window\<close>

text \<open>The abstract filter knows the identifiers accepted so far and looks at the last 2048.\<close>

definition window :: "'a list \<Rightarrow> 'a list" where
  "window accepted = drop (length accepted - MAX_RECENT) accepted"

definition window_rel :: "hash32 list \<Rightarrow> recent_messages \<Rightarrow> bool" where
  "window_rel accepted r \<longleftrightarrow> rm_order r = window accepted \<and> rm_seen r = set (window accepted) \<and> distinct (window accepted)"

primrec filter_run :: "hash32 list \<Rightarrow> recent_messages \<Rightarrow> hash32 list \<times> recent_messages" where
  "filter_run [] r = ([], r)"
| "filter_run (h # hs) r = (let (is_new, r') = remember h r; (accepted, r'') = filter_run hs r' in
     (if is_new then h # accepted else accepted, r''))"

lemma length_window: "length (window xs) \<le> MAX_RECENT"
  by (simp add: window_def)

lemma trim_short: "length order \<le> MAX_RECENT \<Longrightarrow> trim_recent seen order = (seen, order)"
  by (cases order) auto

lemma window_snoc: "window (xs @ [x]) = (if length (window xs) = MAX_RECENT then tl (window xs) else window xs) @ [x]"
proof (cases "length (window xs) = MAX_RECENT")
  case True
  then have "MAX_RECENT \<le> length xs" by (auto simp: window_def)
  then have "Suc (length xs) - MAX_RECENT = Suc (length xs - MAX_RECENT)" by (simp add: Suc_diff_le)
  then show ?thesis using True by (simp add: window_def drop_Suc tl_drop MAX_RECENT_def)
next
  case False
  then have "length xs < MAX_RECENT" by (auto simp: window_def MAX_RECENT_def)
  then show ?thesis using False by (simp add: window_def)
qed

lemma remember_simulates:
  assumes "window_rel accepted r"
  shows "remember h r = (let r' = snd (remember h r) in (h \<notin> set (window accepted), r'))"
    and "window_rel (if h \<in> set (window accepted) then accepted else accepted @ [h]) (snd (remember h r))"
proof -
  note r = assms [unfolded window_rel_def]
  show "remember h r = (let r' = snd (remember h r) in (h \<notin> set (window accepted), r'))"
    using r by (simp add: remember_def Let_def split: prod.splits)
  show "window_rel (if h \<in> set (window accepted) then accepted else accepted @ [h]) (snd (remember h r))"
  proof (cases "h \<in> set (window accepted)")
    case True
    then show ?thesis using assms r by (simp add: remember_def)
  next
    case new: False
    show ?thesis
    proof (cases "length (window accepted) = MAX_RECENT")
      case True
      then obtain x xs where w: "window accepted = x # xs" by (cases "window accepted") (auto simp: MAX_RECENT_def)
      have "trim_recent (insert h (rm_seen r)) (rm_order r @ [h]) = (insert h (rm_seen r) - {x}, xs @ [h])"
        using r True w by (simp add: trim_short)
      then show ?thesis using r new True w by (auto simp: remember_def window_rel_def window_snoc)
    next
      case False
      then have "trim_recent (insert h (rm_seen r)) (rm_order r @ [h]) = (insert h (rm_seen r), rm_order r @ [h])"
        using r length_window [of accepted] by (intro trim_short) simp
      then show ?thesis using r new False by (auto simp: remember_def window_rel_def window_snoc)
    qed
  qed
qed

text \<open>The reference: one list of accepted identifiers, of which the last 2048 are refused.\<close>

primrec window_filter :: "hash32 list \<Rightarrow> hash32 list \<Rightarrow> hash32 list" where
  "window_filter accepted [] = accepted"
| "window_filter accepted (h # hs) =
     window_filter (if h \<in> set (window accepted) then accepted else accepted @ [h]) hs"

definition spaced :: "hash32 list \<Rightarrow> bool" where
  "spaced xs = (\<forall>i j. i < j \<longrightarrow> j < length xs \<longrightarrow> j \<le> i + MAX_RECENT \<longrightarrow> xs ! i \<noteq> xs ! j)"

lemma spaced_snoc:
  assumes "spaced xs" "h \<notin> set (window xs)"
  shows "spaced (xs @ [h])"
  unfolding spaced_def
proof (intro allI impI)
  fix i j
  assume ij: "i < j" "j < length (xs @ [h])" "j \<le> i + MAX_RECENT"
  show "(xs @ [h]) ! i \<noteq> (xs @ [h]) ! j"
  proof (cases "j < length xs")
    case True
    then show ?thesis using ij assms(1) by (auto simp: spaced_def nth_append)
  next
    case False
    then have j: "j = length xs" using ij by simp
    have "window xs ! (i - (length xs - MAX_RECENT)) = xs ! i"
      using ij j by (simp add: window_def)
    then have "xs ! i \<in> set (window xs)"
      using ij j nth_mem [of "i - (length xs - MAX_RECENT)" "window xs"] by (simp add: window_def)
    then show ?thesis using assms(2) ij j by (auto simp: nth_append)
  qed
qed

lemma filter_run_window:
  "window_rel accepted r \<Longrightarrow> accepted @ fst (filter_run hs r) = window_filter accepted hs \<and>
     window_rel (window_filter accepted hs) (snd (filter_run hs r))"
proof (induction hs arbitrary: accepted r)
  case (Cons h hs)
  note sim = remember_simulates [OF Cons.prems, of h]
  have "fst (remember h r) = (h \<notin> set (window accepted))" using sim(1) by (metis fst_conv)
  then show ?case
    using Cons.IH [OF sim(2)]
    by (cases "remember h r") (auto simp: Let_def split: prod.splits if_splits)
qed simp

lemma window_filter_spaced: "spaced accepted \<Longrightarrow> spaced (window_filter accepted hs)"
  by (induction hs arbitrary: accepted) (auto intro: spaced_snoc)

section \<open>The invariant of the peer table\<close>

definition score_ok :: "peer_state \<Rightarrow> bool" where
  "score_ok state \<longleftrightarrow> SCORE_BAN_THRESHOLD \<le> ps_score state \<and> ps_score state \<le> SCORE_MAX"

definition table_ok :: "peer_table \<Rightarrow> bool" where
  "table_ok peers \<longleftrightarrow> bt_wf peers \<and> inbound_count peers \<le> MAX_INBOUND_CONNECTIONS
     \<and> (\<forall>p state. map_of peers p = Some state \<longrightarrow> score_ok state)"

abbreviation inbound_weight :: "peer_state \<Rightarrow> nat" where
  "inbound_weight state \<equiv> of_bool (\<not> ps_is_outbound state)"

lemma inbound_count_sum: "inbound_count peers = sum_entries inbound_weight peers"
  by (induction peers) (auto simp: inbound_count_def bt_values_def)

lemma inbound_count_insert:
  assumes "bt_wf peers"
  shows "inbound_count (bt_insert p state peers) +
      (case map_of peers p of None \<Rightarrow> 0 | Some old \<Rightarrow> inbound_weight old) = inbound_count peers + inbound_weight state"
  unfolding inbound_count_sum by (rule sum_entries_bt_insert [OF assms])

lemma inbound_count_remove: "inbound_count (bt_remove p peers) \<le> inbound_count peers"
  by (induction peers) (auto simp: inbound_count_sum bt_remove_def)

lemma map_of_update_peer: "map_of (update_peer p f peers) q = (if q = p then map_option f (map_of peers p) else map_of peers q)"
  by (simp add: update_peer_def split: option.split)

lemma wf_update_peer [simp]: "bt_wf peers \<Longrightarrow> bt_wf (update_peer p f peers)"
  by (simp add: update_peer_def split: option.split)

lemma inbound_count_update:
  assumes "bt_wf peers" "\<And>s. ps_is_outbound (f s) = ps_is_outbound s"
  shows "inbound_count (update_peer p f peers) = inbound_count peers"
proof (cases "map_of peers p")
  case (Some s)
  then show ?thesis
    using inbound_count_insert [OF assms(1), of p "f s"] assms(2) by (simp add: update_peer_def)
qed (simp add: update_peer_def)

lemma note_message_outbound [simp]: "ps_is_outbound (note_message now m s) = ps_is_outbound s"
  by (simp add: note_message_def Let_def split: network_message.split)

lemma note_message_score:
  "ps_score (note_message now m s) = ps_score s \<or>
   ps_score (note_message now m s) = min (ps_score s + SCORE_USEFUL_BLOCK) SCORE_MAX"
  by (simp add: note_message_def Let_def split: network_message.split)

lemma table_ok_remove: "table_ok peers \<Longrightarrow> table_ok (bt_remove p peers)"
  using inbound_count_remove [of p peers] by (auto simp: table_ok_def split: if_splits)

lemma table_ok_ban: "table_ok peers \<Longrightarrow> table_ok (ban_peer p d now peers)"
  by (auto simp: table_ok_def ban_peer_def map_of_update_peer inbound_count_update score_ok_def score_constants
      split: if_splits)

lemma table_ok_handshake:
  assumes "table_ok peers" "accept_handshake V inbound_only p now remote peers = Inr peers'"
  shows "table_ok peers'"
proof -
  obtain h where peers': "peers' = bt_insert p (new_peer inbound_only now h) peers"
    and room: "inbound_only \<Longrightarrow> inbound_count peers < MAX_INBOUND_CONNECTIONS"
    using assms(2) by (auto simp: accept_handshake_def split: if_splits network_message.splits)
  have "inbound_count peers' \<le> inbound_count peers + of_bool inbound_only"
    using inbound_count_insert [of peers p "new_peer inbound_only now h"] assms(1)
    by (simp add: peers' table_ok_def new_peer_def)
  then show ?thesis
    using assms(1) room
    by (cases inbound_only) (auto simp: peers' table_ok_def new_peer_def score_ok_def score_constants)
qed

lemma table_ok_update:
  assumes "table_ok peers" "\<And>s. ps_is_outbound (f s) = ps_is_outbound s"
    and "\<And>s. map_of peers p = Some s \<Longrightarrow> score_ok (f s)"
  shows "table_ok (update_peer p f peers)"
  using assms by (auto simp: table_ok_def map_of_update_peer inbound_count_update split: if_splits)

lemma remove_update [simp]: "bt_remove p (update_peer p f peers) = bt_remove p peers"
proof -
  have "bt_remove p (bt_insert p s m) = bt_remove p m" for s and m :: peer_table
    by (induction p s m rule: bt_insert.induct) (auto simp: bt_remove_def)
  then show ?thesis by (simp add: update_peer_def split: option.split)
qed

lemma note_message_score_ok: "score_ok s \<Longrightarrow> score_ok (note_message now m s)"
  using note_message_score [of now m s] by (auto simp: score_ok_def score_constants)

lemma handle_frame_table:
  assumes "table_ok peers" "handle_frame V p now frame peers recent = ((peers', recent', events), st)"
  shows "table_ok peers'"
proof (cases frame)
  case (Inl e)
  then show ?thesis using assms by (simp add: handle_frame_def)
next
  case (Inr bytes)
  show ?thesis
  proof (cases "nv_decode V bytes")
    case None
    then show ?thesis using assms Inr by (simp add: handle_frame_def)
  next
    case (Some m)
    define noted where "noted = update_peer p (note_message now m) peers"
    have noted: "table_ok noted"
      unfolding noted_def
      by (rule table_ok_update [OF assms(1)]) (use assms(1) in \<open>auto simp: table_ok_def intro: note_message_score_ok\<close>)
    show ?thesis
    proof (cases "message_id (nv_ext V) m")
      case None
      then show ?thesis using assms(2) Inr Some noted by (simp add: handle_frame_def noted_def Let_def)
    next
      case (Some h)
      define delta :: "peer_state \<Rightarrow> peer_state" where "delta = (if fst (remember h recent)
        then (\<lambda>s. s\<lparr>ps_score := min (ps_score s + SCORE_VALID_MESSAGE) SCORE_MAX\<rparr>)
        else (\<lambda>s. s\<lparr>ps_score := ps_score s + SCORE_DUPLICATE_MESSAGE\<rparr>))"
      have peers': "peers' = (if \<exists>s. map_of (update_peer p delta noted) p = Some s \<and> ps_score s \<le> SCORE_BAN_THRESHOLD
          then bt_remove p peers else update_peer p delta noted)"
        using assms(2) Inr Some \<open>nv_decode V bytes = Some m\<close>
        by (auto simp: handle_frame_def noted_def delta_def Let_def map_of_update_peer
            split: prod.splits option.splits if_splits)
      show ?thesis
      proof (cases "\<exists>s. map_of (update_peer p delta noted) p = Some s \<and> ps_score s \<le> SCORE_BAN_THRESHOLD")
        case True
        then show ?thesis using peers' table_ok_remove [OF assms(1)] by simp
      next
        case False
        have "table_ok (update_peer p delta noted)"
        proof (rule table_ok_update [OF noted])
          show "ps_is_outbound (delta s) = ps_is_outbound s" for s by (simp add: delta_def)
          show "score_ok (delta s)" if "map_of noted p = Some s" for s
          proof -
            have "score_ok s" using noted that by (simp add: table_ok_def)
            moreover have "\<not> ps_score (delta s) \<le> SCORE_BAN_THRESHOLD" using False that by (auto simp: map_of_update_peer)
            ultimately show ?thesis by (auto simp: delta_def score_ok_def score_constants split: if_splits)
          qed
        qed
        then show ?thesis using peers' False by simp
      qed
    qed
  qed
qed

lemma handle_frame_recent:
  assumes "window_rel accepted recent" "handle_frame V p now frame peers recent = ((peers', recent', events), st)"
  shows "\<exists>accepted. window_rel accepted recent'"
proof -
  have "recent' = recent \<or> (\<exists>h. recent' = snd (remember h recent))"
    using assms(2)
    by (auto simp: handle_frame_def Let_def split: sum.splits option.splits prod.splits if_splits) (metis snd_conv)+
  then show ?thesis using assms(1) remember_simulates(2) [OF assms(1)] by blast
qed

definition network_inv :: "network \<Rightarrow> bool" where
  "network_inv n \<longleftrightarrow> table_ok (nw_peers n) \<and> (\<forall>lk \<in> set (nw_links n). \<exists>accepted. window_rel accepted (lk_recent lk))"

lemma window_rel_default: "window_rel [] recent_default"
  by (simp add: window_rel_def window_def recent_default_def)

lemma update_link_recent:
  "lk_recent lk = lk_recent (links ! i) \<Longrightarrow> map lk_recent (links[i := lk]) = map lk_recent links"
  by (cases "i < length links") (simp_all add: map_update list_update_same_conv list_update_beyond)

lemma recent_fold_push: "map lk_recent (fold (push_queue m) js links) = map lk_recent links"
proof (induction js arbitrary: links)
  case (Cons j js)
  have "map lk_recent (push_queue m j links) = map lk_recent links"
    by (simp add: push_queue_def update_link_recent)
  then show ?case using Cons.IH by simp
qed simp

lemma network_inv_links:
  "network_inv n \<Longrightarrow> map lk_recent (nw_links n') = map lk_recent (nw_links n) \<Longrightarrow> table_ok (nw_peers n') \<Longrightarrow> network_inv n'"
  unfolding network_inv_def by (metis (no_types, lifting) imageE image_eqI image_set)

lemma task_step_inv:
  assumes "network_inv n" "task_step V n n'"
  shows "network_inv n'"
  using assms(2,1)
proof cases
  case (connected inbound_only peer now remote)
  then obtain peers where "accept_handshake V inbound_only peer now remote (nw_peers n) = Inr peers"
    and n': "n' = n\<lparr>nw_peers := peers,
       nw_links := nw_links n @ [\<lparr>lk_peer = peer, lk_recent = recent_default, lk_queue = [], lk_state = Running\<rparr>],
       nw_registrations := nw_registrations n @ [(peer, length (nw_links n))]\<rparr>"
    by (auto simp: connect_def bind_res_eq_Inr)
  then have "table_ok peers" using assms(1) by (auto simp: network_inv_def intro: table_ok_handshake)
  then show ?thesis using assms(1) window_rel_default by (auto simp: n' network_inv_def)
next
  case (received i now frame)
  define lk where "lk = nw_links n ! i"
  obtain peers recent events st where frame: "handle_frame V (lk_peer lk) now frame (nw_peers n) (lk_recent lk)
      = ((peers, recent, events), st)" by (metis prod.collapse)
  have "lk \<in> set (nw_links n)" using received(2) by (simp add: running_def lk_def)
  then have "\<exists>accepted. window_rel accepted recent"
    using assms(1) handle_frame_recent [OF _ frame] by (auto simp: network_inv_def)
  moreover have "table_ok peers" using assms(1) handle_frame_table [OF _ frame] by (simp add: network_inv_def)
  ultimately show ?thesis
    using assms(1) set_update_subset_insert [of "nw_links n" i]
    by (fastforce simp: received(1) receive_frame_def Let_def frame network_inv_def simp flip: lk_def)
next
  case (transmitted i sent)
  show ?thesis
    by (rule network_inv_links [OF assms(1)])
      (use assms(1) in \<open>auto simp: transmitted(1) transmit_def Let_def network_inv_def intro: update_link_recent split: list.splits\<close>)
next
  case (finished i)
  show ?thesis
    by (rule network_inv_links [OF assms(1)])
      (use assms(1) in \<open>auto simp: finished(1) finish_link_def Let_def network_inv_def table_ok_remove intro: update_link_recent\<close>)
next
  case registered
  then show ?thesis using assms(1) by (auto simp: register_sink_def network_inv_def split: list.splits)
next
  case (posted out)
  then show ?thesis using assms(1) by (simp add: network_inv_def)
next
  case (fanned out rest m)
  then show ?thesis
    by (intro network_inv_links [OF assms(1)])
      (use assms(1) in \<open>auto simp: fan_out_def Let_def network_inv_def recent_fold_push split: if_splits\<close>)
qed

lemma network_step_inv: "network_inv n \<Longrightarrow> network_step V n n' \<Longrightarrow> network_inv n'"
  by (erule network_step.cases) (blast intro: task_step_inv, simp add: network_inv_def table_ok_ban)

lemma network_inv_start: "network_inv start_network"
  by (simp add: network_inv_def start_network_def table_ok_def inbound_count_def bt_values_def)

interpretation peer_network: state_machine "\<lambda>n. n = start_network" "network_step V" network_inv for V
  by unfold_locales (auto intro: network_inv_start network_step_inv)

section \<open>Bans, slots and stalled peers\<close>

definition no_bans :: "peer_table \<Rightarrow> bool" where
  "no_bans peers \<longleftrightarrow> (\<forall>p state. (p, state) \<in> set peers \<longrightarrow> ps_banned_until state = None)"

lemma no_bans_insert: "no_bans peers \<Longrightarrow> ps_banned_until state = None \<Longrightarrow> no_bans (bt_insert p state peers)"
  unfolding no_bans_def by (blast dest: bt_insert_in_set)

lemma no_bans_remove: "no_bans peers \<Longrightarrow> no_bans (bt_remove p peers)"
  by (auto simp: no_bans_def bt_remove_def)

lemma no_bans_update:
  assumes "no_bans peers" "\<And>s. ps_banned_until (f s) = ps_banned_until s"
  shows "no_bans (update_peer p f peers)"
proof (cases "map_of peers p")
  case (Some s)
  then have "ps_banned_until s = None" using assms(1) by (auto simp: no_bans_def dest: map_of_SomeD)
  then show ?thesis using Some assms by (simp add: update_peer_def no_bans_insert)
qed (use assms in \<open>simp add: update_peer_def\<close>)

lemma note_message_ban [simp]: "ps_banned_until (note_message now m s) = ps_banned_until s"
  by (simp add: note_message_def Let_def split: network_message.split)

lemma handle_frame_no_bans:
  "no_bans peers \<Longrightarrow> no_bans (fst (fst (handle_frame V p now frame peers recent)))"
  by (auto simp: handle_frame_def Let_def intro!: no_bans_update no_bans_remove
      split: sum.splits option.splits prod.splits)

lemma task_step_no_bans:
  assumes "task_step V n n'" "no_bans (nw_peers n)"
  shows "no_bans (nw_peers n')"
  using assms
proof cases
  case (connected inbound_only peer now remote)
  then show ?thesis
    using assms(2)
    by (auto simp: connect_def bind_res_eq_Inr accept_handshake_def new_peer_def intro!: no_bans_insert
        split: if_splits network_message.splits)
next
  case (received i now frame)
  then show ?thesis
    using handle_frame_no_bans [OF assms(2), of V "lk_peer (nw_links n ! i)" now frame "lk_recent (nw_links n ! i)"]
    by (auto simp: receive_frame_def Let_def split: prod.splits)
qed (use assms(2) in \<open>auto simp: transmit_def finish_link_def register_sink_def fan_out_def Let_def no_bans_remove
    split: list.splits if_splits\<close>)

lemma task_run_no_bans: "(task_step V)\<^sup>*\<^sup>* start_network n \<Longrightarrow> no_bans (nw_peers n)"
  by (induction rule: rtranclp_induct) (auto simp: start_network_def no_bans_def [of "[]"] intro: task_step_no_bans)

section \<open>The properties\<close>



text \<open>C35: The filter of repeated messages is a sliding window: fed with any identifiers it accepts what the list
  of accepted identifiers without its last 2048 allows, and no identifier is accepted twice within 2049 acceptances.\<close>

theorem filter_is_window:
  "fst (filter_run hs recent_default) = window_filter [] hs \<and> spaced (fst (filter_run hs recent_default))"
  using filter_run_window [OF window_rel_default, of hs] window_filter_spaced [of "[]" hs]
  by (simp add: spaced_def [of "[]"])

text \<open>A ban for a low score is never felt: unless the program calls \<open>ban_peer\<close>, no peer of the table is
  banned, and the handshake of a node that was just thrown out is accepted.\<close>

theorem score_bans_forgotten:
  assumes "(task_step V)\<^sup>*\<^sup>* start_network n" "hs_chain_id h = nv_chain_id V"
  shows "\<not> is_banned other now (nw_peers n) \<and> accept_handshake V False peer now (HandshakeMsg h) (nw_peers n)
      = Inr (bt_insert peer (new_peer False now h) (nw_peers n))"
proof -
  have none: "ps_banned_until state = None" if "(p, state) \<in> set (nw_peers n)" for p state
    using task_run_no_bans [OF assms(1)] that by (auto simp: no_bans_def)
  then have "\<not> is_banned other now (nw_peers n)"
    by (auto simp: is_banned_def ban_active_def dest!: map_of_SomeD split: option.split)
  moreover have "\<not> (\<exists>state \<in> set (bt_values (nw_peers n)). ps_node_id state = hs_node_id h \<and> ban_active now state)"
    using none by (auto simp: bt_values_def ban_active_def)
  ultimately show ?thesis using assms(2) by (simp add: accept_handshake_def)
qed

definition sample_net_env :: net_env where
  "sample_net_env = \<lparr>nv_ext = sample_ext, nv_decode = (\<lambda>_. Some (Ping 0)), nv_chain_id = ChainId ''zeno''\<rparr>"

theorem score_bans_forgotten_witness:
  "accept_handshake sample_net_env False ''a'' 5
     (HandshakeMsg \<lparr>hs_chain_id = ChainId ''zeno'', hs_node_id = ''n'', hs_best_height = 0\<rparr>) []
   = Inr [(''a'', new_peer False 5 \<lparr>hs_chain_id = ChainId ''zeno'', hs_node_id = ''n'', hs_best_height = 0\<rparr>)]"
  using score_bans_forgotten [of sample_net_env start_network
      "\<lparr>hs_chain_id = ChainId ''zeno'', hs_node_id = ''n'', hs_best_height = 0\<rparr>" "''a''" 5 "''a''"]
  by (simp add: sample_net_env_def start_network_def)

lemma connect_then_fail:
  assumes "inbound_count (nw_peers n) < MAX_INBOUND_CONNECTIONS" "no_bans (nw_peers n)" "bt_wf (nw_peers n)"
    and "map_of (nw_peers n) peer = None" "length (nw_registrations n) < 128" "nw_registrations n = []"
  shows "\<exists>n'. (task_step V)\<^sup>*\<^sup>* n n' \<and> inbound_count (nw_peers n') = Suc (inbound_count (nw_peers n))
    \<and> fst ` set (nw_peers n') = insert peer (fst ` set (nw_peers n)) \<and> nw_registrations n' = []
    \<and> (\<forall>lk \<in> set (nw_links n'). lk \<in> set (nw_links n) \<or> lk_state lk \<noteq> Running)"
proof -
  define h where "h = \<lparr>hs_chain_id = nv_chain_id V, hs_node_id = ''x'', hs_best_height = 0\<rparr>"
  define peers where "peers = bt_insert peer (new_peer True 0 h) (nw_peers n)"
  define lk where "lk = \<lparr>lk_peer = peer, lk_recent = recent_default, lk_queue = [], lk_state = Running\<rparr>"
  define one where "one = n\<lparr>nw_peers := peers, nw_links := nw_links n @ [lk],
    nw_registrations := nw_registrations n @ [(peer, length (nw_links n))]\<rparr>"
  have "accept_handshake V True peer 0 (HandshakeMsg h) (nw_peers n) = Inr peers"
    using assms(1,2) by (auto simp: accept_handshake_def h_def peers_def no_bans_def ban_active_def bt_values_def)
  then have "connect V True peer 0 (HandshakeMsg h) n = Inr one"
    by (simp add: connect_def one_def lk_def)
  from task_step.connected [OF this assms(5)] have first: "task_step V n one" .
  define two where "two = receive_frame V (length (nw_links n)) 0 (Inl ''reset'') one"
  have "running one (length (nw_links n))" by (simp add: running_def one_def lk_def)
  then have second: "task_step V one two" unfolding two_def by (rule task_step.received)
  have two: "two = one\<lparr>nw_links := nw_links n @ [lk\<lparr>lk_state := Failed ''reset''\<rparr>]\<rparr>"
    by (simp add: two_def receive_frame_def handle_frame_def one_def lk_def Let_def)
  have third: "task_step V two (register_sink two)" by (rule task_step.registered)
  have last: "nw_peers (register_sink two) = peers" "nw_registrations (register_sink two) = []"
      "nw_links (register_sink two) = nw_links n @ [lk\<lparr>lk_state := Failed ''reset''\<rparr>]"
    using assms(6) by (simp_all add: two one_def register_sink_def)
  have "inbound_count peers = Suc (inbound_count (nw_peers n))"
    using inbound_count_insert [OF assms(3), of peer "new_peer True 0 h"] assms(4)
    by (simp add: peers_def new_peer_def)
  moreover have "fst ` set peers = insert peer (fst ` set (nw_peers n))"
    using keys_bt_insert [of peer "new_peer True 0 h" "nw_peers n"] by (simp add: peers_def bt_keys_def)
  moreover have "(task_step V)\<^sup>*\<^sup>* n (register_sink two)"
    by (rule rtranclp.rtrancl_into_rtrancl, rule rtranclp.rtrancl_into_rtrancl, rule r_into_rtranclp)
      (rule first second third)+
  ultimately show ?thesis using last by (intro exI [of _ "register_sink two"]) auto
qed

lemma fill_table:
  "k \<le> MAX_INBOUND_CONNECTIONS \<Longrightarrow> \<exists>n. (task_step V)\<^sup>*\<^sup>* start_network n \<and> inbound_count (nw_peers n) = k
    \<and> fst ` set (nw_peers n) = (\<lambda>j. replicate j CHR ''a'') ` {..<k} \<and> nw_registrations n = []
    \<and> (\<forall>lk \<in> set (nw_links n). lk_state lk \<noteq> Running)"
proof (induction k)
  case 0
  show ?case
    by (rule exI [of _ start_network]) (simp add: start_network_def inbound_count_def bt_values_def)
next
  case (Suc k)
  then obtain n where n: "(task_step V)\<^sup>*\<^sup>* start_network n" "inbound_count (nw_peers n) = k"
    "fst ` set (nw_peers n) = (\<lambda>j. replicate j CHR ''a'') ` {..<k}" "nw_registrations n = []"
    "\<forall>lk \<in> set (nw_links n). lk_state lk \<noteq> Running" by auto
  have "(network_step V)\<^sup>*\<^sup>* start_network n"
    using n(1) by (rule rtranclp_mono [THEN predicate2D, rotated]) (auto intro: network_step.task)
  then have wf: "bt_wf (nw_peers n)"
    using peer_network.reachable_inv [OF refl] by (auto simp: network_inv_def table_ok_def)
  have fresh: "map_of (nw_peers n) (replicate k CHR ''a'') = None"
    unfolding map_of_eq_None_iff n(3) by (auto dest: arg_cong [where f = length])
  obtain n' where "(task_step V)\<^sup>*\<^sup>* n n'" "inbound_count (nw_peers n') = Suc k"
    "fst ` set (nw_peers n') = insert (replicate k CHR ''a'') (fst ` set (nw_peers n))" "nw_registrations n' = []"
    "\<forall>lk \<in> set (nw_links n'). lk \<in> set (nw_links n) \<or> lk_state lk \<noteq> Running"
    using connect_then_fail [OF _ task_run_no_bans [OF n(1)] wf fresh, of V] n(2,4) Suc.prems by auto
  then show ?case
    using n by (intro exI [of _ n']) (auto simp: lessThan_Suc intro: rtranclp_trans)
qed

text \<open>A connection that ends with an error keeps its entry in the peer table: after fifty of them no connection
  is open, and every inbound connection is refused for ever after.\<close>

theorem failed_connections_fill_the_table:
  "\<exists>n. (task_step V)\<^sup>*\<^sup>* start_network n \<and> \<not> (\<exists>i. running n i) \<and>
    (\<forall>peer now m. connect V True peer now m n = Inl ''inbound connection limit reached'')"
proof -
  obtain n where n: "(task_step V)\<^sup>*\<^sup>* start_network n" "inbound_count (nw_peers n) = MAX_INBOUND_CONNECTIONS"
    "\<forall>lk \<in> set (nw_links n). lk_state lk \<noteq> Running" using fill_table [of MAX_INBOUND_CONNECTIONS V] by auto
  have "\<not> (\<exists>i. running n i)" using n(3) by (auto simp: running_def)
  moreover have "connect V True peer now m n = Inl ''inbound connection limit reached''" for peer now m
    using n(2) by (simp add: connect_def accept_handshake_def)
  ultimately show ?thesis using n(1) by blast
qed

text \<open>A connection that is registered and does not read: its queue after \<open>k\<close> broadcasts.\<close>

definition stalled :: "net_env \<Rightarrow> network_message \<Rightarrow> nat \<Rightarrow> network" where
  "stalled V m k = \<lparr>nw_peers = [(''a'', new_peer True 0 \<lparr>hs_chain_id = nv_chain_id V, hs_node_id = [], hs_best_height = 0\<rparr>)],
     nw_links = [\<lparr>lk_peer = ''a'', lk_recent = recent_default, lk_queue = replicate k m, lk_state = Running\<rparr>],
     nw_registrations = [], nw_sinks = [(''a'', 0)], nw_outbound = [], nw_events = []\<rparr>"

lemma fan_out_stalled:
  "fan_out (handle_broadcast m') (stalled V m k) = (if 256 \<le> k then None
     else Some ((stalled V m k)\<lparr>nw_links := [\<lparr>lk_peer = ''a'', lk_recent = recent_default,
       lk_queue = replicate k m @ [m'], lk_state = Running\<rparr>]\<rparr>))"
  by (simp add: fan_out_def handle_broadcast_def stalled_def running_def bt_values_def push_queue_def Let_def)

lemma stalled_reachable: "k \<le> 256 \<Longrightarrow> (task_step V)\<^sup>*\<^sup>* start_network (stalled V m k)"
proof (induction k)
  case 0
  define h where "h = \<lparr>hs_chain_id = nv_chain_id V, hs_node_id = [], hs_best_height = 0\<rparr>"
  define one where "one = (stalled V m 0)\<lparr>nw_registrations := [(''a'', 0)], nw_sinks := []\<rparr>"
  have "connect V True ''a'' 0 (HandshakeMsg h) start_network = Inr one"
    by (simp add: connect_def accept_handshake_def start_network_def inbound_count_def bt_values_def one_def
        stalled_def h_def MAX_INBOUND_CONNECTIONS_def)
  then have "task_step V start_network one" by (rule task_step.connected) (simp add: start_network_def)
  moreover have "task_step V one (register_sink one)" by (rule task_step.registered)
  moreover have "register_sink one = stalled V m 0" by (simp add: register_sink_def one_def stalled_def)
  ultimately show ?case using rtranclp.rtrancl_into_rtrancl r_into_rtranclp by metis
next
  case (Suc k)
  define one where "one = (stalled V m k)\<lparr>nw_outbound := [handle_broadcast m]\<rparr>"
  have "task_step V (stalled V m k) ((stalled V m k)\<lparr>nw_outbound := nw_outbound (stalled V m k) @ [handle_broadcast m]\<rparr>)"
    by (rule task_step.posted) (simp add: stalled_def)
  then have first: "task_step V (stalled V m k) one" by (simp add: one_def stalled_def)
  have "fan_out (handle_broadcast m) one = map_option (\<lambda>n. n\<lparr>nw_outbound := [handle_broadcast m]\<rparr>)
      (fan_out (handle_broadcast m) (stalled V m k))"
    by (simp add: fan_out_def one_def running_def handle_broadcast_def Let_def)
  then have "fan_out (handle_broadcast m) one = Some ((stalled V m (Suc k))\<lparr>nw_outbound := [handle_broadcast m]\<rparr>)"
    using Suc.prems by (simp add: fan_out_stalled) (simp add: stalled_def replicate_append_same)
  from task_step.fanned [OF _ this, of "[]" V]
  have "task_step V one (stalled V m (Suc k))" by (simp add: one_def stalled_def)
  then show ?case using Suc first by (auto intro: rtranclp.rtrancl_into_rtrancl)
qed

text \<open>One peer that never reads stops the messages of the whole node: there is a reachable state with a single
  open connection in which no broadcast can be delivered, whatever is broadcast.\<close>

theorem stalled_peer_blocks_broadcast:
  "\<exists>n. (task_step V)\<^sup>*\<^sup>* start_network n \<and> running n 0 \<and> (\<forall>m. fan_out (handle_broadcast m) n = None)"
proof -
  have "(task_step V)\<^sup>*\<^sup>* start_network (stalled V (Ping 0) 256)" by (rule stalled_reachable) simp
  moreover have "running (stalled V (Ping 0) 256) 0" by (simp add: running_def stalled_def)
  moreover have "fan_out (handle_broadcast m) (stalled V (Ping 0) 256) = None" for m by (simp only: fan_out_stalled) simp
  ultimately show ?thesis by blast
qed

end
