(* ===== verification/Zeno_Rocks.thy ===== *)
theory Zeno_Rocks
  imports Zeno_Storage Zeno_Action "HOL-Library.List_Lexorder"
begin

text \<open>
  The RocksDB backend \<open>RocksStore\<close> of the crate \<open>zeno-storage\<close>: one ordered table from byte keys
  to byte values, in which every kind of datum has a name space. Encoding and decoding are
  bincode's and come as a record of codecs; a failed one is \<open>Codec\<close>, a slice out of range
  \<open>Panicked\<close>. The database itself is taken to succeed, so \<open>Backend\<close> stands only where the code
  makes that error. The last sections relate the backend to the in-memory one.
\<close>

section \<open>The database\<close>

datatype storage_error = Codec | Backend string | Panicked

type_synonym rocks_db = "(u8 list, u8 list) btree_map"
type_synonym 'a rocks_action = "(rocks_db, storage_error, 'a) action"

record 'v codec =
  enc :: "'v \<Rightarrow> u8 list option"
  dec :: "u8 list \<Rightarrow> 'v option"

record store_codecs =
  cd_genesis :: "genesis codec"
  cd_account :: "account codec"
  cd_evm_account :: "evm_account_state codec"
  cd_block :: "finalized_block codec"
  cd_receipt :: "receipt codec"
  cd_snapshot :: "consensus_snapshot codec"
  cd_wal :: "consensus_wal_entry codec"
  cd_index :: "u64 codec"
  cd_staking :: "staking_state codec"
  cd_governance :: "governance_state codec"
  cd_epoch :: "epoch_transition codec"
  cd_protection :: "slashing_protection codec"
  cd_gas :: "gas_pricing_state codec"
  cd_logs :: "evm_log list codec"

definition encode :: "'v codec \<Rightarrow> 'v \<Rightarrow> storage_error + u8 list" where
  "encode c v = ok_or Codec (enc c v)"

definition decode :: "'v codec \<Rightarrow> u8 list \<Rightarrow> storage_error + 'v" where
  "decode c bytes = ok_or Codec (dec c bytes)"

definition key :: "string \<Rightarrow> u8 list \<Rightarrow> u8 list" where
  "key namespace suffix = string_bytes namespace @ [0x3a] @ suffix"

definition get_value :: "'v codec \<Rightarrow> u8 list \<Rightarrow> rocks_db \<Rightarrow> storage_error + 'v option" where
  "get_value c k db = (case map_of db k of None \<Rightarrow> Inr None | Some value \<Rightarrow> bind_res (decode c value) (\<lambda>v. Inr (Some v)))"

definition put_value :: "'v codec \<Rightarrow> u8 list \<Rightarrow> 'v \<Rightarrow> unit rocks_action" where
  "put_value c k v = act_bind (act_lift (encode c v)) (\<lambda>bytes. act_write (bt_insert k bytes))"

text \<open>\<open>WriteBatch\<close>: all its operations are applied in order, or none.\<close>

datatype batch_op = BatchPut "u8 list" "u8 list" | BatchDelete "u8 list"

primrec apply_op :: "batch_op \<Rightarrow> rocks_db \<Rightarrow> rocks_db" where
  "apply_op (BatchPut k v) = bt_insert k v"
| "apply_op (BatchDelete k) = bt_remove k"

definition write_batch :: "batch_op list \<Rightarrow> rocks_db \<Rightarrow> rocks_db" where
  "write_batch ops db = fold apply_op ops db"

section \<open>Keys\<close>

definition meta :: "string \<Rightarrow> u8 list" where
  "meta name = key ''meta'' (string_bytes name)"

definition account_key :: "address \<Rightarrow> u8 list" where
  "account_key a = key ''acct'' (array_bytes 32 (address_raw a))"

definition evm_account_key :: "evm_address \<Rightarrow> u8 list" where
  "evm_account_key a = key ''evm-acct'' (array_bytes 20 (evm_address_raw a))"

definition height_key :: "u64 \<Rightarrow> u8 list" where
  "height_key h = key ''block-h'' (to_le_bytes 8 h)"

definition block_key :: "hash32 \<Rightarrow> u8 list" where
  "block_key h = key ''block-b'' (array_bytes 32 (hash_raw h))"

definition receipt_key :: "hash32 \<Rightarrow> u8 list" where
  "receipt_key h = key ''rcpt'' (array_bytes 32 (hash_raw h))"

definition wal_key :: "u64 \<Rightarrow> u8 list" where
  "wal_key i = key ''consensus-wal'' (to_le_bytes 8 i)"

definition epoch_key :: "u64 \<Rightarrow> u8 list" where
  "epoch_key e = key ''epoch'' (to_le_bytes 8 e)"

definition protection_key :: "address \<Rightarrow> u8 list" where
  "protection_key a = key ''slash-prot'' (array_bytes 32 (address_raw a))"

definition logs_key :: "u64 \<Rightarrow> u8 list" where
  "logs_key h = key ''evm-logs'' (to_le_bytes 8 h)"

lemmas key_defs = meta_def account_key_def evm_account_key_def height_key_def block_key_def receipt_key_def
  wal_key_def epoch_key_def protection_key_def logs_key_def

section \<open>Operations\<close>

definition rocks_put_genesis :: "store_codecs \<Rightarrow> genesis \<Rightarrow> unit rocks_action" where
  "rocks_put_genesis C g = put_value (cd_genesis C) (meta ''genesis'') g"

definition rocks_get_genesis :: "store_codecs \<Rightarrow> rocks_db \<Rightarrow> storage_error + genesis option" where
  "rocks_get_genesis C = get_value (cd_genesis C) (meta ''genesis'')"

definition rocks_get_account :: "store_codecs \<Rightarrow> address \<Rightarrow> rocks_db \<Rightarrow> storage_error + account option" where
  "rocks_get_account C a = get_value (cd_account C) (account_key a)"

definition rocks_put_account :: "store_codecs \<Rightarrow> address \<Rightarrow> account \<Rightarrow> unit rocks_action" where
  "rocks_put_account C a acct = put_value (cd_account C) (account_key a) acct"

text \<open>The iterations over the whole database: entries outside the name space are skipped, the key
  is read back from its bytes, and the results are collected in a \<open>BTreeMap\<close>.\<close>

definition scan_entry ::
  "u8 list \<Rightarrow> (u8 list \<Rightarrow> storage_error + 'k::linorder) \<Rightarrow> 'v codec \<Rightarrow> ('k, 'v) btree_map \<Rightarrow> u8 list \<times> u8 list \<Rightarrow>
   storage_error + ('k, 'v) btree_map" where
  "scan_entry start parse c out entry =
    (if take (length start) (fst entry) \<noteq> start then Inr out
     else bind_res (parse (fst entry)) (\<lambda>k. bind_res (decode c (snd entry)) (\<lambda>v. Inr (bt_insert k v out))))"

definition scan ::
  "u8 list \<Rightarrow> (u8 list \<Rightarrow> storage_error + 'k::linorder) \<Rightarrow> 'v codec \<Rightarrow> rocks_db \<Rightarrow> storage_error + ('k, 'v) btree_map"
where
  "scan start parse c db = fold_res (scan_entry start parse c) [] db"

text \<open>\<open>key_bytes[a..b]\<close> panics out of range, \<open>get(a..b)\<close> does not.\<close>

definition key_slice :: "nat \<Rightarrow> nat \<Rightarrow> u8 list \<Rightarrow> storage_error + u8 list" where
  "key_slice a b bytes = (if length bytes < b then Inl Panicked else Inr (take (b - a) (drop a bytes)))"

definition rocks_accounts :: "store_codecs \<Rightarrow> rocks_db \<Rightarrow> storage_error + (address, account) btree_map" where
  "rocks_accounts C = scan (key ''acct'' [])
     (\<lambda>bytes. bind_res (key_slice 5 37 bytes) (\<lambda>raw. Inr (Address (array_of_bytes raw)))) (cd_account C)"

definition rocks_get_evm_account ::
  "store_codecs \<Rightarrow> evm_address \<Rightarrow> rocks_db \<Rightarrow> storage_error + evm_account_state option" where
  "rocks_get_evm_account C a = get_value (cd_evm_account C) (evm_account_key a)"

definition rocks_put_evm_account :: "store_codecs \<Rightarrow> evm_address \<Rightarrow> evm_account_state \<Rightarrow> unit rocks_action" where
  "rocks_put_evm_account C a acct = put_value (cd_evm_account C) (evm_account_key a) acct"

definition rocks_evm_accounts ::
  "store_codecs \<Rightarrow> rocks_db \<Rightarrow> storage_error + (evm_address, evm_account_state) btree_map" where
  "rocks_evm_accounts C = scan (key ''evm-acct'' [])
     (\<lambda>bytes. bind_res (key_slice 9 29 bytes) (\<lambda>raw. Inr (EvmAddress (array_of_bytes raw)))) (cd_evm_account C)"

definition rocks_put_finalized_block :: "ext \<Rightarrow> store_codecs \<Rightarrow> finalized_block \<Rightarrow> unit rocks_action" where
  "rocks_put_finalized_block E C fb =
     act_then (put_value (cd_block C) (height_key (bh_height (bk_header (fb_block fb)))) fb)
    (act_then (put_value (cd_block C) (block_key (block_hash E (fb_block fb))) fb)
     (put_value (cd_block C) (meta ''latest'') fb))"

definition rocks_get_block_by_height ::
  "store_codecs \<Rightarrow> u64 \<Rightarrow> rocks_db \<Rightarrow> storage_error + finalized_block option" where
  "rocks_get_block_by_height C h = get_value (cd_block C) (height_key h)"

definition rocks_get_block_by_hash ::
  "store_codecs \<Rightarrow> hash32 \<Rightarrow> rocks_db \<Rightarrow> storage_error + finalized_block option" where
  "rocks_get_block_by_hash C h = get_value (cd_block C) (block_key h)"

definition rocks_latest_block :: "store_codecs \<Rightarrow> rocks_db \<Rightarrow> storage_error + finalized_block option" where
  "rocks_latest_block C = get_value (cd_block C) (meta ''latest'')"

definition rocks_put_receipt :: "store_codecs \<Rightarrow> receipt \<Rightarrow> unit rocks_action" where
  "rocks_put_receipt C r = put_value (cd_receipt C) (receipt_key (rc_tx_hash r)) r"

definition rocks_get_receipt :: "store_codecs \<Rightarrow> hash32 \<Rightarrow> rocks_db \<Rightarrow> storage_error + receipt option" where
  "rocks_get_receipt C h = get_value (cd_receipt C) (receipt_key h)"

definition rocks_put_consensus_snapshot :: "store_codecs \<Rightarrow> consensus_snapshot \<Rightarrow> unit rocks_action" where
  "rocks_put_consensus_snapshot C s = put_value (cd_snapshot C) (meta ''consensus'') s"

definition rocks_get_consensus_snapshot ::
  "store_codecs \<Rightarrow> rocks_db \<Rightarrow> storage_error + consensus_snapshot option" where
  "rocks_get_consensus_snapshot C = get_value (cd_snapshot C) (meta ''consensus'')"

text \<open>\<open>unwrap_or\<close>\<close>

definition unwrap_or :: "'a \<Rightarrow> 'a option \<Rightarrow> 'a" where
  "unwrap_or d x = (case x of None \<Rightarrow> d | Some a \<Rightarrow> a)"

definition rocks_append_consensus_wal :: "store_codecs \<Rightarrow> consensus_wal_entry \<Rightarrow> unit rocks_action" where
  "rocks_append_consensus_wal C entry =
     act_bind (\<lambda>db. (db, get_value (cd_index C) (meta ''consensus-wal-next'') db)) (\<lambda>stored.
     let next_index = unwrap_or 0 stored in
     act_then (put_value (cd_wal C) (wal_key next_index) entry)
     (put_value (cd_index C) (meta ''consensus-wal-next'') (next_index + 1)))"

definition parse_wal_key :: "u8 list \<Rightarrow> storage_error + u64" where
  "parse_wal_key bytes = (if length bytes < 22 then Inl (Backend ''malformed consensus wal index'')
     else Inr (array_of_bytes (rev (take 8 (drop 14 bytes)))))"

definition rocks_wal_entries :: "store_codecs \<Rightarrow> rocks_db \<Rightarrow> storage_error + (u64, consensus_wal_entry) btree_map" where
  "rocks_wal_entries C = scan (key ''consensus-wal'' []) parse_wal_key (cd_wal C)"

definition rocks_load_consensus_wal :: "store_codecs \<Rightarrow> rocks_db \<Rightarrow> storage_error + consensus_wal_entry list" where
  "rocks_load_consensus_wal C db = bind_res (rocks_wal_entries C db) (\<lambda>entries. Inr (bt_values entries))"

definition rocks_get_staking_state :: "store_codecs \<Rightarrow> rocks_db \<Rightarrow> storage_error + staking_state option" where
  "rocks_get_staking_state C = get_value (cd_staking C) (meta ''staking'')"

definition rocks_put_staking_state :: "store_codecs \<Rightarrow> staking_state \<Rightarrow> unit rocks_action" where
  "rocks_put_staking_state C s = put_value (cd_staking C) (meta ''staking'') s"

definition rocks_get_governance_state :: "store_codecs \<Rightarrow> rocks_db \<Rightarrow> storage_error + governance_state option" where
  "rocks_get_governance_state C = get_value (cd_governance C) (meta ''governance'')"

definition rocks_put_governance_state :: "store_codecs \<Rightarrow> governance_state \<Rightarrow> unit rocks_action" where
  "rocks_put_governance_state C g = put_value (cd_governance C) (meta ''governance'') g"

definition rocks_latest_epoch_transition ::
  "store_codecs \<Rightarrow> rocks_db \<Rightarrow> storage_error + epoch_transition option" where
  "rocks_latest_epoch_transition C = get_value (cd_epoch C) (meta ''epoch-latest'')"

definition rocks_put_epoch_transition :: "store_codecs \<Rightarrow> epoch_transition \<Rightarrow> unit rocks_action" where
  "rocks_put_epoch_transition C t =
     act_then (put_value (cd_epoch C) (epoch_key (et_epoch t)) t) (put_value (cd_epoch C) (meta ''epoch-latest'') t)"

text \<open>The batch of \<open>atomic_commit_block\<close> is encoded before anything is written.\<close>

definition put_ops :: "'v codec \<Rightarrow> ('a \<Rightarrow> u8 list) \<Rightarrow> ('a \<Rightarrow> 'v) \<Rightarrow> batch_op list \<Rightarrow> 'a list \<Rightarrow> storage_error + batch_op list"
where
  "put_ops c k v ops xs = fold_res (\<lambda>ops x. bind_res (encode c (v x)) (\<lambda>bytes. Inr (ops @ [BatchPut (k x) bytes]))) ops xs"

definition commit_batch ::
  "ext \<Rightarrow> store_codecs \<Rightarrow> finalized_block \<Rightarrow> (address, account) btree_map \<Rightarrow> storage_error + batch_op list" where
  "commit_batch E C fb accts =
     bind_res (put_ops (cd_account C) (\<lambda>e. account_key (fst e)) snd [] accts) (\<lambda>ops.
     bind_res (put_ops (cd_receipt C) (\<lambda>r. receipt_key (rc_tx_hash r)) (\<lambda>r. r) ops (fb_receipts fb)) (\<lambda>ops.
     bind_res (encode (cd_block C) fb) (\<lambda>bytes.
     Inr (ops @ [BatchPut (height_key (bh_height (bk_header (fb_block fb)))) bytes,
       BatchPut (block_key (block_hash E (fb_block fb))) bytes, BatchPut (meta ''latest'') bytes]))))"

definition rocks_atomic_commit_block ::
  "ext \<Rightarrow> store_codecs \<Rightarrow> finalized_block \<Rightarrow> (address, account) btree_map \<Rightarrow> unit rocks_action" where
  "rocks_atomic_commit_block E C fb accts =
     act_bind (act_lift (commit_batch E C fb accts)) (\<lambda>ops. act_write (write_batch ops))"

text \<open>The log is compacted by position: \<open>enumerate\<close> numbers the entries that are left.\<close>

definition rocks_compact_consensus_wal :: "store_codecs \<Rightarrow> u64 \<Rightarrow> nat rocks_action" where
  "rocks_compact_consensus_wal C below_height =
     act_bind (\<lambda>db. (db, rocks_load_consensus_wal C db)) (\<lambda>entries.
     let low = filter (\<lambda>(_, entry). wal_height entry < below_height) (enumerate 0 entries) in
     act_bind (act_write (if low = [] then (\<lambda>db. db)
       else write_batch (map (\<lambda>(index, _). BatchDelete (wal_key (word_of_nat index))) low))) (\<lambda>_.
     act_return (length low)))"

definition rocks_put_slashing_protection ::
  "store_codecs \<Rightarrow> address \<Rightarrow> slashing_protection \<Rightarrow> unit rocks_action" where
  "rocks_put_slashing_protection C a p = put_value (cd_protection C) (protection_key a) p"

definition rocks_get_slashing_protection ::
  "store_codecs \<Rightarrow> address \<Rightarrow> rocks_db \<Rightarrow> storage_error + slashing_protection option" where
  "rocks_get_slashing_protection C a = get_value (cd_protection C) (protection_key a)"

definition rocks_put_gas_pricing :: "store_codecs \<Rightarrow> gas_pricing_state \<Rightarrow> unit rocks_action" where
  "rocks_put_gas_pricing C g = put_value (cd_gas C) (meta ''gas-pricing'') g"

definition rocks_get_gas_pricing :: "store_codecs \<Rightarrow> rocks_db \<Rightarrow> storage_error + gas_pricing_state option" where
  "rocks_get_gas_pricing C = get_value (cd_gas C) (meta ''gas-pricing'')"

definition prune_ops :: "ext \<Rightarrow> store_codecs \<Rightarrow> rocks_db \<Rightarrow> u64 \<Rightarrow> batch_op list" where
  "prune_ops E C db h = (case map_of db (height_key h) of
       None \<Rightarrow> []
     | Some bytes \<Rightarrow> (case dec (cd_block C) bytes of
          Some fb \<Rightarrow> [BatchDelete (block_key (block_hash E (fb_block fb)))] | None \<Rightarrow> []) @ [BatchDelete (height_key h)])"

definition rocks_prune_blocks_below :: "ext \<Rightarrow> store_codecs \<Rightarrow> u64 \<Rightarrow> nat rocks_action" where
  "rocks_prune_blocks_below E C height = (\<lambda>db.
     let heights = map word_of_nat [0..<unat height];
         removed = length (filter (\<lambda>h. map_of db (height_key h) \<noteq> None) heights) in
     (if 0 < removed then write_batch (concat (map (prune_ops E C db) heights)) db else db, Inr removed))"

definition rocks_put_evm_logs :: "store_codecs \<Rightarrow> u64 \<Rightarrow> evm_log list \<Rightarrow> unit rocks_action" where
  "rocks_put_evm_logs C h logs = put_value (cd_logs C) (logs_key h) logs"

definition rocks_get_evm_logs_by_height :: "store_codecs \<Rightarrow> u64 \<Rightarrow> rocks_db \<Rightarrow> storage_error + evm_log list" where
  "rocks_get_evm_logs_by_height C h db =
     bind_res (get_value (cd_logs C) (logs_key h) db) (\<lambda>logs. Inr (unwrap_or [] logs))"

definition rocks_get_evm_logs_range ::
  "store_codecs \<Rightarrow> u64 \<Rightarrow> u64 \<Rightarrow> rocks_db \<Rightarrow> storage_error + (u64 \<times> evm_log) list" where
  "rocks_get_evm_logs_range C from_height to_height db =
     fold_res (\<lambda>result h. bind_res (rocks_get_evm_logs_by_height C h db) (\<lambda>logs. Inr (result @ map (Pair h) logs)))
       [] (map word_of_nat [unat from_height..<Suc (unat to_height)])"

section \<open>Keys of different name spaces\<close>

definition char_bits :: "char \<Rightarrow> bool list" where
  "char_bits c = [digit0 c, digit1 c, digit2 c, digit3 c, digit4 c, digit5 c, digit6 c, digit7 c]"

lemma bit_of_char: "n < 8 \<Longrightarrow> bit (of_char c :: u8) n \<longleftrightarrow> char_bits c ! n"
  by (simp only: of_char_def bit_horner_sum_bit_iff char_bits_def) simp

lemma of_char_inject [simp]: "(of_char c :: u8) = of_char d \<longleftrightarrow> c = d"
proof
  assume eq: "(of_char c :: u8) = of_char d"
  have "char_bits c = char_bits d"
  proof (rule nth_equalityI)
    show "length (char_bits c) = length (char_bits d)" by (simp add: char_bits_def)
    fix n
    assume "n < length (char_bits c)"
    then have "n < 8" by (simp add: char_bits_def)
    then show "char_bits c ! n = char_bits d ! n" using eq bit_of_char by metis
  qed
  then show "c = d" by (cases c; cases d) (simp add: char_bits_def)
qed simp

lemma colon_of_char: "(0x3a :: u8) = of_char CHR '':''"
  by code_simp

lemma string_bytes_inject [simp]: "string_bytes s = string_bytes t \<longleftrightarrow> s = t"
  unfolding string_bytes_def by (rule inj_map_eq_map) (simp add: inj_on_def)

lemma namespace_of_key:
  assumes "CHR '':'' \<notin> set ns"
  shows "takeWhile (\<lambda>b. b \<noteq> 0x3a) (key ns suffix) = string_bytes ns"
proof -
  have "b \<noteq> 0x3a" if "b \<in> set (string_bytes ns)" for b
  proof
    assume "b = 0x3a"
    obtain c where c: "c \<in> set ns" "b = of_char c" using \<open>b \<in> set (string_bytes ns)\<close> by (auto simp: string_bytes_def)
    have "(of_char c :: u8) = of_char CHR '':''" using c(2) \<open>b = 0x3a\<close> colon_of_char by (rule trans [OF sym trans])
    then show False using c(1) assms by (simp only: of_char_inject)
  qed
  then have "takeWhile (\<lambda>b. b \<noteq> 0x3a) (string_bytes ns @ 0x3a # suffix) = string_bytes ns @ takeWhile (\<lambda>b. b \<noteq> 0x3a) (0x3a # suffix)"
    by (rule takeWhile_append2)
  then show ?thesis by (simp add: key_def)
qed

lemma key_inject [simp]:
  assumes "CHR '':'' \<notin> set ns" "CHR '':'' \<notin> set ms"
  shows "key ns s = key ms t \<longleftrightarrow> ns = ms \<and> s = t"
proof
  assume eq: "key ns s = key ms t"
  then have "string_bytes ns = string_bytes ms" using namespace_of_key [OF assms(1)] namespace_of_key [OF assms(2)] by metis
  then show "ns = ms \<and> s = t" using eq by (simp add: key_def)
qed simp

lemma key_start:
  assumes "CHR '':'' \<notin> set ns" "CHR '':'' \<notin> set ms"
  shows "take (length (key ns [])) (key ms t) = key ns [] \<longleftrightarrow> ns = ms"
proof
  assume start: "take (length (key ns [])) (key ms t) = key ns []"
  have "key ms t = key ns [] @ drop (length (key ns [])) (key ms t)"
    using append_take_drop_id [of "length (key ns [])" "key ms t"] unfolding start by simp
  then have "key ms t = key ns (drop (length (key ns [])) (key ms t))" by (simp add: key_def)
  then show "ns = ms" using key_inject [OF assms] by metis
qed (simp add: key_def)

section \<open>Tables and cells\<close>

text \<open>What the documentation of bincode promises of a codec: decoding returns what was encoded.\<close>

definition codec_ok :: "'v codec \<Rightarrow> bool" where
  "codec_ok c \<longleftrightarrow> (\<forall>v bytes. enc c v = Some bytes \<longrightarrow> dec c bytes = Some v)"

text \<open>A name space holds exactly the map \<open>m\<close>, a cell of the metadata exactly the value \<open>v\<close>.\<close>

definition table_rel :: "'v codec \<Rightarrow> string \<Rightarrow> ('k \<Rightarrow> u8 list) \<Rightarrow> rocks_db \<Rightarrow> ('k \<Rightarrow> 'v option) \<Rightarrow> bool" where
  "table_rel c ns f db m \<longleftrightarrow> (\<forall>x. get_value c (key ns (f x)) db = Inr (m x)) \<and>
     (\<forall>k v. map_of db k = Some v \<longrightarrow> take (length (key ns [])) k = key ns [] \<longrightarrow> (\<exists>x. k = key ns (f x)))"

definition cell_rel :: "'v codec \<Rightarrow> string \<Rightarrow> rocks_db \<Rightarrow> 'v option \<Rightarrow> bool" where
  "cell_rel c name db v \<longleftrightarrow> get_value c (meta name) db = Inr v"

lemma get_value_insert_same: "dec c b = Some v \<Longrightarrow> get_value c k (bt_insert k b db) = Inr (Some v)"
  by (simp add: get_value_def decode_def)

lemma get_value_other: "map_of db' k = map_of db k \<Longrightarrow> get_value c k db' = get_value c k db"
  by (simp add: get_value_def)

lemma get_value_remove: "map_of db k = None \<Longrightarrow> get_value c k db = Inr None"
  by (simp add: get_value_def)

lemma cell_put_same:
  "dec c b = Some v \<Longrightarrow> cell_rel c name (bt_insert (key ''meta'' (string_bytes name)) b db) (Some v)"
  by (simp add: cell_rel_def meta_def get_value_insert_same)

lemma cell_put_other:
  "CHR '':'' \<notin> set ms \<Longrightarrow> \<not> (ms = ''meta'' \<and> y = string_bytes name) \<Longrightarrow>
     cell_rel c name (bt_insert (key ms y) b db) v = cell_rel c name db v"
  by (auto simp: cell_rel_def meta_def get_value_def)

lemma table_insert_same:
  assumes "dec c b = Some v" "inj f" "CHR '':'' \<notin> set ns" "table_rel c ns f db m"
  shows "table_rel c ns f (bt_insert (key ns (f x)) b db) (m(x \<mapsto> v))"
  using assms by (auto simp: table_rel_def get_value_def decode_def inj_eq)

lemma table_insert_other:
  assumes "ms \<noteq> ns" "CHR '':'' \<notin> set ns" "CHR '':'' \<notin> set ms" "table_rel c ns f db m"
  shows "table_rel c ns f (bt_insert (key ms y) b db) m"
  using assms by (auto simp: table_rel_def get_value_def key_start split: if_splits)

lemma scan_fold:
  assumes parse: "\<And>x. parse (key ns (f x)) = Inr x" and "inj f" and "CHR '':'' \<notin> set ns"
    and shape: "\<And>k v. (k, v) \<in> set db \<Longrightarrow> take (length (key ns [])) k = key ns [] \<Longrightarrow>
      \<exists>x w. k = key ns (f x) \<and> dec c v = Some w \<and> m x = Some w"
    and "bt_wf out"
  shows "\<exists>out'. fold_res (scan_entry (key ns []) parse c) out db = Inr out' \<and> bt_wf out' \<and>
    (\<forall>x. map_of out' x = (if key ns (f x) \<in> fst ` set db then m x else map_of out x))"
  using shape \<open>bt_wf out\<close>
proof (induction db arbitrary: out)
  case (Cons e db)
  obtain k v where e: "e = (k, v)" by (cases e)
  show ?case
  proof (cases "take (length (key ns [])) k = key ns []")
    case True
    then obtain x w where x: "k = key ns (f x)" "dec c v = Some w" "m x = Some w"
      using Cons.prems(1) [of k v] e by auto
    have step: "scan_entry (key ns []) parse c out e = Inr (bt_insert x w out)"
      using True x(2) parse [of x] by (simp add: scan_entry_def e decode_def x(1))
    obtain out' where out': "fold_res (scan_entry (key ns []) parse c) (bt_insert x w out) db = Inr out'" "bt_wf out'"
      "\<forall>y. map_of out' y = (if key ns (f y) \<in> fst ` set db then m y else map_of (bt_insert x w out) y)"
      using Cons.IH [of "bt_insert x w out"] Cons.prems by auto
    have same: "key ns (f y) = k \<longleftrightarrow> y = x" for y using x(1) assms(2,3) by (simp add: inj_eq)
    show ?thesis
    proof (intro exI [of _ out'] conjI allI)
      fix y
      show "map_of out' y = (if key ns (f y) \<in> fst ` set (e # db) then m y else map_of out y)"
        using out'(3) same [of y] x(3) by (auto simp: e)
    qed (use out' step in simp_all)
  next
    case False
    then have "scan_entry (key ns []) parse c out e = Inr out" by (simp add: scan_entry_def e)
    moreover have "key ns (f x) \<noteq> k" for x using False key_start [OF assms(3,3)] by auto
    moreover obtain out' where "fold_res (scan_entry (key ns []) parse c) out db = Inr out'" "bt_wf out'"
      "\<forall>y. map_of out' y = (if key ns (f y) \<in> fst ` set db then m y else map_of out y)"
      using Cons.IH [of out] Cons.prems by auto
    ultimately show ?thesis by (intro exI [of _ out']) (auto simp: e)
  qed
qed simp

lemma scan_table:
  assumes "table_rel c ns f db (map_of out)" "bt_wf db" "bt_wf out" "\<And>x. parse (key ns (f x)) = Inr x" "inj f"
    and "CHR '':'' \<notin> set ns"
  shows "scan (key ns []) parse c db = Inr out"
proof -
  have shape: "\<exists>x w. k = key ns (f x) \<and> dec c v = Some w \<and> map_of out x = Some w"
    if mem: "(k, v) \<in> set db" and start: "take (length (key ns [])) k = key ns []" for k v
  proof -
    have at: "map_of db k = Some v" using in_set_map_of [OF bt_wf_distinct [OF assms(2)] mem] by simp
    then obtain x where x: "k = key ns (f x)" using assms(1) start by (auto simp: table_rel_def)
    have "get_value c k db = Inr (map_of out x)" using assms(1) by (simp add: table_rel_def x)
    then have "\<exists>w. dec c v = Some w \<and> map_of out x = Some w"
      using at x by (cases "dec c v"; cases "map_of out x") (auto simp: get_value_def decode_def ok_or_def)
    then show ?thesis using x by blast
  qed
  obtain out' where out': "fold_res (scan_entry (key ns []) parse c) [] db = Inr out'" "bt_wf out'"
    "\<forall>x. map_of out' x = (if key ns (f x) \<in> fst ` set db then map_of out x else None)"
    using scan_fold [where f = f and ns = ns and parse = parse and c = c and db = db and m = "map_of out" and out = "[]",
        OF assms(4,5,6) shape bt_wf_Nil] by auto
  have "map_of out x = None" if "key ns (f x) \<notin> fst ` set db" for x
  proof -
    have "map_of db (key ns (f x)) = None" using that by (simp add: map_of_eq_None_iff)
    then have "get_value c (key ns (f x)) db = Inr None" by (rule get_value_remove)
    then show ?thesis using assms(1) by (simp add: table_rel_def)
  qed
  then have "map_of out' = map_of out" using out'(3) by (auto simp: fun_eq_iff)
  then show ?thesis using bt_eqI [OF out'(2) assms(3)] out'(1) by (simp add: scan_def)
qed

section \<open>The refinement\<close>

datatype store_write =
    WriteGenesis genesis
  | WriteAccount address account
  | WriteEvmAccount evm_address evm_account_state
  | WriteBlock finalized_block
  | WriteReceipt receipt
  | WriteSnapshot consensus_snapshot
  | AppendWal consensus_wal_entry
  | WriteStaking staking_state
  | WriteGovernance governance_state
  | WriteEpoch epoch_transition
  | CommitBlock finalized_block "(address, account) btree_map"
  | WriteProtection address slashing_protection
  | WriteGasPricing gas_pricing_state
  | WriteLogs u64 "evm_log list"
  | PruneBelow u64

fun mem_write :: "ext \<Rightarrow> memory_store \<Rightarrow> store_write \<Rightarrow> memory_store" where
  "mem_write E s (WriteGenesis g) = put_genesis s g"
| "mem_write E s (WriteAccount a acct) = put_account s a acct"
| "mem_write E s (WriteEvmAccount a acct) = put_evm_account s a acct"
| "mem_write E s (WriteBlock fb) = put_finalized_block E s fb"
| "mem_write E s (WriteReceipt r) = put_receipt s r"
| "mem_write E s (WriteSnapshot c) = put_consensus_snapshot s c"
| "mem_write E s (AppendWal e) = append_consensus_wal s e"
| "mem_write E s (WriteStaking st) = put_staking_state s st"
| "mem_write E s (WriteGovernance g) = put_governance_state s g"
| "mem_write E s (WriteEpoch t) = put_epoch_transition s t"
| "mem_write E s (CommitBlock fb accts) = atomic_commit_block E s fb accts"
| "mem_write E s (WriteProtection a p) = put_slashing_protection s a p"
| "mem_write E s (WriteGasPricing g) = put_gas_pricing s g"
| "mem_write E s (WriteLogs h logs) = put_evm_logs s h logs"
| "mem_write E s (PruneBelow h) = fst (prune_blocks_below E s h)"

fun rocks_write :: "ext \<Rightarrow> store_codecs \<Rightarrow> store_write \<Rightarrow> unit rocks_action" where
  "rocks_write E C (WriteGenesis g) = rocks_put_genesis C g"
| "rocks_write E C (WriteAccount a acct) = rocks_put_account C a acct"
| "rocks_write E C (WriteEvmAccount a acct) = rocks_put_evm_account C a acct"
| "rocks_write E C (WriteBlock fb) = rocks_put_finalized_block E C fb"
| "rocks_write E C (WriteReceipt r) = rocks_put_receipt C r"
| "rocks_write E C (WriteSnapshot c) = rocks_put_consensus_snapshot C c"
| "rocks_write E C (AppendWal e) = rocks_append_consensus_wal C e"
| "rocks_write E C (WriteStaking st) = rocks_put_staking_state C st"
| "rocks_write E C (WriteGovernance g) = rocks_put_governance_state C g"
| "rocks_write E C (WriteEpoch t) = rocks_put_epoch_transition C t"
| "rocks_write E C (CommitBlock fb accts) = rocks_atomic_commit_block E C fb accts"
| "rocks_write E C (WriteProtection a p) = rocks_put_slashing_protection C a p"
| "rocks_write E C (WriteGasPricing g) = rocks_put_gas_pricing C g"
| "rocks_write E C (WriteLogs h logs) = rocks_put_evm_logs C h logs"
| "rocks_write E C (PruneBelow h) = act_bind (rocks_prune_blocks_below E C h) (\<lambda>_. act_return ())"

text \<open>The block and the epoch transition written last.\<close>

fun last_block :: "finalized_block option \<Rightarrow> store_write \<Rightarrow> finalized_block option" where
  "last_block l (WriteBlock fb) = Some fb"
| "last_block l (CommitBlock fb _) = Some fb"
| "last_block l _ = l"

fun last_epoch :: "epoch_transition option \<Rightarrow> store_write \<Rightarrow> epoch_transition option" where
  "last_epoch t (WriteEpoch t') = Some t'"
| "last_epoch t _ = t"

definition codecs_ok :: "store_codecs \<Rightarrow> bool" where
  "codecs_ok C \<longleftrightarrow> codec_ok (cd_genesis C) \<and> codec_ok (cd_account C) \<and> codec_ok (cd_evm_account C) \<and>
     codec_ok (cd_block C) \<and> codec_ok (cd_receipt C) \<and> codec_ok (cd_snapshot C) \<and> codec_ok (cd_wal C) \<and>
     codec_ok (cd_index C) \<and> codec_ok (cd_staking C) \<and> codec_ok (cd_governance C) \<and> codec_ok (cd_epoch C) \<and>
     codec_ok (cd_protection C) \<and> codec_ok (cd_gas C) \<and> codec_ok (cd_logs C)"

text \<open>The log as a table: the entry at each index.\<close>

definition wal_map :: "consensus_wal_entry list \<Rightarrow> u64 \<Rightarrow> consensus_wal_entry option" where
  "wal_map wal i = (if unat i < length wal then Some (wal ! unat i) else None)"

definition rocks_rel ::
  "store_codecs \<Rightarrow> rocks_db \<Rightarrow> memory_store \<Rightarrow> finalized_block option \<Rightarrow> epoch_transition option \<Rightarrow> bool" where
  "rocks_rel C db s l t \<longleftrightarrow> bt_wf db \<and> length (ms_consensus_wal s) < 2 ^ 64 \<and>
     table_rel (cd_account C) ''acct'' (\<lambda>a. array_bytes 32 (address_raw a)) db (map_of (ms_accounts s)) \<and>
     table_rel (cd_evm_account C) ''evm-acct'' (\<lambda>a. array_bytes 20 (evm_address_raw a)) db (map_of (ms_evm_accounts s)) \<and>
     table_rel (cd_block C) ''block-h'' (to_le_bytes 8) db (map_of (ms_blocks_by_height s)) \<and>
     table_rel (cd_block C) ''block-b'' (\<lambda>h. array_bytes 32 (hash_raw h)) db (map_of (ms_blocks_by_hash s)) \<and>
     table_rel (cd_receipt C) ''rcpt'' (\<lambda>h. array_bytes 32 (hash_raw h)) db (map_of (ms_receipts s)) \<and>
     table_rel (cd_wal C) ''consensus-wal'' (to_le_bytes 8) db (wal_map (ms_consensus_wal s)) \<and>
     table_rel (cd_protection C) ''slash-prot'' (\<lambda>a. array_bytes 32 (address_raw a)) db (map_of (ms_slashing_protection s)) \<and>
     table_rel (cd_logs C) ''evm-logs'' (to_le_bytes 8) db (map_of (ms_evm_logs s)) \<and>
     cell_rel (cd_genesis C) ''genesis'' db (ms_genesis s) \<and>
     cell_rel (cd_snapshot C) ''consensus'' db (ms_snapshot s) \<and>
     cell_rel (cd_staking C) ''staking'' db (ms_staking_state s) \<and>
     cell_rel (cd_governance C) ''governance'' db (ms_governance_state s) \<and>
     cell_rel (cd_gas C) ''gas-pricing'' db (ms_gas_pricing s) \<and>
     cell_rel (cd_block C) ''latest'' db l \<and>
     cell_rel (cd_epoch C) ''epoch-latest'' db t \<and>
     (\<exists>n. cell_rel (cd_index C) ''consensus-wal-next'' db n \<and> unwrap_or 0 n = word_of_nat (length (ms_consensus_wal s)))"

lemma inj_address_bytes: "inj (\<lambda>a. array_bytes 32 (address_raw a))" "inj (\<lambda>a. array_bytes 20 (evm_address_raw a))"
    "inj (\<lambda>h. array_bytes 32 (hash_raw h))"
  by (auto simp: inj_def array_bytes_inject address.expand evm_address.expand hash32.expand)

lemma inj_le_bytes: "inj (to_le_bytes 8 :: u64 \<Rightarrow> u8 list)"
  by (simp add: inj_def to_le_bytes_inject)

lemmas key_injections = inj_address_bytes inj_le_bytes

lemma put_value_Inr:
  "codec_ok c \<Longrightarrow> put_value c k v db = (db', Inr ()) \<Longrightarrow> \<exists>b. dec c b = Some v \<and> db' = bt_insert k b db"
  by (auto simp: put_value_def act_bind_Inr encode_def codec_ok_def act_defs)

lemmas table_puts = table_insert_same [OF _ inj_address_bytes(1)] table_insert_same [OF _ inj_address_bytes(2)]
  table_insert_same [OF _ inj_address_bytes(3)] table_insert_same [OF _ inj_le_bytes]

lemmas put_rules = table_puts table_insert_other cell_put_same cell_put_other

lemma wal_map_append:
  assumes "length wal < 2 ^ 64"
  shows "wal_map (wal @ [e]) = (wal_map wal)(word_of_nat (length wal) \<mapsto> e)"
proof
  fix i :: u64
  have "unat (word_of_nat (length wal) :: u64) = length wal" using assms by (simp add: unat_of_nat)
  then have "i = word_of_nat (length wal) \<longleftrightarrow> unat i = length wal" by (metis word_unat_eq_iff)
  then show "wal_map (wal @ [e]) i = ((wal_map wal)(word_of_nat (length wal) \<mapsto> e)) i"
    by (auto simp: wal_map_def nth_append)
qed

lemma rel_wal_room: "rocks_rel C db s l t \<Longrightarrow> length (ms_consensus_wal s) < 2 ^ 64"
  by (simp add: rocks_rel_def)

lemma rel_puts:
  assumes "rocks_rel C db s l t"
  shows rel_put_account: "dec (cd_account C) b = Some acct \<Longrightarrow>
      rocks_rel C (bt_insert (account_key a) b db) (put_account s a acct) l t"
    and rel_put_receipt: "dec (cd_receipt C) b = Some r \<Longrightarrow>
      rocks_rel C (bt_insert (receipt_key (rc_tx_hash r)) b db) (put_receipt s r) l t"
    and "dec (cd_genesis C) b = Some g \<Longrightarrow>
      rocks_rel C (bt_insert (meta ''genesis'') b db) (put_genesis s g) l t"
    and "dec (cd_evm_account C) b = Some ea \<Longrightarrow>
      rocks_rel C (bt_insert (evm_account_key ee) b db) (put_evm_account s ee ea) l t"
    and "dec (cd_snapshot C) b = Some cs \<Longrightarrow>
      rocks_rel C (bt_insert (meta ''consensus'') b db) (put_consensus_snapshot s cs) l t"
    and "dec (cd_staking C) b = Some st \<Longrightarrow>
      rocks_rel C (bt_insert (meta ''staking'') b db) (put_staking_state s st) l t"
    and "dec (cd_governance C) b = Some gv \<Longrightarrow>
      rocks_rel C (bt_insert (meta ''governance'') b db) (put_governance_state s gv) l t"
    and "dec (cd_protection C) b = Some p \<Longrightarrow>
      rocks_rel C (bt_insert (protection_key a) b db) (put_slashing_protection s a p) l t"
    and "dec (cd_gas C) b = Some gp \<Longrightarrow>
      rocks_rel C (bt_insert (meta ''gas-pricing'') b db) (put_gas_pricing s gp) l t"
    and "dec (cd_logs C) b = Some logs \<Longrightarrow>
      rocks_rel C (bt_insert (logs_key h) b db) (put_evm_logs s h logs) l t"
  using assms unfolding rocks_rel_def by (simp_all add: store_ops key_defs put_rules)

lemma rel_put_block:
  assumes "rocks_rel C db s l t" "dec (cd_block C) b = Some fb"
  shows "rocks_rel C (bt_insert (meta ''latest'') b (bt_insert (block_key (block_hash E (fb_block fb))) b
      (bt_insert (height_key (bh_height (bk_header (fb_block fb)))) b db))) (put_finalized_block E s fb) (Some fb) t"
  using assms unfolding rocks_rel_def by (simp add: put_finalized_block_def key_defs put_rules)

lemma rel_append_wal:
  assumes "rocks_rel C db s l t" "codecs_ok C" "Suc (length (ms_consensus_wal s)) < 2 ^ 64"
    and "rocks_append_consensus_wal C e db = (db', Inr ())"
  shows "rocks_rel C db' (append_consensus_wal s e) l t"
proof -
  define k :: u64 where "k = word_of_nat (length (ms_consensus_wal s))"
  obtain n where n: "cell_rel (cd_index C) ''consensus-wal-next'' db n" "unwrap_or 0 n = k"
    using assms(1) by (auto simp: rocks_rel_def k_def)
  have "act_then (put_value (cd_wal C) (wal_key k) e) (put_value (cd_index C) (meta ''consensus-wal-next'') (k + 1)) db
      = (db', Inr ())"
    using assms(4) n by (simp add: rocks_append_consensus_wal_def act_bind_def cell_rel_def)
  then obtain t1 where "put_value (cd_wal C) (wal_key k) e db = (t1, Inr ())"
    "put_value (cd_index C) (meta ''consensus-wal-next'') (k + 1) t1 = (db', Inr ())" by (auto simp: act_then_Inr)
  moreover have "codec_ok (cd_wal C)" "codec_ok (cd_index C)" using assms(2) by (simp_all add: codecs_ok_def)
  ultimately obtain b1 b2 where b: "dec (cd_wal C) b1 = Some e" "dec (cd_index C) b2 = Some (k + 1)"
    "db' = bt_insert (meta ''consensus-wal-next'') b2 (bt_insert (wal_key k) b1 db)" by (metis put_value_Inr)
  have "\<exists>n. cell_rel (cd_index C) ''consensus-wal-next'' db' n \<and> unwrap_or 0 n = word_of_nat (Suc (length (ms_consensus_wal s)))"
    using b(1,2) by (intro exI [of _ "Some (k + 1)"]) (simp add: b(3) key_defs put_rules unwrap_or_def k_def add.commute)
  then show ?thesis
    using assms(1,3) b(1,2) unfolding rocks_rel_def
    by (simp add: b(3) append_consensus_wal_def key_defs put_rules wal_map_append flip: k_def)
qed

text \<open>The batch of \<open>atomic_commit_block\<close>.\<close>

lemma write_batch_snoc [simp]: "write_batch (ops @ [op]) db = apply_op op (write_batch ops db)"
  by (simp add: write_batch_def)

lemma put_ops_snoc:
  assumes "put_ops c k v ops xs = Inr ops'" "codec_ok c" "R (write_batch ops db) s"
    and "\<And>b db s x. dec c b = Some (v x) \<Longrightarrow> R db s \<Longrightarrow> R (bt_insert (k x) b db) (g s x)"
  shows "R (write_batch ops' db) (foldl g s xs)"
  using assms(1,3)
proof (induction xs arbitrary: ops s)
  case Nil
  then show ?case by (simp add: put_ops_def)
next
  case (Cons x xs)
  then obtain b where b: "enc c (v x) = Some b" "put_ops c k v (ops @ [BatchPut (k x) b]) xs = Inr ops'"
    by (auto simp: put_ops_def encode_def res_eq)
  have "dec c b = Some (v x)" using b(1) assms(2) by (simp add: codec_ok_def)
  then have "R (write_batch (ops @ [BatchPut (k x) b]) db) (g s x)" using Cons.prems(2) assms(4) by simp
  then show ?case using Cons.IH [OF b(2)] by simp
qed

lemma foldl_put_account: "foldl (\<lambda>s e. put_account s (fst e) (snd e)) s xs
    = s\<lparr>ms_accounts := insert_all fst snd xs (ms_accounts s)\<rparr>"
  by (induction xs rule: rev_induct) (auto simp: insert_all_def put_account_def)

lemma foldl_put_receipt: "foldl put_receipt s xs
    = s\<lparr>ms_receipts := insert_all rc_tx_hash (\<lambda>r. r) xs (ms_receipts s)\<rparr>"
  by (induction xs rule: rev_induct) (auto simp: insert_all_def put_receipt_def)

lemma atomic_commit_as_puts: "atomic_commit_block E s fb accts = put_finalized_block E
    (foldl put_receipt (foldl (\<lambda>s e. put_account s (fst e) (snd e)) s accts) (fb_receipts fb)) fb"
  by (simp add: foldl_put_account foldl_put_receipt put_finalized_block_def atomic_commit_block_def)

lemma rel_commit:
  assumes "rocks_rel C db s l t" "codecs_ok C" "rocks_atomic_commit_block E C fb accts db = (db', Inr ())"
  shows "rocks_rel C db' (atomic_commit_block E s fb accts) (Some fb) t"
proof -
  obtain ops1 ops2 b where ops: "put_ops (cd_account C) (\<lambda>e. account_key (fst e)) snd [] accts = Inr ops1"
    "put_ops (cd_receipt C) (\<lambda>r. receipt_key (rc_tx_hash r)) (\<lambda>r. r) ops1 (fb_receipts fb) = Inr ops2"
    "enc (cd_block C) fb = Some b"
    "db' = write_batch (ops2 @ [BatchPut (height_key (bh_height (bk_header (fb_block fb)))) b,
       BatchPut (block_key (block_hash E (fb_block fb))) b, BatchPut (meta ''latest'') b]) db"
    using assms(3)
    by (auto simp: rocks_atomic_commit_block_def act_bind_Inr commit_batch_def encode_def res_eq act_defs)
  have ok: "codec_ok (cd_account C)" "codec_ok (cd_receipt C)" "codec_ok (cd_block C)"
    using assms(2) by (simp_all add: codecs_ok_def)
  have "rocks_rel C (write_batch ops1 db) (foldl (\<lambda>s e. put_account s (fst e) (snd e)) s accts) l t"
    by (rule put_ops_snoc [OF ops(1) ok(1), where R = "\<lambda>db s. rocks_rel C db s l t"])
      (use assms(1) in \<open>simp_all add: write_batch_def [of "[]"] rel_put_account\<close>)
  then have "rocks_rel C (write_batch ops2 db)
      (foldl put_receipt (foldl (\<lambda>s e. put_account s (fst e) (snd e)) s accts) (fb_receipts fb)) l t"
    by (rule put_ops_snoc [OF ops(2) ok(2), where R = "\<lambda>db s. rocks_rel C db s l t"]) (simp add: rel_put_receipt)
  moreover have "dec (cd_block C) b = Some fb" using ops(3) ok(3) by (simp add: codec_ok_def)
  moreover have "db' = bt_insert (meta ''latest'') b (bt_insert (block_key (block_hash E (fb_block fb))) b
      (bt_insert (height_key (bh_height (bk_header (fb_block fb)))) b (write_batch ops2 db)))"
    by (simp add: ops(4) write_batch_def)
  ultimately show ?thesis by (simp add: atomic_commit_as_puts rel_put_block)
qed

text \<open>Pruning deletes two keys per block.\<close>

lemma map_of_deletes:
  "\<forall>op \<in> set ops. \<exists>k. op = BatchDelete k \<Longrightarrow>
     map_of (write_batch ops db) k = (if BatchDelete k \<in> set ops then None else map_of db k)"
  by (induction ops rule: rev_induct) (auto simp: write_batch_def [of "[]"] split: if_split_asm)

lemma bt_wf_write_batch: "bt_wf db \<Longrightarrow> bt_wf (write_batch ops db)"
proof (induction ops rule: rev_induct)
  case (snoc op ops)
  then show ?case by (cases op) simp_all
qed (simp add: write_batch_def)

lemma table_delete:
  assumes "table_rel c ns f db m" "\<And>k. map_of db' k = (if k \<in> D then None else map_of db k)"
  shows "table_rel c ns f db' (\<lambda>x. if key ns (f x) \<in> D then None else m x)"
  using assms(1) unfolding table_rel_def by (auto simp: assms(2) get_value_def split: if_splits)

lemma cell_delete:
  assumes "cell_rel c name db v" "\<And>k. map_of db' k = (if k \<in> D then None else map_of db k)" "meta name \<notin> D"
  shows "cell_rel c name db' v"
  using assms(1,3) unfolding cell_rel_def by (simp add: assms(2) get_value_def)

lemma prune_steps_hash:
  "distinct ks \<Longrightarrow> map_of (ms_blocks_by_hash (foldl (prune_step E) s ks)) x
     = (if \<exists>k \<in> set ks. \<exists>fb. map_of (ms_blocks_by_height s) k = Some fb \<and> block_hash E (fb_block fb) = x then None
        else map_of (ms_blocks_by_hash s) x)"
proof (induction ks arbitrary: s)
  case (Cons k ks)
  have other: "map_of (ms_blocks_by_height (prune_step E s k)) j = map_of (ms_blocks_by_height s) j" if "j \<in> set ks" for j
    using that Cons.prems by (auto simp: prune_step_def split: option.split)
  have "map_of (ms_blocks_by_hash (prune_step E s k)) x =
      (if \<exists>fb. map_of (ms_blocks_by_height s) k = Some fb \<and> block_hash E (fb_block fb) = x then None
       else map_of (ms_blocks_by_hash s) x)"
    by (auto simp: prune_step_def split: option.split)
  then show ?case using Cons.IH [of "prune_step E s k"] Cons.prems other by auto
qed simp

lemma prune_steps_fields:
  "\<exists>bh bb. foldl (prune_step E) s ks = s\<lparr>ms_blocks_by_height := bh, ms_blocks_by_hash := bb\<rparr>"
proof (induction ks arbitrary: s)
  case Nil
  show ?case by (intro exI [of _ "ms_blocks_by_height s"] exI [of _ "ms_blocks_by_hash s"]) simp
next
  case (Cons k ks)
  have "\<exists>bh bb. prune_step E s k = s\<lparr>ms_blocks_by_height := bh, ms_blocks_by_hash := bb\<rparr>"
  proof (cases "map_of (ms_blocks_by_height s) k")
    case None
    then show ?thesis
      by (intro exI [of _ "ms_blocks_by_height s"] exI [of _ "ms_blocks_by_hash s"]) (simp add: prune_step_def)
  qed (auto simp: prune_step_def)
  then obtain bh bb where step: "prune_step E s k = s\<lparr>ms_blocks_by_height := bh, ms_blocks_by_hash := bb\<rparr>" by blast
  show ?case using Cons.IH [of "prune_step E s k"] by (auto simp: step)
qed

lemma heights_below: "set (map word_of_nat [0..<unat height]) = {h :: u64. h < height}"
proof -
  have "h \<in> word_of_nat ` {0..<unat height}" if "h < height" for h :: u64
    using that by (intro image_eqI [of _ _ "unat h"]) (simp_all add: word_less_nat_alt)
  moreover have "word_of_nat n < height" if "n < unat height" for n
    using that unsigned_less [of height, where ?'a = nat] by (simp add: word_less_nat_alt unat_of_nat)
  ultimately show ?thesis by auto
qed

lemma prune_ops_rel:
  assumes "table_rel (cd_block C) ''block-h'' (to_le_bytes 8) db (map_of m)"
  shows "prune_ops E C db h = (case map_of m h of None \<Rightarrow> []
      | Some fb \<Rightarrow> [BatchDelete (block_key (block_hash E (fb_block fb))), BatchDelete (height_key h)])"
proof -
  have "get_value (cd_block C) (height_key h) db = Inr (map_of m h)"
    using assms by (simp add: table_rel_def height_key_def)
  then show ?thesis
    by (cases "map_of db (height_key h)"; cases "map_of m h")
      (auto simp: prune_ops_def get_value_def decode_def ok_or_def split: option.splits)
qed

lemma rel_prune:
  assumes "rocks_rel C db s l t" "bt_wf (ms_blocks_by_height s)"
    and "rocks_prune_blocks_below E C height db = (db', r)"
  shows "rocks_rel C db' (fst (prune_blocks_below E s height)) l t"
proof -
  define ops where "ops = concat (map (prune_ops E C db) (map word_of_nat [0..<unat height]))"
  define m where "m = map_of (ms_blocks_by_height s)"
  define D where "D = {k. BatchDelete k \<in> set ops}"
  have table: "table_rel (cd_block C) ''block-h'' (to_le_bytes 8) db m" using assms(1) by (simp add: rocks_rel_def m_def)
  note prune = prune_ops_rel [OF table [unfolded m_def], of E, folded m_def]
  have D: "D = {k. \<exists>h fb. h < height \<and> m h = Some fb \<and> (k = height_key h \<or> k = block_key (block_hash E (fb_block fb)))}"
  proof (rule set_eqI)
    fix k
    have "BatchDelete k \<in> set (prune_ops E C db h) \<longleftrightarrow>
        (\<exists>fb. m h = Some fb \<and> (k = height_key h \<or> k = block_key (block_hash E (fb_block fb))))" for h
      by (cases "m h") (auto simp: prune)
    moreover have "k \<in> D \<longleftrightarrow> (\<exists>h < height. BatchDelete k \<in> set (prune_ops E C db h))"
      unfolding D_def ops_def set_concat set_map [of "prune_ops E C db"] heights_below by auto
    ultimately show "k \<in> D \<longleftrightarrow> k \<in> {k. \<exists>h fb. h < height \<and> m h = Some fb \<and>
        (k = height_key h \<or> k = block_key (block_hash E (fb_block fb)))}" by auto
  qed
  have none: "map_of db (height_key h) = None \<Longrightarrow> prune_ops E C db h = []" for h by (simp add: prune_ops_def)
  have "db' = write_batch ops db"
  proof (cases "filter (\<lambda>h. map_of db (height_key h) \<noteq> None) (map word_of_nat [0..<unat height]) = []")
    case True
    then have "ops = []" unfolding ops_def filter_empty_conv concat_eq_Nil_conv using none by auto
    then show ?thesis using assms(3) True by (simp add: rocks_prune_blocks_below_def Let_def write_batch_def)
  next
    case False
    then show ?thesis using assms(3) by (auto simp: rocks_prune_blocks_below_def Let_def ops_def)
  qed
  moreover have "\<forall>op \<in> set ops. \<exists>k. op = BatchDelete k"
    by (auto simp: ops_def prune split: option.splits)
  ultimately have at: "map_of db' k = (if k \<in> D then None else map_of db k)" for k
    using map_of_deletes [of ops db k] by (simp add: D_def)
  have wf: "bt_wf db'" using \<open>db' = write_batch ops db\<close> assms(1) by (simp add: rocks_rel_def bt_wf_write_batch)
  define ks where "ks = filter (\<lambda>k. k < height) (bt_keys (ms_blocks_by_height s))"
  obtain bh bb where fields: "foldl (prune_step E) s ks = s\<lparr>ms_blocks_by_height := bh, ms_blocks_by_hash := bb\<rparr>"
    using prune_steps_fields by blast
  have "distinct ks" using bt_wf_distinct [OF assms(2)] by (simp add: ks_def bt_keys_def)
  have in_ks: "h \<in> set ks \<longleftrightarrow> h < height \<and> m h \<noteq> None" for h
    using map_of_bt_keys [of h "ms_blocks_by_height s"] by (auto simp: ks_def m_def)
  have bh: "map_of bh = (\<lambda>h. if key ''block-h'' (to_le_bytes 8 h) \<in> D then None else m h)"
    using prune_steps_heights [of E s ks] by (auto simp: fields fun_eq_iff D key_defs in_ks m_def to_le_bytes_inject)
  have bb: "map_of bb = (\<lambda>x. if key ''block-b'' (array_bytes 32 (hash_raw x)) \<in> D then None
      else map_of (ms_blocks_by_hash s) x)"
  proof
    fix x
    have at_x: "map_of bb x = (if \<exists>k \<in> set ks. \<exists>fb. m k = Some fb \<and> block_hash E (fb_block fb) = x then None
        else map_of (ms_blocks_by_hash s) x)"
      using prune_steps_hash [OF \<open>distinct ks\<close>, of E s x] by (simp add: fields m_def)
    have raw: "hash_raw a = hash_raw b \<longleftrightarrow> a = b" for a b :: hash32 by (auto intro: hash32.expand)
    have "(\<exists>k \<in> set ks. \<exists>fb. m k = Some fb \<and> block_hash E (fb_block fb) = x)
        \<longleftrightarrow> key ''block-b'' (array_bytes 32 (hash_raw x)) \<in> D"
      by (auto simp: D key_defs in_ks Bex_def array_bytes_inject raw)
    then show "map_of bb x = (if key ''block-b'' (array_bytes 32 (hash_raw x)) \<in> D then None
        else map_of (ms_blocks_by_hash s) x)" using at_x by simp
  qed
  have tables: "table_rel c ns f db' n" if "table_rel c ns f db n" "\<And>x. key ns (f x) \<notin> D" for c ns f n
    using table_delete [OF that(1) at] that(2) by simp
  have others: "key ns y \<notin> D" if "ns \<noteq> ''block-h''" "ns \<noteq> ''block-b''" "CHR '':'' \<notin> set ns" for ns y
    using that by (auto simp: D key_defs)
  have cells: "cell_rel c name db' v" if "cell_rel c name db v" for c name v
    by (rule cell_delete [OF that at]) (simp add: meta_def others)
  have result: "fst (prune_blocks_below E s height) = s\<lparr>ms_blocks_by_height := bh, ms_blocks_by_hash := bb\<rparr>"
    by (simp add: prune_blocks_below_def Let_def fields flip: ks_def)
  note rel = assms(1) [unfolded rocks_rel_def]
  have by_height: "table_rel (cd_block C) ''block-h'' (to_le_bytes 8) db' (map_of bh)"
    using table_delete [OF table at] by (simp add: bh)
  have "table_rel (cd_block C) ''block-b'' (\<lambda>h. array_bytes 32 (hash_raw h)) db (map_of (ms_blocks_by_hash s))"
    using rel by blast
  from table_delete [OF this at]
  have by_hash: "table_rel (cd_block C) ''block-b'' (\<lambda>h. array_bytes 32 (hash_raw h)) db' (map_of bb)" by (simp add: bb)
  have "\<exists>n. cell_rel (cd_index C) ''consensus-wal-next'' db' n \<and> unwrap_or 0 n = word_of_nat (length (ms_consensus_wal s))"
    using rel cells by blast
  then show ?thesis
    using rel unfolding rocks_rel_def result
    by (intro conjI) (simp_all add: wf by_height by_hash tables others cells)
qed

lemma mem_write_wf: "store_wf E s \<Longrightarrow> store_wf E (mem_write E s w)"
  by (cases w) (simp_all add: store_wf_put store_wf_commit prune_blocks_below_def Let_def prune_steps_wf,
    simp_all add: store_wf_def store_ops)

lemma mem_write_wal:
  "ms_consensus_wal (mem_write E s w) = (case w of AppendWal e \<Rightarrow> ms_consensus_wal s @ [e] | _ \<Rightarrow> ms_consensus_wal s)"
proof (cases w)
  case (PruneBelow h)
  have "ms_consensus_wal (foldl (prune_step E) s ks) = ms_consensus_wal s" for ks
    using prune_steps_fields [of E s ks] by auto
  then show ?thesis using PruneBelow by (simp add: prune_blocks_below_def Let_def)
qed (simp_all add: store_ops atomic_commit_block_def)

lemma put_value_rel:
  assumes "put_value c k v db = (db', Inr ())" "codec_ok c"
    and "\<And>b. dec c b = Some v \<Longrightarrow> rocks_rel C (bt_insert k b db) s l t"
  shows "rocks_rel C db' s l t"
  using put_value_Inr [OF assms(2,1)] assms(3) by blast

text \<open>One write of the two backends.\<close>

lemma rocks_write_rel:
  assumes "rocks_rel C db s l t" "codecs_ok C" "store_wf E s" "Suc (length (ms_consensus_wal s)) < 2 ^ 64"
    and "rocks_write E C w db = (db', Inr ())"
  shows "rocks_rel C db' (mem_write E s w) (last_block l w) (last_epoch t w)"
proof (cases w)
  case (WriteBlock fb)
  have ok: "codec_ok (cd_block C)" using assms(2) by (simp add: codecs_ok_def)
  obtain b where b: "enc (cd_block C) fb = Some b"
    "db' = bt_insert (meta ''latest'') b (bt_insert (block_key (block_hash E (fb_block fb))) b
      (bt_insert (height_key (bh_height (bk_header (fb_block fb)))) b db))"
    using assms(5) WriteBlock
    by (auto simp: rocks_put_finalized_block_def act_then_Inr put_value_def act_bind_Inr encode_def act_defs)
  have "dec (cd_block C) b = Some fb" using ok b(1) by (simp add: codec_ok_def)
  then show ?thesis using rel_put_block [OF assms(1)] WriteBlock b(2) by simp
next
  case (WriteEpoch e)
  have ok: "codec_ok (cd_epoch C)" using assms(2) by (simp add: codecs_ok_def)
  obtain b where b: "enc (cd_epoch C) e = Some b"
    "db' = bt_insert (meta ''epoch-latest'') b (bt_insert (epoch_key (et_epoch e)) b db)"
    using assms(5) WriteEpoch
    by (auto simp: rocks_put_epoch_transition_def act_then_Inr put_value_def act_bind_Inr encode_def act_defs)
  have "dec (cd_epoch C) b = Some e" using ok b(1) by (simp add: codec_ok_def)
  then show ?thesis
    using assms(1) unfolding rocks_rel_def by (simp add: WriteEpoch b(2) put_epoch_transition_def key_defs put_rules)
next
  case (AppendWal e)
  then show ?thesis using rel_append_wal [OF assms(1,2,4)] assms(5) by simp
next
  case (CommitBlock fb accts)
  then show ?thesis using rel_commit [OF assms(1,2)] assms(5) by simp
next
  case (PruneBelow h)
  then obtain r where "rocks_prune_blocks_below E C h db = (db', r)"
    using assms(5) by (auto simp: act_bind_Inr)
  then show ?thesis using rel_prune [OF assms(1)] assms(3) PruneBelow by (simp add: store_wf_def)
qed (use assms(2,5) in \<open>simp add: rocks_put_account_def rocks_put_receipt_def
  rocks_put_genesis_def rocks_put_evm_account_def rocks_put_consensus_snapshot_def rocks_put_staking_state_def
  rocks_put_governance_state_def rocks_put_slashing_protection_def rocks_put_gas_pricing_def rocks_put_evm_logs_def
  codecs_ok_def\<close>, erule put_value_rel, blast, erule rel_puts [OF assms(1)])+

primrec rocks_run :: "ext \<Rightarrow> store_codecs \<Rightarrow> store_write list \<Rightarrow> unit rocks_action" where
  "rocks_run E C [] = act_return ()"
| "rocks_run E C (w # ws) = act_then (rocks_write E C w) (rocks_run E C ws)"

lemma rocks_run_rel:
  assumes "rocks_run E C ws db = (db', Inr ())" "rocks_rel C db s l t" "codecs_ok C" "store_wf E s"
    and "length (ms_consensus_wal s) + length ws < 2 ^ 64"
  shows "rocks_rel C db' (foldl (mem_write E) s ws) (foldl last_block l ws) (foldl last_epoch t ws)"
  using assms(1,2,4,5)
proof (induction ws arbitrary: db s l t)
  case (Cons w ws)
  obtain db1 where db1: "rocks_write E C w db = (db1, Inr ())" "rocks_run E C ws db1 = (db', Inr ())"
    using Cons.prems(1) by (auto simp: act_then_Inr)
  have "rocks_rel C db1 (mem_write E s w) (last_block l w) (last_epoch t w)"
    by (rule rocks_write_rel [OF Cons.prems(2) assms(3) Cons.prems(3) _ db1(1)]) (use Cons.prems(4) in simp)
  moreover have "length (ms_consensus_wal (mem_write E s w)) + length ws < 2 ^ 64"
    using Cons.prems(4) by (auto simp: mem_write_wal split: store_write.split)
  ultimately show ?case using Cons.IH [OF db1(2)] mem_write_wf [OF Cons.prems(3)] by simp
qed simp

lemma rocks_rel_empty: "rocks_rel C [] memory_store_default None None"
  by (auto simp: rocks_rel_def memory_store_default_def table_rel_def cell_rel_def get_value_def wal_map_def unwrap_or_def)

section \<open>Reading the log\<close>

lemma rev_to_le_bytes: "rev (to_le_bytes n w) = array_bytes n w"
  by (rule nth_equalityI) (auto simp: to_le_bytes_def array_bytes_def byte_at_def rev_nth)

lemma le_bytes_inverse: "LENGTH('a::len) = 8 * n \<Longrightarrow> array_of_bytes (rev (to_le_bytes n w)) = (w :: 'a word)"
  by (simp add: rev_to_le_bytes array_of_array_bytes)

lemma parse_wal_key_inverse: "parse_wal_key (key ''consensus-wal'' (to_le_bytes 8 i)) = Inr i"
  using le_bytes_inverse [of 8 i] by (simp add: parse_wal_key_def key_def take_map drop_map numeral_eq_Suc string_bytes_def)

lemma parse_address_inverse:
  "bind_res (key_slice 5 37 (key ''acct'' (array_bytes 32 (address_raw a)))) (\<lambda>raw. Inr (Address (array_of_bytes raw))) = Inr a"
  using array_of_array_bytes [of 32 "address_raw a"]
  by (simp add: key_slice_def key_def string_bytes_def numeral_eq_Suc)

lemma parse_evm_address_inverse:
  "bind_res (key_slice 9 29 (key ''evm-acct'' (array_bytes 20 (evm_address_raw a))))
     (\<lambda>raw. Inr (EvmAddress (array_of_bytes raw))) = Inr a"
  using array_of_array_bytes [of 20 "evm_address_raw a"]
  by (simp add: key_slice_def key_def string_bytes_def numeral_eq_Suc)

text \<open>The log with its indices.\<close>

definition wal_entries :: "consensus_wal_entry list \<Rightarrow> (u64, consensus_wal_entry) btree_map" where
  "wal_entries wal = map (\<lambda>i. (word_of_nat i, wal ! i)) [0..<length wal]"

lemma bt_wf_wal_entries: "length wal < 2 ^ 64 \<Longrightarrow> bt_wf (wal_entries wal)"
  by (auto simp: bt_wf_def bt_keys_def wal_entries_def sorted_wrt_iff_nth_less word_less_nat_alt unat_of_nat)

lemma map_of_wal_entries:
  assumes "length wal < 2 ^ 64"
  shows "map_of (wal_entries wal) = wal_map wal"
proof
  fix i :: u64
  show "map_of (wal_entries wal) i = wal_map wal i"
  proof (cases "unat i < length wal")
    case True
    then have "(i, wal ! unat i) \<in> set (wal_entries wal)" by (auto simp: wal_entries_def image_iff intro!: bexI [of _ "unat i"])
    then show ?thesis
      using True in_set_map_of [OF bt_wf_distinct [OF bt_wf_wal_entries [OF assms]]] by (auto simp: wal_map_def)
  next
    case False
    then have "i \<notin> fst ` set (wal_entries wal)" using assms by (auto simp: wal_entries_def unat_of_nat)
    then show ?thesis using False by (simp add: wal_map_def map_of_eq_None_iff)
  qed
qed

lemma wal_values [simp]: "bt_values (wal_entries wal) = wal"
  by (simp add: bt_values_def wal_entries_def comp_def map_nth)

lemma scan_wal:
  assumes "table_rel (cd_wal C) ''consensus-wal'' (to_le_bytes 8) db (map_of entries)" "bt_wf db" "bt_wf entries"
  shows "rocks_wal_entries C db = Inr entries"
  unfolding rocks_wal_entries_def
  by (rule scan_table [OF assms parse_wal_key_inverse inj_le_bytes]) simp

section \<open>Compaction by position\<close>

definition compact_positions ::
  "u64 \<Rightarrow> (u64, consensus_wal_entry) btree_map \<Rightarrow> (u64, consensus_wal_entry) btree_map" where
  "compact_positions b entries =
    (let low = map (\<lambda>(j, _). word_of_nat j) (filter (\<lambda>(_, e). wal_height e < b) (enumerate 0 (bt_values entries))) in
     filter (\<lambda>(i, _). i \<notin> set low) entries)"

lemma compact_rel:
  assumes "table_rel (cd_wal C) ''consensus-wal'' (to_le_bytes 8) db (map_of entries)" "bt_wf db" "bt_wf entries"
    and "rocks_compact_consensus_wal C b db = (db', r)"
  shows "table_rel (cd_wal C) ''consensus-wal'' (to_le_bytes 8) db' (map_of (compact_positions b entries))
    \<and> bt_wf db' \<and> bt_wf (compact_positions b entries)"
proof -
  define low where "low = filter (\<lambda>(_, e). wal_height e < b) (enumerate 0 (bt_values entries))"
  define ops where "ops = map (\<lambda>(j, _). BatchDelete (wal_key (word_of_nat j))) low"
  define D where "D = {k. BatchDelete k \<in> set ops}"
  have "rocks_load_consensus_wal C db = Inr (bt_values entries)"
    using scan_wal [OF assms(1-3)] by (simp add: rocks_load_consensus_wal_def)
  then have db': "db' = write_batch ops db"
    using assms(4)
    by (auto simp: rocks_compact_consensus_wal_def act_bind_def low_def ops_def Let_def write_batch_def act_defs
        split: if_splits)
  have "\<forall>op \<in> set ops. \<exists>k. op = BatchDelete k" by (auto simp: ops_def)
  then have at: "map_of db' k = (if k \<in> D then None else map_of db k)" for k
    using map_of_deletes [of ops db k] by (simp add: db' D_def)
  have in_D: "key ''consensus-wal'' (to_le_bytes 8 i) \<in> D \<longleftrightarrow> i \<in> set (map (\<lambda>(j, _). word_of_nat j) low)" for i :: u64
    by (auto simp: D_def ops_def wal_key_def to_le_bytes_inject image_iff split_beta)
  have kept: "map_of (filter (\<lambda>(i, _). P i) m) i = (if P i then map_of m i else None)" for P m i
    by (induction m) auto
  have "map_of (compact_positions b entries) = (\<lambda>i. if key ''consensus-wal'' (to_le_bytes 8 i) \<in> D then None
      else map_of entries i)"
    unfolding compact_positions_def Let_def low_def [symmetric]
    by (rule ext) (simp only: kept [of "\<lambda>i. i \<notin> set (map (\<lambda>(j, _). word_of_nat j) low)"] in_D, simp)
  moreover have "bt_wf (compact_positions b entries)"
    using assms(3) unfolding bt_wf_def bt_keys_def compact_positions_def Let_def sorted_wrt_map
    by (rule sorted_wrt_filter)
  ultimately show ?thesis
    using table_delete [OF assms(1) at] bt_wf_write_batch [OF assms(2)] by (simp add: db')
qed

text \<open>Codecs of three types, for the witnesses.\<close>

definition no_codec :: "'v codec" where
  "no_codec = \<lparr>enc = (\<lambda>_. None), dec = (\<lambda>_. None)\<rparr>"

definition sample_codecs :: store_codecs where
  "sample_codecs = \<lparr>cd_genesis = no_codec, cd_account = no_codec, cd_evm_account = no_codec, cd_block = no_codec,
     cd_receipt = no_codec,
     cd_snapshot = \<lparr>enc = (\<lambda>c. Some (to_le_bytes 8 (cs_height c) @ to_le_bytes 4 (cs_round c))),
       dec = (\<lambda>bs. Some \<lparr>cs_height = array_of_bytes (rev (take 8 bs)), cs_round = array_of_bytes (rev (drop 8 bs))\<rparr>)\<rparr>,
     cd_wal = \<lparr>enc = (\<lambda>e. case e of HeightAdvanced h \<Rightarrow> Some (to_le_bytes 8 h) | _ \<Rightarrow> None),
       dec = (\<lambda>bs. Some (HeightAdvanced (array_of_bytes (rev bs))))\<rparr>,
     cd_index = \<lparr>enc = (\<lambda>i. Some (to_le_bytes 8 i)), dec = (\<lambda>bs. Some (array_of_bytes (rev bs)))\<rparr>,
     cd_staking = no_codec, cd_governance = no_codec, cd_epoch = no_codec, cd_protection = no_codec,
     cd_gas = no_codec, cd_logs = no_codec\<rparr>"

lemma sample_codecs_ok: "codecs_ok sample_codecs"
  using le_bytes_inverse [of 8 "x :: u64" for x] le_bytes_inverse [of 4 "x :: u32" for x]
  by (auto simp: codecs_ok_def codec_ok_def sample_codecs_def no_codec_def split: consensus_wal_entry.splits)

lemma sample_put: "enc c v = Some b \<Longrightarrow> put_value c k v db = (bt_insert k b db, Inr ())"
  by (simp add: put_value_def encode_def act_bind_def act_defs)

lemma sample_append:
  "\<exists>db'. rocks_append_consensus_wal sample_codecs (HeightAdvanced h) db = (db', Inr ())"
proof -
  have "enc (cd_index sample_codecs) i = Some (to_le_bytes 8 i)" "enc (cd_wal sample_codecs) (HeightAdvanced h) = Some (to_le_bytes 8 h)"
    for i by (simp_all add: sample_codecs_def)
  moreover obtain n where "get_value (cd_index sample_codecs) (meta ''consensus-wal-next'') db = Inr n"
    by (cases "map_of db (meta ''consensus-wal-next'')") (auto simp: get_value_def decode_def sample_codecs_def)
  ultimately show ?thesis
    by (simp add: rocks_append_consensus_wal_def act_bind_def [of "\<lambda>db. (db, _ db)"] act_then_def sample_put act_bind_def Let_def)
qed

lemma sample_appends: "\<exists>db'. rocks_run sample_ext sample_codecs (map AppendWal (map HeightAdvanced hs)) db = (db', Inr ())"
proof (induction hs arbitrary: db)
  case (Cons h hs)
  obtain db1 where "rocks_append_consensus_wal sample_codecs (HeightAdvanced h) db = (db1, Inr ())"
    using sample_append by blast
  then show ?case using Cons.IH [of db1] by (simp add: act_then_def act_bind_def)
qed simp

section \<open>The properties\<close>



text \<open>C37: Whatever is written to the in-memory store, every table stays an ordered map and every block is filed under
  its own height and its own hash.\<close>

theorem written_store_well_formed: "store_wf E (foldl (mem_write E) memory_store_default ws)"
proof -
  have "store_wf E (foldl (mem_write E) s ws)" if "store_wf E s" for s
    using that by (induction ws arbitrary: s) (simp_all add: mem_write_wf)
  then show ?thesis using store_wf_default by blast
qed

text \<open>The two backends compact the log differently. After four entries for the heights 5, 1, 9 and 6 and the
  compactions below 5 and below 7 the in-memory log holds the entry for the height 9, as it should; the RocksDB
  log has lost it and keeps the one for the height 6, because the second compaction takes positions for keys.\<close>

theorem compaction_loses_entries:
  assumes "codecs_ok C" "rocks_run E C (map AppendWal [e0, e1, e2, e3]) [] = (db, Inr ())"
    and heights: "wal_height e0 = 5" "wal_height e1 = 1" "wal_height e2 = 9" "wal_height e3 = 6"
    and "rocks_compact_consensus_wal C 5 db = (db1, r1)" "rocks_compact_consensus_wal C 7 db1 = (db2, r2)"
    and "s = foldl (mem_write E) memory_store_default (map AppendWal [e0, e1, e2, e3])"
  shows "rocks_load_consensus_wal C db2 = Inr [e3]
    \<and> load_consensus_wal (fst (compact_consensus_wal (fst (compact_consensus_wal s 5)) 7)) = [e2]"
proof -
  have wal: "ms_consensus_wal s = [e0, e1, e2, e3]"
    by (simp add: assms(9) append_consensus_wal_def memory_store_default_def)
  have "rocks_rel C db s (foldl last_block None (map AppendWal [e0, e1, e2, e3]))
      (foldl last_epoch None (map AppendWal [e0, e1, e2, e3]))"
    unfolding assms(9)
    by (rule rocks_run_rel [OF assms(2) rocks_rel_empty assms(1) store_wf_default]) (simp add: memory_store_default_def)
  then have db: "table_rel (cd_wal C) ''consensus-wal'' (to_le_bytes 8) db (map_of (wal_entries [e0, e1, e2, e3]))" "bt_wf db"
    using map_of_wal_entries [of "[e0, e1, e2, e3]"] by (simp_all add: rocks_rel_def wal)
  have "wal_entries [e0, e1, e2, e3] = [(0, e0), (1, e1), (2, e2), (3, e3)]" by (simp add: wal_entries_def)
  then have "compact_positions 5 (wal_entries [e0, e1, e2, e3]) = [(0, e0), (2, e2), (3, e3)]"
    by (simp add: compact_positions_def bt_values_def heights)
  with compact_rel [OF db bt_wf_wal_entries assms(7)]
  have db1: "table_rel (cd_wal C) ''consensus-wal'' (to_le_bytes 8) db1 (map_of [(0 :: u64, e0), (2, e2), (3, e3)])" "bt_wf db1"
    by simp_all
  have "bt_wf [(0 :: u64, e0), (2, e2), (3, e3)]" by (simp add: bt_wf_Cons bt_keys_def)
  from compact_rel [OF db1 this assms(8)]
  have "table_rel (cd_wal C) ''consensus-wal'' (to_le_bytes 8) db2 (map_of [(3 :: u64, e3)])" "bt_wf db2"
    by (simp_all add: compact_positions_def bt_values_def heights)
  then have "rocks_wal_entries C db2 = Inr [(3, e3)]" by (intro scan_wal) (simp_all add: bt_wf_Cons bt_keys_def)
  moreover have "\<not> (7 :: u64) \<le> 1" by (simp add: word_le_nat_alt)
  ultimately show ?thesis
    by (simp add: rocks_load_consensus_wal_def bt_values_def load_consensus_wal_def compact_consensus_wal_def wal heights)
qed

theorem compaction_loses_entries_witness:
  "\<exists>db. rocks_run sample_ext sample_codecs (map AppendWal (map HeightAdvanced [5, 1, 9, 6])) [] = (db, Inr ()) \<and>
     rocks_load_consensus_wal sample_codecs (fst (rocks_compact_consensus_wal sample_codecs 7
       (fst (rocks_compact_consensus_wal sample_codecs 5 db)))) = Inr [HeightAdvanced 6]"
proof -
  obtain db where db: "rocks_run sample_ext sample_codecs (map AppendWal (map HeightAdvanced [5, 1, 9, 6])) [] = (db, Inr ())"
    using sample_appends by blast
  then have "rocks_run sample_ext sample_codecs
      (map AppendWal [HeightAdvanced 5, HeightAdvanced 1, HeightAdvanced 9, HeightAdvanced 6]) [] = (db, Inr ())" by simp
  from compaction_loses_entries [OF sample_codecs_ok this _ _ _ _ prod.collapse [symmetric] prod.collapse [symmetric] refl]
  show ?thesis using db by auto
qed

text \<open>A range of logs that starts above its end is empty here and a panic of the in-memory store.\<close>

lemma logs_range_backwards:
  assumes "to_height < from_height"
  shows "rocks_get_evm_logs_range C from_height to_height db = Inr []" "get_evm_logs_range s from_height to_height = None"
  using assms by (simp_all add: rocks_get_evm_logs_range_def get_evm_logs_range_def word_less_nat_alt)

end
