(* ===== verification/Zeno_Sync.thy ===== *)
theory Zeno_Sync
  imports Zeno_Consensus Zeno_Network
begin

text \<open>
  Block synchronisation in \<open>zeno-node/src/runtime.rs\<close>: the answers to the requests of other nodes,
  the state of the synchronisation with one peer, the check of a batch of headers, and the task
  that handles gossip. A method is an action on the runtime: the consensus node of
  \<open>Zeno_Consensus\<close>, the synchronisation state, the request counter and the messages posted to the
  network service, which takes them. Errors returned with the question-mark operator end the task
  that met them.
\<close>

section \<open>State\<close>

record pending_headers_request =
  ph_request_id :: u64
  ph_start_height :: u64
  ph_limit :: u64

record pending_block_request =
  pb_request_id :: u64
  pb_height :: u64

record sync_state =
  sy_active_peer :: "string option"
  sy_target_height :: u64
  sy_pending_headers :: "pending_headers_request option"
  sy_pending_block :: "pending_block_request option"
  sy_queued_heights :: "u64 list"

definition sync_state_default :: sync_state where
  "sync_state_default = \<lparr>sy_active_peer = None, sy_target_height = 0, sy_pending_headers = None,
     sy_pending_block = None, sy_queued_heights = []\<rparr>"

record runtime =
  rt_node :: node
  rt_sync :: sync_state
  rt_request_ids :: u64
  rt_posted :: "outbound_message list"

record runtime_config =
  rc_chain_id :: chain_id
  rc_node_id :: string
  rc_metadata :: network_metadata

datatype runtime_error = RtText string | RtConsensus consensus_error | RtPanic

type_synonym 'a runtime_action = "(runtime, runtime_error, 'a) action"

definition store_of :: "runtime \<Rightarrow> memory_store" where
  "store_of r = nd_store (rt_node r)"

definition update_sync :: "(sync_state \<Rightarrow> sync_state) \<Rightarrow> unit runtime_action" where
  "update_sync f = act_write (\<lambda>r. r\<lparr>rt_sync := f (rt_sync r)\<rparr>)"

definition post :: "outbound_message \<Rightarrow> unit runtime_action" where
  "post m = act_write (\<lambda>r. r\<lparr>rt_posted := rt_posted r @ [m]\<rparr>)"

section \<open>Answers\<close>

definition block_height_or_0 :: "finalized_block option \<Rightarrow> u64" where
  "block_height_or_0 b = (case b of None \<Rightarrow> 0 | Some fb \<Rightarrow> bh_height (bk_header (fb_block fb)))"

definition latest_height :: "memory_store \<Rightarrow> u64" where
  "latest_height store = block_height_or_0 (latest_block store)"

primrec headers_from :: "memory_store \<Rightarrow> u64 \<Rightarrow> nat \<Rightarrow> block_header list" where
  "headers_from store h 0 = []"
| "headers_from store h (Suc n) = (case get_block_by_height store h of
     None \<Rightarrow> [] | Some fb \<Rightarrow> bk_header (fb_block fb) # headers_from store (h + 1) n)"

definition build_sync_response :: "memory_store \<Rightarrow> sync_request \<Rightarrow> sync_response" where
  "build_sync_response store request = (case request of
       Headers start_height limit \<Rightarrow>
         let limit = max 1 (min 256 limit) in
         HeadersResponse (headers_from store start_height (unat (saturating_add start_height limit) - unat start_height))
     | BlockByHeight h \<Rightarrow> BlockResponse (get_block_by_height store h)
     | BlockByHash h \<Rightarrow> BlockResponse (get_block_by_hash store h))"

definition current_chain_status :: "ext \<Rightarrow> runtime_config \<Rightarrow> string list \<Rightarrow> memory_store \<Rightarrow> chain_status" where
  "current_chain_status E cfg peers store = (let latest = latest_block store in
     \<lparr>ct_metadata = rc_metadata cfg, ct_chain_id = rc_chain_id cfg, ct_latest_height = block_height_or_0 latest,
      ct_latest_hash = (case latest of None \<Rightarrow> hash_zero | Some fb \<Rightarrow> block_hash E (fb_block fb)),
      ct_node_id = rc_node_id cfg, ct_peers = peers\<rparr>)"

section \<open>Batches of headers\<close>

text \<open>The loop over a batch; \<open>is_first\<close> is \<open>index == 0\<close> and \<open>now\<close> the clock.\<close>

fun check_headers ::
  "ext \<Rightarrow> chain_id \<Rightarrow> u64 \<Rightarrow> hash32 \<Rightarrow> bool \<Rightarrow> hash32 \<Rightarrow> u64 \<Rightarrow> block_header list \<Rightarrow> runtime_error + u64 list" where
  "check_headers E chain now latest_hash is_first prev_hash next_height [] = Inr []"
| "check_headers E chain now latest_hash is_first prev_hash next_height (h # hs) =
    (if bh_chain_id h \<noteq> chain then Inl (RtText ''sync header chain id mismatch'')
     else if bh_height h \<noteq> next_height then Inl (RtText ''sync header range is not contiguous'')
     else if is_first \<and> bh_parent_hash h \<noteq> latest_hash then Inl (RtText ''sync first header parent hash mismatch'')
     else if \<not> is_first \<and> bh_parent_hash h \<noteq> prev_hash then Inl (RtText ''sync header parent hash chain broken'')
     else if saturating_add now 600000 < bh_timestamp_ms h then Inl (RtText ''sync header timestamp too far in future'')
     else case bin_header E h of
       None \<Rightarrow> Inl (RtText ''header encode'')
     | Some bytes \<Rightarrow>
         bind_res (check_headers E chain now latest_hash False (hash_bytes E bytes) (saturating_add next_height 1) hs)
           (\<lambda>heights. Inr (bh_height h # heights)))"

definition validate_header_batch ::
  "ext \<Rightarrow> runtime_config \<Rightarrow> u64 \<Rightarrow> memory_store \<Rightarrow> u64 \<Rightarrow> block_header list \<Rightarrow> pending_headers_request \<Rightarrow>
   runtime_error + u64 list" where
  "validate_header_batch E cfg now store local_height headers pending =
    (if headers = [] then Inr []
     else if unat (ph_limit pending) < length headers
     then Inl (RtText ''sync header response exceeds requested limit'')
     else
       let latest_hash = (case latest_block store of None \<Rightarrow> hash_zero | Some fb \<Rightarrow> block_hash E (fb_block fb)) in
       check_headers E (rc_chain_id cfg) now latest_hash True latest_hash
         (max (ph_start_height pending) (saturating_add local_height 1)) headers)"

section \<open>Requests\<close>

definition next_request_id :: "u64 runtime_action" where
  "next_request_id = act_bind (act_read rt_request_ids) (\<lambda>i.
     act_bind (act_write (\<lambda>r. r\<lparr>rt_request_ids := i + 1\<rparr>)) (\<lambda>_. act_return i))"

definition ask_block :: "string \<Rightarrow> u64 \<Rightarrow> u64 list \<Rightarrow> unit runtime_action" where
  "ask_block peer height rest = act_bind next_request_id (\<lambda>i.
     act_then (update_sync (\<lambda>s. s\<lparr>sy_queued_heights := rest,
       sy_pending_block := Some \<lparr>pb_request_id = i, pb_height = height\<rparr>\<rparr>))
     (post (request_sync_from peer i (BlockByHeight height))))"

definition ask_headers :: "string \<Rightarrow> u64 \<Rightarrow> u64 \<Rightarrow> unit runtime_action" where
  "ask_headers peer start_height limit = act_bind next_request_id (\<lambda>i.
     act_then (update_sync (\<lambda>s. s\<lparr>sy_pending_headers :=
       Some \<lparr>ph_request_id = i, ph_start_height = start_height, ph_limit = limit\<rparr>\<rparr>))
     (post (request_sync_from peer i (Headers start_height limit))))"

definition continue_sync :: "string \<Rightarrow> unit runtime_action" where
  "continue_sync peer = act_bind (act_read (\<lambda>r. latest_height (store_of r))) (\<lambda>local_height.
     act_bind (act_read rt_sync) (\<lambda>sync.
     act_unless (sy_active_peer sync \<noteq> Some peer) ()
     (act_unless (sy_pending_headers sync \<noteq> None \<or> sy_pending_block sync \<noteq> None) ()
     (case sy_queued_heights sync of
        height # rest \<Rightarrow> ask_block peer height rest
      | [] \<Rightarrow>
         if local_height < sy_target_height sync
         then ask_headers peer (saturating_add local_height 1) (min (sy_target_height sync - local_height) 32)
         else act_return ()))))"

text \<open>\<open>max_by_key\<close> returns the last of the greatest elements.\<close>

definition max_by_key :: "('a \<Rightarrow> 'k::linorder) \<Rightarrow> 'a list \<Rightarrow> 'a option" where
  "max_by_key f xs = foldl (\<lambda>best x. case best of None \<Rightarrow> Some x
     | Some b \<Rightarrow> if f x < f b then Some b else Some x) None xs"

definition best_peer :: "u64 \<Rightarrow> peer_table \<Rightarrow> (string \<times> peer_state) option" where
  "best_peer local_height peers = max_by_key (\<lambda>(_, state). (ps_best_height state, ps_score state))
     (filter (\<lambda>(_, state). local_height < ps_best_height state) peers)"

definition sync_with_best_peer :: "peer_table \<Rightarrow> unit runtime_action" where
  "sync_with_best_peer peers = act_bind (act_read (\<lambda>r. latest_height (store_of r))) (\<lambda>local_height.
     case best_peer local_height peers of
       None \<Rightarrow> act_return ()
     | Some (peer, state) \<Rightarrow>
        act_then (update_sync (\<lambda>s.
          if sy_active_peer s \<noteq> Some peer
          then \<lparr>sy_active_peer = Some peer, sy_target_height = ps_best_height state, sy_pending_headers = None,
                sy_pending_block = None, sy_queued_heights = []\<rparr>
          else s\<lparr>sy_target_height := max (sy_target_height s) (ps_best_height state)\<rparr>))
        (continue_sync peer))"

definition on_node :: "'a node_action \<Rightarrow> 'a runtime_action" where
  "on_node m = (\<lambda>r. case m (rt_node r) of (n, res) \<Rightarrow> (r\<lparr>rt_node := n\<rparr>, map_err RtConsensus res))"

definition handle_headers ::
  "call_env \<Rightarrow> runtime_config \<Rightarrow> string \<Rightarrow> u64 \<Rightarrow> block_header list \<Rightarrow> unit runtime_action" where
  "handle_headers X cfg peer request_id headers = act_bind (act_read store_of) (\<lambda>store.
     act_bind (act_read rt_sync) (\<lambda>sync.
     act_unless (sy_active_peer sync \<noteq> Some peer) ()
     (case sy_pending_headers sync of
        None \<Rightarrow> act_return ()
      | Some pending \<Rightarrow>
         act_unless (ph_request_id pending \<noteq> request_id) ()
         (act_then (update_sync (\<lambda>s. s\<lparr>sy_pending_headers := None\<rparr>))
          (act_bind (act_lift (validate_header_batch (ce_ext X) cfg (cv_now X) store (latest_height store) headers pending))
            (\<lambda>heights.
          act_then (update_sync (\<lambda>s. s\<lparr>sy_queued_heights := sy_queued_heights s @ heights\<rparr>))
          (continue_sync peer)))))))"

definition handle_block ::
  "call_env \<Rightarrow> consensus_engine \<Rightarrow> string \<Rightarrow> u64 \<Rightarrow> finalized_block option \<Rightarrow> unit runtime_action" where
  "handle_block X C peer request_id block = act_bind (act_read rt_sync) (\<lambda>sync.
     act_unless (sy_active_peer sync \<noteq> Some peer) ()
     (case sy_pending_block sync of
        None \<Rightarrow> act_return ()
      | Some pending \<Rightarrow>
         act_unless (pb_request_id pending \<noteq> request_id) ()
         (act_then (update_sync (\<lambda>s. s\<lparr>sy_pending_block := None\<rparr>))
          (case block of
             None \<Rightarrow> continue_sync peer
           | Some fb \<Rightarrow>
              act_unless (bh_height (bk_header (fb_block fb)) \<noteq> pb_height pending) ()
              (act_then (on_node (import_external_finalized_block X C fb)) (continue_sync peer))))))"

definition handle_sync_response ::
  "call_env \<Rightarrow> consensus_engine \<Rightarrow> runtime_config \<Rightarrow> string \<Rightarrow> u64 \<Rightarrow> sync_response \<Rightarrow> unit runtime_action" where
  "handle_sync_response X C cfg peer request_id response = (case response of
       HeadersResponse headers \<Rightarrow> handle_headers X cfg peer request_id headers
     | BlockResponse block \<Rightarrow> handle_block X C peer request_id block
     | NotFound \<Rightarrow> act_return ())"

section \<open>The gossip task\<close>

definition pool_insert :: "ext \<Rightarrow> transaction \<Rightarrow> unit runtime_action" where
  "pool_insert E tx = (\<lambda>r. case mp_insert E (nd_mempool (rt_node r)) tx of
       None \<Rightarrow> (r, Inl RtPanic)
     | Some (m, _) \<Rightarrow> (r\<lparr>rt_node := (rt_node r)\<lparr>nd_mempool := m\<rparr>\<rparr>, Inr ()))"

definition gossip_event ::
  "call_env \<Rightarrow> consensus_engine \<Rightarrow> runtime_config \<Rightarrow> network_event \<Rightarrow> unit runtime_action" where
  "gossip_event X C cfg ev = (case ne_message ev of
       TransactionMsg tx \<Rightarrow> pool_insert (ce_ext X) tx
     | SyncRequestMsg request_id request \<Rightarrow> act_bind (act_read store_of) (\<lambda>store.
         post (handle_send_to (ne_peer ev) (SyncResponseMsg request_id (build_sync_response store request))))
     | Ping nonce \<Rightarrow> post (handle_send_to (ne_peer ev) (Pong nonce))
     | SyncResponseMsg request_id response \<Rightarrow> handle_sync_response X C cfg (ne_peer ev) request_id response
     | _ \<Rightarrow> act_return ())"

primrec gossip_run ::
  "call_env \<Rightarrow> consensus_engine \<Rightarrow> runtime_config \<Rightarrow> network_event list \<Rightarrow> unit runtime_action" where
  "gossip_run X C cfg [] = act_return ()"
| "gossip_run X C cfg (ev # evs) = act_then (gossip_event X C cfg ev) (gossip_run X C cfg evs)"

section \<open>Batches that pass\<close>

text \<open>Heights that follow one another from \<open>n\<close>, and headers each of which names the digest of the encoded
  header before it.\<close>

primrec contiguous :: "u64 \<Rightarrow> u64 list \<Rightarrow> bool" where
  "contiguous n [] = True"
| "contiguous n (h # hs) = (h = n \<and> contiguous (saturating_add n 1) hs)"

primrec linked :: "ext \<Rightarrow> hash32 \<Rightarrow> block_header list \<Rightarrow> bool" where
  "linked E p [] = True"
| "linked E p (h # hs) = (bh_parent_hash h = p \<and>
     (case bin_header E h of None \<Rightarrow> False | Some bytes \<Rightarrow> linked E (hash_bytes E bytes) hs))"

definition timely :: "chain_id \<Rightarrow> u64 \<Rightarrow> block_header \<Rightarrow> bool" where
  "timely chain now h \<longleftrightarrow> bh_chain_id h = chain \<and> bh_timestamp_ms h \<le> saturating_add now 600000"

lemma check_headers_Inr:
  assumes "is_first = False \<or> p = latest"
  shows "check_headers E chain now latest is_first p n hs = Inr out \<longleftrightarrow>
    out = map bh_height hs \<and> list_all (timely chain now) hs \<and> contiguous n out \<and> linked E p hs"
  using assms
proof (induction hs arbitrary: is_first p n out)
  case (Cons h hs)
  show ?case
  proof (cases "bin_header E h")
    case (Some bytes)
    show ?thesis using Cons.prems
      by (auto simp: Some bind_res_eq_Inr Cons.IH timely_def not_less)
  qed (use Cons.prems in \<open>auto simp: timely_def\<close>)
qed auto

lemma continue_sync_node [simp]: "rt_node (fst (continue_sync peer r)) = rt_node r"
  by (auto simp: continue_sync_def act_unless_def ask_block_def ask_headers_def next_request_id_def update_sync_def
      post_def act_bind_def act_then_def act_defs split: list.split)

section \<open>One request at a time\<close>

definition asked_heights :: "sync_state \<Rightarrow> u64 list" where
  "asked_heights s = (case sy_pending_block s of None \<Rightarrow> [] | Some b \<Rightarrow> [pb_height b]) @ sy_queued_heights s"

definition sync_inv :: "sync_state \<Rightarrow> bool" where
  "sync_inv s \<longleftrightarrow>
    (sy_active_peer s = None \<longrightarrow> sy_pending_headers s = None \<and> asked_heights s = []) \<and>
    (\<forall>p. sy_pending_headers s = Some p \<longrightarrow> asked_heights s = [] \<and> 1 \<le> ph_limit p \<and> ph_limit p \<le> 32) \<and>
    (\<exists>n. contiguous n (asked_heights s))"

inductive sync_step :: "runtime \<Rightarrow> runtime \<Rightarrow> bool" where
  tick: "sync_with_best_peer peers r = (r', res) \<Longrightarrow> sync_step r r'"
| gossip: "gossip_event X C cfg ev r = (r', res) \<Longrightarrow> sync_step r r'"
| elsewhere: "sync_step r (r\<lparr>rt_node := n\<rparr>)"

definition fresh_runtime :: "runtime \<Rightarrow> bool" where
  "fresh_runtime r \<longleftrightarrow> rt_sync r = sync_state_default \<and> rt_request_ids r = 1 \<and> rt_posted r = []"

lemmas sync_ops = act_unless_def ask_block_def ask_headers_def next_request_id_def update_sync_def post_def
  act_bind_def act_then_def act_defs

lemma contiguous_tl: "contiguous n (h # hs) \<Longrightarrow> \<exists>m. contiguous m hs"
  by auto

lemma request_limit:
  fixes local target :: u64
  assumes "local < target"
  shows "1 \<le> min (target - local) 32 \<and> min (target - local) 32 \<le> 32"
proof -
  have "0 < target - local" using assms by (simp add: word_less_sub1 word_neq_0_conv [symmetric])
  then have "1 \<le> target - local" by (simp add: word_le_nat_alt word_less_nat_alt)
  moreover have "1 \<le> (32 :: u64)" by simp
  ultimately show ?thesis by simp
qed

lemma continue_sync_inv: "sync_inv (rt_sync r) \<Longrightarrow> sync_inv (rt_sync (fst (continue_sync peer r)))"
  using request_limit
  by (auto simp: continue_sync_def sync_ops sync_inv_def asked_heights_def split: list.split option.splits)

lemma contiguous_heights:
  assumes "validate_header_batch E cfg now store local headers pending = Inr heights"
  shows "\<exists>n. contiguous n heights"
  using assms by (auto simp: validate_header_batch_def Let_def check_headers_Inr split: if_splits)

lemma act_then_state:
  "fst (act_then m k r) = (case snd (m r) of Inl _ \<Rightarrow> fst (m r) | Inr _ \<Rightarrow> fst (k (fst (m r))))"
  by (simp add: act_then_def act_bind_def split: prod.split sum.split)

lemma handle_headers_inv:
  assumes "sync_inv (rt_sync r)"
  shows "sync_inv (rt_sync (fst (handle_headers X cfg peer i headers r)))"
proof (cases "sy_pending_headers (rt_sync r)")
  case (Some p)
  let ?open = "(rt_sync r)\<lparr>sy_pending_headers := None\<rparr>"
  have *: "sync_inv (?open\<lparr>sy_queued_heights := hs\<rparr>)" if "sy_active_peer (rt_sync r) = Some peer" "contiguous n hs" for n hs
    using assms Some that by (auto simp: sync_inv_def asked_heights_def split: option.splits)
  have queue: "sy_queued_heights (rt_sync r) = []"
    using assms Some by (simp add: sync_inv_def asked_heights_def)
  have "sync_inv (rt_sync (fst (handle_headers X cfg peer i headers r)))"
    if "sy_active_peer (rt_sync r) = Some peer" "ph_request_id p = i"
  proof (cases "validate_header_batch (ce_ext X) cfg (cv_now X) (store_of r) (latest_height (store_of r)) headers p")
    case (Inl e)
    have "sync_inv ?open" using assms Some by (auto simp: sync_inv_def asked_heights_def)
    with Inl that Some show ?thesis
      by (simp add: handle_headers_def act_unless_def update_sync_def act_bind_def store_of_def)
  next
    case (Inr hs)
    then show ?thesis using that Some contiguous_heights [OF Inr] * queue
      by (auto simp: handle_headers_def act_unless_def update_sync_def store_of_def act_bind_def [of "act_lift _"]
          intro!: continue_sync_inv)
  qed
  then show ?thesis using assms Some by (auto simp: handle_headers_def act_unless_def)
qed (use assms in \<open>auto simp: handle_headers_def act_unless_def\<close>)

lemma on_node_sync [simp]: "rt_sync (fst (on_node m r)) = rt_sync r"
  by (simp add: on_node_def split: prod.split)

lemma handle_block_inv:
  assumes "sync_inv (rt_sync r)"
  shows "sync_inv (rt_sync (fst (handle_block X C peer i block r)))"
proof (cases "sy_pending_block (rt_sync r)")
  case (Some p)
  let ?r = "r\<lparr>rt_sync := (rt_sync r)\<lparr>sy_pending_block := None\<rparr>\<rparr>"
  have *: "sync_inv (rt_sync ?r)"
    using assms Some by (auto simp: sync_inv_def asked_heights_def)
  have "sync_inv (rt_sync (fst (act_then (on_node m) (continue_sync peer) ?r)))" for m
    unfolding act_then_state using * by (simp add: continue_sync_inv split: sum.split)
  with * Some assms show ?thesis
    by (auto simp: handle_block_def act_unless_def update_sync_def intro: continue_sync_inv split: option.split)
qed (use assms in \<open>auto simp: handle_block_def act_unless_def\<close>)

lemma sync_with_best_peer_inv:
  assumes "sync_inv (rt_sync r)"
  shows "sync_inv (rt_sync (fst (sync_with_best_peer peers r)))"
proof (cases "best_peer (latest_height (store_of r)) peers")
  case (Some best)
  then obtain peer state where "best = (peer, state)" by fastforce
  then show ?thesis using Some assms
    by (auto simp: sync_with_best_peer_def update_sync_def intro!: continue_sync_inv)
      (auto simp: sync_inv_def asked_heights_def split: option.splits)
qed (use assms in \<open>simp add: sync_with_best_peer_def\<close>)

lemma gossip_event_inv:
  assumes "sync_inv (rt_sync r)"
  shows "sync_inv (rt_sync (fst (gossip_event X C cfg ev r)))"
  using assms handle_headers_inv [OF assms] handle_block_inv [OF assms]
  by (auto simp: gossip_event_def pool_insert_def handle_sync_response_def post_def
      split: network_message.split sync_response.split option.split prod.split)

lemma sync_step_inv: "sync_inv (rt_sync r) \<Longrightarrow> sync_step r r' \<Longrightarrow> sync_inv (rt_sync r')"
  by (erule sync_step.cases) (metis fst_conv sync_with_best_peer_inv, metis fst_conv gossip_event_inv, simp)

lemma fresh_runtime_inv: "fresh_runtime r \<Longrightarrow> sync_inv (rt_sync r)"
  by (auto simp: fresh_runtime_def sync_state_default_def sync_inv_def asked_heights_def)

interpretation synchronisation: state_machine fresh_runtime sync_step "\<lambda>r. sync_inv (rt_sync r)"
  by unfold_locales (auto intro: fresh_runtime_inv sync_step_inv)

section \<open>Answers that are served\<close>

lemma nth_headers_from:
  "i < length (headers_from store h n) \<Longrightarrow>
    i < n \<and> (\<exists>fb. get_block_by_height store (h + of_nat i) = Some fb \<and> headers_from store h n ! i = bk_header (fb_block fb))"
proof (induction n arbitrary: h i)
  case (Suc n)
  then show ?case
    by (cases i) (auto split: option.splits dest!: Suc.IH simp: algebra_simps)
qed simp

lemma clamp_256: "max 1 (min 256 (l :: u64)) \<le> 256"
  by simp

lemma response_count:
  "unat (saturating_add h (max 1 (min 256 l))) - unat h \<le> (256 :: nat)" for h l :: u64
proof -
  have "unat (max 1 (min 256 l)) \<le> 256"
    using clamp_256 [of l] unfolding word_le_nat_alt by simp
  then show ?thesis unfolding unat_saturating_add by linarith
qed

section \<open>Batches of linked blocks\<close>

lemma batch_passes_iff:
  "validate_header_batch E cfg now store local headers pending = Inr heights \<longleftrightarrow>
    headers = [] \<and> heights = [] \<or>
    headers \<noteq> [] \<and> heights = map bh_height headers \<and> length headers \<le> unat (ph_limit pending) \<and>
    list_all (timely (rc_chain_id cfg) now) headers \<and>
    contiguous (max (ph_start_height pending) (saturating_add local 1)) heights \<and>
    linked E (case latest_block store of None \<Rightarrow> hash_zero | Some fb \<Rightarrow> block_hash E (fb_block fb)) headers"
  by (auto simp: validate_header_batch_def Let_def check_headers_Inr not_less)

lemma linked_blocks_refused:
  assumes "bh_parent_hash (bk_header b') = block_hash E b" "bin_header E (bk_header b) = Some bytes"
    and "hash_bytes E bytes \<noteq> block_hash E b"
  shows "\<exists>e. validate_header_batch E cfg now store local (bk_header b # bk_header b' # hs) pending = Inl e"
proof (cases "validate_header_batch E cfg now store local (bk_header b # bk_header b' # hs) pending")
  case (Inr heights)
  then show ?thesis using assms by (auto simp: batch_passes_iff)
qed auto

lemma two_headers:
  assumes "get_block_by_height S h = Some fb" "get_block_by_height S (h + 1) = Some fb'"
    and "2 \<le> limit" "unat h + 2 < 2 ^ 64"
  shows "\<exists>hs. build_sync_response S (Headers h limit) =
    HeadersResponse (bk_header (fb_block fb) # bk_header (fb_block fb') # hs)"
proof -
  let ?l = "max 1 (min 256 limit)"
  have l: "2 \<le> unat ?l" using assms(3) by (auto simp: word_le_nat_alt max_def min_def)
  have "2 \<le> unat (saturating_add h ?l) - unat h"
    using l assms(4) by (simp add: unat_saturating_add)
  then obtain n where "unat (saturating_add h ?l) - unat h = Suc (Suc n)"
    using le_Suc_ex [of 2] by (metis add_2_eq_Suc)
  then show ?thesis using assms(1,2) by (simp add: build_sync_response_def Let_def)
qed

lemma answer_stops_gossip:
  assumes "sy_active_peer (rt_sync r) = Some p" "sy_pending_headers (rt_sync r) = Some ph"
    and "validate_header_batch (ce_ext X) cfg (cv_now X) (store_of r) (latest_height (store_of r)) headers ph = Inl e"
  shows "gossip_run X C cfg (\<lparr>ne_peer = p, ne_message = SyncResponseMsg (ph_request_id ph) (HeadersResponse headers)\<rparr> # evs) r
    = (r\<lparr>rt_sync := (rt_sync r)\<lparr>sy_pending_headers := None\<rparr>\<rparr>, Inl e)"
proof -
  have "gossip_event X C cfg \<lparr>ne_peer = p, ne_message = SyncResponseMsg (ph_request_id ph) (HeadersResponse headers)\<rparr> r
    = (r\<lparr>rt_sync := (rt_sync r)\<lparr>sy_pending_headers := None\<rparr>\<rparr>, Inl e)"
    using assms by (simp add: gossip_event_def handle_sync_response_def handle_headers_def act_unless_def
        update_sync_def act_bind_def [of "act_lift _"])
  then show ?thesis by (simp add: act_then_def act_bind_def)
qed

section \<open>Properties\<close>

text \<open>C23: Synchronisation keeps one request open at a time. From a fresh runtime, whatever gossip arrives and
  whatever the consensus task does to the node, there is never a request for headers beside a request for a
  block or queued heights, a request asks for 1 to 32 headers, and the heights asked for follow one another.\<close>

theorem sync_one_request:
  assumes "fresh_runtime r" "sync_step\<^sup>*\<^sup>* r r'"
  shows "sync_inv (rt_sync r')"
  by (rule synchronisation.reachable_inv [OF assms])

definition idle_runtime :: "node \<Rightarrow> runtime" where
  "idle_runtime n = \<lparr>rt_node = n, rt_sync = sync_state_default, rt_request_ids = 1, rt_posted = []\<rparr>"

definition ahead_peer :: peer_state where
  "ahead_peer = \<lparr>ps_score = 10, ps_best_height = 5, ps_connected_at = 0, ps_last_message_at = 0,
     ps_messages_received = 1, ps_is_outbound = True, ps_banned_until = None, ps_node_id = ''n''\<rparr>"

theorem sync_one_request_witness:
  "\<forall>n. sync_inv (rt_sync (fst (sync_with_best_peer [(''p'', ahead_peer)] (idle_runtime n))))"
  by (intro allI, rule sync_one_request [of "idle_runtime n" for n], simp add: fresh_runtime_def idle_runtime_def,
      rule r_into_rtranclp, rule sync_step.tick, rule prod.collapse [symmetric])

text \<open>A batch of headers passes exactly when it is empty, or not longer than asked, all its headers are of the
  chain and not ten minutes ahead of the clock, the heights follow one another from the first height that is
  missing, the first header names the digest of the latest block, and every later header names the digest of
  the encoded header before it. The heights to fetch are those of the headers.\<close>

theorem header_batch_accepted_iff:
  "validate_header_batch E cfg now store local headers pending = Inr heights \<longleftrightarrow>
    headers = [] \<and> heights = [] \<or>
    headers \<noteq> [] \<and> heights = map bh_height headers \<and> length headers \<le> unat (ph_limit pending) \<and>
    list_all (timely (rc_chain_id cfg) now) headers \<and>
    contiguous (max (ph_start_height pending) (saturating_add local 1)) heights \<and>
    linked E (case latest_block store of None \<Rightarrow> hash_zero | Some fb \<Rightarrow> block_hash E (fb_block fb)) headers"
  by (rule batch_passes_iff)

text \<open>C17: An honest answer ends the gossip task. Blocks name the digest of the whole block before them, but the check
  of a batch compares with the digest of the encoded header alone. A node that waits for two or more headers and gets
  the answer of an honest peer holding linked blocks there refuses it, unless the two digests collide; the error
  ends the gossip task, nothing is queued, and no later message is handled.\<close>

theorem honest_answer_stops_gossip:
  assumes "sy_active_peer (rt_sync r) = Some p" "sy_pending_headers (rt_sync r) = Some ph"
    and "2 \<le> ph_limit ph" "unat (ph_start_height ph) + 2 < 2 ^ 64"
    and "get_block_by_height S (ph_start_height ph) = Some fb"
    and "get_block_by_height S (ph_start_height ph + 1) = Some fb'"
    and "bh_parent_hash (bk_header (fb_block fb')) = block_hash (ce_ext X) (fb_block fb)"
    and "bin_header (ce_ext X) (bk_header (fb_block fb)) = Some bytes"
    and "hash_bytes (ce_ext X) bytes \<noteq> block_hash (ce_ext X) (fb_block fb)"
  shows "\<exists>e. gossip_run X C cfg (\<lparr>ne_peer = p, ne_message = SyncResponseMsg (ph_request_id ph)
      (build_sync_response S (Headers (ph_start_height ph) (ph_limit ph)))\<rparr> # evs) r
    = (r\<lparr>rt_sync := (rt_sync r)\<lparr>sy_pending_headers := None\<rparr>\<rparr>, Inl e)"
proof -
  obtain hs where response: "build_sync_response S (Headers (ph_start_height ph) (ph_limit ph)) =
      HeadersResponse (bk_header (fb_block fb) # bk_header (fb_block fb') # hs)"
    using two_headers assms(3-6) by blast
  obtain e where "validate_header_batch (ce_ext X) cfg (cv_now X) (store_of r) (latest_height (store_of r))
      (bk_header (fb_block fb) # bk_header (fb_block fb') # hs) ph = Inl e"
    using linked_blocks_refused assms(7-9) by blast
  from answer_stops_gossip [OF assms(1,2) this] show ?thesis
    unfolding response by blast
qed

definition parent_ext :: ext where
  "parent_ext = sample_ext\<lparr>bin_block := (\<lambda>b. Some [ucast (bh_height (bk_header b)), 1])\<rparr>"

definition parent_env :: call_env where
  "parent_env = \<lparr>cv_exec = sample_env\<lparr>xe_ext := parent_ext\<rparr>, cv_now = 0, cv_takes = (\<lambda>_. True), cv_values = (\<lambda>_. [])\<rparr>"

definition child_block :: finalized_block where
  "child_block = (sample_block 2)\<lparr>fb_block := (fb_block (sample_block 2))\<lparr>bk_header :=
     sample_header\<lparr>bh_height := 2, bh_parent_hash := block_hash parent_ext (fb_block (sample_block 1))\<rparr>\<rparr>\<rparr>"

definition chain_store :: memory_store where
  "chain_store = memory_store_default\<lparr>ms_blocks_by_height := [(1, sample_block 1), (2, child_block)]\<rparr>"

definition waiting_runtime :: "node \<Rightarrow> runtime" where
  "waiting_runtime n = (idle_runtime n)\<lparr>rt_sync := sync_state_default\<lparr>sy_active_peer := Some ''p'', sy_target_height := 2,
     sy_pending_headers := Some \<lparr>ph_request_id = 1, ph_start_height = 1, ph_limit = 2\<rparr>\<rparr>\<rparr>"

theorem honest_answer_stops_gossip_witness:
  "\<forall>n C cfg evs. \<exists>e. gossip_run parent_env C cfg (\<lparr>ne_peer = ''p'', ne_message = SyncResponseMsg 1
      (build_sync_response chain_store (Headers 1 2))\<rparr> # evs) (waiting_runtime n)
    = ((waiting_runtime n)\<lparr>rt_sync := (rt_sync (waiting_runtime n))\<lparr>sy_pending_headers := None\<rparr>\<rparr>, Inl e)"
proof (intro allI)
  fix n C cfg evs
  let ?ph = "\<lparr>ph_request_id = 1, ph_start_height = 1, ph_limit = 2\<rparr>"
  have bytes: "to_le_bytes 8 (1 :: u64) = [1, 0, 0, 0, 0, 0, 0, 0]" by code_simp
  have "sample_digest [1, 0, 0, 0, 0, 0, 0, 0] \<noteq> sample_digest [1, 1]" by code_simp
  then have digests: "hash_bytes (ce_ext parent_env) [1, 0, 0, 0, 0, 0, 0, 0] \<noteq> block_hash (ce_ext parent_env) (fb_block (sample_block 1))"
    by (simp add: parent_env_def parent_ext_def sample_block_def block_hash_def encode_def) (simp add: sample_ext_def)
  have header: "bin_header (ce_ext parent_env) (bk_header (fb_block (sample_block 1))) = Some [1, 0, 0, 0, 0, 0, 0, 0]"
    by (simp add: parent_env_def parent_ext_def sample_block_def sample_ext_def bytes)
  have waiting: "sy_active_peer (rt_sync (waiting_runtime n)) = Some ''p''"
      "sy_pending_headers (rt_sync (waiting_runtime n)) = Some ?ph"
    by (simp_all add: waiting_runtime_def)
  have stored: "get_block_by_height chain_store (ph_start_height ?ph) = Some (sample_block 1)"
      "get_block_by_height chain_store (ph_start_height ?ph + 1) = Some child_block"
    by (simp_all add: chain_store_def get_block_by_height_def)
  have linked: "bh_parent_hash (bk_header (fb_block child_block)) = block_hash (ce_ext parent_env) (fb_block (sample_block 1))"
    by (simp add: child_block_def parent_env_def)
  show "\<exists>e. gossip_run parent_env C cfg (\<lparr>ne_peer = ''p'', ne_message = SyncResponseMsg 1
      (build_sync_response chain_store (Headers 1 2))\<rparr> # evs) (waiting_runtime n)
    = ((waiting_runtime n)\<lparr>rt_sync := (rt_sync (waiting_runtime n))\<lparr>sy_pending_headers := None\<rparr>\<rparr>, Inl e)"
    using honest_answer_stops_gossip [OF waiting _ _ stored linked header digests] by simp
qed

primrec sync_ticks :: "peer_table list \<Rightarrow> unit runtime_action" where
  "sync_ticks [] = act_return ()"
| "sync_ticks (peers # tables) = act_then (sync_with_best_peer peers) (sync_ticks tables)"

definition waiting_for :: "string \<Rightarrow> sync_state \<Rightarrow> bool" where
  "waiting_for p s \<longleftrightarrow> sy_active_peer s = Some p \<and> (sy_pending_headers s \<noteq> None \<or> sy_pending_block s \<noteq> None)"

lemma tick_waits:
  assumes "waiting_for p (rt_sync r)" "best_peer (latest_height (store_of r)) peers = Some (p, state)"
  shows "sync_with_best_peer peers r = (r\<lparr>rt_sync := (rt_sync r)
    \<lparr>sy_target_height := max (sy_target_height (rt_sync r)) (ps_best_height state)\<rparr>\<rparr>, Inr ())"
  using assms
  by (simp add: sync_with_best_peer_def waiting_for_def update_sync_def continue_sync_def act_unless_def)

text \<open>A peer that announces a height and stays silent stalls synchronisation. As long as the active peer is the best
  one in the table, every tick of the timer leaves the open request open and posts nothing: there is no time-out.\<close>

theorem silent_peer_stalls_sync:
  assumes "waiting_for p (rt_sync r)"
    and "list_all (\<lambda>peers. map_option fst (best_peer (latest_height (store_of r)) peers) = Some p) tables"
  shows "\<exists>h. sync_ticks tables r = (r\<lparr>rt_sync := (rt_sync r)\<lparr>sy_target_height := h\<rparr>\<rparr>, Inr ())"
  using assms
proof (induction tables arbitrary: r)
  case Nil
  then show ?case by (auto intro: exI [of _ "sy_target_height (rt_sync r)"])
next
  case (Cons peers tables)
  then obtain state where best: "best_peer (latest_height (store_of r)) peers = Some (p, state)" by auto
  define r' where "r' = r\<lparr>rt_sync := (rt_sync r)
    \<lparr>sy_target_height := max (sy_target_height (rt_sync r)) (ps_best_height state)\<rparr>\<rparr>"
  have tick: "sync_with_best_peer peers r = (r', Inr ())"
    using tick_waits [OF Cons.prems(1) best] by (simp add: r'_def)
  have "\<exists>h. sync_ticks tables r' = (r'\<lparr>rt_sync := (rt_sync r')\<lparr>sy_target_height := h\<rparr>\<rparr>, Inr ())"
    by (rule Cons.IH) (use Cons.prems in \<open>simp_all add: r'_def waiting_for_def store_of_def\<close>)
  then show ?case by (auto simp: act_then_def act_bind_def tick r'_def)
qed

theorem silent_peer_stalls_sync_witness:
  "\<forall>n. \<exists>h. sync_ticks [[(''p'', ahead_peer)], [(''p'', ahead_peer)]] (waiting_runtime (n\<lparr>nd_store := memory_store_default\<rparr>))
    = ((waiting_runtime (n\<lparr>nd_store := memory_store_default\<rparr>))\<lparr>rt_sync :=
        (rt_sync (waiting_runtime (n\<lparr>nd_store := memory_store_default\<rparr>)))\<lparr>sy_target_height := h\<rparr>\<rparr>, Inr ())"
  by (intro allI silent_peer_stalls_sync [where p = "''p''"])
    (simp_all add: waiting_runtime_def waiting_for_def idle_runtime_def store_of_def latest_height_def latest_block_def
      memory_store_default_def bt_last_def block_height_or_0_def best_peer_def max_by_key_def ahead_peer_def)

text \<open>An answer holds at most 256 headers, and they are those of the stored blocks from the height asked for.\<close>

theorem headers_served:
  assumes "build_sync_response store (Headers h limit) = HeadersResponse hs"
  shows "length hs \<le> 256 \<and>
    (i < length hs \<longrightarrow> map_option (\<lambda>fb. bk_header (fb_block fb)) (get_block_by_height store (h + of_nat i)) = Some (hs ! i))"
proof -
  define n where "n = unat (saturating_add h (max 1 (min 256 limit))) - unat h"
  have hs: "hs = headers_from store h n"
    using assms by (simp add: build_sync_response_def Let_def n_def)
  have "length (headers_from store h m) \<le> m" for m
    by (induction m arbitrary: h) (auto split: option.split)
  then have "length hs \<le> 256"
    using response_count [of h limit] hs n_def by (metis le_trans)
  then show ?thesis using nth_headers_from [of i store h n] hs by auto
qed

theorem headers_served_witness:
  "length [sample_header, bk_header (fb_block child_block)] \<le> 256 \<and>
    map_option (\<lambda>fb. bk_header (fb_block fb)) (get_block_by_height chain_store 2) =
      Some (bk_header (fb_block child_block))"
proof -
  have served: "unat (saturating_add (1 :: u64) (max 1 (min 256 9))) - unat (1 :: u64) = 9"
    unfolding unat_saturating_add by simp
  have "headers_from chain_store 1 9 = [sample_header, bk_header (fb_block child_block)]"
    by (simp add: numeral_eq_Suc chain_store_def get_block_by_height_def sample_block_def sample_header_def)
  then have "build_sync_response chain_store (Headers 1 9) = HeadersResponse [sample_header, bk_header (fb_block child_block)]"
    by (simp only: build_sync_response_def sync_request.case Let_def served)
  then show ?thesis using headers_served [of chain_store 1 9 _ 1] by simp
qed

end
