(* ===== verification/Zeno_Genesis.thy ===== *)
theory Zeno_Genesis
  imports Zeno_Staking Zeno_Action Zeno_Crypto
begin

text \<open>
  The way a network comes to life: the node configuration of \<open>zeno-config/src/lib.rs\<close> with its
  defaults, the generation of a devnet in \<open>zeno-genesis/src/lib.rs\<close>, and the bootstrap of a store
  from a genesis in \<open>zeno-node/src/runtime.rs\<close>, which every start of a node runs. A file
  operation is an entry of a log and may fail; a duration is a number of nanoseconds; the results
  of the key generator are a function of the index of the call.
\<close>

section \<open>Configuration\<close>

record p2p_config =
  p2_listen :: string
  p2_peers :: "string list"
  p2_max_frame_bytes :: nat

record rpc_config =
  rp_listen :: string

record storage_config =
  sc_data_dir :: string

record consensus_config =
  cc_proposal_timeout :: nat
  cc_vote_timeout :: nat
  cc_max_transactions_per_block :: nat

record validator_config =
  vc_address :: address
  vc_public_key :: "u8 list"
  vc_secret_key :: "u8 list"

record crypto_config =
  cy_ml_dsa_parameter :: ml_dsa_parameter

record node_config =
  nc_node_id :: string
  nc_chain_id :: chain_id
  nc_metadata :: network_metadata
  nc_p2p :: p2p_config
  nc_rpc :: rpc_config
  nc_storage :: storage_config
  nc_consensus :: consensus_config
  nc_validator :: "validator_config option"
  nc_crypto :: crypto_config

definition from_millis :: "nat \<Rightarrow> nat" where
  "from_millis n = n * 1000000"

definition as_millis :: "nat \<Rightarrow> nat" where
  "as_millis d = d div 1000000"

definition devnet_rpc_urls :: "string list" where
  "devnet_rpc_urls = [''http://127.0.0.1:8000'', ''http://127.0.0.1:8001'', ''http://127.0.0.1:8002'', ''http://127.0.0.1:8003'']"

definition node_config_default :: node_config where
  "node_config_default = \<lparr>nc_node_id = ''node-0'', nc_chain_id = ChainId ''zeno-devnet'',
     nc_metadata = \<lparr>nm_network_name = ''Zeno PQ Devnet'', nm_ticker = ''ZPQ'', nm_rpc_urls = devnet_rpc_urls,
       nm_block_explorer_url = ''http://127.0.0.1:8000/explorer'', nm_metamask_compatible = False,
       nm_metamask_snap_compatible = True, nm_smart_contracts_supported = True, nm_evm_chain_id = Some 424242,
       nm_compatibility_notice = ''Solidity-compatible EVM execution is enabled. Standard MetaMask network compatibility remains unavailable because user transaction authorization stays ML-DSA based; use the Zeno MetaMask Snap plus relayer/account-abstraction flow instead.'',
       nm_metamask_snap_id = Some ''local:http://127.0.0.1:8081/zeno-pq-snap''\<rparr>,
     nc_p2p = \<lparr>p2_listen = ''0.0.0.0:7000'', p2_peers = [], p2_max_frame_bytes = 8 * 1024 * 1024\<rparr>,
     nc_rpc = \<lparr>rp_listen = ''0.0.0.0:8000''\<rparr>, nc_storage = \<lparr>sc_data_dir = ''./data''\<rparr>,
     nc_consensus = \<lparr>cc_proposal_timeout = from_millis 1500, cc_vote_timeout = from_millis 1000,
       cc_max_transactions_per_block = 256\<rparr>,
     nc_validator = None, nc_crypto = \<lparr>cy_ml_dsa_parameter = ml_dsa_parameter_default\<rparr>\<rparr>"

definition consensus_params_of :: "node_config \<Rightarrow> consensus_params" where
  "consensus_params_of c = \<lparr>proposal_timeout_ms = of_nat (as_millis (cc_proposal_timeout (nc_consensus c))),
     vote_timeout_ms = of_nat (as_millis (cc_vote_timeout (nc_consensus c))),
     max_transactions_per_block = cc_max_transactions_per_block (nc_consensus c), max_block_bytes = 2097152,
     target_gas_per_block = 15000000, max_gas_per_block = 30000000\<rparr>"

definition crypto_params_of :: "node_config \<Rightarrow> crypto_params" where
  "crypto_params_of c = \<lparr>ml_dsa_parameter_name = description (cy_ml_dsa_parameter (nc_crypto c))\<rparr>"

record node_info =
  ni_node_id :: string
  ni_validator_address :: "address option"
  ni_p2p_listen :: string
  ni_rpc_listen :: string

definition node_info_of :: "node_config \<Rightarrow> node_info" where
  "node_info_of c = \<lparr>ni_node_id = nc_node_id c, ni_validator_address = map_option vc_address (nc_validator c),
     ni_p2p_listen = p2_listen (nc_p2p c), ni_rpc_listen = rp_listen (nc_rpc c)\<rparr>"

section \<open>Files and text\<close>

datatype file_content = TomlConfig node_config | JsonKey validator_config | JsonGenesis genesis

datatype file_op = CreateDir string | WriteFile string file_content

datatype genesis_error = GenIo | GenCrypto crypto_error | GenPanic

type_synonym 'a gen_action = "(file_op list, genesis_error, 'a) action"

definition file_op :: "(file_op \<Rightarrow> bool) \<Rightarrow> file_op \<Rightarrow> unit gen_action" where
  "file_op works f = (\<lambda>log. if works f then (log @ [f], Inr ()) else (log, Inl GenIo))"

fun decimal :: "nat \<Rightarrow> string" where
  "decimal n = (if n < 10 then [char_of (48 + n)] else decimal (n div 10) @ [char_of (48 + n mod 10)])"

declare decimal.simps [simp del]

text \<open>\<open>Path::join\<close> with a relative path.\<close>

definition path_join :: "string \<Rightarrow> string \<Rightarrow> string" where
  "path_join dir file = (if dir = [] then file else if last dir = CHR ''/'' then dir @ file else dir @ ''/'' @ file)"

section \<open>Devnet generation\<close>

record generated_validator =
  gv_config :: node_config
  gv_validator :: validator

definition validator_name :: "nat \<Rightarrow> string" where
  "validator_name i = ''validator-'' @ decimal i"

definition p2p_port :: "nat \<Rightarrow> 16 word" where
  "p2p_port i = 7000 + of_nat i"

definition rpc_port :: "nat \<Rightarrow> 16 word" where
  "rpc_port i = 8000 + of_nat i"

definition devnet_validator :: "nat \<Rightarrow> u8 list \<Rightarrow> address \<Rightarrow> validator" where
  "devnet_validator i public_key a = \<lparr>va_validator_id = validator_name i, va_voting_power = 1,
     va_p2p_address = validator_name i @ '':'' @ decimal (unat (p2p_port i)),
     va_rpc_address = validator_name i @ '':'' @ decimal (unat (rpc_port i)),
     va_public_key = public_key, va_address = a\<rparr>"

definition devnet_config ::
  "string \<Rightarrow> string \<Rightarrow> nat \<Rightarrow> nat \<Rightarrow> u8 list \<Rightarrow> u8 list \<Rightarrow> address \<Rightarrow> node_config" where
  "devnet_config dir chain validator_count i public_key secret_key a =
     node_config_default\<lparr>nc_node_id := validator_name i, nc_chain_id := ChainId chain,
       nc_metadata := (nc_metadata node_config_default)\<lparr>nm_network_name := ''Zeno PQ Devnet'', nm_ticker := ''ZPQ'',
         nm_block_explorer_url := ''http://127.0.0.1:8000/explorer'', nm_metamask_compatible := False,
         nm_metamask_snap_compatible := True, nm_smart_contracts_supported := True, nm_evm_chain_id := Some 424242,
         nm_metamask_snap_id := Some ''local:http://127.0.0.1:8081/zeno-pq-snap'',
         nm_compatibility_notice := ''Use the Zeno MetaMask Snap plus relayer/account-abstraction flow for ML-DSA-authenticated EVM interactions.'',
         nm_rpc_urls := devnet_rpc_urls\<rparr>,
       nc_p2p := (nc_p2p node_config_default)\<lparr>p2_listen := ''0.0.0.0:'' @ decimal (unat (p2p_port i)),
         p2_peers := map (\<lambda>peer. validator_name peer @ '':'' @ decimal (unat (p2p_port peer)))
           (filter (\<lambda>peer. peer \<noteq> i) [0..<validator_count])\<rparr>,
       nc_rpc := \<lparr>rp_listen = ''0.0.0.0:'' @ decimal (unat (rpc_port i))\<rparr>,
       nc_storage := \<lparr>sc_data_dir = path_join dir (''node-'' @ decimal i @ ''/data'')\<rparr>,
       nc_crypto := \<lparr>cy_ml_dsa_parameter = ml_dsa_parameter_default\<rparr>,
       nc_validator := Some \<lparr>vc_address = a, vc_public_key = public_key, vc_secret_key = secret_key\<rparr>\<rparr>"

text \<open>\<open>entry(address).or_insert(account)\<close>.\<close>

definition or_insert :: "'k::linorder \<Rightarrow> 'v \<Rightarrow> ('k, 'v) btree_map \<Rightarrow> ('k, 'v) btree_map" where
  "or_insert k v m = (if contains_key m k then m else bt_insert k v m)"

definition write_node :: "(file_op \<Rightarrow> bool) \<Rightarrow> string \<Rightarrow> nat \<Rightarrow> node_config \<Rightarrow> unit gen_action" where
  "write_node works dir i config = (let node_dir = path_join dir (''node-'' @ decimal i) in
     act_then (file_op works (CreateDir node_dir))
     (act_then (file_op works (WriteFile (path_join node_dir ''node.toml'') (TomlConfig config)))
     (case nc_validator config of
        None \<Rightarrow> act_fail GenPanic
      | Some key \<Rightarrow> file_op works (WriteFile (path_join node_dir ''validator-key.json'') (JsonKey key)))))"

fun devnet_loop ::
  "(file_op \<Rightarrow> bool) \<Rightarrow> scheme \<Rightarrow> (nat \<Rightarrow> crypto_error + (u8 list \<times> u8 list)) \<Rightarrow> string \<Rightarrow> string \<Rightarrow> nat \<Rightarrow> nat list \<Rightarrow>
   (address, account) btree_map \<Rightarrow> (generated_validator list \<times> (address, account) btree_map) gen_action" where
  "devnet_loop works S keypair dir chain validator_count [] accts = act_return ([], accts)"
| "devnet_loop works S keypair dir chain validator_count (i # is) accts =
    act_bind (act_lift (map_err GenCrypto (keypair i))) (\<lambda>(public_key, secret_key).
    act_bind (act_lift (map_err GenCrypto (sc_derive_address S public_key))) (\<lambda>raw.
    let a = Address raw;
        config = devnet_config dir chain validator_count i public_key secret_key a in
    act_then (write_node works dir i config)
    (act_bind (devnet_loop works S keypair dir chain validator_count is
        (or_insert a \<lparr>acct_nonce = 0, acct_balance = 1000000000\<rparr> accts)) (\<lambda>(rest, accts').
     act_return (\<lparr>gv_config = config, gv_validator = devnet_validator i public_key a\<rparr> # rest, accts')))))"

definition devnet_economics :: economics_params where
  "devnet_economics = \<lparr>minimum_self_bond = 1000000, epoch_length = 100, unbonding_epochs = 7, treasury_bps = 1000,
     downtime_slash_bps = 100, double_sign_slash_bps = 500\<rparr>"

definition funded_table :: "(address \<times> u128) list \<Rightarrow> (address, account) btree_map" where
  "funded_table funded = foldl (\<lambda>m (a, balance). bt_insert a \<lparr>acct_nonce = 0, acct_balance = balance\<rparr> m) [] funded"

definition generate_devnet ::
  "(file_op \<Rightarrow> bool) \<Rightarrow> scheme \<Rightarrow> (nat \<Rightarrow> crypto_error + (u8 list \<times> u8 list)) \<Rightarrow> string \<Rightarrow> string \<Rightarrow>
   (address \<times> u128) list \<Rightarrow> nat \<Rightarrow> genesis gen_action" where
  "generate_devnet works S keypair dir chain funded validator_count =
    act_then (file_op works (CreateDir dir))
    (act_bind (devnet_loop works S keypair dir chain validator_count [0..<validator_count] (funded_table funded))
      (\<lambda>(validators, accts). case validators of
         [] \<Rightarrow> act_fail GenPanic
       | first # _ \<Rightarrow>
          let g = \<lparr>gn_chain_id = ChainId chain, gn_metadata = nc_metadata (gv_config first), gn_accounts = accts,
                gn_validators = map gv_validator validators, gn_consensus = consensus_params_of (gv_config first),
                gn_crypto = crypto_params_of (gv_config first), gn_economics = devnet_economics\<rparr> in
          act_then (file_op works (WriteFile (path_join dir ''genesis.json'') (JsonGenesis g)))
          (act_return g)))"

definition generate_local_devnet where
  "generate_local_devnet works S keypair dir chain funded = generate_devnet works S keypair dir chain funded 4"

definition generate_solo_devnet where
  "generate_solo_devnet works S keypair dir chain funded = generate_devnet works S keypair dir chain funded 1"

definition genesis_path :: "string \<Rightarrow> string" where
  "genesis_path node_root = path_join node_root ''genesis.json''"

section \<open>Bootstrap of a store\<close>

datatype bootstrap_error = NoGenesisAccount address | BelowSelfBond address u128 u128 | BootstrapDelegation state_error

definition bootstrap_validator :: "genesis \<Rightarrow> staking_state \<Rightarrow> validator \<Rightarrow> bootstrap_error + staking_state" where
  "bootstrap_validator g staking v = (case map_of (gn_accounts g) (va_address v) of
       None \<Rightarrow> Inl (NoGenesisAccount (va_address v))
     | Some acct \<Rightarrow>
        if acct_balance acct < minimum_self_bond (gn_economics g)
        then Inl (BelowSelfBond (va_address v) (acct_balance acct) (minimum_self_bond (gn_economics g)))
        else let self_bond = minimum_self_bond (gn_economics g) in
          (case delegate staking (va_address v) (va_address v) self_bond True of
             (_, Inl e) \<Rightarrow> Inl (BootstrapDelegation e)
           | (staking', Inr _) \<Rightarrow> Inr staking'))"

definition load_accounts :: "genesis \<Rightarrow> memory_store \<Rightarrow> memory_store" where
  "load_accounts g store = (case get_genesis store of
     Some _ \<Rightarrow> store
   | None \<Rightarrow> foldl (\<lambda>s (a, acct). put_account s a acct) (put_genesis store g) (gn_accounts g))"

definition bootstrap_genesis :: "genesis \<Rightarrow> (memory_store, bootstrap_error, unit) action" where
  "bootstrap_genesis g = act_then (act_write (load_accounts g))
    (act_then (act_write (\<lambda>store. governance_persist (governance_load store (gn_economics g)) store))
    (act_bind (act_read staking_load) (\<lambda>staking.
     act_bind (act_lift (fold_res (bootstrap_validator g) (ensure_validators staking (gn_validators g)) (gn_validators g)))
      (\<lambda>staking'. act_write (staking_persist staking')))))"

text \<open>A node is started, stopped and started again on its store.\<close>

primrec node_starts :: "genesis \<Rightarrow> nat \<Rightarrow> (memory_store, bootstrap_error, unit) action" where
  "node_starts g 0 = act_return ()"
| "node_starts g (Suc n) = act_then (bootstrap_genesis g) (node_starts g n)"

section \<open>Stake over restarts\<close>

definition stake_of :: "staking_state \<Rightarrow> address \<Rightarrow> nat" where
  "stake_of s a = (case map_of (st_validators s) a of None \<Rightarrow> 0 | Some v \<Rightarrow> unat (vs_total_stake v))"

definition stored_stake :: "memory_store \<Rightarrow> address \<Rightarrow> nat" where
  "stored_stake store a = stake_of (staking_load store) a"

definition saturate :: "nat \<Rightarrow> nat" where
  "saturate n = min n (2 ^ 128 - 1)"

lemma saturate_add: "saturate (saturate m + n) = saturate (m + n)" "saturate (n + saturate m) = saturate (m + n)"
  by (auto simp: saturate_def)

lemma stake_of_saturated: "saturate (stake_of s a) = stake_of s a"
proof -
  have "unat v \<le> 2 ^ 128 - 1" for v :: u128 using unat_word_bound [of v] by simp
  then show ?thesis by (simp add: saturate_def stake_of_def min_def split: option.split)
qed

lemma stake_of_ensure: "stake_of (ensure_validators s vs) a = stake_of s a"
  unfolding ensure_validators_def
proof (induction vs arbitrary: s)
  case (Cons v vs)
  have "stake_of (ensure_validator s v) a = stake_of s a"
    by (auto simp: ensure_validator_def stake_of_def contains_key_def split: option.split)
  then show ?case by (simp add: Cons.IH)
qed simp

lemma stake_of_delegate:
  assumes "delegate s d v amount self = (s', Inr u)"
  shows "stake_of s' a = (if a = v then saturate (stake_of s a + unat amount) else stake_of s a)"
  using assms
  by (auto simp: delegate_def stake_of_def saturate_def Let_def unat_saturating_add split: option.splits if_splits)

lemma stake_of_bootstrap:
  assumes "bootstrap_validator g s v = Inr s'"
  shows "stake_of s' a = (if a = va_address v then saturate (stake_of s a + unat (minimum_self_bond (gn_economics g)))
    else stake_of s a)"
  using assms
  by (auto simp: bootstrap_validator_def Let_def split: option.splits if_splits prod.splits sum.splits
      dest!: stake_of_delegate [where a = a])

lemma stake_of_bootstraps:
  assumes "fold_res (bootstrap_validator g) s vs = Inr s'"
  shows "stake_of s' a = saturate (stake_of s a + count_list (map va_address vs) a * unat (minimum_self_bond (gn_economics g)))"
  using assms
proof (induction vs arbitrary: s)
  case Nil
  then show ?case by (simp add: stake_of_saturated)
next
  case (Cons v vs)
  then obtain t where t: "bootstrap_validator g s v = Inr t" "fold_res (bootstrap_validator g) t vs = Inr s'"
    by (auto simp: bind_res_eq_Inr)
  show ?case using Cons.IH [OF t(2)] stake_of_bootstrap [OF t(1), of a]
    by (simp add: saturate_add ac_simps)
qed

lemma account_frame:
  "get_account (put_account s b acct) a = (if a = b then Some acct else get_account s a)"
  "get_account (put_genesis s g) a = get_account s a"
  "get_genesis (put_account s b acct) = get_genesis s"
  "get_genesis (put_genesis s g) = Some g"
  "get_staking_state (put_account s b acct) = get_staking_state s"
  "get_staking_state (put_genesis s g) = get_staking_state s"
  by (simp_all add: store_ops)

lemma put_all_accounts:
  shows get_account_put_all: "get_account (foldl (\<lambda>s (a, acct). put_account s a acct) store m) x =
      (case map_of (rev m) x of Some acct \<Rightarrow> Some acct | None \<Rightarrow> get_account store x)"
    and "get_genesis (foldl (\<lambda>s (a, acct). put_account s a acct) store m) = get_genesis store"
    and "get_staking_state (foldl (\<lambda>s (a, acct). put_account s a acct) store m) = get_staking_state store"
proof -
  have "get_account (foldl (\<lambda>s (a, acct). put_account s a acct) store m) x =
      (case map_of (rev m) x of Some acct \<Rightarrow> Some acct | None \<Rightarrow> get_account store x) \<and>
    get_genesis (foldl (\<lambda>s (a, acct). put_account s a acct) store m) = get_genesis store \<and>
    get_staking_state (foldl (\<lambda>s (a, acct). put_account s a acct) store m) = get_staking_state store"
    by (induction m arbitrary: store) (auto simp: account_frame map_add_def split: option.split)
  then show "get_account (foldl (\<lambda>s (a, acct). put_account s a acct) store m) x =
      (case map_of (rev m) x of Some acct \<Rightarrow> Some acct | None \<Rightarrow> get_account store x)"
    and "get_genesis (foldl (\<lambda>s (a, acct). put_account s a acct) store m) = get_genesis store"
    and "get_staking_state (foldl (\<lambda>s (a, acct). put_account s a acct) store m) = get_staking_state store"
    by simp_all
qed

lemma load_accounts_genesis: "get_genesis (load_accounts g store) \<noteq> None"
  by (auto simp: load_accounts_def put_all_accounts account_frame split: option.split)

lemma load_accounts_staking: "staking_load (load_accounts g store) = staking_load store"
  by (auto simp: load_accounts_def put_all_accounts account_frame staking_load_def split: option.split)

lemma bootstrap_run:
  assumes "bootstrap_genesis g store = (store', Inr ())"
  shows "stored_stake store' a = saturate (stored_stake store a +
      count_list (map va_address (gn_validators g)) a * unat (minimum_self_bond (gn_economics g)))"
    and "get_account store' x = get_account (load_accounts g store) x"
    and "get_genesis store' = get_genesis (load_accounts g store)"
proof -
  obtain staking where staking: "fold_res (bootstrap_validator g)
      (ensure_validators (staking_load store) (gn_validators g)) (gn_validators g) = Inr staking"
    and store': "store' = staking_persist staking (governance_persist
      (governance_load (load_accounts g store) (gn_economics g)) (load_accounts g store))"
    using assms load_accounts_staking [of g store]
    by (auto simp: bootstrap_genesis_def act_bind_Inr governance_persist_def staking_load_def store_ops)
  show "stored_stake store' a = saturate (stored_stake store a +
      count_list (map va_address (gn_validators g)) a * unat (minimum_self_bond (gn_economics g)))"
    using stake_of_bootstraps [OF staking, of a]
    by (simp add: stored_stake_def stake_of_ensure store' staking_persist_def staking_load_def store_ops)
  show "get_account store' x = get_account (load_accounts g store) x"
    and "get_genesis store' = get_genesis (load_accounts g store)"
    by (simp_all add: store' staking_persist_def governance_persist_def store_ops)
qed

section \<open>Generated networks\<close>

lemma or_insert_lookup: "map_of (or_insert k v m) x = (if x = k \<and> map_of m k = None then Some v else map_of m x)"
  by (auto simp: or_insert_def contains_key_def)

text \<open>What the loop leaves: accounts that were there are kept, every validator has an account, and a new
  account holds a billion.\<close>

definition grown :: "(address, account) btree_map \<Rightarrow> (address, account) btree_map \<Rightarrow> bool" where
  "grown m m' \<longleftrightarrow> (\<forall>x. map_of m' x = map_of m x \<or> map_of m x = None \<and> map_of m' x = Some \<lparr>acct_nonce = 0, acct_balance = 1000000000\<rparr>)"

lemma grown_or_insert:
  assumes "grown (or_insert k \<lparr>acct_nonce = 0, acct_balance = 1000000000\<rparr> m) m'"
  shows "grown m m' \<and> map_of m' k \<noteq> None"
  using assms unfolding grown_def or_insert_lookup by (metis option.distinct(1))

lemma funded_table_wf: "bt_wf (funded_table funded)"
proof -
  have "bt_wf (foldl (\<lambda>m (a, balance). bt_insert a \<lparr>acct_nonce = 0, acct_balance = balance\<rparr> m) m fs)"
    if "bt_wf m" for m fs
    using that by (induction fs arbitrary: m) (auto simp: bt_wf_insert split: prod.split)
  from this [of "[]" funded] show ?thesis by (simp add: funded_table_def)
qed

lemma devnet_loop_wf:
  assumes "devnet_loop works S keypair dir chain n is accts log = (log', Inr (vs, accts'))" "bt_wf accts"
  shows "bt_wf accts'"
  using assms
proof (induction "is" arbitrary: accts log vs)
  case (Cons i "is")
  then show ?case
    by (auto simp: act_bind_Inr act_then_Inr Let_def or_insert_def bt_wf_insert split: prod.splits if_splits)
qed simp

lemma devnet_loop_ok:
  assumes "devnet_loop works S keypair dir chain n is accts log = (log', Inr (vs, accts'))"
  shows "grown accts accts' \<and> length vs = length is \<and>
    list_all (\<lambda>v. map_of accts' (va_address (gv_validator v)) \<noteq> None) vs"
  using assms
proof (induction "is" arbitrary: accts log vs)
  case Nil
  then show ?case by (simp add: grown_def)
next
  case (Cons i "is")
  then obtain a rest log1 v where rest: "devnet_loop works S keypair dir chain n is
      (or_insert a \<lparr>acct_nonce = 0, acct_balance = 1000000000\<rparr> accts) log1 = (log', Inr (rest, accts'))"
    and vs: "vs = v # rest" and v: "va_address (gv_validator v) = a"
    by (auto simp: act_bind_Inr act_then_Inr Let_def devnet_validator_def split: prod.splits)
  show ?case using Cons.IH [OF rest] grown_or_insert vs v by auto
qed

lemma generate_devnet_ok:
  assumes "generate_devnet works S keypair dir chain funded n log = (log', Inr g)"
  shows "grown (funded_table funded) (gn_accounts g) \<and> bt_wf (gn_accounts g) \<and> length (gn_validators g) = n \<and>
    list_all (\<lambda>v. map_of (gn_accounts g) (va_address v) \<noteq> None) (gn_validators g) \<and>
    gn_economics g = devnet_economics \<and> gn_chain_id g = ChainId chain"
proof -
  obtain vs accts t u where loop: "devnet_loop works S keypair dir chain n [0..<n] (funded_table funded) t = (u, Inr (vs, accts))"
    and end_: "(case vs of [] \<Rightarrow> act_fail GenPanic
       | first # _ \<Rightarrow> let g = \<lparr>gn_chain_id = ChainId chain, gn_metadata = nc_metadata (gv_config first), gn_accounts = accts,
                gn_validators = map gv_validator vs, gn_consensus = consensus_params_of (gv_config first),
                gn_crypto = crypto_params_of (gv_config first), gn_economics = devnet_economics\<rparr> in
          act_then (file_op works (WriteFile (path_join dir ''genesis.json'') (JsonGenesis g))) (act_return g)) u = (log', Inr g)"
    using assms unfolding generate_devnet_def act_bind_Inr act_then_Inr by fast
  obtain first rest where "vs = first # rest" using end_ by (cases vs) auto
  then have "gn_chain_id g = ChainId chain" "gn_accounts g = accts" "gn_validators g = map gv_validator vs"
      "gn_economics g = devnet_economics"
    using end_ by (auto simp: Let_def act_then_Inr)
  then show ?thesis using devnet_loop_ok [OF loop] devnet_loop_wf [OF loop funded_table_wf] by (simp add: list_all_iff)
qed

lemma funded_table_balances:
  assumes "map_of (funded_table funded) x = Some acct"
  shows "(x, acct_balance acct) \<in> set funded"
proof -
  have "(x, acct_balance acct) \<in> set fs \<or> map_of m x = Some acct"
    if "map_of (foldl (\<lambda>m (a, balance). bt_insert a \<lparr>acct_nonce = 0, acct_balance = balance\<rparr> m) m fs) x = Some acct" for m fs
    using that by (induction fs arbitrary: m) (force split: if_splits)+
  from this [of "[]" funded] show ?thesis using assms by (auto simp: funded_table_def)
qed

lemma bootstrap_validators_ok:
  assumes "list_all (\<lambda>v. \<exists>acct. map_of (gn_accounts g) (va_address v) = Some acct \<and>
      minimum_self_bond (gn_economics g) \<le> acct_balance acct) vs"
    and "list_all (\<lambda>v. map_of (st_validators s) (va_address v) \<noteq> None) vs"
  shows "\<exists>s'. fold_res (bootstrap_validator g) s vs = Inr s'"
  using assms
proof (induction vs arbitrary: s)
  case (Cons v vs)
  then obtain acct w where v: "map_of (gn_accounts g) (va_address v) = Some acct"
      "minimum_self_bond (gn_economics g) \<le> acct_balance acct" "map_of (st_validators s) (va_address v) = Some w"
    by auto
  then obtain t where t: "bootstrap_validator g s v = Inr t"
      "\<And>x. map_of (st_validators s) x \<noteq> None \<Longrightarrow> map_of (st_validators t) x \<noteq> None"
    by (simp add: bootstrap_validator_def delegate_def Let_def not_less)
  then show ?case using Cons by (simp add: list_all_iff)
qed simp

lemma ensure_known:
  "map_of (st_validators s) x \<noteq> None \<or> x \<in> va_address ` set vs \<Longrightarrow>
    map_of (st_validators (ensure_validators s vs)) x \<noteq> None"
  unfolding ensure_validators_def
proof (induction vs arbitrary: s)
  case (Cons v vs)
  have "map_of (st_validators (ensure_validator s v)) x \<noteq> None \<or> x \<in> va_address ` set vs"
    using Cons.prems by (auto simp: ensure_validator_def contains_key_def)
  then show ?case using Cons.IH by simp
qed simp

lemma bootstrap_ok:
  assumes "list_all (\<lambda>v. \<exists>acct. map_of (gn_accounts g) (va_address v) = Some acct \<and>
      minimum_self_bond (gn_economics g) \<le> acct_balance acct) (gn_validators g)"
  shows "\<exists>store'. bootstrap_genesis g store = (store', Inr ())"
proof -
  let ?staking = "ensure_validators (staking_load store) (gn_validators g)"
  have "list_all (\<lambda>v. map_of (st_validators ?staking) (va_address v) \<noteq> None) (gn_validators g)"
    unfolding list_all_iff using ensure_known by blast
  then obtain s' where s': "fold_res (bootstrap_validator g) ?staking (gn_validators g) = Inr s'"
    using bootstrap_validators_ok [OF assms] by blast
  have "staking_load (governance_persist gov s) = staking_load s" for gov s
    by (simp add: governance_persist_def staking_load_def store_ops)
  then show ?thesis
    by (simp add: bootstrap_genesis_def load_accounts_staking s' act_bind_def [of "act_lift _"])
qed

section \<open>Properties\<close>

text \<open>C22: Every start of a node adds to the stake of the validators. After \<open>n\<close> starts the stake stored for a validator has
  grown by \<open>n\<close> times the minimum self-bond, up to saturation, although nobody bonded anything and no account was debited.\<close>

theorem restart_inflates_stake:
  assumes "node_starts g n store = (store', Inr ())" "get_genesis store \<noteq> None"
  shows "stored_stake store' a = saturate (stored_stake store a +
      n * count_list (map va_address (gn_validators g)) a * unat (minimum_self_bond (gn_economics g))) \<and>
    get_account store' x = get_account store x"
  using assms
proof (induction n arbitrary: store)
  case 0
  then show ?case by (simp add: stored_stake_def stake_of_saturated)
next
  case (Suc n)
  then obtain t where t: "bootstrap_genesis g store = (t, Inr ())" "node_starts g n t = (store', Inr ())"
    by (auto simp: act_then_Inr)
  have loaded: "load_accounts g store = store" using Suc.prems(2) by (auto simp: load_accounts_def)
  then have "get_genesis t \<noteq> None" using bootstrap_run(3) [OF t(1)] Suc.prems(2) by simp
  from Suc.IH [OF t(2) this] bootstrap_run(1) [OF t(1), of a] bootstrap_run(2) [OF t(1), of x] loaded
  show ?case by (simp add: saturate_add algebra_simps)
qed

text \<open>A generated network boots. When every account that is funded by hand holds at least the minimum self-bond, a start
  on a store without a genesis succeeds, the store holds the accounts of the genesis, and every validator has
  the minimum self-bond at stake, once for each time its address is drawn.\<close>

theorem generated_network_boots:
  assumes "generate_devnet works S keypair dir chain funded n log = (log', Inr g)"
    and "list_all (\<lambda>(a, balance). 1000000 \<le> balance) funded"
    and "get_genesis store = None"
  shows "\<exists>store'. bootstrap_genesis g store = (store', Inr ()) \<and>
    (\<forall>x. get_account store' x = (case map_of (gn_accounts g) x of Some acct \<Rightarrow> Some acct | None \<Rightarrow> get_account store x)) \<and>
    (\<forall>a. stored_stake store' a = saturate (stored_stake store a + count_list (map va_address (gn_validators g)) a * 1000000))"
proof -
  note gen = generate_devnet_ok [OF assms(1)]
  have rich: "(1000000 :: u128) \<le> acct_balance acct" if "map_of (gn_accounts g) x = Some acct" for x acct
  proof (cases "map_of (funded_table funded) x = Some acct")
    case True
    then show ?thesis using funded_table_balances assms(2) by (fastforce simp: list_all_iff)
  next
    case False
    then have "acct = \<lparr>acct_nonce = 0, acct_balance = 1000000000\<rparr>"
      using gen that unfolding grown_def by (metis option.inject)
    then show ?thesis by simp
  qed
  have "list_all (\<lambda>v. \<exists>acct. map_of (gn_accounts g) (va_address v) = Some acct \<and>
      minimum_self_bond (gn_economics g) \<le> acct_balance acct) (gn_validators g)"
    using gen rich by (auto simp: list_all_iff devnet_economics_def)
  then obtain store' where boot: "bootstrap_genesis g store = (store', Inr ())" using bootstrap_ok by blast
  have "map_of (rev (gn_accounts g)) = map_of (gn_accounts g)"
    using gen by (intro map_of_rev_distinct) (simp add: bt_wf_distinct)
  then have "get_account store' x = (case map_of (gn_accounts g) x of Some acct \<Rightarrow> Some acct | None \<Rightarrow> get_account store x)" for x
    using bootstrap_run(2) [OF boot] assms(3) by (simp add: load_accounts_def get_account_put_all account_frame split: option.split)
  moreover have "stored_stake store' a = saturate (stored_stake store a + count_list (map va_address (gn_validators g)) a * 1000000)" for a
    using bootstrap_run(1) [OF boot] gen by (simp add: devnet_economics_def)
  ultimately show ?thesis using boot by blast
qed

text \<open>A genesis with one validator, and the network that a generator with fixed keys makes.\<close>

definition lone_genesis :: genesis where
  "lone_genesis = \<lparr>gn_chain_id = ChainId ''z'', gn_metadata = nc_metadata node_config_default,
     gn_accounts = [(sample_address, \<lparr>acct_nonce = 0, acct_balance = 500\<rparr>)], gn_validators = [sample_validator],
     gn_consensus = consensus_params_of node_config_default, gn_crypto = crypto_params_of node_config_default,
     gn_economics = sample_economics\<rparr>"

theorem restart_inflates_stake_witness:
  "stored_stake (fst (node_starts lone_genesis 3 (put_genesis memory_store_default lone_genesis))) sample_address = 300"
proof -
  let ?store = "put_genesis memory_store_default lone_genesis"
  have "\<exists>store'. bootstrap_genesis lone_genesis s = (store', Inr ())" for s
    by (rule bootstrap_ok) (simp add: lone_genesis_def sample_economics_def sample_validator_def)
  then obtain t where "node_starts lone_genesis 3 ?store = (t, Inr ())"
    unfolding numeral_3_eq_3 node_starts.simps act_then_Inr by (metis act_bind_simps(6))
  moreover have "get_genesis ?store \<noteq> None" by (simp add: store_ops)
  ultimately show ?thesis
    using restart_inflates_stake [of lone_genesis 3 ?store t sample_address sample_address]
    by (simp add: stored_stake_def stake_of_def staking_load_def store_ops memory_store_default_def staking_state_default_def
        lone_genesis_def sample_validator_def sample_economics_def saturate_def)
qed

definition fixed_scheme :: scheme where
  "fixed_scheme = \<lparr>sc_metadata = \<lparr>public_key_bytes = 1, secret_key_bytes = 1, signature_bytes = 1\<rparr>,
     sc_generate_keypair = Inr ([1], [2]), sc_sign = (\<lambda>_ _ _. Inr [3]), sc_verify = (\<lambda>_ _ _ _. Inr ()),
     sc_derive_address = (\<lambda>pk. Inr (ucast (hd pk)))\<rparr>"

theorem generated_network_boots_witness:
  "\<exists>log g store'. generate_solo_devnet (\<lambda>_. True) fixed_scheme (\<lambda>_. Inr ([1], [2])) ''d'' ''z'' [(Address 9, 2000000)] [] = (log, Inr g) \<and>
    bootstrap_genesis g memory_store_default = (store', Inr ()) \<and> stored_stake store' (Address 1) = 1000000"
proof -
  have "\<exists>log g. generate_solo_devnet (\<lambda>_. True) fixed_scheme (\<lambda>_. Inr ([1], [2])) ''d'' ''z'' [(Address 9, 2000000)] [] = (log, Inr g) \<and>
      map va_address (gn_validators g) = [Address 1]"
    by (simp add: generate_solo_devnet_def generate_devnet_def file_op_def act_then_def act_bind_def fixed_scheme_def
        write_node_def devnet_config_def devnet_validator_def Let_def)
  then obtain log g where g: "generate_solo_devnet (\<lambda>_. True) fixed_scheme (\<lambda>_. Inr ([1], [2])) ''d'' ''z'' [(Address 9, 2000000)] [] = (log, Inr g)"
      "map va_address (gn_validators g) = [Address 1]" by (elim exE conjE)
  have "stored_stake memory_store_default a = 0" for a
    by (simp add: stored_stake_def stake_of_def staking_load_def store_ops memory_store_default_def staking_state_default_def)
  then show ?thesis
    using g generated_network_boots [OF g(1) [unfolded generate_solo_devnet_def], of memory_store_default]
    by (auto simp: memory_store_default_def store_ops saturate_def)
qed

end
