(* ===== verification/Zeno_Provider.thy ===== *)
theory Zeno_Provider
  imports Zeno_Sync Zeno_EthTx Zeno_Genesis Zeno_ZK
begin

text \<open>
  What the node offers over RPC: the implementation of \<open>RpcProvider\<close> in \<open>zeno-node/src/runtime.rs\<close>
  with the execution and consensus planes it uses. A method is an action on the node's state: the
  runtime of \<open>Zeno_Sync\<close> and the shielded pool. Methods read and write the store with no lock over
  the whole method; an action is one call that runs alone. The key file of the faucet, the \<open>hex\<close>
  crate, the secp256k1 recovery and the EVM interpreter are parameters.
\<close>

section \<open>The execution plane\<close>

record execution_plane =
  ep_chain_id :: chain_id
  ep_evm_chain_id :: "u64 option"
  ep_genesis :: genesis

definition execution_plane_new :: "chain_id \<Rightarrow> genesis \<Rightarrow> execution_plane" where
  "execution_plane_new chain g =
     \<lparr>ep_chain_id = chain, ep_evm_chain_id = nm_evm_chain_id (gn_metadata g), ep_genesis = g\<rparr>"

definition engine_with_protocol ::
  "chain_id \<Rightarrow> u64 option \<Rightarrow> economics_params \<Rightarrow> validator list \<Rightarrow> execution_engine" where
  "engine_with_protocol chain evm economics validators = \<lparr>en_chain_id = chain, en_evm_chain_id = evm,
     en_economics = Some economics, en_validators = validators, en_target_gas_per_block = 15000000\<rparr>"

definition plane_engine :: "execution_plane \<Rightarrow> execution_engine" where
  "plane_engine P = engine_with_protocol (ep_chain_id P) (ep_evm_chain_id P) (gn_economics (ep_genesis P))
     (gn_validators (ep_genesis P))"

datatype provider_error =
    PvText string
  | PvState state_error
  | PvCrypto crypto_error
  | PvTx transaction_error
  | PvMempool mempool_error
  | PvEvm evm_error
  | PvZk zk_error
  | PvPanic

definition next_height :: "memory_store \<Rightarrow> u64" where
  "next_height store = (case latest_block store of None \<Rightarrow> 1 | Some fb \<Rightarrow> bh_height (bk_header (fb_block fb)) + 1)"

definition plane_validate_transaction ::
  "ext \<Rightarrow> scheme \<Rightarrow> execution_plane \<Rightarrow> memory_store \<Rightarrow> transaction \<Rightarrow> provider_error + unit" where
  "plane_validate_transaction E S P store tx =
     bind_res (map_err PvState (load_state store)) (\<lambda>state.
     map_err PvTx (validate_transaction E (plane_engine P) S state (next_height store) tx))"

definition evm_not_enabled :: provider_error where
  "evm_not_enabled = PvText ''evm is not enabled for this chain''"

definition plane_eth_call ::
  "scheme \<Rightarrow> revm \<Rightarrow> execution_plane \<Rightarrow> memory_store \<Rightarrow> evm_call_request \<Rightarrow> provider_error + u8 list" where
  "plane_eth_call S R P store request = (case ep_evm_chain_id P of
       None \<Rightarrow> Inl evm_not_enabled
     | Some chain \<Rightarrow> map_err PvEvm (eth_call S R \<lparr>ex_evm_chain_id = chain\<rparr> store request))"

definition plane_eth_get_code :: "execution_plane \<Rightarrow> memory_store \<Rightarrow> evm_address \<Rightarrow> u8 list" where
  "plane_eth_get_code P store a = (case ep_evm_chain_id P of None \<Rightarrow> [] | Some _ \<Rightarrow> get_code store a)"

definition plane_execute_raw_eth_tx ::
  "ext \<Rightarrow> scheme \<Rightarrow> revm \<Rightarrow> k256 \<Rightarrow> (string \<Rightarrow> u8 list option) \<Rightarrow> execution_plane \<Rightarrow> memory_store \<Rightarrow> string \<Rightarrow>
   (memory_store \<times> (provider_error + (256 word \<times> evm_call_result))) option" where
  "plane_execute_raw_eth_tx E S R K from_hex P store raw_hex = (case ep_evm_chain_id P of
       None \<Rightarrow> Some (store, Inl evm_not_enabled)
     | Some chain \<Rightarrow> map_option (\<lambda>(store', r). (store', map_err (\<lambda>e. case e of None \<Rightarrow> PvPanic | Some x \<Rightarrow> PvEvm x) r))
         (execute_raw_ethereum_tx E S R K from_hex \<lparr>ex_evm_chain_id = chain\<rparr> store raw_hex))"

section \<open>The consensus plane\<close>

definition consensus_plane_new ::
  "node_config \<Rightarrow> genesis \<Rightarrow> scheme \<Rightarrow> execution_plane \<Rightarrow> provider_error + consensus_engine" where
  "consensus_plane_new config g S P = (case nc_validator config of
       None \<Rightarrow> Inr (consensus_engine_new g S (plane_engine P) None)
     | Some key \<Rightarrow>
        bind_res (ok_or (PvText ''validator not present in genesis'')
          (List.find (\<lambda>entry. va_address entry = vc_address key) (gn_validators g))) (\<lambda>descriptor.
        Inr (consensus_engine_new g S (plane_engine P)
          (Some \<lparr>lv_validator = descriptor, lv_secret_key = vc_secret_key key\<rparr>))))"

section \<open>The node\<close>

record provider =
  pv_runtime :: runtime
  pv_zk_pool :: shielded_pool

record provider_env =
  pe_ext :: ext
  pe_scheme :: scheme
  pe_revm :: revm
  pe_k256 :: k256
  pe_to_hex :: "u8 list \<Rightarrow> string"
  pe_from_hex :: "string \<Rightarrow> u8 list option"
  pe_plane :: execution_plane
  pe_genesis :: genesis
  pe_config :: runtime_config
  pe_faucet :: "(provider_error + address) option"

type_synonym 'a rpc_action = "(provider, provider_error, 'a) action"

definition pv_store :: "provider \<Rightarrow> memory_store" where
  "pv_store p = store_of (pv_runtime p)"

definition pv_mempool :: "provider \<Rightarrow> mempool" where
  "pv_mempool p = nd_mempool (rt_node (pv_runtime p))"

definition update_node :: "(node \<Rightarrow> node) \<Rightarrow> provider \<Rightarrow> provider" where
  "update_node f p = p\<lparr>pv_runtime := (pv_runtime p)\<lparr>rt_node := f (rt_node (pv_runtime p))\<rparr>\<rparr>"

definition set_store :: "memory_store \<Rightarrow> provider \<Rightarrow> provider" where
  "set_store store = update_node (\<lambda>n. n\<lparr>nd_store := store\<rparr>)"

definition write_store :: "(memory_store \<Rightarrow> memory_store) \<Rightarrow> unit rpc_action" where
  "write_store f = act_write (\<lambda>p. set_store (f (pv_store p)) p)"

section \<open>Queries\<close>

definition account_or_default :: "memory_store \<Rightarrow> address \<Rightarrow> account" where
  "account_or_default store a = (case get_account store a of None \<Rightarrow> account_default | Some acct \<Rightarrow> acct)"

definition get_balance :: "memory_store \<Rightarrow> address \<Rightarrow> u128" where
  "get_balance store a = acct_balance (account_or_default store a)"

definition get_nonce :: "memory_store \<Rightarrow> address \<Rightarrow> u64" where
  "get_nonce store a = acct_nonce (account_or_default store a)"

datatype transaction_status = Unknown | Pending | Finalized receipt

definition get_tx_status :: "provider \<Rightarrow> hash32 \<Rightarrow> transaction_status" where
  "get_tx_status p h = (case get_receipt (pv_store p) h of
       Some receipt \<Rightarrow> Finalized receipt
     | None \<Rightarrow> if mp_contains (pv_mempool p) h then Pending else Unknown)"

definition get_validator_set :: "provider_env \<Rightarrow> validator list" where
  "get_validator_set V = gn_validators (pe_genesis V)"

definition eth_chain_id :: "provider_env \<Rightarrow> u64 option" where
  "eth_chain_id V = ep_evm_chain_id (pe_plane V)"

definition eth_block_number :: "memory_store \<Rightarrow> u64" where
  "eth_block_number store = latest_height store"

text \<open>The native address of an EVM address is its 20 bytes after 12 zero bytes.\<close>

definition native_address :: "evm_address \<Rightarrow> address" where
  "native_address a = Address (ucast (evm_address_raw a))"

definition eth_get_balance :: "memory_store \<Rightarrow> evm_address \<Rightarrow> u128" where
  "eth_get_balance store a =
    (let evm_balance = (case get_evm_account store a of None \<Rightarrow> 0 | Some acct \<Rightarrow> ea_balance acct);
         native_balance = (case get_account store (native_address a) of None \<Rightarrow> 0 | Some acct \<Rightarrow> acct_balance acct) in
     saturating_add evm_balance native_balance)"

definition eth_get_transaction_count :: "memory_store \<Rightarrow> evm_address \<Rightarrow> u64" where
  "eth_get_transaction_count store a = (case get_evm_account store a of None \<Rightarrow> 0 | Some acct \<Rightarrow> ea_nonce acct)"

definition topics_match :: "hash32 option list \<Rightarrow> hash32 list \<Rightarrow> bool" where
  "topics_match filters topics = list_all (\<lambda>(i, f). case f of
       None \<Rightarrow> True | Some required \<Rightarrow> i < length topics \<and> topics ! i = required) (enumerate 0 filters)"

definition log_matches :: "evm_log_filter \<Rightarrow> evm_log \<Rightarrow> bool" where
  "log_matches f log = ((case lf_address f of None \<Rightarrow> True | Some a \<Rightarrow> log_address log = a) \<and>
     topics_match (lf_topics f) (log_topics log))"

definition eth_get_logs :: "memory_store \<Rightarrow> evm_log_filter \<Rightarrow> evm_log list option" where
  "eth_get_logs store f =
    (let from_height = (case lf_from_block f of None \<Rightarrow> 0 | Some h \<Rightarrow> h);
         to_height = (case lf_to_block f of None \<Rightarrow> latest_height store | Some h \<Rightarrow> h) in
     map_option (\<lambda>raw_logs. filter (log_matches f) (map snd raw_logs)) (get_evm_logs_range store from_height to_height))"

definition eth_estimate_gas :: "provider_env \<Rightarrow> memory_store \<Rightarrow> evm_call_request \<Rightarrow> provider_error + u64" where
  "eth_estimate_gas V store request =
     bind_res (plane_eth_call (pe_scheme V) (pe_revm V) (pe_plane V) store request)
       (\<lambda>result. Inr (of_nat (length result) + 21000))"

definition eth_gas_price :: u128 where
  "eth_gas_price = 0"

definition get_recent_blocks :: "memory_store \<Rightarrow> u64 \<Rightarrow> finalized_block list" where
  "get_recent_blocks store wanted =
    (let latest = latest_height store; start = saturating_sub latest (saturating_sub wanted 1) in
     List.map_filter (\<lambda>h. get_block_by_height store (of_nat h)) (rev [unat start..<Suc (unat latest)]))"

definition get_staking_state_rpc :: "memory_store \<Rightarrow> staking_state" where
  "get_staking_state_rpc store = (staking_load store)\<lparr>st_delegations := []\<rparr>"

definition get_governance_state_rpc :: "memory_store \<Rightarrow> provider_error + governance_state" where
  "get_governance_state_rpc store = ok_or (PvText ''governance state not initialized'') (get_governance_state store)"

section \<open>Calls that write\<close>

definition submit_tx :: "provider_env \<Rightarrow> transaction \<Rightarrow> hash32 rpc_action" where
  "submit_tx V tx = act_bind (act_read pv_store) (\<lambda>store.
     act_then (act_lift (plane_validate_transaction (pe_ext V) (pe_scheme V) (pe_plane V) store tx))
     (act_then (\<lambda>p. case mp_insert (pe_ext V) (pv_mempool p) tx of
          None \<Rightarrow> (p, Inl PvPanic)
        | Some (m, r) \<Rightarrow> (update_node (\<lambda>n. n\<lparr>nd_mempool := m\<rparr>) p, map_err PvMempool r))
     (act_then (act_write (\<lambda>p. p\<lparr>pv_runtime := (pv_runtime p)
          \<lparr>rt_posted := rt_posted (pv_runtime p) @ [handle_broadcast (TransactionMsg tx)]\<rparr>\<rparr>))
     (act_return (tx_id (pe_ext V) tx)))))"

text \<open>A transaction that the decoder never finishes with leaves no state: \<open>None\<close>.\<close>

definition eth_send_raw_transaction ::
  "provider_env \<Rightarrow> string \<Rightarrow> provider \<Rightarrow> (provider \<times> (provider_error + hash32)) option" where
  "eth_send_raw_transaction V raw_hex p = map_option
     (\<lambda>(store', r). (set_store store' p, case r of Inl e \<Rightarrow> Inl e | Inr (tx_hash, _) \<Rightarrow> Inr (Hash32 tx_hash)))
     (plane_execute_raw_eth_tx (pe_ext V) (pe_scheme V) (pe_revm V) (pe_k256 V) (pe_from_hex V) (pe_plane V)
        (pv_store p) raw_hex)"

definition joining_validator :: "provider_env \<Rightarrow> validator_join_request \<Rightarrow> address \<Rightarrow> validator" where
  "joining_validator V request a =
     \<lparr>va_validator_id = ''validator-'' @ pe_to_hex V (take 8 (array_bytes 32 (address_raw a))), va_voting_power = 1,
      va_p2p_address = jr_p2p_address request, va_rpc_address = jr_rpc_address request,
      va_public_key = jr_public_key request, va_address = a\<rparr>"

definition register_validator :: "provider_env \<Rightarrow> validator_join_request \<Rightarrow> unit rpc_action" where
  "register_validator V request =
     act_bind (act_lift (map_err PvCrypto (sc_derive_address (pe_scheme V) (jr_public_key request)))) (\<lambda>raw.
     let a = Address raw in
     if jr_self_bond request < minimum_self_bond (gn_economics (pe_genesis V))
     then act_fail (PvText ''self-bond below minimum'')
     else act_bind (act_read (\<lambda>p. staking_load (pv_store p))) (\<lambda>staking.
       case delegate (ensure_validators staking [joining_validator V request a]) a a (jr_self_bond request) True of
         (_, Inl e) \<Rightarrow> act_fail (PvState e)
       | (staking', Inr _) \<Rightarrow> write_store (staking_persist staking')))"

definition MAX_FAUCET_AMOUNT :: u128 where
  "MAX_FAUCET_AMOUNT = 1000000000000000000000"

definition credit_account_of :: "address \<Rightarrow> u128 \<Rightarrow> memory_store \<Rightarrow> memory_store" where
  "credit_account_of a amount store = (let acct = account_or_default store a in
     put_account store a (acct\<lparr>acct_balance := saturating_add (acct_balance acct) amount\<rparr>))"

definition debit_faucet :: "provider_env \<Rightarrow> u128 \<Rightarrow> unit rpc_action" where
  "debit_faucet V amount = (case pe_faucet V of
       None \<Rightarrow> act_return ()
     | Some key \<Rightarrow>
        act_bind (act_lift key) (\<lambda>faucet.
        act_bind (act_read (\<lambda>p. account_or_default (pv_store p) faucet)) (\<lambda>acct.
        if acct_balance acct < amount then act_fail (PvText ''faucet is empty'')
        else write_store (\<lambda>s. put_account s faucet
          (acct\<lparr>acct_balance := saturating_sub (acct_balance acct) amount\<rparr>)))))"

definition faucet_send :: "provider_env \<Rightarrow> address \<Rightarrow> u128 \<Rightarrow> unit rpc_action" where
  "faucet_send V recipient amount =
     (if MAX_FAUCET_AMOUNT < amount then act_fail (PvText ''faucet maximum per request'')
      else if amount = 0 then act_fail (PvText ''amount must be greater than 0'')
      else act_then (debit_faucet V amount) (write_store (credit_account_of recipient amount)))"

definition zk_shield :: "provider_env \<Rightarrow> shield_request \<Rightarrow> u64 rpc_action" where
  "zk_shield V request = (\<lambda>p. case shield (pe_ext V) (pv_zk_pool p) request of
     (pool, r) \<Rightarrow> (p\<lparr>pv_zk_pool := pool\<rparr>, map_err PvZk r))"

definition zk_unshield :: "provider_env \<Rightarrow> unshield_request \<Rightarrow> unit rpc_action" where
  "zk_unshield V request =
     act_then (\<lambda>p. case unshield (pe_ext V) (pv_zk_pool p) request of
        (pool, r) \<Rightarrow> (p\<lparr>pv_zk_pool := pool\<rparr>, map_err PvZk r))
     (write_store (credit_account_of (ur_recipient request) (ur_value request)))"

record zk_pool_info =
  zi_root :: hash32
  zi_commitment_count :: u64
  zi_nullifier_count :: nat
  zi_total_shielded_value :: u128

definition get_zk_pool_info :: "provider_env \<Rightarrow> zk_pool_info rpc_action" where
  "get_zk_pool_info V = (\<lambda>p. case pool_root (pe_ext V) (pv_zk_pool p) of (pool, root) \<Rightarrow>
     (p\<lparr>pv_zk_pool := pool\<rparr>, Inr \<lparr>zi_root = root, zi_commitment_count = commitment_count pool,
        zi_nullifier_count = nullifier_count pool, zi_total_shielded_value = sl_total_shielded_value pool\<rparr>))"

text \<open>A node on a store; the other parts are as at the start.\<close>

definition node_new :: "ext \<Rightarrow> node \<Rightarrow> provider" where
  "node_new E n = \<lparr>pv_runtime = \<lparr>rt_node = n, rt_sync = sync_state_default, rt_request_ids = 1, rt_posted = []\<rparr>,
     pv_zk_pool = shielded_pool_new E\<rparr>"

section \<open>Lemmas\<close>

lemma pv_store_set [simp]:
  "pv_store (set_store store p) = store"
  "pv_mempool (set_store store p) = pv_mempool p"
  "pv_zk_pool (set_store store p) = pv_zk_pool p"
  "rt_posted (pv_runtime (set_store store p)) = rt_posted (pv_runtime p)"
  "rt_sync (pv_runtime (set_store store p)) = rt_sync (pv_runtime p)"
  by (simp_all add: pv_store_def pv_mempool_def set_store_def update_node_def store_of_def)

lemma set_store_store [simp]: "set_store (pv_store p) p = p"
  by (simp add: pv_store_def set_store_def update_node_def store_of_def)

lemma pv_store_pool [simp]: "pv_store (p\<lparr>pv_zk_pool := pool\<rparr>) = pv_store p"
  by (simp add: pv_store_def)

text \<open>The accounts of a store as a snapshot, so that the lemmas on the supply apply.\<close>

definition ledger :: "memory_store \<Rightarrow> state_snapshot" where
  "ledger store = \<lparr>ss_accounts = ms_accounts store\<rparr>"

lemma snapshot_account_ledger: "snapshot_account (ledger store) a = account_or_default store a"
  by (simp add: ledger_def snapshot_account_def account_or_default_def store_ops)

lemma ledger_put: "ledger (put_account store a acct) = snapshot_put_account (ledger store) a acct"
  by (simp add: ledger_def snapshot_put_account_def store_ops)

lemma ledger_credit: "ledger (credit_account_of a v store) = credit (ledger store) a v"
  by (simp add: credit_account_of_def credit_def ledger_put snapshot_account_ledger Let_def)

lemma get_account_credit:
  "get_account (credit_account_of a v store) x = (if x = a
    then Some ((account_or_default store a)\<lparr>acct_balance := saturating_add (acct_balance (account_or_default store a)) v\<rparr>)
    else get_account store x)"
  by (simp add: credit_account_of_def Let_def store_ops)

lemma debit_faucet_run:
  assumes "debit_faucet V amount p = (p', Inr ())" "snapshot_wf (ledger (pv_store p))"
  shows "snapshot_wf (ledger (pv_store p')) \<and>
    total_supply (ledger (pv_store p')) + (if pe_faucet V = None then 0 else unat amount) = total_supply (ledger (pv_store p))"
proof (cases "pe_faucet V")
  case None
  then show ?thesis using assms by (simp add: debit_faucet_def)
next
  case (Some key)
  then obtain faucet where key: "key = Inr faucet"
    using assms by (cases key) (auto simp: debit_faucet_def act_bind_def)
  let ?acct = "account_or_default (pv_store p) faucet"
  have run: "amount \<le> acct_balance ?acct"
    "p' = set_store (put_account (pv_store p) faucet (?acct\<lparr>acct_balance := saturating_sub (acct_balance ?acct) amount\<rparr>)) p"
    using assms Some key by (auto simp: debit_faucet_def write_store_def act_bind_def [of "act_lift _"] not_less split: if_splits)
  have "unat (saturating_sub (acct_balance ?acct) amount) + unat amount = unat (acct_balance ?acct)"
    using run(1) by (simp add: unat_saturating_sub word_le_nat_alt)
  then show ?thesis
    using supply_put [OF assms(2), of faucet "?acct\<lparr>acct_balance := saturating_sub (acct_balance ?acct) amount\<rparr>"] assms(2) Some run(2)
    by (simp add: ledger_put snapshot_account_ledger snapshot_wf_put)
qed

lemma mp_insert_contains:
  assumes "mp_insert E m tx = Some (m', Inr ())"
  shows "mp_contains m' (tx_id E tx)"
  using assms
  by (auto simp: mp_insert_def Let_def place_def mp_contains_def contains_key_def update_conv'
      split: if_splits option.splits sum.splits)

lemma submit_tx_run:
  "submit_tx V tx p = (case plane_validate_transaction (pe_ext V) (pe_scheme V) (pe_plane V) (pv_store p) tx of
     Inl e \<Rightarrow> (p, Inl e)
   | Inr _ \<Rightarrow> (case mp_insert (pe_ext V) (pv_mempool p) tx of
       None \<Rightarrow> (p, Inl PvPanic)
     | Some (m, Inl e) \<Rightarrow> (update_node (\<lambda>n. n\<lparr>nd_mempool := m\<rparr>) p, Inl (PvMempool e))
     | Some (m, Inr _) \<Rightarrow>
        (let q = update_node (\<lambda>n. n\<lparr>nd_mempool := m\<rparr>) p in
         (q\<lparr>pv_runtime := (pv_runtime q)\<lparr>rt_posted := rt_posted (pv_runtime q) @ [handle_broadcast (TransactionMsg tx)]\<rparr>\<rparr>,
          Inr (tx_id (pe_ext V) tx)))))"
  by (simp add: submit_tx_def act_then_def act_bind_def act_defs Let_def split: sum.split option.split prod.split)

lemma update_mempool_frame:
  "pv_store (update_node (\<lambda>n. n\<lparr>nd_mempool := m\<rparr>) p) = pv_store p"
  "pv_mempool (update_node (\<lambda>n. n\<lparr>nd_mempool := m\<rparr>) p) = m"
  "rt_posted (pv_runtime (update_node (\<lambda>n. n\<lparr>nd_mempool := m\<rparr>) p)) = rt_posted (pv_runtime p)"
  "update_node (\<lambda>n. n\<lparr>nd_mempool := pv_mempool p\<rparr>) p = p"
  by (simp_all add: update_node_def pv_store_def pv_mempool_def store_of_def)

lemma posted_frame:
  "pv_store (p\<lparr>pv_runtime := (pv_runtime p)\<lparr>rt_posted := ms\<rparr>\<rparr>) = pv_store p"
  "pv_mempool (p\<lparr>pv_runtime := (pv_runtime p)\<lparr>rt_posted := ms\<rparr>\<rparr>) = pv_mempool p"
  by (simp_all add: pv_store_def pv_mempool_def store_of_def)

lemma eligible_in_set:
  assumes "map_of (st_validators s) a = Some v" "eligible params v" "vs_validator_address v = a"
  shows "a \<in> set (effective_validator_set s params)"
  using map_of_SomeD [OF assms(1)] assms(2,3)
  by (force simp: effective_validator_set_def bt_values_def)

lemma execute_raw_frame:
  assumes "execute_raw_ethereum_tx E S R K from_hex x store raw_hex = Some (store', r)"
  shows "\<exists>m. store' = store\<lparr>ms_evm_accounts := m\<rparr>"
proof -
  have same: "\<exists>m. store = store\<lparr>ms_evm_accounts := m\<rparr>"
    by (rule exI [of _ "ms_evm_accounts store"]) simp
  obtain d where d: "decode_raw_tx E K from_hex raw_hex = Some d"
    using assms by (auto simp: execute_raw_ethereum_tx_def)
  show ?thesis
  proof (cases d)
    case (Inl e)
    then show ?thesis using assms same by (cases e) (auto simp: execute_raw_ethereum_tx_def d)
  next
    case (Inr tx)
    have "store' = store \<or> store' = fst (evm_execute E S R x store (de_sender tx) (eth_transaction tx))"
      using assms by (auto simp: execute_raw_ethereum_tx_def d Inr split: if_splits prod.splits sum.splits)
    then show ?thesis using same evm_execute_frame by metis
  qed
qed

lemma stored_height:
  assumes "store_wf E store" "get_block_by_height store h = Some fb"
  shows "bh_height (bk_header (fb_block fb)) = h"
  using assms by (auto simp: store_wf_def get_block_by_height_def dest!: map_of_SomeD)

definition block_at :: "memory_store \<Rightarrow> nat \<Rightarrow> finalized_block option" where
  "block_at store h = get_block_by_height store (of_nat h)"

lemma block_at_height:
  assumes "store_wf E store" "block_at store h = Some fb" "h < 2 ^ 64"
  shows "get_block_by_height store (bh_height (bk_header (fb_block fb))) = Some fb"
    and "unat (bh_height (bk_header (fb_block fb))) = h"
proof -
  have "bh_height (bk_header (fb_block fb)) = of_nat h" using stored_height assms(1,2) by (simp add: block_at_def)
  then show "get_block_by_height store (bh_height (bk_header (fb_block fb))) = Some fb"
    and "unat (bh_height (bk_header (fb_block fb))) = h"
    using assms(2) of_nat_inverse [OF refl, of h, where 'a = 64] assms(3) by (simp_all add: block_at_def)
qed

lemma map_filter_blocks:
  assumes "store_wf E store" "sorted_wrt (>) hs" "list_all (\<lambda>h. h < 2 ^ 64) hs"
  defines "blocks \<equiv> List.map_filter (block_at store) hs"
  shows "length blocks \<le> length hs \<and>
    list_all (\<lambda>fb. get_block_by_height store (bh_height (bk_header (fb_block fb))) = Some fb \<and>
      unat (bh_height (bk_header (fb_block fb))) \<in> set hs) blocks \<and>
    sorted_wrt (\<lambda>x y. bh_height (bk_header (fb_block y)) < bh_height (bk_header (fb_block x))) blocks"
  using assms(2,3) unfolding blocks_def
proof (induction hs)
  case (Cons h hs)
  show ?case
  proof (cases "block_at store h")
    case None
    then show ?thesis using Cons by (auto simp: list_all_iff)
  next
    case (Some fb)
    note fb = block_at_height [OF assms(1) Some]
    show ?thesis using Cons Some fb by (fastforce simp: list_all_iff word_less_nat_alt)
  qed
qed simp

section \<open>Properties\<close>

text \<open>A transaction that is submitted is checked, pooled and gossiped, and one that is refused leaves no trace. On success
  the transaction is valid for the next height, its identifier is returned, it is in the mempool and its status is pending unless it has
  a receipt, it is posted to all peers, and the store is untouched; on an error nothing has changed.\<close>

theorem submitted_transaction_pending:
  assumes "mempool_inv (pe_ext V) (pv_mempool p)" "submit_tx V tx p = (p', r)"
  shows "mempool_inv (pe_ext V) (pv_mempool p') \<and> pv_store p' = pv_store p \<and>
    (case r of
       Inl e \<Rightarrow> p' = p
     | Inr h \<Rightarrow> h = tx_id (pe_ext V) tx \<and>
         plane_validate_transaction (pe_ext V) (pe_scheme V) (pe_plane V) (pv_store p) tx = Inr () \<and>
         get_tx_status p' h = (case get_receipt (pv_store p) h of None \<Rightarrow> Pending | Some receipt \<Rightarrow> Finalized receipt) \<and>
         rt_posted (pv_runtime p') = rt_posted (pv_runtime p) @ [handle_broadcast (TransactionMsg tx)])"
proof (cases "plane_validate_transaction (pe_ext V) (pe_scheme V) (pe_plane V) (pv_store p) tx")
  case (Inl e)
  then show ?thesis using assms by (auto simp: submit_tx_run)
next
  case (Inr u)
  obtain m res where m: "mp_insert (pe_ext V) (pv_mempool p) tx = Some (m, res)" "mempool_inv (pe_ext V) m"
      "\<forall>e. res = Inl e \<longrightarrow> m = pv_mempool p"
    using insert_ok [OF assms(1)] by blast
  show ?thesis
  proof (cases res)
    case (Inl e)
    then show ?thesis using assms Inr m by (auto simp: submit_tx_run update_mempool_frame)
  next
    case (Inr w)
    then have "mp_contains m (tx_id (pe_ext V) tx)" using m(1) mp_insert_contains by auto
    then show ?thesis using assms \<open>_ = Inr u\<close> m Inr
      by (auto simp: submit_tx_run update_mempool_frame posted_frame get_tx_status_def Let_def split: option.split)
  qed
qed

text \<open>C18: Whoever asks takes any amount out of the shielded pool. From every pool that can arise and for every recipient and
  value there is a withdrawal, with a nullifier never seen and no note at all, that the node accepts: the recipient is credited, no other
  account changes, and the supply grows by the whole value.\<close>

theorem unshield_mints:
  fixes v :: u128
  assumes "(pool_step (pe_ext V))\<^sup>*\<^sup>* (shielded_pool_new (pe_ext V)) (pv_zk_pool p)"
    and "n \<notin> set (sl_nullifiers (pv_zk_pool p))"
    and "snapshot_wf (ledger (pv_store p))" "total_supply (ledger (pv_store p)) + unat v < 2 ^ 128"
  shows "\<exists>request p'. ur_nullifier request = n \<and> zk_unshield V request p = (p', Inr ()) \<and>
    unat (get_balance (pv_store p') a) = unat (get_balance (pv_store p) a) + unat v \<and>
    (\<forall>x. x \<noteq> a \<longrightarrow> get_account (pv_store p') x = get_account (pv_store p) x) \<and>
    total_supply (ledger (pv_store p')) = total_supply (ledger (pv_store p)) + unat v"
proof -
  obtain request where request: "ur_nullifier request = n" "ur_value request = v" "ur_recipient request = a"
      "snd (unshield (pe_ext V) (pv_zk_pool p) request) = Inr ()"
    using unshield_accepts_any_value [OF assms(1,2), of v a] by blast
  obtain pool where pool: "unshield (pe_ext V) (pv_zk_pool p) request = (pool, Inr ())"
    using request(4) by (metis prod.collapse)
  let ?p' = "set_store (credit_account_of a v (pv_store p)) (p\<lparr>pv_zk_pool := pool\<rparr>)"
  have run: "zk_unshield V request p = (?p', Inr ())"
    by (simp add: zk_unshield_def act_then_def act_bind_def pool write_store_def request(2,3))
  have "unat (acct_balance (account_or_default (pv_store p) a)) + unat v < 2 ^ 128"
    using balance_le_supply [of "ledger (pv_store p)" a] assms(4) by (simp add: snapshot_account_ledger)
  then have "unat (get_balance (pv_store ?p') a) = unat (get_balance (pv_store p) a) + unat v"
    by (simp add: get_balance_def account_or_default_def [of "credit_account_of a v (pv_store p)"] get_account_credit
        unat_saturating_add)
  moreover have "total_supply (ledger (pv_store ?p')) = total_supply (ledger (pv_store p)) + unat v"
    using supply_credit [OF assms(3,4)] by (simp add: ledger_credit)
  ultimately show ?thesis using run request(1)
    by (intro exI [of _ request] exI [of _ ?p']) (simp add: get_account_credit)
qed

text \<open>The faucet pays out of its account when its key file is there, and out of nothing when it is not. A payment of at
  most a thousand tokens keeps the supply in the first case and adds the amount to it in the second; a payment of zero or of more
  than the maximum is refused.\<close>

theorem faucet_supply:
  assumes "faucet_send V recipient amount p = (p', Inr ())"
    and "snapshot_wf (ledger (pv_store p))" "total_supply (ledger (pv_store p)) + unat amount < 2 ^ 128"
  shows "0 < amount \<and> amount \<le> MAX_FAUCET_AMOUNT \<and>
    total_supply (ledger (pv_store p')) = total_supply (ledger (pv_store p)) + (if pe_faucet V = None then unat amount else 0)"
proof -
  have amount: "amount \<noteq> 0" "\<not> MAX_FAUCET_AMOUNT < amount"
    using assms(1) by (auto simp: faucet_send_def split: if_splits)
  obtain q where q: "debit_faucet V amount p = (q, Inr ())" "p' = set_store (credit_account_of recipient amount (pv_store q)) q"
    using assms(1) amount by (auto simp: faucet_send_def act_then_Inr write_store_def)
  note debit = debit_faucet_run [OF q(1) assms(2)]
  have "total_supply (ledger (pv_store q)) + unat amount < 2 ^ 128" using debit assms(3) by linarith
  from supply_credit [OF _ this] debit
  have "total_supply (ledger (pv_store p')) = total_supply (ledger (pv_store q)) + unat amount"
    by (simp add: q(2) ledger_credit)
  with debit amount show ?thesis by (auto simp: word_neq_0_conv not_less split: if_splits)
qed

text \<open>Anybody with a public key joins the validators for free. A key whose address is new is registered with any
  self-bond from the minimum up to the largest amount there is, without a signature: its address enters the effective
  validator set with that amount as its stake, and no account is read or debited.\<close>

theorem free_registration:
  assumes "sc_derive_address (pe_scheme V) pk = Inr raw"
    and "map_of (st_validators (staking_load (pv_store p))) (Address raw) = None"
    and "minimum_self_bond (gn_economics (pe_genesis V)) \<le> bond"
  shows "\<exists>p'. register_validator V \<lparr>jr_public_key = pk, jr_p2p_address = p2p, jr_rpc_address = rpc, jr_self_bond = bond\<rparr> p
      = (p', Inr ()) \<and>
    Address raw \<in> set (effective_validator_set (staking_load (pv_store p')) (gn_economics (pe_genesis V))) \<and>
    stored_stake (pv_store p') (Address raw) = unat bond \<and>
    (\<forall>x. get_account (pv_store p') x = get_account (pv_store p) x)"
proof -
  let ?request = "\<lparr>jr_public_key = pk, jr_p2p_address = p2p, jr_rpc_address = rpc, jr_self_bond = bond\<rparr>"
  let ?s = "staking_load (pv_store p)" and ?a = "Address raw"
  let ?v = "\<lparr>vs_validator_address = ?a, vs_self_bond = bond, vs_total_stake = bond,
    vs_commission_bps = 0, vs_status = Active, vs_last_liveness_epoch = st_epoch ?s\<rparr>"
  have zero: "saturating_add 0 bond = bond"
    using unat_word_bound [of bond] by (simp add: word_unat_eq_iff unat_saturating_add)
  obtain s' where s': "delegate (ensure_validators ?s [joining_validator V ?request ?a]) ?a ?a bond True = (s', Inr ())"
      "map_of (st_validators s') ?a = Some ?v"
    using assms(2) by (simp add: ensure_validators_def ensure_validator_def contains_key_def joining_validator_def
        delegate_def Let_def zero)
  let ?p' = "set_store (staking_persist s' (pv_store p)) p"
  have "register_validator V ?request p = (?p', Inr ())"
    using assms(1,3) s'(1) by (simp add: register_validator_def act_bind_def [of "act_lift _"] Let_def not_less write_store_def)
  moreover have loaded: "staking_load (pv_store ?p') = s'"
    by (simp add: staking_load_def staking_persist_def store_ops)
  moreover have "?a \<in> set (effective_validator_set s' (gn_economics (pe_genesis V)))"
    using s'(2) assms(3) by (intro eligible_in_set) (auto simp: eligible_def)
  moreover have "stored_stake (pv_store ?p') ?a = unat bond"
    using loaded s'(2) by (simp add: stored_stake_def stake_of_def)
  ultimately show ?thesis
    by (intro exI [of _ ?p']) (simp add: staking_persist_def store_ops)
qed

text \<open>A raw Ethereum transaction is executed by the node that receives it and by no other. It changes the EVM accounts
  of this node's store alone: no block, receipt, native account, mempool entry or message to the other nodes comes of it, so the
  hash it returns never gets a receipt from it.\<close>

theorem raw_transaction_stays_local:
  assumes "eth_send_raw_transaction V raw_hex p = Some (p', r)"
  shows "(\<exists>m. pv_store p' = (pv_store p)\<lparr>ms_evm_accounts := m\<rparr>) \<and>
    latest_block (pv_store p') = latest_block (pv_store p) \<and>
    get_receipt (pv_store p') h = get_receipt (pv_store p) h \<and>
    get_account (pv_store p') a = get_account (pv_store p) a \<and>
    pv_mempool p' = pv_mempool p \<and> rt_posted (pv_runtime p') = rt_posted (pv_runtime p)"
proof -
  have same: "\<exists>m. store = store\<lparr>ms_evm_accounts := m\<rparr>" for store :: memory_store
    by (rule exI [of _ "ms_evm_accounts store"]) simp
  obtain store' where p': "p' = set_store store' p"
    and store': "\<exists>m. store' = (pv_store p)\<lparr>ms_evm_accounts := m\<rparr>"
  proof -
    obtain store' q where q: "plane_execute_raw_eth_tx (pe_ext V) (pe_scheme V) (pe_revm V) (pe_k256 V) (pe_from_hex V) (pe_plane V)
        (pv_store p) raw_hex = Some (store', q)" "p' = set_store store' p"
      using assms by (auto simp: eth_send_raw_transaction_def)
    have "\<exists>m. store' = (pv_store p)\<lparr>ms_evm_accounts := m\<rparr>"
    proof (cases "ep_evm_chain_id (pe_plane V)")
      case None
      then show ?thesis using q(1) same by (simp add: plane_execute_raw_eth_tx_def)
    next
      case (Some chain)
      then obtain q' where "execute_raw_ethereum_tx (pe_ext V) (pe_scheme V) (pe_revm V) (pe_k256 V) (pe_from_hex V)
          \<lparr>ex_evm_chain_id = chain\<rparr> (pv_store p) raw_hex = Some (store', q')"
        using q(1) by (auto simp: plane_execute_raw_eth_tx_def)
      then show ?thesis by (rule execute_raw_frame)
    qed
    then show thesis using q(2) that by blast
  qed
  then obtain m where "pv_store p' = (pv_store p)\<lparr>ms_evm_accounts := m\<rparr>" by auto
  then show ?thesis using p' by (auto simp: latest_block_def store_ops)
qed

text \<open>The list of recent blocks holds at most as many blocks as were asked for, and one when none was; they are stored
  blocks at falling heights.\<close>

theorem recent_blocks_bounds:
  assumes "store_wf E store"
  shows "length (get_recent_blocks store wanted) \<le> max 1 (unat wanted) \<and>
    list_all (\<lambda>fb. get_block_by_height store (bh_height (bk_header (fb_block fb))) = Some fb) (get_recent_blocks store wanted) \<and>
    sorted_wrt (\<lambda>x y. bh_height (bk_header (fb_block y)) < bh_height (bk_header (fb_block x))) (get_recent_blocks store wanted)"
proof -
  let ?start = "saturating_sub (latest_height store) (saturating_sub wanted 1)"
  let ?hs = "rev [unat ?start..<Suc (unat (latest_height store))]"
  have blocks: "get_recent_blocks store wanted = List.map_filter (block_at store) ?hs"
    by (simp add: get_recent_blocks_def Let_def block_at_def [abs_def])
  have "sorted_wrt (>) ?hs" by (simp add: sorted_wrt_rev del: upt_Suc)
  moreover have "list_all (\<lambda>h. h < 2 ^ 64) ?hs"
    using unat_word_bound [of "latest_height store"] by (auto simp: list_all_iff)
  moreover have "length ?hs \<le> max 1 (unat wanted)" by (simp add: unat_saturating_sub)
  ultimately show ?thesis
    using map_filter_blocks [OF assms, of ?hs] unfolding blocks by (auto simp: list_all_iff)
qed

section \<open>Sample calls\<close>

definition sample_provider_env :: provider_env where
  "sample_provider_env = \<lparr>pe_ext = sample_ext, pe_scheme = sample_scheme, pe_revm = sample_revm, pe_k256 = sample_k256,
     pe_to_hex = (\<lambda>_. ''00''), pe_from_hex = (\<lambda>_. Some [0x02]), pe_plane = execution_plane_new (ChainId ''z'') lone_genesis,
     pe_genesis = lone_genesis, pe_config = \<lparr>rc_chain_id = ChainId ''z'', rc_node_id = ''n'',
       rc_metadata = gn_metadata lone_genesis\<rparr>, pe_faucet = None\<rparr>"

definition sample_provider :: provider where
  "sample_provider = node_new sample_ext (node_start rich_store mempool_new)"

lemma sample_provider_sel [simp]:
  "pv_store sample_provider = rich_store" "pv_mempool sample_provider = mempool_new"
  "pv_zk_pool sample_provider = shielded_pool_new sample_ext" "rt_posted (pv_runtime sample_provider) = []"
  "pe_ext sample_provider_env = sample_ext" "pe_scheme sample_provider_env = sample_scheme"
  "pe_genesis sample_provider_env = lone_genesis" "pe_faucet sample_provider_env = None"
  by (simp_all add: sample_provider_def node_new_def pv_store_def pv_mempool_def store_of_def node_start_def
      sample_provider_env_def)

lemma sample_ledger: "snapshot_wf (ledger rich_store)" "total_supply (ledger rich_store) = 100"
  by (simp_all add: ledger_def rich_store_def sample_state_def total_supply_def bt_wf_Cons bt_keys_def sum_entries_def)

lemma sample_submit: "\<exists>p'. submit_tx sample_provider_env sample_tx sample_provider = (p', Inr (tx_id sample_ext sample_tx))"
proof -
  have "verify_transaction sample_ext sample_scheme (ChainId ''z'') sample_tx 1 = Inr (the (bin_body sample_ext sample_body))"
    using sample_checks sample_address_derived
    by (simp add: verify_transaction_Inr static_checks_def sample_tx_def sample_body_def sample_ext_def sample_scheme_def
        ml_dsa_verify_def sample_oqs_def domain_message_def)
  moreover have "next_height rich_store = 1"
    by (simp add: next_height_def rich_store_def latest_block_def memory_store_default_def bt_last_def)
  ultimately have valid: "plane_validate_transaction sample_ext sample_scheme (pe_plane sample_provider_env) rich_store sample_tx = Inr ()"
    by (simp add: plane_validate_transaction_def load_state_def validate_transaction_def plane_engine_def engine_with_protocol_def
        sample_provider_env_def execution_plane_new_def rich_store_def sample_state_def accounts_def snapshot_account_def
        saturating_add_def sample_tx_def sample_body_def)
  have "\<exists>m. mp_insert sample_ext mempool_new sample_tx = Some (m, Inr ())"
    by (simp add: mp_insert_def mempool_new_def Let_def contains_key_def sender_count_def highest_nonce_def make_room_def
        MAX_PER_SENDER_def MAX_MEMPOOL_SIZE_def saturating_add_def sample_tx_def sample_body_def)
  then show ?thesis using valid by (auto simp: submit_tx_run Let_def)
qed

theorem submitted_transaction_pending_witness:
  "\<exists>p'. submit_tx sample_provider_env sample_tx sample_provider = (p', Inr (tx_id sample_ext sample_tx)) \<and>
    get_tx_status p' (tx_id sample_ext sample_tx) = Pending"
proof -
  obtain p' where p': "submit_tx sample_provider_env sample_tx sample_provider = (p', Inr (tx_id sample_ext sample_tx))"
    using sample_submit by blast
  have "get_receipt rich_store h = None" for h
    by (simp add: rich_store_def memory_store_default_def store_ops)
  then show ?thesis using submitted_transaction_pending [OF _ p'] p' by (simp add: mempool_inv_new)
qed

theorem unshield_mints_witness:
  "\<exists>request p'. zk_unshield sample_provider_env request sample_provider = (p', Inr ()) \<and>
    total_supply (ledger (pv_store p')) = 1000100"
  using unshield_mints [of sample_provider_env sample_provider "Hash32 1" 1000000 "Address 1"] sample_ledger
  by (auto simp: shielded_pool_new_def)

theorem faucet_supply_witness:
  "total_supply (ledger (pv_store (fst (faucet_send sample_provider_env (Address 1) 50 sample_provider)))) = 150"
proof -
  have "\<exists>p'. faucet_send sample_provider_env (Address 1) 50 sample_provider = (p', Inr ())"
    by (simp add: faucet_send_def debit_faucet_def MAX_FAUCET_AMOUNT_def write_store_def act_then_def act_bind_def)
  then obtain p' where "faucet_send sample_provider_env (Address 1) 50 sample_provider = (p', Inr ())" by blast
  from faucet_supply [OF this] this show ?thesis using sample_ledger by simp
qed

theorem free_registration_witness:
  "\<exists>p'. stored_stake (pv_store p') sample_address = 340282366920938463463374607431768211455 \<and>
    register_validator sample_provider_env \<lparr>jr_public_key = [5], jr_p2p_address = [], jr_rpc_address = [], jr_self_bond = 340282366920938463463374607431768211455\<rparr>
      sample_provider = (p', Inr ())"
proof -
  have "map_of (st_validators (staking_load rich_store)) (Address (address_raw sample_address)) = None"
    by (simp add: rich_store_def memory_store_default_def staking_load_def store_ops staking_state_default_def)
  moreover have "Address (address_raw sample_address) = sample_address" by simp
  moreover have "minimum_self_bond (gn_economics lone_genesis) \<le> 340282366920938463463374607431768211455"
    by (simp add: lone_genesis_def sample_economics_def)
  ultimately show ?thesis
    using free_registration [of sample_provider_env "[5]" "address_raw sample_address" sample_provider 340282366920938463463374607431768211455 "[]" "[]"]
      sample_address_derived by auto
qed

theorem raw_transaction_stays_local_witness:
  "\<exists>p' r. eth_send_raw_transaction sample_provider_env ''0x02'' sample_provider = Some (p', r) \<and>
    pv_mempool p' = mempool_new \<and> rt_posted (pv_runtime p') = []"
proof -
  have "decode_raw_tx sample_ext sample_k256 (\<lambda>_. Some [0x02]) ''0x02'' \<noteq> None"
    by code_simp
  then have "eth_send_raw_transaction sample_provider_env ''0x02'' sample_provider \<noteq> None"
    by (simp add: eth_send_raw_transaction_def plane_execute_raw_eth_tx_def execute_raw_ethereum_tx_def
        sample_provider_env_def execution_plane_new_def lone_genesis_def node_config_default_def)
  then obtain p' r where "eth_send_raw_transaction sample_provider_env ''0x02'' sample_provider = Some (p', r)"
    by fastforce
  with raw_transaction_stays_local [OF this] show ?thesis by auto
qed

theorem recent_blocks_bounds_witness:
  "length (get_recent_blocks sample_store 1) \<le> 1"
  using recent_blocks_bounds [OF sample_store_wf, of 1] by simp

end
