(* ===== verification/Zeno_Rpc.thy ===== *)
theory Zeno_Rpc
  imports Zeno_Provider
begin

text \<open>
  The JSON-RPC server of \<open>zeno-rpc/src/lib.rs\<close>: the rate limiter, the helpers that read and format
  Ethereum parameters, the dispatch of methods to the node of \<open>Zeno_Provider\<close>, and the handling of
  single and batch requests. \<open>serde_json\<close> is a set of parameters: the parser of a body and the
  conversions between values and the types that derive them; a conversion to a value may fail, and
  \<open>json!\<close> panics then, which ends the request without an answer. Tokens are counted in
  billionths, since time is in nanoseconds and the rate is a whole number: the rounding of \<open>f64\<close> is left out.
\<close>

section \<open>Values\<close>

datatype json =
    JNull
  | JBool bool
  | JNat u64
  | JNeg int
  | JFloat string
  | JStr string
  | JArr "json list"
  | JObj "(string \<times> json) list"

fun as_str :: "json \<Rightarrow> string option" where
  "as_str (JStr s) = Some s"
| "as_str _ = None"

fun as_u64 :: "json \<Rightarrow> u64 option" where
  "as_u64 (JNat n) = Some n"
| "as_u64 _ = None"

fun as_bool :: "json \<Rightarrow> bool option" where
  "as_bool (JBool b) = Some b"
| "as_bool _ = None"

fun get_field :: "json \<Rightarrow> string \<Rightarrow> json option" where
  "get_field (JObj entries) k = map_of entries k"
| "get_field _ k = None"

definition param_at :: "json \<Rightarrow> nat \<Rightarrow> json option" where
  "param_at params i = (case params of
     JArr arr \<Rightarrow> if i < length arr then Some (arr ! i) else None
   | other \<Rightarrow> if i = 0 then Some other else None)"

definition and_then :: "'a option \<Rightarrow> ('a \<Rightarrow> 'b option) \<Rightarrow> 'b option" where
  "and_then x f = (case x of None \<Rightarrow> None | Some a \<Rightarrow> f a)"

section \<open>Numbers as text\<close>

definition hex_digit :: "nat \<Rightarrow> char" where
  "hex_digit d = char_of (if d < 10 then 48 + d else 87 + d)"

fun lower_hex :: "nat \<Rightarrow> string" where
  "lower_hex n = (if n < 16 then [hex_digit n] else lower_hex (n div 16) @ [hex_digit (n mod 16)])"

declare lower_hex.simps [simp del]

definition hex_prefixed :: "'a::len word \<Rightarrow> json" where
  "hex_prefixed v = JStr (''0x'' @ lower_hex (unat v))"

definition digit_value :: "char \<Rightarrow> nat option" where
  "digit_value c = (let n = of_char c :: nat in
     if 48 \<le> n \<and> n \<le> 57 then Some (n - 48)
     else if 97 \<le> n \<and> n \<le> 122 then Some (n - 87)
     else if 65 \<le> n \<and> n \<le> 90 then Some (n - 55)
     else None)"

fun digits_value :: "nat \<Rightarrow> nat \<Rightarrow> string \<Rightarrow> nat option" where
  "digits_value radix acc [] = Some acc"
| "digits_value radix acc (c # cs) = (case digit_value c of
     None \<Rightarrow> None
   | Some d \<Rightarrow> if d < radix then digits_value radix (radix * acc + d) cs else None)"

text \<open>\<open>from_str_radix\<close> of an unsigned type: a plus sign may lead, at least one digit must follow,
  and the value must fit.\<close>

definition from_str_radix :: "nat \<Rightarrow> string \<Rightarrow> ('a::len word) option" where
  "from_str_radix radix s =
    (let digits = (case s of c # rest \<Rightarrow> if c = CHR ''+'' then rest else s | [] \<Rightarrow> s) in
     if digits = [] then None
     else (case digits_value radix 0 digits of
         None \<Rightarrow> None
       | Some n \<Rightarrow> if n < 2 ^ LENGTH('a) then Some (of_nat n) else None))"

section \<open>Parameters of methods\<close>

datatype rpc_error = RpcText string | RpcSerde | RpcNode provider_error | RpcPanic

definition parse_hex_address :: "(string \<Rightarrow> u8 list option) \<Rightarrow> json \<Rightarrow> rpc_error + evm_address" where
  "parse_hex_address from_hex v =
     bind_res (ok_or (RpcText ''expected hex address string'') (as_str v)) (\<lambda>s.
     bind_res (ok_or (RpcText ''invalid hex address'') (from_hex (strip_0x s))) (\<lambda>bytes.
     if length bytes \<noteq> 20 then Inl (RpcText ''address must be 20 bytes'')
     else Inr (EvmAddress (array_of_bytes bytes))))"

definition parse_hex_hash :: "(string \<Rightarrow> u8 list option) \<Rightarrow> json \<Rightarrow> rpc_error + hash32" where
  "parse_hex_hash from_hex v =
     bind_res (ok_or (RpcText ''expected hex hash string'') (as_str v)) (\<lambda>s.
     bind_res (ok_or (RpcText ''invalid hex hash'') (from_hex (strip_0x s))) (\<lambda>bytes.
     if length bytes \<noteq> 32 then Inl (RpcText ''hash must be 32 bytes'')
     else Inr (Hash32 (array_of_bytes bytes))))"

definition parse_block_number :: "json \<Rightarrow> u64 \<Rightarrow> u64" where
  "parse_block_number v latest = (case as_str v of
     None \<Rightarrow> latest
   | Some s \<Rightarrow>
      if s = ''latest'' \<or> s = ''pending'' then latest
      else if s = ''earliest'' then 0
      else (case from_str_radix 16 (strip_0x s) of None \<Rightarrow> latest | Some n \<Rightarrow> n))"

text \<open>Twenty bytes of hexadecimal text, or the zero address when the text is anything else.\<close>

definition lenient_address :: "(string \<Rightarrow> u8 list option) \<Rightarrow> string \<Rightarrow> evm_address" where
  "lenient_address from_hex s = (case from_hex (strip_0x s) of
     None \<Rightarrow> EvmAddress 0
   | Some bytes \<Rightarrow> if length bytes = 20 then EvmAddress (array_of_bytes bytes) else EvmAddress 0)"

definition parse_eth_call_request :: "(string \<Rightarrow> u8 list option) \<Rightarrow> json \<Rightarrow> rpc_error + evm_call_request" where
  "parse_eth_call_request from_hex params =
     bind_res (ok_or (RpcText ''missing call object'') (param_at params 0)) (\<lambda>obj.
     let str = (\<lambda>k. and_then (get_field obj k) as_str);
         data = and_then (case get_field obj ''data'' of Some v \<Rightarrow> Some v | None \<Rightarrow> get_field obj ''input'') as_str in
     Inr \<lparr>rq_from = map_option (lenient_address from_hex) (str ''from''),
       rq_to = (case str ''to'' of None \<Rightarrow> EvmAddress 0 | Some s \<Rightarrow> lenient_address from_hex s),
       rq_data = (case data of None \<Rightarrow> [] | Some s \<Rightarrow> (case from_hex (strip_0x s) of None \<Rightarrow> [] | Some bytes \<Rightarrow> bytes)),
       rq_gas_limit = and_then (str ''gas'') (\<lambda>s. from_str_radix 16 (strip_0x s)),
       rq_value = and_then (str ''value'') (\<lambda>s. from_str_radix 16 (strip_0x s))\<rparr>)"

section \<open>Ethereum objects\<close>

definition hash_json :: "(u8 list \<Rightarrow> string) \<Rightarrow> hash32 \<Rightarrow> json" where
  "hash_json to_hex h = JStr (''0x'' @ hash_to_string to_hex h)"

definition address_to_string :: "(u8 list \<Rightarrow> string) \<Rightarrow> address \<Rightarrow> string" where
  "address_to_string to_hex a = to_hex (array_bytes 32 (address_raw a))"

text \<open>The last twenty bytes of a native address.\<close>

definition short_address :: "(u8 list \<Rightarrow> string) \<Rightarrow> address \<Rightarrow> json" where
  "short_address to_hex a = JStr (''0x'' @ to_hex (drop 12 (array_bytes 32 (address_raw a))))"

definition zero_hash_text :: string where
  "zero_hash_text = ''0x'' @ replicate 64 (CHR ''0'')"

definition empty_bloom :: json where
  "empty_bloom = JStr (''0x'' @ replicate 512 (CHR ''0''))"

definition format_eth_transaction ::
  "ext \<Rightarrow> (u8 list \<Rightarrow> string) \<Rightarrow> block \<Rightarrow> nat \<times> transaction \<Rightarrow> json" where
  "format_eth_transaction E to_hex b = (\<lambda>(i, tx). JObj
     [(''hash'', hash_json to_hex (tx_id E tx)), (''blockHash'', hash_json to_hex (block_hash E b)),
      (''blockNumber'', hex_prefixed (bh_height (bk_header b))), (''transactionIndex'', JStr (''0x'' @ lower_hex i)),
      (''from'', short_address to_hex (tb_sender (tx_body tx))), (''to'', short_address to_hex (tb_recipient (tx_body tx))),
      (''value'', hex_prefixed (tb_amount (tx_body tx))), (''gas'', JStr ''0x5208''), (''gasPrice'', JStr ''0x0''),
      (''input'', JStr ''0x''), (''nonce'', hex_prefixed (tb_nonce (tx_body tx)))])"

definition format_eth_block :: "ext \<Rightarrow> (u8 list \<Rightarrow> string) \<Rightarrow> finalized_block \<Rightarrow> bool \<Rightarrow> json" where
  "format_eth_block E to_hex fb full_txs = (let b = fb_block fb; h = bk_header b;
     txs = (if full_txs then JArr (map (format_eth_transaction E to_hex b) (enumerate 0 (bk_transactions b)))
       else JArr (map (\<lambda>tx. hash_json to_hex (tx_id E tx)) (bk_transactions b))) in
     JObj [(''number'', hex_prefixed (bh_height h)), (''hash'', hash_json to_hex (block_hash E b)),
       (''parentHash'', hash_json to_hex (bh_parent_hash h)), (''nonce'', JStr ''0x0000000000000000''),
       (''sha3Uncles'', JStr ''0x1dcc4de8dec75d7aab85b567b6ccd41ad312451b948a7413f0a142fd40d49347''),
       (''logsBloom'', empty_bloom), (''transactionsRoot'', hash_json to_hex (bh_tx_root h)),
       (''stateRoot'', hash_json to_hex (bh_state_root h)), (''receiptsRoot'', hash_json to_hex (bh_receipt_root h)),
       (''miner'', short_address to_hex (bh_proposer h)), (''difficulty'', JStr ''0x0''), (''totalDifficulty'', JStr ''0x0''),
       (''extraData'', JStr ''0x''), (''size'', JStr ''0x100''), (''gasLimit'', JStr ''0x1c9c380''), (''gasUsed'', JStr ''0x0''),
       (''timestamp'', hex_prefixed (bh_timestamp_ms h div 1000)), (''transactions'', txs), (''uncles'', JArr []),
       (''baseFeePerGas'', JStr ''0x0''), (''mixHash'', JStr zero_hash_text)])"

definition synthetic_genesis_block :: json where
  "synthetic_genesis_block = JObj [(''number'', JStr ''0x0''), (''hash'', JStr zero_hash_text),
     (''parentHash'', JStr zero_hash_text), (''nonce'', JStr ''0x0000000000000000''),
     (''sha3Uncles'', JStr ''0x1dcc4de8dec75d7aab85b567b6ccd41ad312451b948a7413f0a142fd40d49347''),
     (''logsBloom'', empty_bloom), (''transactionsRoot'', JStr zero_hash_text), (''stateRoot'', JStr zero_hash_text),
     (''receiptsRoot'', JStr zero_hash_text), (''miner'', JStr ''0x0000000000000000000000000000000000000000''),
     (''difficulty'', JStr ''0x0''), (''totalDifficulty'', JStr ''0x0''), (''extraData'', JStr ''0x''),
     (''size'', JStr ''0x100''), (''gasLimit'', JStr ''0x1c9c380''), (''gasUsed'', JStr ''0x0''), (''timestamp'', JStr ''0x0''),
     (''transactions'', JArr []), (''uncles'', JArr []), (''baseFeePerGas'', JStr ''0x0''), (''mixHash'', JStr zero_hash_text)]"

definition log_json :: "(u8 list \<Rightarrow> string) \<Rightarrow> evm_log \<Rightarrow> (string \<times> json) list" where
  "log_json to_hex log = [(''address'', JStr (''0x'' @ to_hex (array_bytes 20 (evm_address_raw (log_address log))))),
     (''topics'', JArr (map (hash_json to_hex) (log_topics log))), (''data'', JStr (''0x'' @ to_hex (log_data log)))]"

definition format_eth_receipt ::
  "ext \<Rightarrow> (u8 list \<Rightarrow> string) \<Rightarrow> receipt \<Rightarrow> finalized_block option \<Rightarrow> json" where
  "format_eth_receipt E to_hex r fb =
    (let block_hash_text = (case fb of Some b \<Rightarrow> hash_json to_hex (block_hash E (fb_block b))
           | None \<Rightarrow> JStr (concat (replicate 33 ''0x'')));
         block_number = (case fb of Some b \<Rightarrow> bh_height (bk_header (fb_block b)) | None \<Rightarrow> 0);
         contract_addr = (case and_then (rc_evm r) cr_contract_address of
             None \<Rightarrow> JNull | Some a \<Rightarrow> JStr (''0x'' @ to_hex (array_bytes 20 (evm_address_raw a))));
         logs = (case rc_evm r of None \<Rightarrow> []
           | Some e \<Rightarrow> map (\<lambda>(i, log). JObj (log_json to_hex log @
               [(''blockNumber'', hex_prefixed block_number), (''blockHash'', block_hash_text),
                (''transactionHash'', hash_json to_hex (rc_tx_hash r)), (''transactionIndex'', JStr ''0x0''),
                (''logIndex'', JStr (''0x'' @ lower_hex i)), (''removed'', JBool False)])) (enumerate 0 (cr_logs e)));
         gas = hex_prefixed (case rc_evm r of None \<Rightarrow> 21000 | Some e \<Rightarrow> cr_gas_used e) in
     JObj [(''transactionHash'', hash_json to_hex (rc_tx_hash r)), (''blockHash'', block_hash_text),
       (''blockNumber'', hex_prefixed block_number), (''transactionIndex'', JStr ''0x0''),
       (''from'', JStr ''0x0000000000000000000000000000000000000000''), (''to'', JNull), (''contractAddress'', contract_addr),
       (''cumulativeGasUsed'', gas), (''gasUsed'', gas), (''effectiveGasPrice'', JStr ''0x0''), (''logs'', JArr logs),
       (''logsBloom'', empty_bloom), (''status'', JStr (if rc_outcome r = Success then ''0x1'' else ''0x0'')),
       (''type'', JStr ''0x0'')])"

section \<open>Dispatch\<close>

record json_rpc_request =
  jq_jsonrpc :: string
  jq_id :: json
  jq_method :: string
  jq_params :: json

text \<open>What \<open>serde_json\<close> does: \<open>None\<close> is an error of the conversion.\<close>

record serde =
  se_parse :: "u8 list \<Rightarrow> json option"
  se_request :: "json \<Rightarrow> json_rpc_request option"
  se_address :: "json \<Rightarrow> address option"
  se_height :: "json \<Rightarrow> u64 option"
  se_hash :: "json \<Rightarrow> hash32 option"
  se_transaction :: "json \<Rightarrow> transaction option"
  se_join :: "json \<Rightarrow> validator_join_request option"
  se_shield :: "json \<Rightarrow> shield_request option"
  se_unshield :: "json \<Rightarrow> unshield_request option"
  to_u128 :: "u128 \<Rightarrow> json option"
  to_block :: "finalized_block \<Rightarrow> json option"
  to_hash :: "hash32 \<Rightarrow> json option"
  to_status :: "transaction_status \<Rightarrow> json option"
  to_validators :: "validator list \<Rightarrow> json option"
  to_chain_status :: "chain_status \<Rightarrow> json option"
  to_staking :: "staking_state \<Rightarrow> json option"
  to_governance :: "governance_state \<Rightarrow> json option"

record rpc_env =
  re_node :: provider_env
  re_serde :: serde
  re_peers :: "string list"

type_synonym 'a server_action = "(provider, rpc_error, 'a) action"

definition from_value :: "'a option \<Rightarrow> 'a server_action" where
  "from_value x = act_lift (ok_or RpcSerde x)"

text \<open>\<open>json!\<close> unwraps the conversion.\<close>

definition json_of :: "json option \<Rightarrow> json server_action" where
  "json_of x = act_lift (ok_or RpcPanic x)"

definition all_some :: "'a option list \<Rightarrow> 'a list option" where
  "all_some xs = (if None \<in> set xs then None else Some (map the xs))"

definition node_error :: "provider_error \<Rightarrow> rpc_error" where
  "node_error e = (if e = PvPanic then RpcPanic else RpcNode e)"

definition call_node :: "'a rpc_action \<Rightarrow> 'a server_action" where
  "call_node m = (\<lambda>p. case m p of (p', r) \<Rightarrow> (p', map_err node_error r))"

definition query :: "(memory_store \<Rightarrow> 'a) \<Rightarrow> 'a server_action" where
  "query f = act_read (\<lambda>p. f (pv_store p))"

definition required :: "string \<Rightarrow> json option \<Rightarrow> json server_action" where
  "required text v = act_lift (ok_or (RpcText text) v)"

abbreviation re_ext :: "rpc_env \<Rightarrow> ext" where
  "re_ext R \<equiv> pe_ext (re_node R)"

abbreviation re_from_hex :: "rpc_env \<Rightarrow> string \<Rightarrow> u8 list option" where
  "re_from_hex R \<equiv> pe_from_hex (re_node R)"

abbreviation re_to_hex :: "rpc_env \<Rightarrow> u8 list \<Rightarrow> string" where
  "re_to_hex R \<equiv> pe_to_hex (re_node R)"

definition optional_block :: "serde \<Rightarrow> finalized_block option \<Rightarrow> json option" where
  "optional_block J b = (case b of None \<Rightarrow> Some JNull | Some fb \<Rightarrow> to_block J fb)"

text \<open>An address parameter, and a query of the store with it.\<close>

definition with_address :: "rpc_env \<Rightarrow> json \<Rightarrow> (memory_store \<Rightarrow> evm_address \<Rightarrow> json) \<Rightarrow> json server_action" where
  "with_address R params f = act_bind (required ''missing address'' (param_at params 0)) (\<lambda>v.
     act_bind (act_lift (parse_hex_address (re_from_hex R) v)) (\<lambda>a. query (\<lambda>store. f store a)))"

definition with_hash :: "rpc_env \<Rightarrow> json \<Rightarrow> (hash32 \<Rightarrow> json server_action) \<Rightarrow> json server_action" where
  "with_hash R params f = act_bind (required ''missing hash'' (param_at params 0)) (\<lambda>v.
     act_bind (act_lift (parse_hex_hash (re_from_hex R) v)) f)"

definition full_txs_param :: "json \<Rightarrow> bool" where
  "full_txs_param params = (case and_then (param_at params 1) as_bool of None \<Rightarrow> False | Some b \<Rightarrow> b)"

definition block_by_number :: "rpc_env \<Rightarrow> json \<Rightarrow> json server_action" where
  "block_by_number R params = query (\<lambda>store.
     let h = parse_block_number (case param_at params 0 of None \<Rightarrow> JStr ''latest'' | Some v \<Rightarrow> v) (eth_block_number store) in
     case get_block_by_height store h of
       Some fb \<Rightarrow> format_eth_block (re_ext R) (re_to_hex R) fb (full_txs_param params)
     | None \<Rightarrow> if h = 0 then synthetic_genesis_block else JNull)"

definition block_by_hash :: "rpc_env \<Rightarrow> json \<Rightarrow> json server_action" where
  "block_by_hash R params = with_hash R params (\<lambda>h. query (\<lambda>store.
     case get_block_by_hash store h of
       Some fb \<Rightarrow> format_eth_block (re_ext R) (re_to_hex R) fb (full_txs_param params)
     | None \<Rightarrow> JNull))"

definition transaction_by_hash :: "rpc_env \<Rightarrow> json \<Rightarrow> json server_action" where
  "transaction_by_hash R params = with_hash R params (\<lambda>h. act_read (\<lambda>p. case get_tx_status p h of
       Finalized receipt \<Rightarrow> JObj [(''hash'', hash_json (re_to_hex R) h),
         (''blockHash'', case get_block_by_height (pv_store p) (rc_height receipt) of
            None \<Rightarrow> JNull | Some fb \<Rightarrow> hash_json (re_to_hex R) (block_hash (re_ext R) (fb_block fb))),
         (''blockNumber'', hex_prefixed (rc_height receipt)), (''transactionIndex'', JStr ''0x0''),
         (''from'', JStr ''0x0000000000000000000000000000000000000000''), (''to'', JNull), (''value'', JStr ''0x0''),
         (''gas'', JStr ''0x5208''), (''gasPrice'', JStr ''0x0''), (''input'', JStr ''0x''), (''nonce'', JStr ''0x0'')]
     | _ \<Rightarrow> JNull))"

definition transaction_receipt :: "rpc_env \<Rightarrow> json \<Rightarrow> json server_action" where
  "transaction_receipt R params = with_hash R params (\<lambda>h. query (\<lambda>store. case get_receipt store h of
       Some receipt \<Rightarrow> format_eth_receipt (re_ext R) (re_to_hex R) receipt (get_block_by_height store (rc_height receipt))
     | None \<Rightarrow> JNull))"

definition log_filter_of :: "rpc_env \<Rightarrow> json \<Rightarrow> u64 \<Rightarrow> evm_log_filter" where
  "log_filter_of R params latest =
    (let obj = (case param_at params 0 of None \<Rightarrow> JObj [] | Some v \<Rightarrow> v) in
     \<lparr>lf_from_block = map_option (\<lambda>v. parse_block_number v latest) (get_field obj ''fromBlock''),
      lf_to_block = map_option (\<lambda>v. parse_block_number v latest) (get_field obj ''toBlock''),
      lf_address = and_then (get_field obj ''address'') (\<lambda>v. case parse_hex_address (re_from_hex R) v of
        Inl _ \<Rightarrow> None | Inr a \<Rightarrow> Some a),
      lf_topics = []\<rparr>)"

definition get_logs :: "rpc_env \<Rightarrow> json \<Rightarrow> json server_action" where
  "get_logs R params = act_bind (query (\<lambda>store.
       map_option (\<lambda>logs. JArr (map (\<lambda>log. JObj (log_json (re_to_hex R) log)) logs))
         (eth_get_logs store (log_filter_of R params (eth_block_number store))))) json_of"

definition faucet_address :: "rpc_env \<Rightarrow> string \<Rightarrow> rpc_error + address" where
  "faucet_address R text = (let addr_hex = strip_0x text in
     if length addr_hex = 40 then bind_res (ok_or (RpcText ''invalid hex'') (re_from_hex R addr_hex))
       (\<lambda>bytes. Inr (Address (array_of_bytes bytes)))
     else if length addr_hex = 64 then bind_res (ok_or (RpcText ''invalid hex'') (re_from_hex R addr_hex))
       (\<lambda>bytes. Inr (Address (array_of_bytes bytes)))
     else Inl (RpcText ''invalid address length''))"

definition faucet_amount :: "json \<Rightarrow> u128" where
  "faucet_amount params =
    (case and_then (param_at params 1) (\<lambda>v. case and_then (as_str v) (from_str_radix 10) of
        Some n \<Rightarrow> Some n | None \<Rightarrow> map_option ucast (as_u64 v)) of
       None \<Rightarrow> 1000000000000000000 | Some n \<Rightarrow> n)"

definition ok_status :: json where
  "ok_status = JObj [(''status'', JStr ''ok'')]"

definition faucet_call :: "rpc_env \<Rightarrow> json \<Rightarrow> json server_action" where
  "faucet_call R params = act_bind (act_lift (ok_or (RpcText ''missing address'') (and_then (param_at params 0) as_str))) (\<lambda>text.
     act_bind (act_lift (faucet_address R text)) (\<lambda>a.
     let amount = faucet_amount params in
     act_then (call_node (faucet_send (re_node R) a amount))
     (act_bind (json_of (to_u128 (re_serde R) amount)) (\<lambda>v.
      act_return (JObj [(''status'', JStr ''ok''), (''amount'', v)])))))"

definition zk_info_json :: "rpc_env \<Rightarrow> json server_action" where
  "zk_info_json R = act_bind (call_node (get_zk_pool_info (re_node R))) (\<lambda>info.
     act_bind (json_of (to_u128 (re_serde R) (zi_total_shielded_value info))) (\<lambda>total.
     act_return (JObj [(''root'', JStr (hash_to_string (re_to_hex R) (zi_root info))),
       (''commitment_count'', JNat (zi_commitment_count info)), (''nullifier_count'', JNat (of_nat (zi_nullifier_count info))),
       (''total_shielded_value'', total)])))"

text \<open>The match of \<open>dispatch\<close> in its order, in four parts.\<close>

definition dispatch_zk :: "rpc_env \<Rightarrow> string \<Rightarrow> json \<Rightarrow> json server_action" where
  "dispatch_zk R method params = (let J = re_serde R; V = re_node R in
     if method = ''register_validator'' then
       act_bind (from_value (se_join J params)) (\<lambda>request.
       act_then (call_node (register_validator V request)) (act_return ok_status))
     else if method = ''get_recent_blocks'' then
       let wanted = (case and_then (param_at params 0) as_u64 of None \<Rightarrow> 10 | Some n \<Rightarrow> n) in
       act_bind (query (\<lambda>store. all_some (map (to_block J) (get_recent_blocks store wanted)))) (\<lambda>blocks.
       json_of (map_option JArr blocks))
     else if method = ''get_staking_state'' then
       act_bind (query (\<lambda>store. to_staking J (get_staking_state_rpc store))) json_of
     else if method = ''get_governance_state'' then
       act_bind (query get_governance_state_rpc) (\<lambda>r.
       act_bind (act_lift (map_err RpcNode r)) (\<lambda>g. json_of (to_governance J g)))
     else if method = ''faucet_send'' then faucet_call R params
     else if method = ''zk_shield'' then
       act_bind (from_value (se_shield J params)) (\<lambda>request.
       act_bind (call_node (zk_shield V request)) (\<lambda>i. act_return (JObj [(''index'', JNat i)])))
     else if method = ''zk_unshield'' then
       act_bind (from_value (se_unshield J params)) (\<lambda>request.
       act_then (call_node (zk_unshield V request)) (act_return ok_status))
     else if method = ''zk_pool_info'' then zk_info_json R
     else act_fail (RpcText ''unknown method''))"

definition dispatch_eth_blocks :: "rpc_env \<Rightarrow> string \<Rightarrow> json \<Rightarrow> json server_action" where
  "dispatch_eth_blocks R method params = (let V = re_node R in
     if method = ''eth_getBlockByNumber'' then block_by_number R params
     else if method = ''eth_getBlockByHash'' then block_by_hash R params
     else if method = ''eth_getTransactionByHash'' then transaction_by_hash R params
     else if method = ''eth_getTransactionReceipt'' then transaction_receipt R params
     else if method = ''eth_call'' then
       act_bind (act_lift (parse_eth_call_request (re_from_hex R) params)) (\<lambda>request.
       act_bind (query (\<lambda>store. plane_eth_call (pe_scheme V) (pe_revm V) (pe_plane V) store request)) (\<lambda>r.
       act_bind (act_lift (map_err RpcNode r)) (\<lambda>out. act_return (JStr (''0x'' @ re_to_hex R out)))))
     else if method = ''eth_estimateGas'' then
       act_bind (act_lift (parse_eth_call_request (re_from_hex R) params)) (\<lambda>request.
       act_bind (query (\<lambda>store. eth_estimate_gas V store request)) (\<lambda>r.
       act_bind (act_lift (map_err RpcNode r)) (\<lambda>gas. act_return (hex_prefixed gas))))
     else if method = ''eth_gasPrice'' then act_return (hex_prefixed eth_gas_price)
     else if method = ''eth_maxPriorityFeePerGas'' then act_return (JStr ''0x0'')
     else if method = ''eth_feeHistory'' then
       query (\<lambda>store. JObj [(''baseFeePerGas'', JArr [JStr ''0x0'', JStr ''0x0'']), (''gasUsedRatio'', JArr [JFloat ''0.0'']),
         (''oldestBlock'', hex_prefixed (eth_block_number store)), (''reward'', JArr [JArr [JStr ''0x0'']])])
     else if method = ''eth_getLogs'' then get_logs R params
     else dispatch_zk R method params)"

definition dispatch_eth :: "rpc_env \<Rightarrow> string \<Rightarrow> json \<Rightarrow> json server_action" where
  "dispatch_eth R method params = (let V = re_node R; id = (case eth_chain_id V of None \<Rightarrow> 0 | Some i \<Rightarrow> i) in
     if method = ''eth_chainId'' then act_return (hex_prefixed id)
     else if method = ''net_version'' then act_return (JStr (decimal (unat id)))
     else if method = ''web3_clientVersion'' then act_return (JStr ''ZenoPQ/0.1.0'')
     else if method = ''eth_accounts'' then act_return (JArr [])
     else if method = ''eth_syncing'' then act_return (JBool False)
     else if method = ''eth_mining'' then act_return (JBool False)
     else if method = ''eth_hashrate'' then act_return (JStr ''0x0'')
     else if method = ''eth_protocolVersion'' then act_return (JStr ''0x41'')
     else if method = ''eth_blockNumber'' then query (\<lambda>store. hex_prefixed (eth_block_number store))
     else if method = ''eth_getBalance'' then with_address R params (\<lambda>store a. hex_prefixed (eth_get_balance store a))
     else if method = ''eth_getTransactionCount'' then
       with_address R params (\<lambda>store a. hex_prefixed (eth_get_transaction_count store a))
     else if method = ''eth_getCode'' then
       with_address R params (\<lambda>store a. JStr (''0x'' @ re_to_hex R (plane_eth_get_code (pe_plane V) store a)))
     else if method = ''eth_getStorageAt'' then act_return (JStr zero_hash_text)
     else dispatch_eth_blocks R method params)"

definition dispatch_native :: "rpc_env \<Rightarrow> string \<Rightarrow> json \<Rightarrow> json server_action" where
  "dispatch_native R method params = (let J = re_serde R; V = re_node R in
     if method = ''get_balance'' then
       act_bind (from_value (se_address J params)) (\<lambda>a.
       act_bind (query (\<lambda>store. to_u128 J (get_balance store a))) json_of)
     else if method = ''get_nonce'' then
       act_bind (from_value (se_address J params)) (\<lambda>a. query (\<lambda>store. JNat (get_nonce store a)))
     else if method = ''get_block_by_height'' then
       act_bind (from_value (se_height J params)) (\<lambda>h.
       act_bind (query (\<lambda>store. optional_block J (get_block_by_height store h))) json_of)
     else if method = ''get_block_by_hash'' then
       act_bind (from_value (se_hash J params)) (\<lambda>h.
       act_bind (query (\<lambda>store. optional_block J (get_block_by_hash store h))) json_of)
     else if method = ''get_latest_block'' then
       act_bind (query (\<lambda>store. optional_block J (latest_block store))) json_of
     else if method = ''get_tx_status'' then
       act_bind (from_value (se_hash J params)) (\<lambda>h.
       act_bind (act_read (\<lambda>p. to_status J (get_tx_status p h))) json_of)
     else if method = ''submit_tx'' then
       act_bind (from_value (se_transaction J params)) (\<lambda>tx.
       act_bind (call_node (submit_tx V tx)) (\<lambda>h. json_of (to_hash J h)))
     else if method = ''get_peers'' then act_return (JArr (map JStr (re_peers R)))
     else if method = ''get_validator_set'' then json_of (to_validators J (get_validator_set V))
     else if method = ''get_chain_status'' then
       act_bind (query (\<lambda>store. to_chain_status J (current_chain_status (pe_ext V) (pe_config V) (re_peers R) store))) json_of
     else dispatch_eth R method params)"

text \<open>A raw transaction may keep the decoder busy for ever; the answer of every other method is there.\<close>

definition dispatch :: "rpc_env \<Rightarrow> json_rpc_request \<Rightarrow> provider \<Rightarrow> (provider \<times> (rpc_error + json)) option" where
  "dispatch R request p =
    (if jq_method request = ''eth_sendRawTransaction'' then
       (case and_then (param_at (jq_params request) 0) as_str of
          None \<Rightarrow> Some (p, Inl (RpcText ''missing raw transaction hex''))
        | Some raw \<Rightarrow> map_option (\<lambda>(p', r). (p', bind_res (map_err node_error r) (\<lambda>h. Inr (hash_json (re_to_hex R) h))))
            (eth_send_raw_transaction (re_node R) raw p))
     else Some (dispatch_native R (jq_method request) (jq_params request) p))"

section \<open>The rate limiter\<close>

datatype ip_addr = V4 "32 word" | V6 "128 word"

text \<open>An instant is a number of nanoseconds; \<open>duration_since\<close> is zero when the clock went back.\<close>

record token_bucket =
  tb_tokens :: nat
  tb_last_refill :: nat

record rate_limiter =
  rl_buckets :: "(ip_addr \<times> token_bucket) list"
  rl_max_rps :: nat
  rl_burst :: nat

definition one_token :: nat where
  "one_token = 1000000000"

definition rate_limiter_new :: "32 word \<Rightarrow> 32 word \<Rightarrow> rate_limiter" where
  "rate_limiter_new max_rps burst = \<lparr>rl_buckets = [], rl_max_rps = unat max_rps, rl_burst = unat burst * one_token\<rparr>"

definition bucket_check :: "nat \<Rightarrow> nat \<Rightarrow> nat \<Rightarrow> token_bucket \<Rightarrow> token_bucket \<times> bool" where
  "bucket_check max_rps burst now b =
    (let elapsed = now - tb_last_refill b;
         tokens = min (tb_tokens b + elapsed * max_rps) burst in
     if one_token \<le> tokens then (\<lparr>tb_tokens = tokens - one_token, tb_last_refill = now\<rparr>, True)
     else (\<lparr>tb_tokens = tokens, tb_last_refill = now\<rparr>, False))"

definition limiter_check :: "ip_addr \<Rightarrow> nat \<Rightarrow> rate_limiter \<Rightarrow> rate_limiter \<times> bool" where
  "limiter_check ip now rl =
    (let b = (case map_of (rl_buckets rl) ip of Some b \<Rightarrow> b
           | None \<Rightarrow> \<lparr>tb_tokens = rl_burst rl, tb_last_refill = now\<rparr>) in
     case bucket_check (rl_max_rps rl) (rl_burst rl) now b of (b', allowed) \<Rightarrow>
       (rl\<lparr>rl_buckets := AList.update ip b' (rl_buckets rl)\<rparr>, allowed))"

section \<open>Requests\<close>

definition answer :: "json \<Rightarrow> (string \<times> json) \<Rightarrow> json" where
  "answer i body = JObj [(''jsonrpc'', JStr ''2.0''), (''id'', i), body]"

definition error_object :: "int \<Rightarrow> string \<Rightarrow> string \<times> json" where
  "error_object code text = (''error'', JObj [(''code'', JNeg code), (''message'', JStr text)])"

text \<open>The text of an error, which the answer repeats.\<close>

fun error_text :: "rpc_error \<Rightarrow> string" where
  "error_text (RpcText t) = t"
| "error_text RpcSerde = ''invalid value''"
| "error_text (RpcNode (PvText t)) = t"
| "error_text _ = ''node error''"

text \<open>A request that panics has no answer: the inner option.\<close>

definition process_single_request :: "rpc_env \<Rightarrow> json \<Rightarrow> provider \<Rightarrow> (provider \<times> json option) option" where
  "process_single_request R raw p = (case se_request (re_serde R) raw of
       None \<Rightarrow> Some (p, Some (answer JNull (error_object (- 32600) ''invalid request'')))
     | Some request \<Rightarrow> map_option (\<lambda>(p', r). (p', case r of
           Inr result \<Rightarrow> Some (answer (jq_id request) (''result'', result))
         | Inl RpcPanic \<Rightarrow> None
         | Inl e \<Rightarrow> Some (answer (jq_id request) (error_object (- 32000) (error_text e)))))
         (dispatch R request p))"

fun process_batch :: "rpc_env \<Rightarrow> json list \<Rightarrow> provider \<Rightarrow> (provider \<times> json list option) option" where
  "process_batch R [] p = Some (p, Some [])"
| "process_batch R (raw # batch) p = (case process_single_request R raw p of
       None \<Rightarrow> None
     | Some (p', None) \<Rightarrow> Some (p', None)
     | Some (p', Some response) \<Rightarrow>
         map_option (\<lambda>(p'', responses). (p'', map_option (Cons response) responses)) (process_batch R batch p'))"

text \<open>The text before the first comma of \<open>X-Forwarded-For\<close>, trimmed, names the caller when it parses as an address.\<close>

definition trim :: "string \<Rightarrow> string" where
  "trim s = (let blank = (\<lambda>c. c \<in> {CHR '' '', CHR 0x09, CHR 0x0A, CHR 0x0B, CHR 0x0C, CHR 0x0D}) in
     rev (dropWhile blank (rev (dropWhile blank s))))"

definition caller :: "(string \<Rightarrow> ip_addr option) \<Rightarrow> string option \<Rightarrow> ip_addr" where
  "caller parse_ip forwarded =
    (case and_then forwarded (\<lambda>s. parse_ip (trim (takeWhile (\<lambda>c. c \<noteq> CHR '','') s))) of
       None \<Rightarrow> V4 0x7F000001 | Some ip \<Rightarrow> ip)"

datatype http_status = StatusOk | TooManyRequests

definition handle_rpc ::
  "rpc_env \<Rightarrow> (string \<Rightarrow> ip_addr option) \<Rightarrow> nat \<Rightarrow> string option \<Rightarrow> u8 list \<Rightarrow> rate_limiter \<Rightarrow> provider \<Rightarrow>
   rate_limiter \<times> (provider \<times> (http_status \<times> json) option) option" where
  "handle_rpc R parse_ip now forwarded body rl p =
    (case limiter_check (caller parse_ip forwarded) now rl of
       (rl', False) \<Rightarrow> (rl', Some (p, Some (TooManyRequests,
          answer JNull (error_object (- 32005) ''rate limit exceeded''))))
     | (rl', True) \<Rightarrow> (rl',
         case se_parse (re_serde R) body of
           None \<Rightarrow> Some (p, Some (StatusOk, answer JNull (error_object (- 32700) ''parse error'')))
         | Some (JArr batch) \<Rightarrow>
             map_option (\<lambda>(p', responses). (p', map_option (\<lambda>rs. (StatusOk, JArr rs)) responses)) (process_batch R batch p)
         | Some raw \<Rightarrow> map_option (\<lambda>(p', response). (p', map_option (Pair StatusOk) response)) (process_single_request R raw p)))"

section \<open>Numbers are read as they are written\<close>

lemma of_char_hex_digit: "d < 16 \<Longrightarrow> of_char (hex_digit d) = (if d < 10 then 48 + d else 87 + d)"
  by (simp add: hex_digit_def)

lemma digit_value_hex: "d < 16 \<Longrightarrow> digit_value (hex_digit d) = Some d"
  by (auto simp: digit_value_def Let_def of_char_hex_digit)

lemma hex_digit_not_plus: "d < 16 \<Longrightarrow> hex_digit d \<noteq> CHR ''+''"
  using of_char_hex_digit [of d] by (auto split: if_splits)

lemma digits_value_append:
  "digits_value radix acc (xs @ ys) = (case digits_value radix acc xs of None \<Rightarrow> None | Some n \<Rightarrow> digits_value radix n ys)"
  by (induction xs arbitrary: acc) (auto split: option.split)

lemma digits_value_lower_hex: "digits_value 16 0 (lower_hex n) = Some n"
proof (induction n rule: lower_hex.induct)
  case (1 n)
  show ?case
  proof (cases "n < 16")
    case True
    then show ?thesis by (subst lower_hex.simps) (simp add: digit_value_hex)
  next
    case False
    then show ?thesis using "1.IH" by (subst lower_hex.simps) (simp add: digits_value_append digit_value_hex)
  qed
qed

lemma lower_hex_hd: "\<exists>d cs. lower_hex n = hex_digit d # cs \<and> d < 16"
proof (induction n rule: lower_hex.induct)
  case (1 n)
  show ?case
  proof (cases "n < 16")
    case True
    then show ?thesis by (subst lower_hex.simps) auto
  next
    case False
    then show ?thesis using "1.IH" by (subst lower_hex.simps) auto
  qed
qed

lemma from_str_radix_hex: "from_str_radix 16 (lower_hex (unat v)) = Some (v :: 'a::len word)"
proof -
  obtain d cs where hex: "lower_hex (unat v) = hex_digit d # cs" "d < 16" using lower_hex_hd by blast
  have "unat v < 2 ^ LENGTH('a)" using unat_word_bound [of v] by simp
  then show ?thesis
    using digits_value_lower_hex [of "unat v"] hex_digit_not_plus [OF hex(2)] unfolding hex(1)
    by (simp add: from_str_radix_def del: digits_value.simps)
qed

section \<open>Calls that only read\<close>

definition quiet :: "('s, 'e, 'a) action \<Rightarrow> bool" where
  "quiet m \<longleftrightarrow> (\<forall>s. fst (m s) = s)"

named_theorems quiet_rules \<open>actions that leave the state alone\<close>

lemma quiet_bind [quiet_rules]: "quiet m \<Longrightarrow> (\<And>a. quiet (f a)) \<Longrightarrow> quiet (act_bind m f)"
  unfolding quiet_def act_bind_def by (metis (mono_tags, lifting) case_prod_beta' fst_conv old.sum.exhaust sum.case(1,2))

lemma quiet_prims [quiet_rules]:
  "quiet (act_return a)" "quiet (act_fail e)" "quiet (act_lift r)" "quiet (act_read g)"
  "quiet (json_of v)" "quiet (from_value x)" "quiet (query h)" "quiet (required t v)"
  by (simp_all add: quiet_def json_of_def from_value_def query_def required_def)

lemma quiet_if [quiet_rules]: "(c \<Longrightarrow> quiet m) \<Longrightarrow> (\<not> c \<Longrightarrow> quiet k) \<Longrightarrow> quiet (if c then m else k)"
  by simp

lemma quiet_with [quiet_rules]:
  "quiet (with_address R params f)" "(\<And>h. quiet (g h)) \<Longrightarrow> quiet (with_hash R params g)"
  by (auto simp: with_address_def with_hash_def intro!: quiet_rules)

lemma quiet_methods [quiet_rules]:
  "quiet (block_by_number R params)" "quiet (block_by_hash R params)" "quiet (transaction_by_hash R params)"
  "quiet (transaction_receipt R params)" "quiet (get_logs R params)"
  by (simp_all add: block_by_number_def block_by_hash_def transaction_by_hash_def transaction_receipt_def get_logs_def quiet_rules)

definition writing_methods :: "string list" where
  "writing_methods = [''submit_tx'', ''eth_sendRawTransaction'', ''register_validator'', ''faucet_send'', ''zk_shield'',
     ''zk_unshield'', ''zk_pool_info'']"

lemma quiet_zk: "m \<notin> set writing_methods \<Longrightarrow> quiet (dispatch_zk R m params)"
  unfolding dispatch_zk_def Let_def writing_methods_def by (intro quiet_rules) simp_all

lemma quiet_eth_blocks: "m \<notin> set writing_methods \<Longrightarrow> quiet (dispatch_eth_blocks R m params)"
  unfolding dispatch_eth_blocks_def Let_def by (intro quiet_rules quiet_zk)

lemma quiet_eth: "m \<notin> set writing_methods \<Longrightarrow> quiet (dispatch_eth R m params)"
  unfolding dispatch_eth_def Let_def by (intro quiet_rules quiet_eth_blocks)

lemma quiet_native: "m \<notin> set writing_methods \<Longrightarrow> quiet (dispatch_native R m params)"
proof -
  assume m: "m \<notin> set writing_methods"
  then have "m \<noteq> ''submit_tx''" by (simp add: writing_methods_def)
  then show ?thesis
    unfolding dispatch_native_def Let_def by (intro quiet_rules quiet_eth [OF m]) simp_all
qed

section \<open>Token buckets\<close>

text \<open>The calls of many callers, in the order of the clock, with their answers.\<close>

fun limiter_run :: "(ip_addr \<times> nat) list \<Rightarrow> rate_limiter \<Rightarrow> (ip_addr \<times> bool) list" where
  "limiter_run [] rl = []"
| "limiter_run ((ip, now) # calls) rl = (case limiter_check ip now rl of
     (rl', allowed) \<Rightarrow> (ip, allowed) # limiter_run calls rl')"

definition allowed_calls :: "ip_addr \<Rightarrow> (ip_addr \<times> bool) list \<Rightarrow> nat" where
  "allowed_calls ip answers = length (filter (\<lambda>x. x = (ip, True)) answers)"

lemma allowed_calls_simps [simp]:
  "allowed_calls ip [] = 0"
  "allowed_calls ip ((i, a) # answers) = (if i = ip \<and> a then 1 else 0) + allowed_calls ip answers"
  by (auto simp: allowed_calls_def)

lemma bucket_check_spends:
  assumes "bucket_check rate burst now b = (b', allowed)"
  shows "tb_tokens b' + (if allowed then one_token else 0) \<le> tb_tokens b + (now - tb_last_refill b) * rate \<and>
    tb_tokens b' \<le> burst \<and> tb_last_refill b' = now"
  using assms by (auto simp: bucket_check_def Let_def split: if_splits)

text \<open>What a caller can still spend until \<open>stop\<close>.\<close>

definition budget :: "rate_limiter \<Rightarrow> ip_addr \<Rightarrow> nat \<Rightarrow> nat \<Rightarrow> nat" where
  "budget rl ip start stop = (case map_of (rl_buckets rl) ip of
     None \<Rightarrow> rl_burst rl + (stop - start) * rl_max_rps rl
   | Some b \<Rightarrow> tb_tokens b + (stop - tb_last_refill b) * rl_max_rps rl)"

definition refilled_before :: "rate_limiter \<Rightarrow> nat \<Rightarrow> bool" where
  "refilled_before rl now \<longleftrightarrow> (\<forall>ip b. map_of (rl_buckets rl) ip = Some b \<longrightarrow> tb_last_refill b \<le> now)"

lemma limiter_check_sel:
  "rl_max_rps (fst (limiter_check ip now rl)) = rl_max_rps rl"
  "rl_burst (fst (limiter_check ip now rl)) = rl_burst rl"
  "i \<noteq> ip \<Longrightarrow> map_of (rl_buckets (fst (limiter_check ip now rl))) i = map_of (rl_buckets rl) i"
  by (auto simp: limiter_check_def Let_def update_conv' split: prod.split)

lemma limiter_check_bucket:
  "map_of (rl_buckets (fst (limiter_check ip now rl))) ip =
    Some (fst (bucket_check (rl_max_rps rl) (rl_burst rl) now (case map_of (rl_buckets rl) ip of
      None \<Rightarrow> \<lparr>tb_tokens = rl_burst rl, tb_last_refill = now\<rparr> | Some b \<Rightarrow> b)))"
  "snd (limiter_check ip now rl) = snd (bucket_check (rl_max_rps rl) (rl_burst rl) now (case map_of (rl_buckets rl) ip of
      None \<Rightarrow> \<lparr>tb_tokens = rl_burst rl, tb_last_refill = now\<rparr> | Some b \<Rightarrow> b))"
  by (auto simp: limiter_check_def Let_def update_conv' split: prod.split)

lemma refill_mono:
  assumes "refilled_before rl now" "start \<le> now" "now \<le> stop"
  shows "(now - tb_last_refill (case map_of (rl_buckets rl) ip of
      None \<Rightarrow> \<lparr>tb_tokens = rl_burst rl, tb_last_refill = now\<rparr> | Some b \<Rightarrow> b)) * rl_max_rps rl +
    tb_tokens (case map_of (rl_buckets rl) ip of
      None \<Rightarrow> \<lparr>tb_tokens = rl_burst rl, tb_last_refill = now\<rparr> | Some b \<Rightarrow> b) + (stop - now) * rl_max_rps rl
    \<le> budget rl ip start stop"
proof (cases "map_of (rl_buckets rl) ip")
  case None
  then show ?thesis using assms diff_le_mono2 [OF assms(2), of stop] by (simp add: budget_def)
next
  case (Some b)
  then have "tb_last_refill b \<le> now" using assms(1) by (auto simp: refilled_before_def)
  then have "(now - tb_last_refill b) * rl_max_rps rl + (stop - now) * rl_max_rps rl = (stop - tb_last_refill b) * rl_max_rps rl"
    using assms(3) by (metis add_mult_distrib diff_add_inverse2 Nat.diff_add_assoc2 le_add_diff_inverse2 add.commute Nat.add_diff_assoc)
  then show ?thesis using Some by (simp add: budget_def)
qed

lemma budget_check:
  assumes "refilled_before rl now" "start \<le> now" "now \<le> stop"
  shows "budget (fst (limiter_check ip now rl)) i start stop + (if i = ip \<and> snd (limiter_check ip now rl) then one_token else 0)
    \<le> budget rl i start stop"
proof (cases "i = ip")
  case True
  let ?b = "case map_of (rl_buckets rl) ip of None \<Rightarrow> \<lparr>tb_tokens = rl_burst rl, tb_last_refill = now\<rparr> | Some b \<Rightarrow> b"
  obtain b' allowed where b': "bucket_check (rl_max_rps rl) (rl_burst rl) now ?b = (b', allowed)" by fastforce
  note spend = bucket_check_spends [OF b']
  have "budget (fst (limiter_check ip now rl)) ip start stop = tb_tokens b' + (stop - now) * rl_max_rps rl"
    using spend by (simp add: budget_def limiter_check_bucket b' limiter_check_sel)
  moreover have "snd (limiter_check ip now rl) = allowed" by (simp add: limiter_check_bucket b')
  moreover have "tb_tokens b' + (stop - now) * rl_max_rps rl + (if allowed then one_token else 0) \<le> budget rl ip start stop"
    using spend [THEN conjunct1] refill_mono [OF assms, of ip] by linarith
  ultimately show ?thesis using True by simp
qed (simp add: budget_def limiter_check_sel split: option.split)

lemma refilled_check:
  assumes "refilled_before rl now"
  shows "refilled_before (fst (limiter_check ip now rl)) now"
  unfolding refilled_before_def
proof (intro allI impI)
  fix i b
  let ?b = "case map_of (rl_buckets rl) ip of None \<Rightarrow> \<lparr>tb_tokens = rl_burst rl, tb_last_refill = now\<rparr> | Some b \<Rightarrow> b"
  obtain b' allowed where b': "bucket_check (rl_max_rps rl) (rl_burst rl) now ?b = (b', allowed)" by fastforce
  assume "map_of (rl_buckets (fst (limiter_check ip now rl))) i = Some b"
  then show "tb_last_refill b \<le> now"
    using bucket_check_spends [OF b'] assms
    by (cases "i = ip") (auto simp: limiter_check_bucket b' limiter_check_sel refilled_before_def)
qed

lemma limiter_run_budget:
  assumes "sorted (map snd calls)" "list_all (\<lambda>(_, t). start \<le> t \<and> t \<le> stop) calls"
    and "list_all (\<lambda>(_, t). refilled_before rl t) calls"
  shows "one_token * allowed_calls ip (limiter_run calls rl) \<le> budget rl ip start stop"
  using assms
proof (induction calls arbitrary: rl)
  case (Cons call calls)
  obtain i now where call: "call = (i, now)" by fastforce
  let ?rl = "fst (limiter_check i now rl)"
  have now: "refilled_before rl now" "start \<le> now" "now \<le> stop" using Cons.prems call by auto
  have "refilled_before ?rl t" if "(j, t) \<in> set calls" for j t
    using refilled_check [OF now(1)] that Cons.prems(1) call unfolding refilled_before_def by (force intro: le_trans)
  then have "one_token * allowed_calls ip (limiter_run calls ?rl) \<le> budget ?rl ip start stop"
    using Cons.prems by (intro Cons.IH) (auto simp: list_all_iff)
  then show ?case using budget_check [OF now, of i ip] call
    by (auto simp: split_beta algebra_simps split: if_splits)
qed simp

lemma fresh_address: "\<exists>v. map_of (m :: (ip_addr \<times> 'b) list) (V6 v) = None" if "length m < 2 ^ 128"
proof -
  have "inj (V6 :: 128 word \<Rightarrow> ip_addr)" by (simp add: inj_def)
  then have "card (range (V6 :: 128 word \<Rightarrow> ip_addr)) = 2 ^ 128" by (simp add: card_image card_word)
  moreover have "card (fst ` set m) \<le> length m" using card_image_le [of "set m" fst] card_length [of m] by simp
  ultimately have "\<not> range (V6 :: 128 word \<Rightarrow> ip_addr) \<subseteq> fst ` set m"
    using that card_mono [of "fst ` set m" "range (V6 :: 128 word \<Rightarrow> ip_addr)"] by auto
  then show ?thesis by (auto simp: map_of_eq_None_iff)
qed

lemma process_batch_length: "process_batch R batch p = Some (p', Some responses) \<Longrightarrow> length responses = length batch"
  by (induction batch arbitrary: p responses) (auto split: option.splits prod.splits)

section \<open>Properties\<close>



text \<open>The rate limit binds nobody. The caller names himself in a header, so from every state of the limiter with a burst of
  at least one token, and where every address of the sixth version can be written, some header lets the next request pass, whatever was sent before.\<close>

theorem spoofed_header_passes:
  assumes "\<And>v. \<exists>s. caller parse_ip (Some s) = V6 v"
    and "one_token \<le> rl_burst rl" "length (rl_buckets rl) < 2 ^ 128"
  shows "\<exists>s. snd (limiter_check (caller parse_ip (Some s)) now rl) = True"
proof -
  obtain v where "map_of (rl_buckets rl) (V6 v) = None" using fresh_address [OF assms(3)] by blast
  moreover obtain s where "caller parse_ip (Some s) = V6 v" using assms(1) by blast
  ultimately show ?thesis
    using assms(2) by (intro exI [of _ s]) (simp add: limiter_check_bucket bucket_check_def Let_def)
qed

text \<open>A batch costs one token. All its requests are processed and answered, however many there are, for the check of
  the one call that brought them.\<close>

theorem batch_costs_one_token:
  assumes "handle_rpc R parse_ip now forwarded body rl p = (rl', Some (p', Some (StatusOk, JArr responses)))"
    and "se_parse (re_serde R) body = Some (JArr batch)"
  shows "length responses = length batch \<and> limiter_check (caller parse_ip forwarded) now rl = (rl', True)"
  using assms
  by (auto simp: handle_rpc_def split: prod.splits bool.splits dest: process_batch_length)

text \<open>Block numbers are read as they are written: the hexadecimal text of a height stands for that height, whatever the
  latest block is.\<close>

theorem block_number_round_trip: "parse_block_number (hex_prefixed h) latest = h"
  by (simp add: parse_block_number_def hex_prefixed_def strip_0x_def from_str_radix_hex)

text \<open>A balance that does not fit in 64 bits cannot be asked for. Where \<open>serde_json\<close> refuses larger numbers, as it does without
  its feature for arbitrary precision, the query of such a balance panics and has no answer.\<close>

theorem large_amounts_panic:
  assumes "\<And>v. 2 ^ 64 \<le> unat v \<Longrightarrow> to_u128 (re_serde R) v = None"
    and "se_request (re_serde R) raw = Some \<lparr>jq_jsonrpc = ''2.0'', jq_id = i, jq_method = ''get_balance'', jq_params = params\<rparr>"
    and "se_address (re_serde R) params = Some a" "2 ^ 64 \<le> unat (get_balance (pv_store p) a)"
  shows "process_single_request R raw p = Some (p, None)"
  using assms
  by (simp add: process_single_request_def dispatch_def dispatch_native_def Let_def from_value_def query_def json_of_def
      act_bind_def [of "act_lift _"])

text \<open>The faucet pays such an amount out before its answer panics.\<close>

theorem faucet_pays_then_panics:
  assumes "\<And>v. 2 ^ 64 \<le> unat v \<Longrightarrow> to_u128 (re_serde R) v = None"
    and "param_at params 0 = Some (JStr text)" "faucet_address R text = Inr a" "2 ^ 64 \<le> unat (faucet_amount params)"
    and "faucet_send (re_node R) a (faucet_amount params) p = (p', Inr ())"
  shows "faucet_call R params p = (p', Inl RpcPanic)"
  using assms
  by (simp add: faucet_call_def and_then_def Let_def json_of_def call_node_def act_then_def
      act_bind_def [of "act_lift _"] act_bind_def [of "\<lambda>p. _ p"])

section \<open>Sample requests\<close>

definition sample_serde :: serde where
  "sample_serde = \<lparr>se_parse = (\<lambda>_. Some (JArr [JNull, JNull])),
     se_request = (\<lambda>v. case v of JStr m \<Rightarrow> Some \<lparr>jq_jsonrpc = ''2.0'', jq_id = JNat 1, jq_method = m, jq_params = JNull\<rparr> | _ \<Rightarrow> None),
     se_address = (\<lambda>_. Some (Address 1)), se_height = as_u64, se_hash = (\<lambda>_. None), se_transaction = (\<lambda>_. None),
     se_join = (\<lambda>_. None), se_shield = (\<lambda>_. None), se_unshield = (\<lambda>_. None),
     to_u128 = (\<lambda>v. if unat v < 2 ^ 64 then Some (JNat (ucast v)) else None), to_block = (\<lambda>_. Some JNull),
     to_hash = (\<lambda>_. Some JNull), to_status = (\<lambda>_. Some JNull), to_validators = (\<lambda>_. Some JNull),
     to_chain_status = (\<lambda>_. Some JNull), to_staking = (\<lambda>_. Some JNull), to_governance = (\<lambda>_. Some JNull)\<rparr>"

definition sample_rpc :: rpc_env where
  "sample_rpc = \<lparr>re_node = sample_provider_env, re_serde = sample_serde, re_peers = []\<rparr>"

definition rich_provider :: provider where
  "rich_provider = set_store (put_account memory_store_default (Address 1) \<lparr>acct_nonce = 0, acct_balance = 2 ^ 64\<rparr>) sample_provider"



theorem spoofed_header_passes_witness:
  "\<exists>s. snd (limiter_check (caller (\<lambda>t. Some (V6 (of_nat (length t)))) (Some s)) 7 (rate_limiter_new 100 200)) = True"
proof (rule spoofed_header_passes)
  fix v :: "128 word"
  let ?s = "replicate (unat v) (CHR ''b'')"
  have "takeWhile (\<lambda>c. c \<noteq> CHR '','') ?s = ?s" by (simp add: takeWhile_eq_all_conv)
  moreover have "trim ?s = ?s" by (simp add: trim_def Let_def)
  ultimately have "caller (\<lambda>t. Some (V6 (of_nat (length t)))) (Some ?s) = V6 v"
    by (simp add: caller_def and_then_def)
  then show "\<exists>s. caller (\<lambda>t. Some (V6 (of_nat (length t)))) (Some s) = V6 v" by blast
qed (simp_all add: rate_limiter_new_def one_token_def)

theorem batch_costs_one_token_witness:
  "\<exists>rl' responses. handle_rpc sample_rpc (\<lambda>_. None) 0 None [] (rate_limiter_new 100 200) sample_provider
      = (rl', Some (sample_provider, Some (StatusOk, JArr responses))) \<and> length responses = 2"
proof -
  have "\<exists>rl' responses. handle_rpc sample_rpc (\<lambda>_. None) 0 None [] (rate_limiter_new 100 200) sample_provider
      = (rl', Some (sample_provider, Some (StatusOk, JArr responses)))"
    by (simp add: handle_rpc_def caller_def and_then_def limiter_check_def rate_limiter_new_def bucket_check_def one_token_def
        sample_rpc_def sample_serde_def process_single_request_def)
  then obtain rl' responses where run: "handle_rpc sample_rpc (\<lambda>_. None) 0 None [] (rate_limiter_new 100 200) sample_provider
      = (rl', Some (sample_provider, Some (StatusOk, JArr responses)))" by blast
  have "se_parse (re_serde sample_rpc) [] = Some (JArr [JNull, JNull])" by (simp add: sample_rpc_def sample_serde_def)
  from batch_costs_one_token [OF run this] run show ?thesis by auto
qed

theorem large_amounts_panic_witness:
  "process_single_request sample_rpc (JStr ''get_balance'') rich_provider = Some (rich_provider, None)"
  by (rule large_amounts_panic [where params = JNull and a = "Address 1" and i = "JNat 1"])
    (simp_all add: sample_rpc_def sample_serde_def rich_provider_def get_balance_def account_or_default_def store_ops)

end
