(* ===== verification/Zeno_Wallet.thy ===== *)
theory Zeno_Wallet
  imports Zeno_Provider
begin

text \<open>
  The wallet of \<open>zeno-wallet/src/lib.rs\<close>: key files, and the transfers, deployments and contract calls signed by
  their owner. The properties follow a transaction from the wallet to the check of the node that
  receives it.
\<close>

record wallet_key_file =
  wk_address :: address
  wk_public_key :: "u8 list"
  wk_secret_key :: "u8 list"

definition generate_wallet :: "scheme \<Rightarrow> anyhow + wallet_key_file" where
  "generate_wallet S =
     bind_res (map_err AnyCrypto (sc_generate_keypair S)) (\<lambda>(public_key, secret_key).
     bind_res (map_err AnyCrypto (sc_derive_address S public_key)) (\<lambda>raw.
     Inr \<lparr>wk_address = Address raw, wk_public_key = public_key, wk_secret_key = secret_key\<rparr>))"

definition build_signed_transfer ::
  "ext \<Rightarrow> scheme \<Rightarrow> wallet_key_file \<Rightarrow> string \<Rightarrow> address \<Rightarrow> u128 \<Rightarrow> u64 \<Rightarrow> u128 \<Rightarrow> string option \<Rightarrow> u64 option \<Rightarrow>
   anyhow + transaction" where
  "build_signed_transfer E S wallet chain recipient amount nonce fee memo valid_until =
     sign_transaction E S
       \<lparr>tb_chain_id = ChainId chain, tb_sender = wk_address wallet, tb_recipient = recipient, tb_amount = amount,
        tb_nonce = nonce, tb_fee = fee, tb_evm = None, tb_memo = memo, tb_valid_until = valid_until\<rparr>
       (wk_public_key wallet) (wk_secret_key wallet)"

definition build_signed_contract_create ::
  "ext \<Rightarrow> scheme \<Rightarrow> wallet_key_file \<Rightarrow> string \<Rightarrow> u64 \<Rightarrow> u128 \<Rightarrow> u64 \<Rightarrow> u128 \<Rightarrow> u8 list \<Rightarrow> u64 option \<Rightarrow>
   anyhow + transaction" where
  "build_signed_contract_create E S wallet chain nonce fee gas_limit gas_price code valid_until =
     sign_transaction E S
       \<lparr>tb_chain_id = ChainId chain, tb_sender = wk_address wallet, tb_recipient = Address 0, tb_amount = 0,
        tb_nonce = nonce, tb_fee = fee,
        tb_evm = Some \<lparr>et_kind = Create code, et_value = 0, et_gas_limit = gas_limit, et_gas_price = gas_price\<rparr>,
        tb_memo = Some ''evm-create'', tb_valid_until = valid_until\<rparr>
       (wk_public_key wallet) (wk_secret_key wallet)"

definition build_signed_contract_call ::
  "ext \<Rightarrow> scheme \<Rightarrow> wallet_key_file \<Rightarrow> string \<Rightarrow> evm_address \<Rightarrow> u8 list \<Rightarrow> u64 \<Rightarrow> u128 \<Rightarrow> u64 \<Rightarrow> u128 \<Rightarrow> u64 option \<Rightarrow>
   anyhow + transaction" where
  "build_signed_contract_call E S wallet chain callee calldata nonce fee gas_limit gas_price valid_until =
     sign_transaction E S
       \<lparr>tb_chain_id = ChainId chain, tb_sender = wk_address wallet, tb_recipient = native_address callee, tb_amount = 0,
        tb_nonce = nonce, tb_fee = fee,
        tb_evm = Some \<lparr>et_kind = Call callee calldata, et_value = 0, et_gas_limit = gas_limit, et_gas_price = gas_price\<rparr>,
        tb_memo = Some ''evm-call'', tb_valid_until = valid_until\<rparr>
       (wk_public_key wallet) (wk_secret_key wallet)"

section \<open>From the wallet to the node\<close>

text \<open>A wallet is sound when its address belongs to its public key and the key pair signs and verifies.\<close>

definition wallet_ok :: "ext \<Rightarrow> oqs \<Rightarrow> wallet_key_file \<Rightarrow> bool" where
  "wallet_ok E Q w \<longleftrightarrow> ml_dsa_pair Q (wk_public_key w) (wk_secret_key w) \<and>
     sc_derive_address (ml_dsa_scheme E Q) (wk_public_key w) = Inr (address_raw (wk_address w))"

lemma generate_wallet_ok:
  assumes "generate_wallet (ml_dsa_scheme E Q) = Inr w" "ml_dsa_pair Q (wk_public_key w) (wk_secret_key w)"
  shows "wallet_ok E Q w"
  using assms by (auto simp: generate_wallet_def wallet_ok_def bind_res_eq_Inr)

text \<open>What the node asks of the account of the sender.\<close>

definition covered_by :: "memory_store \<Rightarrow> transaction_body \<Rightarrow> bool" where
  "covered_by store body \<longleftrightarrow> get_nonce store (tb_sender body) = tb_nonce body \<and>
     unat (tb_amount body) + unat (tb_fee body) \<le> unat (get_balance store (tb_sender body))"

lemma signed_transaction_valid:
  assumes "wallet_ok E Q w" "sign_transaction E (ml_dsa_scheme E Q) body (wk_public_key w) (wk_secret_key w) = Inr tx"
    and "tb_sender body = wk_address w" "static_checks E (ep_chain_id P) tx (next_height store)" "covered_by store body"
  shows "plane_validate_transaction E (ml_dsa_scheme E Q) P store tx = Inr ()"
proof -
  have body: "tx_body tx = body" using assms(2) by (auto simp: sign_transaction_def bind_res_eq_Inr)
  obtain bs where verified: "verify_transaction E (ml_dsa_scheme E Q) (ep_chain_id P) tx (next_height store) = Inr bs"
    using ml_dsa.signed_transaction_verifies [OF _ assms(2) _ assms(4)] assms(1,3) by (auto simp: wallet_ok_def)
  have "snapshot_account \<lparr>ss_accounts = ms_accounts store\<rparr> a = account_or_default store a" for a
    using snapshot_account_ledger [of store a] by (simp add: ledger_def)
  moreover have "saturating_add (tb_amount body) (tb_fee body) \<le> get_balance store (tb_sender body)"
    using assms(5) unat_word_bound [of "get_balance store (tb_sender body)"]
    by (simp add: covered_by_def word_le_nat_alt unat_saturating_add)
  ultimately show ?thesis using verified body assms(5)
    by (simp add: plane_validate_transaction_def load_state_def validate_transaction_def plane_engine_def
        engine_with_protocol_def accounts_def covered_by_def get_nonce_def get_balance_def Let_def not_less [symmetric])
qed

section \<open>Properties\<close>

text \<open>The node accepts what the wallet signs. A transfer built by a sound wallet for the chain of the node, with an amount
  and a fee, a memo and a size within the limits, not expired, with the nonce of the account and covered by its balance,
  passes the check of the node.\<close>

theorem wallet_transfer_accepted:
  assumes "wallet_ok E Q w" "ep_chain_id P = ChainId chain"
    and "build_signed_transfer E (ml_dsa_scheme E Q) w chain recipient amount nonce fee memo valid_until = Inr tx"
    and "amount \<noteq> 0" "fee \<noteq> 0" "\<And>m. memo = Some m \<Longrightarrow> length m \<le> MAX_MEMO_BYTES"
    and "\<And>h. valid_until = Some h \<Longrightarrow> next_height store \<le> h"
    and "\<And>bs. bin_transaction E tx = Some bs \<Longrightarrow> length bs \<le> MAX_TRANSACTION_SIZE"
    and "get_nonce store (wk_address w) = nonce"
    and "unat amount + unat fee \<le> unat (get_balance store (wk_address w))"
  shows "plane_validate_transaction E (ml_dsa_scheme E Q) P store tx = Inr ()"
proof -
  let ?body = "\<lparr>tb_chain_id = ChainId chain, tb_sender = wk_address w, tb_recipient = recipient, tb_amount = amount,
    tb_nonce = nonce, tb_fee = fee, tb_evm = None, tb_memo = memo, tb_valid_until = valid_until\<rparr>"
  have signed: "sign_transaction E (ml_dsa_scheme E Q) ?body (wk_public_key w) (wk_secret_key w) = Inr tx"
    using assms(3) by (simp add: build_signed_transfer_def)
  then have body: "tx_body tx = ?body" by (auto simp: sign_transaction_def bind_res_eq_Inr)
  have "static_checks E (ep_chain_id P) tx (next_height store)"
    using assms(2,4-8) by (auto simp: static_checks_def body split: option.split)
  then show ?thesis
    using signed_transaction_valid [OF assms(1) signed] assms(9,10) by (simp add: covered_by_def)
qed

theorem wallet_transfer_accepted_witness:
  "plane_validate_transaction sample_ext sample_scheme (execution_plane_new (ChainId ''z'') lone_genesis) rich_store sample_tx = Inr ()"
  unfolding sample_scheme_def
proof (rule wallet_transfer_accepted [where w = "\<lparr>wk_address = sample_address, wk_public_key = [5], wk_secret_key = [5]\<rparr>"
      and chain = "''z''" and recipient = "Address 2" and amount = 5 and nonce = 1 and fee = 1 and memo = None and valid_until = None])
  show "wallet_ok sample_ext sample_oqs \<lparr>wk_address = sample_address, wk_public_key = [5], wk_secret_key = [5]\<rparr>"
    using sample_pair sample_address_derived by (simp add: wallet_ok_def sample_scheme_def)
  show "build_signed_transfer sample_ext (ml_dsa_scheme sample_ext sample_oqs)
      \<lparr>wk_address = sample_address, wk_public_key = [5], wk_secret_key = [5]\<rparr> ''z'' (Address 2) 5 1 1 None None = Inr sample_tx"
    using sample_signed by (simp add: build_signed_transfer_def sample_body_def sample_scheme_def)
qed (auto simp: execution_plane_new_def sample_ext_def MAX_TRANSACTION_SIZE_def get_nonce_def get_balance_def
    account_or_default_def rich_store_def sample_state_def store_ops)

text \<open>An EVM transaction of a sound wallet passes too, when its fee is at least ten, its gas limit within bounds, and the fee
  covered by the balance; deployments and calls are such transactions.\<close>

lemma evm_transaction_accepted:
  assumes "wallet_ok E Q w" "sign_transaction E (ml_dsa_scheme E Q) body (wk_public_key w) (wk_secret_key w) = Inr tx"
    and "tb_sender body = wk_address w" "tb_chain_id body = ep_chain_id P" "tb_amount body = 0" "tb_evm body = Some e"
    and "\<And>m. tb_memo body = Some m \<Longrightarrow> length m \<le> MAX_MEMO_BYTES"
    and "10 \<le> tb_fee body" "et_gas_limit e \<noteq> 0" "et_gas_limit e \<le> MAX_GAS_LIMIT"
    and "\<And>h. tb_valid_until body = Some h \<Longrightarrow> next_height store \<le> h"
    and "\<And>bs. bin_transaction E tx = Some bs \<Longrightarrow> length bs \<le> MAX_TRANSACTION_SIZE"
    and "get_nonce store (wk_address w) = tb_nonce body" "tb_fee body \<le> get_balance store (wk_address w)"
  shows "plane_validate_transaction E (ml_dsa_scheme E Q) P store tx = Inr ()"
proof -
  have body: "tx_body tx = body" using assms(2) by (auto simp: sign_transaction_def bind_res_eq_Inr)
  then have "static_checks E (ep_chain_id P) tx (next_height store)"
    using assms(4-12) by (auto simp: static_checks_def Let_def split: option.split)
  then show ?thesis
    using signed_transaction_valid [OF assms(1-3)] assms(3,5,13,14) by (simp add: covered_by_def word_le_nat_alt)
qed

lemma wallet_evm_accepted:
  assumes "wallet_ok E Q w" "ep_chain_id P = ChainId chain"
    and "build_signed_contract_create E (ml_dsa_scheme E Q) w chain nonce fee gas_limit gas_price code valid_until = Inr tx \<or>
      build_signed_contract_call E (ml_dsa_scheme E Q) w chain callee calldata nonce fee gas_limit gas_price valid_until = Inr tx"
    and "10 \<le> fee" "gas_limit \<noteq> 0" "gas_limit \<le> MAX_GAS_LIMIT"
    and "\<And>h. valid_until = Some h \<Longrightarrow> next_height store \<le> h"
    and "\<And>bs. bin_transaction E tx = Some bs \<Longrightarrow> length bs \<le> MAX_TRANSACTION_SIZE"
    and "get_nonce store (wk_address w) = nonce" "fee \<le> get_balance store (wk_address w)"
  shows "plane_validate_transaction E (ml_dsa_scheme E Q) P store tx = Inr ()"
  using assms(3) unfolding build_signed_contract_create_def build_signed_contract_call_def
  by - ((erule disjE; erule evm_transaction_accepted [OF assms(1)]; use assms(2,4-) in \<open>auto simp: MAX_MEMO_BYTES_def\<close>), simp_all)

end
