(* ===== verification/Zeno_Cli.thy ===== *)
theory Zeno_Cli
  imports Zeno_Rpc Zeno_Wallet
begin

text \<open>
  The command line of \<open>zeno-cli/src/main.rs\<close>: the commands on nodes and wallets, the reading of
  addresses, and the call of a server. A command is an action on the machine it runs on: its files,
  what it printed, the database of its node and the server it talks to, which is the server of \<open>Zeno_Rpc\<close>
  with its rate limiter. The conversions that serde derives for byte arrays and for the request and
  response objects are written out; those of transactions, key files and configurations, the \<open>hex\<close> crate and
  the sockets are parameters. \<open>clap\<close> parses the arguments; a command starts here as a value.
\<close>

section \<open>Responses\<close>

record json_rpc_error =
  je_code :: int
  je_message :: string

record 'a json_rpc_response =
  jp_jsonrpc :: string
  jp_id :: json
  jp_result :: "'a option"
  jp_error :: "json_rpc_error option"

fun as_i64 :: "json \<Rightarrow> int option" where
  "as_i64 (JNat n) = (if unat n < 2 ^ 63 then Some (int (unat n)) else None)"
| "as_i64 (JNeg i) = Some i"
| "as_i64 _ = None"

definition error_of_json :: "json \<Rightarrow> json_rpc_error option" where
  "error_of_json v = and_then (and_then (get_field v ''code'') as_i64) (\<lambda>code.
     map_option (\<lambda>text. \<lparr>je_code = code, je_message = text\<rparr>) (and_then (get_field v ''message'') as_str))"

text \<open>An optional field: missing and null are \<open>None\<close>.\<close>

definition optional_field :: "(json \<Rightarrow> 'a option) \<Rightarrow> json \<Rightarrow> string \<Rightarrow> 'a option option" where
  "optional_field de v k = (case get_field v k of
     None \<Rightarrow> Some None | Some JNull \<Rightarrow> Some None | Some x \<Rightarrow> map_option Some (de x))"

definition response_of_json :: "(json \<Rightarrow> 'a option) \<Rightarrow> json \<Rightarrow> 'a json_rpc_response option" where
  "response_of_json de v =
     and_then (and_then (get_field v ''jsonrpc'') as_str) (\<lambda>jsonrpc.
     and_then (get_field v ''id'') (\<lambda>i.
     and_then (optional_field de v ''result'') (\<lambda>r.
     map_option (\<lambda>e. \<lparr>jp_jsonrpc = jsonrpc, jp_id = i, jp_result = r, jp_error = e\<rparr>)
       (optional_field error_of_json v ''error''))))"

definition request_json :: "json_rpc_request \<Rightarrow> json" where
  "request_json q = JObj [(''jsonrpc'', JStr (jq_jsonrpc q)), (''id'', jq_id q), (''method'', JStr (jq_method q)),
     (''params'', jq_params q)]"

text \<open>The derived form of an array of bytes is an array of numbers, and so is that of the types that wrap one.\<close>

definition bytes_json :: "u8 list \<Rightarrow> json" where
  "bytes_json bs = JArr (map (\<lambda>b. JNat (ucast b)) bs)"

definition address_json :: "address \<Rightarrow> json" where
  "address_json a = bytes_json (array_bytes 32 (address_raw a))"

definition evm_address_json :: "evm_address \<Rightarrow> json" where
  "evm_address_json a = bytes_json (array_bytes 20 (evm_address_raw a))"

definition hash32_json :: "hash32 \<Rightarrow> json" where
  "hash32_json h = bytes_json (as_bytes h)"

definition call_request_json :: "(u128 \<Rightarrow> json option) \<Rightarrow> evm_call_request \<Rightarrow> json option" where
  "call_request_json number q = map_option (\<lambda>value. JObj
     [(''from'', case rq_from q of None \<Rightarrow> JNull | Some a \<Rightarrow> evm_address_json a), (''to'', evm_address_json (rq_to q)),
      (''data'', bytes_json (rq_data q)), (''gas_limit'', case rq_gas_limit q of None \<Rightarrow> JNull | Some g \<Rightarrow> JNat g),
      (''value'', value)])
     (case rq_value q of None \<Rightarrow> Some JNull | Some v \<Rightarrow> number v)"

section \<open>The machine of a command\<close>

datatype cli_error =
    CliText string
  | CliIo
  | CliJson
  | CliHex
  | CliHttp
  | CliServer string
  | CliWallet anyhow
  | CliHash hash_parse_error
  | CliGenesis genesis_error
  | CliBootstrap bootstrap_error
  | CliNode provider_error
  | CliPanic
  | CliHangs

datatype cli_output = Printed string | PrintedJson json | PrintedInfo node_info

record cli_env =
  cx_ext :: ext
  cx_scheme :: scheme
  cx_keypair :: "nat \<Rightarrow> crypto_error + (u8 list \<times> u8 list)"
  cx_to_hex :: "u8 list \<Rightarrow> string"
  cx_from_hex :: "string \<Rightarrow> u8 list option"
  cx_works :: "string \<Rightarrow> bool"
  cx_uuid :: string
  cx_reach :: "string \<Rightarrow> bool"
  cx_render :: "json \<Rightarrow> u8 list"
  cx_rpc :: rpc_env
  cx_parse_ip :: "string \<Rightarrow> ip_addr option"
  cx_now :: nat
  cx_binds :: "string \<Rightarrow> bool"
  cx_parse_socket :: "string \<Rightarrow> bool"
  cx_wallet_bytes :: "wallet_key_file \<Rightarrow> u8 list option"
  cx_read_wallet :: "u8 list \<Rightarrow> wallet_key_file option"
  cx_tx_bytes :: "transaction \<Rightarrow> u8 list option"
  cx_read_tx :: "u8 list \<Rightarrow> transaction option"
  cx_tx_json :: "transaction \<Rightarrow> json option"
  cx_u128 :: "json \<Rightarrow> u128 option"
  cx_hash :: "json \<Rightarrow> hash32 option"
  cx_content :: "file_content \<Rightarrow> u8 list"
  cx_read_config :: "u8 list \<Rightarrow> node_config option"
  cx_read_genesis :: "u8 list \<Rightarrow> genesis option"

record machine =
  cw_files :: "(string \<times> u8 list) list"
  cw_printed :: "cli_output list"
  cw_database :: memory_store
  cw_started :: "(consensus_engine \<times> provider) option"
  cw_limiter :: rate_limiter
  cw_server :: provider

type_synonym 'a command = "(machine, cli_error, 'a) action"

definition read_file :: "string \<Rightarrow> u8 list command" where
  "read_file path = (\<lambda>s. (s, ok_or CliIo (map_of (cw_files s) path)))"

definition write_file :: "cli_env \<Rightarrow> string \<Rightarrow> u8 list \<Rightarrow> unit command" where
  "write_file X path bs = (if cx_works X path then act_write (\<lambda>s. s\<lparr>cw_files := AList.update path bs (cw_files s)\<rparr>)
     else act_fail CliIo)"

definition create_dir_all :: "cli_env \<Rightarrow> string \<Rightarrow> unit command" where
  "create_dir_all X dir = (if cx_works X dir then act_return () else act_fail CliIo)"

definition println :: "cli_output \<Rightarrow> unit command" where
  "println out = act_write (\<lambda>s. s\<lparr>cw_printed := cw_printed s @ [out]\<rparr>)"

text \<open>The files of a generated network, as \<open>Zeno_Genesis\<close> lists them, land on the disk.\<close>

definition apply_op :: "cli_env \<Rightarrow> (string \<times> u8 list) list \<Rightarrow> file_op \<Rightarrow> (string \<times> u8 list) list" where
  "apply_op X files f = (case f of CreateDir _ \<Rightarrow> files | WriteFile path c \<Rightarrow> AList.update path (cx_content X c) files)"

definition op_works :: "cli_env \<Rightarrow> file_op \<Rightarrow> bool" where
  "op_works X f = (case f of CreateDir path \<Rightarrow> cx_works X path | WriteFile path _ \<Rightarrow> cx_works X path)"

definition generation :: "cli_env \<Rightarrow> 'a gen_action \<Rightarrow> 'a command" where
  "generation X m = (\<lambda>s. case m [] of (log, r) \<Rightarrow>
     (s\<lparr>cw_files := foldl (apply_op X) (cw_files s) log\<rparr>, map_err CliGenesis r))"

section \<open>Calls of a server\<close>

text \<open>The request goes out without \<open>X-Forwarded-For\<close>. A handler that panics closes the connection.\<close>

definition post_request :: "cli_env \<Rightarrow> string \<Rightarrow> json_rpc_request \<Rightarrow> json command" where
  "post_request X rpc q = (\<lambda>s.
     if \<not> cx_reach X rpc then (s, Inl CliHttp)
     else (case handle_rpc (cx_rpc X) (cx_parse_ip X) (cx_now X) None (cx_render X (request_json q)) (cw_limiter s) (cw_server s) of
         (rl, None) \<Rightarrow> (s\<lparr>cw_limiter := rl\<rparr>, Inl CliHangs)
       | (rl, Some (p, None)) \<Rightarrow> (s\<lparr>cw_limiter := rl, cw_server := p\<rparr>, Inl CliHttp)
       | (rl, Some (p, Some (_, v))) \<Rightarrow> (s\<lparr>cw_limiter := rl, cw_server := p\<rparr>, Inr v)))"

definition rpc_call :: "cli_env \<Rightarrow> (json \<Rightarrow> 'r option) \<Rightarrow> string \<Rightarrow> string \<Rightarrow> json option \<Rightarrow> 'r command" where
  "rpc_call X de rpc method params =
     act_bind (act_lift (ok_or CliJson params)) (\<lambda>value.
     act_bind (post_request X rpc
       \<lparr>jq_jsonrpc = ''2.0'', jq_id = JStr (cx_uuid X), jq_method = method, jq_params = value\<rparr>) (\<lambda>response.
     act_bind (act_lift (ok_or CliHttp (response_of_json de response))) (\<lambda>body.
     case jp_error body of
       Some e \<Rightarrow> act_fail (CliServer (je_message e))
     | None \<Rightarrow> act_lift (ok_or (CliText ''missing rpc result'') (jp_result body)))))"

section \<open>Commands on wallets\<close>

definition parse_address :: "(string \<Rightarrow> u8 list option) \<Rightarrow> string \<Rightarrow> cli_error + address" where
  "parse_address from_hex s = bind_res (ok_or CliHex (from_hex s)) (\<lambda>bs.
     if length bs \<noteq> 32 then Inl (CliText ''address must be 32 bytes'') else Inr (Address (array_of_bytes bs)))"

definition parse_evm_address :: "(string \<Rightarrow> u8 list option) \<Rightarrow> string \<Rightarrow> cli_error + evm_address" where
  "parse_evm_address from_hex s = bind_res (ok_or CliHex (from_hex (strip_0x s))) (\<lambda>bs.
     if length bs \<noteq> 20 then Inl (CliText ''evm address must be 20 bytes'') else Inr (EvmAddress (array_of_bytes bs)))"

definition load_wallet_key :: "cli_env \<Rightarrow> string \<Rightarrow> wallet_key_file command" where
  "load_wallet_key X path = act_bind (read_file path) (\<lambda>bs. act_lift (ok_or CliJson (cx_read_wallet X bs)))"

definition write_wallet :: "cli_env \<Rightarrow> string \<Rightarrow> wallet_key_file \<Rightarrow> unit command" where
  "write_wallet X path wallet = act_bind (act_lift (ok_or CliJson (cx_wallet_bytes X wallet))) (write_file X path)"

datatype wallet_command =
    Generate string
  | ShowAddress string
  | Balance string string
  | BuildTx string string string u128 u64 u128 string "string option" "u64 option"
  | BuildEvmCreate string string u64 u128 u64 u128 string string "u64 option"
  | BuildEvmCall string string string string u64 u128 u64 u128 string "u64 option"
  | EthCall string string string
  | GetCode string string
  | SubmitTx string string
  | TxStatus string string

text \<open>A signed transaction is written to its file, and its digest printed.\<close>

definition save_transaction :: "cli_env \<Rightarrow> string \<Rightarrow> anyhow + transaction \<Rightarrow> unit command" where
  "save_transaction X path r =
     act_bind (act_lift (map_err CliWallet r)) (\<lambda>tx.
     act_bind (act_lift (ok_or CliJson (cx_tx_bytes X tx))) (\<lambda>bs.
     act_then (write_file X path bs)
     (println (Printed (hash_to_string (cx_to_hex X) (tx_id (cx_ext X) tx))))))"

fun handle_wallet :: "cli_env \<Rightarrow> wallet_command \<Rightarrow> unit command" where
  "handle_wallet X (Generate path) =
     act_bind (act_lift (map_err CliWallet (generate_wallet (cx_scheme X)))) (\<lambda>wallet.
     act_then (write_wallet X path wallet)
     (println (Printed (address_to_string (cx_to_hex X) (wk_address wallet)))))"
| "handle_wallet X (ShowAddress key) =
     act_bind (load_wallet_key X key) (\<lambda>wallet. println (Printed (address_to_string (cx_to_hex X) (wk_address wallet))))"
| "handle_wallet X (Balance rpc text) =
     act_bind (act_lift (parse_address (cx_from_hex X) text)) (\<lambda>a.
     act_bind (rpc_call X (cx_u128 X) rpc ''get_balance'' (Some (address_json a))) (\<lambda>balance.
     println (Printed (decimal (unat balance)))))"
| "handle_wallet X (BuildTx key chain recipient amount nonce fee path memo valid_until) =
     act_bind (load_wallet_key X key) (\<lambda>wallet.
     act_bind (act_lift (parse_address (cx_from_hex X) recipient)) (\<lambda>a.
     save_transaction X path
       (build_signed_transfer (cx_ext X) (cx_scheme X) wallet chain a amount nonce fee memo valid_until)))"
| "handle_wallet X (BuildEvmCreate key chain nonce fee gas_limit gas_price code path valid_until) =
     act_bind (load_wallet_key X key) (\<lambda>wallet.
     act_bind (act_lift (ok_or CliHex (cx_from_hex X code))) (\<lambda>bs.
     save_transaction X path
       (build_signed_contract_create (cx_ext X) (cx_scheme X) wallet chain nonce fee gas_limit gas_price bs valid_until)))"
| "handle_wallet X (BuildEvmCall key chain callee calldata nonce fee gas_limit gas_price path valid_until) =
     act_bind (load_wallet_key X key) (\<lambda>wallet.
     act_bind (act_lift (parse_evm_address (cx_from_hex X) callee)) (\<lambda>a.
     act_bind (act_lift (ok_or CliHex (cx_from_hex X calldata))) (\<lambda>bs.
     save_transaction X path
       (build_signed_contract_call (cx_ext X) (cx_scheme X) wallet chain a bs nonce fee gas_limit gas_price valid_until))))"
| "handle_wallet X (EthCall rpc to calldata) =
     act_bind (act_lift (parse_evm_address (cx_from_hex X) to)) (\<lambda>a.
     act_bind (act_lift (ok_or CliHex (cx_from_hex X calldata))) (\<lambda>bs.
     act_bind (rpc_call X as_str rpc ''eth_call''
       (call_request_json (to_u128 (re_serde (cx_rpc X)))
         \<lparr>rq_from = None, rq_to = a, rq_data = bs, rq_gas_limit = None, rq_value = None\<rparr>)) (\<lambda>result.
     println (Printed result))))"
| "handle_wallet X (GetCode rpc text) =
     act_bind (act_lift (parse_evm_address (cx_from_hex X) text)) (\<lambda>a.
     act_bind (rpc_call X as_str rpc ''eth_getCode'' (Some (evm_address_json a))) (\<lambda>result. println (Printed result)))"
| "handle_wallet X (SubmitTx rpc path) =
     act_bind (read_file path) (\<lambda>bs.
     act_bind (act_lift (ok_or CliJson (cx_read_tx X bs))) (\<lambda>tx.
     act_bind (rpc_call X (cx_hash X) rpc ''submit_tx'' (cx_tx_json X tx)) (\<lambda>h.
     println (Printed (hash_to_string (cx_to_hex X) h)))))"
| "handle_wallet X (TxStatus rpc text) =
     act_bind (act_lift (map_err CliHash (hash_from_str (cx_from_hex X) text))) (\<lambda>h.
     act_bind (rpc_call X Some rpc ''get_tx_status'' (Some (hash32_json h))) (\<lambda>status.
     println (PrintedJson status)))"

section \<open>Commands on nodes\<close>

datatype node_command =
    InitDevnet string string
  | InitSolo string string
  | Start string string
  | Info string
  | Status string

definition load_config :: "cli_env \<Rightarrow> string \<Rightarrow> node_config command" where
  "load_config X path = act_bind (read_file path) (\<lambda>bs. act_lift (ok_or CliJson (cx_read_config X bs)))"

definition load_genesis :: "cli_env \<Rightarrow> string \<Rightarrow> genesis command" where
  "load_genesis X path = act_bind (read_file path) (\<lambda>bs. act_lift (ok_or CliJson (cx_read_genesis X bs)))"

text \<open>\<open>Node::new\<close>: open the database, bootstrap it, bind the listener, and the parts of a fresh node.\<close>

definition new_node :: "cli_env \<Rightarrow> node_config \<Rightarrow> genesis \<Rightarrow> provider command" where
  "new_node X config g =
     act_then (create_dir_all X (sc_data_dir (nc_storage config)))
     (act_then (\<lambda>s. case bootstrap_genesis g (cw_database s) of
         (store, r) \<Rightarrow> (s\<lparr>cw_database := store\<rparr>, map_err CliBootstrap r))
     (if \<not> cx_binds X (p2_listen (nc_p2p config)) then act_fail CliIo
      else act_read (\<lambda>s. node_new (cx_ext X) (node_start (cw_database s) mempool_new))))"

definition from_paths :: "cli_env \<Rightarrow> string \<Rightarrow> string \<Rightarrow> (node_config \<times> genesis \<times> provider) command" where
  "from_paths X config_file genesis_file =
     act_bind (load_config X config_file) (\<lambda>config.
     act_bind (load_genesis X genesis_file) (\<lambda>g.
     act_bind (new_node X config g) (\<lambda>p. act_return (config, g, p))))"

text \<open>The node of the tests, on an in-memory store.\<close>

definition in_memory_node :: "cli_env \<Rightarrow> node_config \<Rightarrow> genesis \<Rightarrow> cli_error + provider" where
  "in_memory_node X config g = (case bootstrap_genesis g memory_store_default of
     (store, Inl e) \<Rightarrow> Inl (CliBootstrap e)
   | (store, Inr _) \<Rightarrow> if \<not> cx_binds X (p2_listen (nc_p2p config)) then Inl CliIo
       else Inr (node_new (cx_ext X) (node_start store mempool_new)))"

definition save_config :: "cli_env \<Rightarrow> string \<Rightarrow> node_config \<Rightarrow> unit command" where
  "save_config X path config = write_file X path (cx_content X (TomlConfig config))"

definition save_genesis :: "cli_env \<Rightarrow> string \<Rightarrow> genesis \<Rightarrow> unit command" where
  "save_genesis X path g = write_file X path (cx_content X (JsonGenesis g))"

text \<open>The network of the tests of \<open>zeno-test-utils\<close>: a devnet in a fresh directory with its faucet.\<close>

definition create_test_devnet :: "cli_env \<Rightarrow> string \<Rightarrow> (string \<times> wallet_key_file) command" where
  "create_test_devnet X dir =
     act_bind (act_lift (map_err CliWallet (generate_wallet (cx_scheme X)))) (\<lambda>faucet.
     act_bind (generation X (generate_local_devnet (op_works X) (cx_scheme X) (cx_keypair X) dir ''zeno-testnet''
       [(wk_address faucet, 1000000000)])) (\<lambda>_. act_return (dir, faucet)))"

definition node_config_path :: "string \<Rightarrow> nat \<Rightarrow> string" where
  "node_config_path root i = path_join root (''node-'' @ decimal i @ ''/node.toml'')"

definition load_test_node :: "cli_env \<Rightarrow> string \<Rightarrow> nat \<Rightarrow> provider command" where
  "load_test_node X root i = act_bind (from_paths X (node_config_path root i) (path_join root ''genesis.json''))
     (\<lambda>(_, _, p). act_return p)"

text \<open>\<open>Node::run\<close> up to the spawning of the services, which then run for as long as the node lives.\<close>

definition start_services :: "cli_env \<Rightarrow> node_config \<Rightarrow> genesis \<Rightarrow> provider \<Rightarrow> unit command" where
  "start_services X config g p =
     act_bind (act_lift (map_err CliNode
       (consensus_plane_new config g (cx_scheme X) (execution_plane_new (nc_chain_id config) g)))) (\<lambda>engine.
     if \<not> cx_parse_socket X (rp_listen (nc_rpc config)) then act_fail (CliText ''invalid rpc address'')
     else act_write (\<lambda>s. s\<lparr>cw_started := Some (engine, p)\<rparr>))"

definition init_network ::
  "cli_env \<Rightarrow> string \<Rightarrow> ((address \<times> u128) list \<Rightarrow> genesis gen_action) \<Rightarrow> unit command" where
  "init_network X output generate =
     act_bind (act_lift (map_err CliWallet (generate_wallet (cx_scheme X)))) (\<lambda>faucet.
     act_then (create_dir_all X output)
     (act_then (write_wallet X (path_join output ''faucet.json'') faucet)
     (act_bind (generation X (generate [(wk_address faucet, 10000000000)])) (\<lambda>_.
     println (Printed output)))))"

fun handle_node :: "cli_env \<Rightarrow> node_command \<Rightarrow> unit command" where
  "handle_node X (InitDevnet output chain) =
     init_network X output (generate_local_devnet (op_works X) (cx_scheme X) (cx_keypair X) output chain)"
| "handle_node X (InitSolo output chain) =
     init_network X output (generate_solo_devnet (op_works X) (cx_scheme X) (cx_keypair X) output chain)"
| "handle_node X (Start config_file genesis_file) =
     act_bind (from_paths X config_file genesis_file) (\<lambda>(config, g, p). start_services X config g p)"
| "handle_node X (Info path) =
     act_bind (load_config X path) (\<lambda>config. println (PrintedInfo (node_info_of config)))"
| "handle_node X (Status rpc) =
     act_bind (rpc_call X Some rpc ''get_chain_status'' (Some JNull)) (\<lambda>status. println (PrintedJson status))"

datatype top_level_command = Node node_command | Wallet wallet_command

definition run_cli :: "cli_env \<Rightarrow> top_level_command \<Rightarrow> unit command" where
  "run_cli X c = (case c of Node n \<Rightarrow> handle_node X n | Wallet w \<Rightarrow> handle_wallet X w)"

section \<open>From the command to the server\<close>

text \<open>The machine after a call was charged to its bucket.\<close>

definition billed :: "cli_env \<Rightarrow> machine \<Rightarrow> machine" where
  "billed X s = s\<lparr>cw_limiter := fst (limiter_check (V4 0x7F000001) (cx_now X) (cw_limiter s))\<rparr>"

text \<open>A request reaches the server: the address answers, the limiter lets it pass, and the body is read as it was written.\<close>

definition delivered :: "cli_env \<Rightarrow> string \<Rightarrow> json_rpc_request \<Rightarrow> machine \<Rightarrow> bool" where
  "delivered X rpc q s \<longleftrightarrow> cx_reach X rpc \<and> snd (limiter_check (V4 0x7F000001) (cx_now X) (cw_limiter s)) \<and>
     se_parse (re_serde (cx_rpc X)) (cx_render X (request_json q)) = Some (request_json q) \<and>
     se_request (re_serde (cx_rpc X)) (request_json q) = Some q"

definition cli_request :: "cli_env \<Rightarrow> string \<Rightarrow> json \<Rightarrow> json_rpc_request" where
  "cli_request X method params = \<lparr>jq_jsonrpc = ''2.0'', jq_id = JStr (cx_uuid X), jq_method = method, jq_params = params\<rparr>"

lemma response_of_result:
  "response_of_json de (answer i (''result'', v)) = (if v = JNull
     then Some \<lparr>jp_jsonrpc = ''2.0'', jp_id = i, jp_result = None, jp_error = None\<rparr>
     else map_option (\<lambda>r. \<lparr>jp_jsonrpc = ''2.0'', jp_id = i, jp_result = Some r, jp_error = None\<rparr>) (de v))"
  by (cases v) (auto simp: response_of_json_def answer_def and_then_def optional_field_def split: option.split)

lemma response_of_error:
  "response_of_json de (answer i (error_object c t)) =
     Some \<lparr>jp_jsonrpc = ''2.0'', jp_id = i, jp_result = None, jp_error = Some \<lparr>je_code = c, je_message = t\<rparr>\<rparr>"
  by (simp add: response_of_json_def answer_def error_object_def and_then_def optional_field_def error_of_json_def)

text \<open>What the client makes of what a method returned.\<close>

definition client_result :: "(json \<Rightarrow> 'r option) \<Rightarrow> rpc_error + json \<Rightarrow> cli_error + 'r" where
  "client_result de r = (case r of
     Inr v \<Rightarrow> if v = JNull then Inl (CliText ''missing rpc result'') else ok_or CliHttp (de v)
   | Inl e \<Rightarrow> if e = RpcPanic then Inl CliHttp else Inl (CliServer (error_text e)))"

lemma process_request:
  assumes "se_request (re_serde R) (request_json q) = Some q" "jq_method q \<noteq> ''eth_sendRawTransaction''"
  shows "process_single_request R (request_json q) p = (case dispatch_native R (jq_method q) (jq_params q) p of
     (p', Inr v) \<Rightarrow> Some (p', Some (answer (jq_id q) (''result'', v)))
   | (p', Inl e) \<Rightarrow> Some (p', if e = RpcPanic then None else Some (answer (jq_id q) (error_object (- 32000) (error_text e)))))"
  using assms by (auto simp: process_single_request_def dispatch_def split: prod.split sum.split rpc_error.split)

lemma post_delivered:
  assumes "delivered X rpc q s"
  shows "post_request X rpc q s = (case process_single_request (cx_rpc X) (request_json q) (cw_server s) of
      None \<Rightarrow> (billed X s, Inl CliHangs)
    | Some (p, None) \<Rightarrow> ((billed X s)\<lparr>cw_server := p\<rparr>, Inl CliHttp)
    | Some (p, Some v) \<Rightarrow> ((billed X s)\<lparr>cw_server := p\<rparr>, Inr v))"
proof -
  obtain rl where "limiter_check (V4 0x7F000001) (cx_now X) (cw_limiter s) = (rl, True)"
    using assms unfolding delivered_def by (metis prod.collapse)
  then show ?thesis
    using assms unfolding delivered_def
    by (auto simp: post_request_def handle_rpc_def caller_def and_then_def request_json_def billed_def
        split: option.split prod.split)
qed

lemma rpc_call_delivered:
  assumes "delivered X rpc (cli_request X method v) s" "method \<noteq> ''eth_sendRawTransaction''"
  shows "rpc_call X de rpc method (Some v) s = (case dispatch_native (cx_rpc X) method v (cw_server s) of
     (p, r) \<Rightarrow> ((billed X s)\<lparr>cw_server := p\<rparr>, client_result de r))"
proof -
  obtain p r where run: "dispatch_native (cx_rpc X) method v (cw_server s) = (p, r)" by fastforce
  have "se_request (re_serde (cx_rpc X)) (request_json (cli_request X method v)) = Some (cli_request X method v)"
    using assms(1) by (simp add: delivered_def)
  from post_delivered [OF assms(1)] process_request [OF this] assms(2) run
  have post: "post_request X rpc (cli_request X method v) s = ((billed X s)\<lparr>cw_server := p\<rparr>,
      case r of Inr w \<Rightarrow> Inr (answer (JStr (cx_uuid X)) (''result'', w))
        | Inl e \<Rightarrow> if e = RpcPanic then Inl CliHttp
            else Inr (answer (JStr (cx_uuid X)) (error_object (- 32000) (error_text e))))"
    by (auto simp: cli_request_def split: sum.split)
  show ?thesis
    using post unfolding cli_request_def
    by (auto simp: rpc_call_def act_bind_def act_defs client_result_def ok_or_def run response_of_result response_of_error
        split: sum.split option.split)
qed

lemma billed_server [simp]:
  "cw_server (billed X s) = cw_server s" "cw_printed (billed X s) = cw_printed s" "cw_files (billed X s) = cw_files s"
  "(billed X s)\<lparr>cw_server := cw_server s\<rparr> = billed X s"
  by (simp_all add: billed_def)

section \<open>Properties of the commands\<close>

text \<open>The command that calls a contract calls nothing. Whatever contract and call data are given, the server reads the
  request, whose bytes are arrays of numbers, as a call of the zero address without data, and the command prints what that returns.\<close>

theorem eth_call_ignores_arguments:
  assumes "parse_evm_address (cx_from_hex X) to = Inr a" "cx_from_hex X calldata = Some bs"
    and "call_request_json (to_u128 (re_serde (cx_rpc X)))
      \<lparr>rq_from = None, rq_to = a, rq_data = bs, rq_gas_limit = None, rq_value = None\<rparr> = Some v"
    and "delivered X rpc (cli_request X ''eth_call'' v) s"
  shows "handle_wallet X (EthCall rpc to calldata) s =
    (case plane_eth_call (pe_scheme (re_node (cx_rpc X))) (pe_revm (re_node (cx_rpc X))) (pe_plane (re_node (cx_rpc X)))
        (pv_store (cw_server s)) \<lparr>rq_from = None, rq_to = EvmAddress 0, rq_data = [], rq_gas_limit = None, rq_value = None\<rparr> of
      Inl e \<Rightarrow> (billed X s, Inl (CliServer (error_text (RpcNode e))))
    | Inr out \<Rightarrow> ((billed X s)\<lparr>cw_printed := cw_printed s @ [Printed (''0x'' @ re_to_hex (cx_rpc X) out)]\<rparr>, Inr ()))"
proof -
  have "parse_eth_call_request (re_from_hex (cx_rpc X)) v =
      Inr \<lparr>rq_from = None, rq_to = EvmAddress 0, rq_data = [], rq_gas_limit = None, rq_value = None\<rparr>"
    using assms(3) by (auto simp: call_request_json_def parse_eth_call_request_def param_at_def Let_def and_then_def
        evm_address_json_def bytes_json_def)
  then show ?thesis
    using assms(1-3) rpc_call_delivered [OF assms(4), of as_str]
    by (simp add: act_bind_def [of "rpc_call _ _ _ _ _"] dispatch_native_def dispatch_eth_def dispatch_eth_blocks_def
        Let_def query_def act_bind_def [of "act_lift _"] client_result_def println_def split: sum.split)
qed

text \<open>The command that shows the code of a contract never succeeds: the server wants a hexadecimal text where the client sends an
  array of numbers.\<close>

theorem get_code_never_answers:
  assumes "parse_evm_address (cx_from_hex X) text = Inr a"
    and "delivered X rpc (cli_request X ''eth_getCode'' (evm_address_json a)) s"
  shows "handle_wallet X (GetCode rpc text) s = (billed X s, Inl (CliServer ''expected hex address string''))"
proof -
  obtain b bs where "array_bytes 20 (evm_address_raw a) = b # bs"
    using length_array_bytes [of 20 "evm_address_raw a"] by (cases "array_bytes 20 (evm_address_raw a)") auto
  then have "param_at (evm_address_json a) 0 = Some (JNat (ucast b))"
    by (simp add: evm_address_json_def bytes_json_def param_at_def)
  then show ?thesis
    using assms(1) rpc_call_delivered [OF assms(2), of as_str]
    by (simp add: act_bind_def [of "rpc_call _ _ _ _ _"] dispatch_native_def dispatch_eth_def Let_def with_address_def
        required_def parse_hex_address_def act_bind_def [of "act_lift _"] client_result_def)
qed

text \<open>The balance command prints the balance that the server stores when it fits in 64 bits; otherwise the server panics and
  the command fails, whatever the balance is.\<close>

theorem balance_command:
  assumes "parse_address (cx_from_hex X) text = Inr a"
    and "delivered X rpc (cli_request X ''get_balance'' (address_json a)) s"
    and "se_address (re_serde (cx_rpc X)) (address_json a) = Some a"
    and "to_u128 (re_serde (cx_rpc X)) (get_balance (pv_store (cw_server s)) a) =
      (if unat (get_balance (pv_store (cw_server s)) a) < 2 ^ 64 then Some (JNat (ucast (get_balance (pv_store (cw_server s)) a))) else None)"
    and "\<And>n. cx_u128 X (JNat n) = Some (ucast n)"
  shows "handle_wallet X (Balance rpc text) s =
    (if unat (get_balance (pv_store (cw_server s)) a) < 2 ^ 64
     then ((billed X s)\<lparr>cw_printed := cw_printed s @ [Printed (decimal (unat (get_balance (pv_store (cw_server s)) a)))]\<rparr>, Inr ())
     else (billed X s, Inl CliHttp))"
proof -
  let ?v = "get_balance (pv_store (cw_server s)) a"
  have "take_bit 64 ?v = ?v" if "unat ?v < 2 ^ 64"
    using that by (simp add: word_unat_eq_iff unsigned_take_bit_eq take_bit_nat_eq_self)
  moreover have "(ucast (ucast ?v :: u64) :: u128) = take_bit 64 ?v"
    by (rule bit_word_eqI) (auto simp: bit_simps)
  ultimately show ?thesis
    using assms rpc_call_delivered [OF assms(2), of "cx_u128 X"]
    by (auto simp: act_bind_def [of "rpc_call _ _ _ _ _"] dispatch_native_def Let_def from_value_def query_def json_of_def
        act_bind_def [of "act_lift _"] client_result_def println_def)
qed

text \<open>What the files and the wire keep of a transaction and of its digest.\<close>

definition tx_codecs_ok :: "cli_env \<Rightarrow> transaction \<Rightarrow> json \<Rightarrow> bool" where
  "tx_codecs_ok X tx v \<longleftrightarrow> cx_tx_json X tx = Some v \<and> se_transaction (re_serde (cx_rpc X)) v = Some tx \<and>
     (case cx_tx_bytes X tx of None \<Rightarrow> False | Some bs \<Rightarrow> cx_read_tx X bs = Some tx) \<and>
     (case to_hash (re_serde (cx_rpc X)) (tx_id (cx_ext X) tx) of None \<Rightarrow> False
      | Some h \<Rightarrow> h \<noteq> JNull \<and> cx_hash X h = Some (tx_id (cx_ext X) tx))"

lemma build_tx_run:
  assumes "map_of (cw_files s) key = Some kb" "cx_read_wallet X kb = Some w"
    and "parse_address (cx_from_hex X) text = Inr recipient" "cx_works X path" "cx_tx_bytes X tx = Some bs"
    and "build_signed_transfer (cx_ext X) (cx_scheme X) w chain recipient amount nonce fee memo valid_until = Inr tx"
  shows "handle_wallet X (BuildTx key chain text amount nonce fee path memo valid_until) s =
    (s\<lparr>cw_files := AList.update path bs (cw_files s),
       cw_printed := cw_printed s @ [Printed (hash_to_string (cx_to_hex X) (tx_id (cx_ext X) tx))]\<rparr>, Inr ())"
  using assms
  by (simp add: act_bind_def act_then_def load_wallet_key_def read_file_def ok_or_def save_transaction_def write_file_def
      println_def)

lemma submit_tx_command:
  assumes "map_of (cw_files s) path = Some bs" "cx_read_tx X bs = Some tx" "tx_codecs_ok X tx v"
    and "delivered X rpc (cli_request X ''submit_tx'' v) s" "pe_ext (re_node (cx_rpc X)) = cx_ext X"
    and "submit_tx (re_node (cx_rpc X)) tx (cw_server s) = (p', Inr (tx_id (cx_ext X) tx))"
  shows "handle_wallet X (SubmitTx rpc path) s = ((billed X s)\<lparr>cw_server := p',
      cw_printed := cw_printed s @ [Printed (hash_to_string (cx_to_hex X) (tx_id (cx_ext X) tx))]\<rparr>, Inr ())"
proof -
  obtain h where h: "to_hash (re_serde (cx_rpc X)) (tx_id (cx_ext X) tx) = Some h" "h \<noteq> JNull"
      "cx_hash X h = Some (tx_id (cx_ext X) tx)"
    using assms(3) by (auto simp: tx_codecs_ok_def split: option.splits)
  have "dispatch_native (cx_rpc X) ''submit_tx'' v (cw_server s) = (p', Inr h)"
    using assms(3,6) h by (simp add: dispatch_native_def Let_def from_value_def json_of_def call_node_def act_bind_def act_defs
        tx_codecs_ok_def ok_or_def)
  then show ?thesis
    using rpc_call_delivered [OF assms(4), of "cx_hash X"] assms(1-3) h
    by (simp add: act_bind_def read_file_def ok_or_def println_def client_result_def tx_codecs_ok_def)
qed


section \<open>Starting a network\<close>

definition solo_accounts :: "address \<Rightarrow> address \<Rightarrow> (address, account) btree_map" where
  "solo_accounts faucet a =
     or_insert a \<lparr>acct_nonce = 0, acct_balance = 1000000000\<rparr> (funded_table [(faucet, 10000000000)])"

definition solo_genesis :: "string \<Rightarrow> string \<Rightarrow> address \<Rightarrow> u8 list \<Rightarrow> u8 list \<Rightarrow> address \<Rightarrow> genesis" where
  "solo_genesis outdir chain faucet pk sk a =
    (let config = devnet_config outdir chain 1 0 pk sk a in
     \<lparr>gn_chain_id = ChainId chain, gn_metadata = nc_metadata config, gn_accounts = solo_accounts faucet a,
      gn_validators = [devnet_validator 0 pk a], gn_consensus = consensus_params_of config,
      gn_crypto = crypto_params_of config, gn_economics = devnet_economics\<rparr>)"

lemma saved_config_loads:
  assumes "cx_works X path" "cx_read_config X (cx_content X (TomlConfig config)) = Some config"
  shows "act_then (save_config X path config) (load_config X path) s =
    (s\<lparr>cw_files := AList.update path (cx_content X (TomlConfig config)) (cw_files s)\<rparr>, Inr config)"
  using assms by (simp add: save_config_def load_config_def write_file_def read_file_def act_then_def act_bind_def act_defs
      ok_or_def update_conv')

lemma saved_genesis_loads:
  assumes "cx_works X path" "cx_read_genesis X (cx_content X (JsonGenesis g)) = Some g"
  shows "act_then (save_genesis X path g) (load_genesis X path) s =
    (s\<lparr>cw_files := AList.update path (cx_content X (JsonGenesis g)) (cw_files s)\<rparr>, Inr g)"
  using assms by (simp add: save_genesis_def load_genesis_def write_file_def read_file_def act_then_def act_bind_def act_defs
      ok_or_def update_conv')

lemma devnet_config_validator [simp]:
  "nc_validator (devnet_config dir chain n i pk sk a) = Some \<lparr>vc_address = a, vc_public_key = pk, vc_secret_key = sk\<rparr>"
  by (simp add: devnet_config_def)

lemma decimal_0 [simp]: "decimal 0 = ''0''"
  by code_simp

lemma solo_generated:
  assumes "\<And>f. works f" "keypair 0 = Inr (pk, sk)" "sc_derive_address S pk = Inr raw"
  shows "generate_solo_devnet works S keypair outdir chain [(faucet, 10000000000)] [] =
    ([CreateDir outdir, CreateDir (path_join outdir ''node-0''),
      WriteFile (path_join (path_join outdir ''node-0'') ''node.toml'')
        (TomlConfig (devnet_config outdir chain 1 0 pk sk (Address raw))),
      WriteFile (path_join (path_join outdir ''node-0'') ''validator-key.json'')
        (JsonKey \<lparr>vc_address = Address raw, vc_public_key = pk, vc_secret_key = sk\<rparr>),
      WriteFile (path_join outdir ''genesis.json'') (JsonGenesis (solo_genesis outdir chain faucet pk sk (Address raw)))],
     Inr (solo_genesis outdir chain faucet pk sk (Address raw)))"
  using assms
  by (simp add: generate_solo_devnet_def generate_devnet_def file_op_def act_then_def act_bind_def write_node_def
      solo_genesis_def solo_accounts_def Let_def)

lemma path_join_twice:
  "path_join (path_join dir ''node-0'') file = path_join dir (''node-0/'' @ file)"
  by (simp add: path_join_def)

lemma path_join_inject [simp]: "path_join dir f = path_join dir g \<longleftrightarrow> f = g"
  by (simp add: path_join_def)

lemma solo_files:
  assumes "cx_content X (TomlConfig config) = cb" "cx_content X (JsonGenesis g) = gb"
  shows "map_of (foldl (apply_op X) files [CreateDir outdir, CreateDir (path_join outdir ''node-0''),
      WriteFile (path_join (path_join outdir ''node-0'') ''node.toml'') (TomlConfig config),
      WriteFile (path_join (path_join outdir ''node-0'') ''validator-key.json'') (JsonKey key),
      WriteFile (path_join outdir ''genesis.json'') (JsonGenesis g)]) (path_join (path_join outdir ''node-0'') ''node.toml'') = Some cb"
    and "map_of (foldl (apply_op X) files [CreateDir outdir, CreateDir (path_join outdir ''node-0''),
      WriteFile (path_join (path_join outdir ''node-0'') ''node.toml'') (TomlConfig config),
      WriteFile (path_join (path_join outdir ''node-0'') ''validator-key.json'') (JsonKey key),
      WriteFile (path_join outdir ''genesis.json'') (JsonGenesis g)]) (path_join outdir ''genesis.json'') = Some gb"
  using assms by (simp_all add: apply_op_def update_conv' path_join_twice)

lemma solo_boots: "\<exists>store. bootstrap_genesis (solo_genesis outdir chain faucet pk sk a) database = (store, Inr ())"
proof (rule bootstrap_ok)
  have "\<exists>acct. map_of (solo_accounts faucet a) a = Some acct \<and> 1000000 \<le> acct_balance acct"
    by (simp add: solo_accounts_def or_insert_lookup funded_table_def)
  then show "list_all (\<lambda>v. \<exists>acct. map_of (gn_accounts (solo_genesis outdir chain faucet pk sk a)) (va_address v) = Some acct \<and>
      minimum_self_bond (gn_economics (solo_genesis outdir chain faucet pk sk a)) \<le> acct_balance acct)
      (gn_validators (solo_genesis outdir chain faucet pk sk a))"
    by (simp add: solo_genesis_def Let_def devnet_validator_def devnet_economics_def)
qed

text \<open>C16: A network that the command line makes for one validator starts. After \<open>init-solo\<close>, starting the first node from the files
  that were written brings the services up, whatever the database held: the engine runs on the chain of the command with the
  validator's key, next to an empty mempool, and the minimum self-bond was added to the stake of the validator.\<close>

theorem solo_network_starts:
  assumes "generate_wallet (cx_scheme X) = Inr faucet" "cx_wallet_bytes X faucet = Some fb"
    and "cx_keypair X 0 = Inr (pk, sk)" "sc_derive_address (cx_scheme X) pk = Inr raw"
    and "\<And>path. cx_works X path" "\<And>listen. cx_binds X listen" "\<And>listen. cx_parse_socket X listen"
    and "cx_read_config X (cx_content X (TomlConfig (devnet_config outdir chain 1 0 pk sk (Address raw)))) =
      Some (devnet_config outdir chain 1 0 pk sk (Address raw))"
    and "cx_read_genesis X (cx_content X (JsonGenesis (solo_genesis outdir chain (wk_address faucet) pk sk (Address raw)))) =
      Some (solo_genesis outdir chain (wk_address faucet) pk sk (Address raw))"
  shows "\<exists>s' engine p. act_then (handle_node X (InitSolo outdir chain))
      (handle_node X (Start (path_join (path_join outdir ''node-0'') ''node.toml'') (path_join outdir ''genesis.json''))) s
        = (s', Inr ()) \<and>
    cw_started s' = Some (engine, p) \<and> ce_chain_id engine = ChainId chain \<and>
    ce_local engine = Some \<lparr>lv_validator = devnet_validator 0 pk (Address raw), lv_secret_key = sk\<rparr> \<and>
    pv_mempool p = mempool_new \<and> pv_store p = cw_database s' \<and>
    stored_stake (pv_store p) (Address raw) = saturate (stored_stake (cw_database s) (Address raw) + 1000000)"
proof -
  let ?config = "devnet_config outdir chain 1 0 pk sk (Address raw)"
  let ?g = "solo_genesis outdir chain (wk_address faucet) pk sk (Address raw)"
  let ?ops = "[CreateDir outdir, CreateDir (path_join outdir ''node-0''),
      WriteFile (path_join (path_join outdir ''node-0'') ''node.toml'') (TomlConfig ?config),
      WriteFile (path_join (path_join outdir ''node-0'') ''validator-key.json'')
        (JsonKey \<lparr>vc_address = Address raw, vc_public_key = pk, vc_secret_key = sk\<rparr>),
      WriteFile (path_join outdir ''genesis.json'') (JsonGenesis ?g)]"
  let ?files = "AList.update (path_join outdir ''faucet.json'') fb (cw_files s)"
  let ?t = "s\<lparr>cw_files := foldl (apply_op X) ?files ?ops, cw_printed := cw_printed s @ [Printed outdir]\<rparr>"
  have "op_works X f" for f using assms(5) by (simp add: op_works_def split: file_op.split)
  note generated = solo_generated [where works = "op_works X" and keypair = "cx_keypair X" and S = "cx_scheme X" and pk = pk and sk = sk and raw = raw and outdir = outdir and chain = chain and faucet = "wk_address faucet", OF this assms(3,4)]
  have init: "handle_node X (InitSolo outdir chain) s = (?t, Inr ())"
    using assms(1,2,5)
    by (simp add: init_network_def act_then_def act_bind_def create_dir_all_def write_wallet_def write_file_def ok_or_def
        generation_def generated println_def del: foldl_Cons)
  note files = solo_files [where X = X and config = "?config" and g = "?g" and files = "?files" and outdir = outdir, OF refl refl]
  obtain store where store: "bootstrap_genesis ?g (cw_database s) = (store, Inr ())" using solo_boots by blast
  have plane: "consensus_plane_new ?config ?g S P = Inr (consensus_engine_new ?g S (plane_engine P)
      (Some \<lparr>lv_validator = devnet_validator 0 pk (Address raw), lv_secret_key = sk\<rparr>))" for S P
    by (simp add: consensus_plane_new_def devnet_config_def solo_genesis_def devnet_validator_def ok_or_def Let_def)
  have chain: "gn_chain_id ?g = ChainId chain" by (simp add: solo_genesis_def Let_def)
  let ?p = "node_new (cx_ext X) (node_start store mempool_new)"
  let ?engine = "consensus_engine_new ?g (cx_scheme X) (plane_engine (execution_plane_new (nc_chain_id ?config) ?g))
      (Some \<lparr>lv_validator = devnet_validator 0 pk (Address raw), lv_secret_key = sk\<rparr>)"
  have "handle_node X (Start (path_join (path_join outdir ''node-0'') ''node.toml'') (path_join outdir ''genesis.json'')) ?t
      = (?t\<lparr>cw_database := store, cw_started := Some (?engine, ?p)\<rparr>, Inr ())"
    using assms(5-9) files store plane
    by (simp add: from_paths_def load_config_def load_genesis_def read_file_def new_node_def start_services_def ok_or_def
        act_then_def act_bind_def create_dir_all_def del: foldl_Cons)
  moreover have "ce_chain_id ?engine = ChainId chain"
      "ce_local ?engine = Some \<lparr>lv_validator = devnet_validator 0 pk (Address raw), lv_secret_key = sk\<rparr>"
    by (simp_all add: consensus_engine_new_def chain)
  moreover have "stored_stake store (Address raw) = saturate (stored_stake (cw_database s) (Address raw) + 1000000)"
    using bootstrap_run(1) [OF store] by (simp add: solo_genesis_def Let_def devnet_validator_def devnet_economics_def)
  moreover have "pv_mempool ?p = mempool_new" "pv_store ?p = store"
    by (simp_all add: node_new_def node_start_def pv_mempool_def pv_store_def store_of_def)
  ultimately show ?thesis using init by (auto simp: act_then_def act_bind_def simp del: handle_node.simps foldl_Cons)
qed

section \<open>Sample commands\<close>

definition sample_wallet :: wallet_key_file where
  "sample_wallet = \<lparr>wk_address = sample_address, wk_public_key = [5], wk_secret_key = [5]\<rparr>"

text \<open>A machine whose server reads every body as the request \<open>q\<close>, and whose disk holds the configuration \<open>c\<close> and the genesis \<open>g\<close>.\<close>

definition sample_cli :: "json_rpc_request \<Rightarrow> node_config \<Rightarrow> genesis \<Rightarrow> cli_env" where
  "sample_cli q c g = \<lparr>cx_ext = sample_ext, cx_scheme = sample_scheme, cx_keypair = (\<lambda>_. Inr ([1], [2])),
     cx_to_hex = (\<lambda>_. ''00''), cx_from_hex = (\<lambda>s. Some (replicate (length s - 1) 0 @ [2])), cx_works = (\<lambda>_. True), cx_uuid = ''u'',
     cx_reach = (\<lambda>_. True), cx_render = (\<lambda>_. []),
     cx_rpc = sample_rpc\<lparr>re_serde := sample_serde\<lparr>se_parse := (\<lambda>_. Some (request_json q)), se_request := (\<lambda>_. Some q),
       se_transaction := (\<lambda>_. Some sample_tx), to_hash := (\<lambda>_. Some (JStr ''h''))\<rparr>\<rparr>,
     cx_parse_ip = (\<lambda>_. None), cx_now = 0, cx_binds = (\<lambda>_. True), cx_parse_socket = (\<lambda>_. True),
     cx_wallet_bytes = (\<lambda>_. Some [1]), cx_read_wallet = (\<lambda>_. Some sample_wallet), cx_tx_bytes = (\<lambda>_. Some [2]),
     cx_read_tx = (\<lambda>_. Some sample_tx), cx_tx_json = (\<lambda>_. Some (JStr ''t'')), cx_u128 = (\<lambda>_. None),
     cx_hash = (\<lambda>_. Some (tx_id sample_ext sample_tx)), cx_content = (\<lambda>_. [3]), cx_read_config = (\<lambda>_. Some c),
     cx_read_genesis = (\<lambda>_. Some g)\<rparr>"

definition sample_machine :: machine where
  "sample_machine = \<lparr>cw_files = [(''k'', [1])], cw_printed = [], cw_database = memory_store_default, cw_started = None,
     cw_limiter = rate_limiter_new 100 200, cw_server = sample_provider\<rparr>"

lemma sample_cli_sel [simp]:
  "cx_ext (sample_cli q c g) = sample_ext" "cx_scheme (sample_cli q c g) = sample_scheme"
  "pe_ext (re_node (cx_rpc (sample_cli q c g))) = sample_ext" "pe_scheme (re_node (cx_rpc (sample_cli q c g))) = sample_scheme"
  "re_node (cx_rpc (sample_cli q c g)) = sample_provider_env"
  "cw_server sample_machine = sample_provider" "cx_uuid (sample_cli q c g) = ''u''"
  "cx_from_hex (sample_cli q c g) = (\<lambda>s. Some (replicate (length s - 1) 0 @ [2]))"
  by (simp_all add: sample_cli_def sample_machine_def sample_rpc_def)

lemma sample_delivered: "delivered (sample_cli q c g) rpc q sample_machine"
  by (simp add: delivered_def sample_cli_def sample_machine_def limiter_check_def rate_limiter_new_def bucket_check_def
      one_token_def sample_rpc_def)

lemma sample_mempool_takes: "\<exists>m. mp_insert sample_ext mempool_new sample_tx = Some (m, Inr ())"
  by (simp add: mp_insert_def mempool_new_def Let_def contains_key_def sender_count_def highest_nonce_def make_room_def
      MAX_PER_SENDER_def MAX_MEMPOOL_SIZE_def saturating_add_def sample_tx_def sample_body_def)

definition sample_call :: "string \<Rightarrow> json \<Rightarrow> json_rpc_request" where
  "sample_call method v = \<lparr>jq_jsonrpc = ''2.0'', jq_id = JStr ''u'', jq_method = method, jq_params = v\<rparr>"

lemma sample_call [simp]: "cli_request (sample_cli q c g) method v = sample_call method v"
  by (simp add: cli_request_def sample_call_def)

lemma sample_evm_text: "parse_evm_address (cx_from_hex (sample_cli q c g)) (replicate 20 (CHR ''a'')) =
    Inr (EvmAddress (array_of_bytes (replicate 19 0 @ [2])))"
  by (simp add: parse_evm_address_def strip_0x_def ok_or_def numeral_2_eq_2)

theorem get_code_never_answers_witness:
  "snd (handle_wallet (sample_cli (sample_call ''eth_getCode'' (evm_address_json (EvmAddress (array_of_bytes (replicate 19 0 @ [2])))))
      node_config_default lone_genesis) (GetCode ''r'' (replicate 20 (CHR ''a''))) sample_machine)
    = Inl (CliServer ''expected hex address string'')"
  by (subst get_code_never_answers [OF sample_evm_text]) (simp_all add: sample_delivered)

theorem eth_call_ignores_arguments_witness:
  "\<exists>v. call_request_json (to_u128 sample_serde) \<lparr>rq_from = None, rq_to = EvmAddress (array_of_bytes (replicate 19 0 @ [2])),
      rq_data = [2], rq_gas_limit = None, rq_value = None\<rparr> = Some v \<and>
    snd (handle_wallet (sample_cli (sample_call ''eth_call'' v) node_config_default lone_genesis)
      (EthCall ''r'' (replicate 20 (CHR ''a'')) ''c'') sample_machine) =
    (case plane_eth_call sample_scheme sample_revm (pe_plane sample_provider_env) rich_store
        \<lparr>rq_from = None, rq_to = EvmAddress 0, rq_data = [], rq_gas_limit = None, rq_value = None\<rparr> of
      Inl e \<Rightarrow> Inl (CliServer (error_text (RpcNode e))) | Inr out \<Rightarrow> Inr ())"
proof -
  let ?rq = "\<lparr>rq_from = None, rq_to = EvmAddress (array_of_bytes (replicate 19 0 @ [2])), rq_data = [2], rq_gas_limit = None,
    rq_value = None\<rparr>"
  have serde: "to_u128 (re_serde (cx_rpc (sample_cli q c g))) = to_u128 sample_serde" for q c g
    by (simp add: sample_cli_def)
  obtain v where v: "call_request_json (to_u128 sample_serde) ?rq = Some v"
    by (simp add: call_request_json_def)
  let ?X = "sample_cli (sample_call ''eth_call'' v) node_config_default lone_genesis"
  have "handle_wallet ?X (EthCall ''r'' (replicate 20 (CHR ''a'')) ''c'') sample_machine =
    (case plane_eth_call (pe_scheme (re_node (cx_rpc ?X))) (pe_revm (re_node (cx_rpc ?X))) (pe_plane (re_node (cx_rpc ?X)))
        (pv_store (cw_server sample_machine)) \<lparr>rq_from = None, rq_to = EvmAddress 0, rq_data = [], rq_gas_limit = None, rq_value = None\<rparr> of
      Inl e \<Rightarrow> (billed ?X sample_machine, Inl (CliServer (error_text (RpcNode e))))
    | Inr out \<Rightarrow> ((billed ?X sample_machine)\<lparr>cw_printed := cw_printed sample_machine @ [Printed (''0x'' @ re_to_hex (cx_rpc ?X) out)]\<rparr>, Inr ()))"
    by (rule eth_call_ignores_arguments [where bs = "[2]" and v = v, OF sample_evm_text]) (simp_all add: v serde sample_delivered)
  then show ?thesis
    using v by (auto simp: sample_provider_env_def simp del: handle_wallet.simps split: sum.split)
qed

lemma array_of_zeros: "array_of_bytes (replicate n 0 @ [b]) = (ucast b :: 'a::len word)"
proof -
  have "foldl (\<lambda>acc (b :: u8). push_bit 8 acc OR ucast b) 0 (replicate n 0) = (0 :: 'a::len word)" for n by (induction n) simp_all
  then show ?thesis by (simp add: array_of_bytes_def)
qed


definition solo_cli :: cli_env where
  "solo_cli = (sample_cli (sample_call ''get_peers'' JNull) (devnet_config ''d'' ''z'' 1 0 [1] [2] (Address 1))
     (solo_genesis ''d'' ''z'' (Address 1) [1] [2] (Address 1)))\<lparr>cx_scheme := fixed_scheme\<rparr>"

theorem solo_network_starts_witness:
  "\<exists>s' engine p. act_then (handle_node solo_cli (InitSolo ''d'' ''z''))
      (handle_node solo_cli (Start (path_join (path_join ''d'' ''node-0'') ''node.toml'') (path_join ''d'' ''genesis.json'')))
      sample_machine = (s', Inr ()) \<and> cw_started s' = Some (engine, p) \<and> stored_stake (pv_store p) (Address 1) = 1000000"
proof -
  let ?faucet = "\<lparr>wk_address = Address 1, wk_public_key = [1], wk_secret_key = [2]\<rparr>"
  have "generate_wallet (cx_scheme solo_cli) = Inr ?faucet"
    by (simp add: generate_wallet_def solo_cli_def fixed_scheme_def)
  moreover have "stored_stake (cw_database sample_machine) (Address 1) = 0"
    by (simp add: sample_machine_def stored_stake_def stake_of_def staking_load_def store_ops memory_store_default_def
        staking_state_default_def)
  moreover have "cx_wallet_bytes solo_cli ?faucet = Some [1]" "cx_keypair solo_cli 0 = Inr ([1], [2])"
      "sc_derive_address (cx_scheme solo_cli) [1] = Inr 1" "\<And>f. cx_works solo_cli f" "\<And>f. cx_binds solo_cli f"
      "\<And>f. cx_parse_socket solo_cli f"
      "cx_read_config solo_cli (cx_content solo_cli (TomlConfig (devnet_config ''d'' ''z'' 1 0 [1] [2] (Address 1)))) =
        Some (devnet_config ''d'' ''z'' 1 0 [1] [2] (Address 1))"
      "cx_read_genesis solo_cli (cx_content solo_cli (JsonGenesis (solo_genesis ''d'' ''z'' (wk_address ?faucet) [1] [2] (Address 1)))) =
        Some (solo_genesis ''d'' ''z'' (wk_address ?faucet) [1] [2] (Address 1))"
    by (simp_all add: solo_cli_def sample_cli_def fixed_scheme_def)
  ultimately show ?thesis
    using solo_network_starts [of solo_cli ?faucet "[1]" "[1]" "[2]" 1 "''d''" "''z''" sample_machine]
    by (auto simp: saturate_def simp del: handle_node.simps One_nat_def)
qed

end
