(* ===== verification/Zeno_Dial.thy ===== *)
theory Zeno_Dial
  imports Zeno_Network
begin

text \<open>
  The tasks that \<open>start_network\<close> of \<open>zeno-network/src/lib.rs\<close> spawns around the connections: the loop that accepts connections and one
  task for each configured peer, which dials it once. They run next to the tasks of \<open>Zeno_Network\<close> on the same
  network; the address of a peer is that of its socket, so it may differ from the configured text.
\<close>

section \<open>The tasks\<close>

record started_network =
  sn_network :: network
  sn_dials :: "string list"

definition start_tasks :: "string list \<Rightarrow> started_network" where
  "start_tasks peers = \<lparr>sn_network = start_network, sn_dials = peers\<rparr>"

text \<open>The task of a dial ends with its attempt, or becomes the task of the connection.\<close>

definition end_dial :: "nat \<Rightarrow> started_network \<Rightarrow> started_network" where
  "end_dial i s = s\<lparr>sn_dials := take i (sn_dials s) @ drop (Suc i) (sn_dials s)\<rparr>"

text \<open>A refused or broken connection leaves a warning only. Every other task is one of \<open>Zeno_Network\<close> that opens no connection.\<close>

inductive start_step :: "net_env \<Rightarrow> started_network \<Rightarrow> started_network \<Rightarrow> bool" for V where
  accepted: "connect V True peer now remote (sn_network s) = Inr n \<Longrightarrow> length (nw_registrations (sn_network s)) < 128 \<Longrightarrow>
    start_step V s (s\<lparr>sn_network := n\<rparr>)"
| refused: "start_step V s s"
| dialled: "i < length (sn_dials s) \<Longrightarrow> connect V False peer now remote (sn_network s) = Inr n \<Longrightarrow>
    length (nw_registrations (sn_network s)) < 128 \<Longrightarrow> start_step V s (end_dial i (s\<lparr>sn_network := n\<rparr>))"
| dial_failed: "i < length (sn_dials s) \<Longrightarrow> start_step V s (end_dial i s)"
| works: "task_step V (sn_network s) n \<Longrightarrow> length (nw_links n) = length (nw_links (sn_network s)) \<Longrightarrow>
    start_step V s (s\<lparr>sn_network := n\<rparr>)"
| bans: "start_step V s (s\<lparr>sn_network := (sn_network s)\<lparr>nw_peers := ban_peer peer duration now (nw_peers (sn_network s))\<rparr>\<rparr>)"

lemma end_dial_network [simp]: "sn_network (end_dial i s) = sn_network s"
  by (simp add: end_dial_def)

lemma end_dial_length: "i < length (sn_dials s) \<Longrightarrow> Suc (length (sn_dials (end_dial i s))) = length (sn_dials s)"
  by (simp add: end_dial_def)

section \<open>Outbound peers\<close>

definition outbound_count :: "peer_table \<Rightarrow> nat" where
  "outbound_count peers = length (filter ps_is_outbound (bt_values peers))"

lemma outbound_count_sum: "outbound_count peers = sum_entries (\<lambda>state. of_bool (ps_is_outbound state)) peers"
  by (induction peers) (auto simp: outbound_count_def bt_values_def)

lemma outbound_count_insert:
  assumes "bt_wf peers"
  shows "outbound_count (bt_insert p state peers) + (case map_of peers p of None \<Rightarrow> 0 | Some old \<Rightarrow> of_bool (ps_is_outbound old)) =
    outbound_count peers + of_bool (ps_is_outbound state)"
  unfolding outbound_count_sum by (rule sum_entries_bt_insert [OF assms])

lemma outbound_count_remove [simp]: "outbound_count (bt_remove p peers) \<le> outbound_count peers"
  by (induction peers) (auto simp: outbound_count_sum bt_remove_def)

lemma outbound_count_update [simp]:
  assumes "bt_wf peers" "\<And>s. ps_is_outbound (f s) = ps_is_outbound s"
  shows "outbound_count (update_peer p f peers) = outbound_count peers"
proof (cases "map_of peers p")
  case (Some s)
  then show ?thesis
    using outbound_count_insert [OF assms(1), of p "f s"] assms(2) by (simp add: update_peer_def)
qed (simp add: update_peer_def)

text \<open>A table may keep its outbound peers or lose some.\<close>

definition no_new_outbound :: "peer_table \<Rightarrow> peer_table \<Rightarrow> bool" where
  "no_new_outbound peers peers' \<longleftrightarrow> (bt_wf peers \<longrightarrow> bt_wf peers' \<and> outbound_count peers' \<le> outbound_count peers)"

lemma connect_outbound:
  assumes "connect V inbound_only p now remote n = Inr n'" "bt_wf (nw_peers n)"
  shows "bt_wf (nw_peers n') \<and> outbound_count (nw_peers n') \<le> outbound_count (nw_peers n) + of_bool (\<not> inbound_only)"
proof -
  obtain h where "nw_peers n' = bt_insert p (new_peer inbound_only now h) (nw_peers n)"
    using assms(1) by (auto simp: connect_def accept_handshake_def bind_res_eq_Inr split: if_splits network_message.splits)
  then show ?thesis
    using assms(2) outbound_count_insert [OF assms(2), of p "new_peer inbound_only now h"] by (simp add: new_peer_def)
qed

lemma frame_outbound: "no_new_outbound peers (fst (fst (handle_frame V p now frame peers recent)))"
  by (auto simp: no_new_outbound_def handle_frame_def Let_def split: sum.split option.split prod.split
      intro: order.trans [OF outbound_count_remove])

lemma task_outbound:
  assumes "task_step V n n'" "length (nw_links n') = length (nw_links n)"
  shows "no_new_outbound (nw_peers n) (nw_peers n')"
  using assms(1)
proof cases
  case (connected inbound_only peer now remote)
  then have "length (nw_links n') = Suc (length (nw_links n))" by (auto simp: connect_def bind_res_eq_Inr)
  then show ?thesis using assms(2) by simp
next
  case (received i now frame)
  then show ?thesis
    using frame_outbound [of "nw_peers n" V "lk_peer (nw_links n ! i)" now frame "lk_recent (nw_links n ! i)"]
    by (auto simp: receive_frame_def Let_def split: prod.splits)
next
  case (transmitted i sent)
  then show ?thesis by (simp add: no_new_outbound_def transmit_def Let_def split: list.split)
next
  case (finished i)
  then show ?thesis by (simp add: no_new_outbound_def finish_link_def Let_def)
next
  case registered
  then show ?thesis by (auto simp: no_new_outbound_def register_sink_def split: list.split)
next
  case (posted out)
  then show ?thesis by (simp add: no_new_outbound_def)
next
  case (fanned out rest n'')
  then show ?thesis by (auto simp: no_new_outbound_def fan_out_def Let_def split: if_splits)
qed

definition dial_inv :: "nat \<Rightarrow> started_network \<Rightarrow> bool" where
  "dial_inv k s \<longleftrightarrow> bt_wf (nw_peers (sn_network s)) \<and> outbound_count (nw_peers (sn_network s)) + length (sn_dials s) \<le> k"

lemma dial_inv_step:
  assumes "dial_inv k s" "start_step V s s'"
  shows "dial_inv k s'"
  using assms(2)
proof cases
  case (accepted peer now remote n)
  then show ?thesis using connect_outbound [OF accepted(2)] assms(1) by (simp add: dial_inv_def)
next
  case (dialled i peer now remote n)
  then show ?thesis
    using connect_outbound [OF dialled(3)] assms(1) end_dial_length [of i "s\<lparr>sn_network := n\<rparr>"] dialled(2) by (simp add: dial_inv_def)
next
  case (dial_failed i)
  then show ?thesis using assms(1) end_dial_length [of i s] dial_failed(2) by (simp add: dial_inv_def)
next
  case (works n)
  then show ?thesis using task_outbound [OF works(2,3)] assms(1) by (simp add: dial_inv_def no_new_outbound_def)
next
  case (bans peer duration now)
  then show ?thesis using assms(1) by (simp add: dial_inv_def ban_peer_def)
qed (use assms(1) in simp)

interpretation dialling: state_machine "\<lambda>s. dial_inv k s" "start_step V" "dial_inv k" for k V
  by unfold_locales (auto intro: dial_inv_step)

section \<open>Properties\<close>



end
