(* ===== verification/Zeno_Node.thy ===== *)
theory Zeno_Node
  imports Zeno_Rpc Zeno_Safety Zeno_Dial
begin

text \<open>
  A running node: the five tasks that \<open>Node::run_services\<close> of \<open>zeno-node/src/runtime.rs\<close> spawns, on
  the state they share. A step is one event of one task: a message for the gossip task, a tick of the status or
  the synchronisation task, a turn of the consensus task, or a request of the server. A task whose loop meets an
  error ends, and \<open>try_join!\<close> does not stop the others for it, since the join handle of a task that returned an
  error is no error. The main results: the tasks together are still the consensus node of \<open>Zeno_Safety\<close>, and the
  invariants of the parts hold of the whole.
\<close>

section \<open>The network plane\<close>

text \<open>What \<open>NetworkPlane::start\<close> starts the network with: the handshake of every connection, whose height stays that of the
  start, and the peers to dial.\<close>

definition network_plane_start :: "node_config \<Rightarrow> memory_store \<Rightarrow> handshake \<times> started_network" where
  "network_plane_start config store =
    (\<lparr>hs_chain_id = nc_chain_id config, hs_node_id = nc_node_id config, hs_best_height = block_height_or_0 (latest_block store)\<rparr>,
     start_tasks (p2_peers (nc_p2p config)))"

section \<open>Tasks\<close>

datatype task = Idle | Alive | Finished

record services =
  sv_provider :: provider
  sv_limiter :: rate_limiter
  sv_gossip :: task
  sv_status :: task
  sv_sync :: task
  sv_consensus :: task

text \<open>\<open>None\<close> in the error is a panic or an error alike: both end the loop.\<close>

definition after :: "'e + 'a \<Rightarrow> task" where
  "after r = (case r of Inl _ \<Rightarrow> Finished | Inr _ \<Rightarrow> Alive)"

definition run_services :: "provider \<Rightarrow> services" where
  "run_services p = \<lparr>sv_provider = p, sv_limiter = rate_limiter_new 100 200, sv_gossip = Alive, sv_status = Alive,
     sv_sync = Alive, sv_consensus = Idle\<rparr>"

definition runtime_of :: "services \<Rightarrow> runtime" where
  "runtime_of s = pv_runtime (sv_provider s)"

definition with_runtime :: "runtime \<Rightarrow> services \<Rightarrow> services" where
  "with_runtime r s = s\<lparr>sv_provider := (sv_provider s)\<lparr>pv_runtime := r\<rparr>\<rparr>"

definition node_of :: "services \<Rightarrow> node" where
  "node_of s = rt_node (runtime_of s)"

definition with_node :: "node \<Rightarrow> services \<Rightarrow> services" where
  "with_node n s = with_runtime ((runtime_of s)\<lparr>rt_node := n\<rparr>) s"

section \<open>Events\<close>

definition status_tick :: "ext \<Rightarrow> runtime_config \<Rightarrow> string list \<Rightarrow> unit runtime_action" where
  "status_tick E cfg peers = act_bind (act_read store_of) (\<lambda>store.
     post (handle_broadcast (StatusMsg (current_chain_status E cfg peers store))))"

text \<open>What the consensus task makes of a message.\<close>

fun consensus_event_of :: "network_message \<Rightarrow> consensus_event" where
  "consensus_event_of (ProposalMsg p) = ProposalEvent p"
| "consensus_event_of (VoteMsg v) = VoteEvent v"
| "consensus_event_of (CommitMsg fb) = CommitEvent fb"
| "consensus_event_of _ = OtherEvent"

text \<open>A request of the server: first the limiter, then each request of a batch on its own, so that other tasks may come in
  between. A request that never returns leaves the node as it is.\<close>

definition admit :: "(string \<Rightarrow> ip_addr option) \<Rightarrow> nat \<Rightarrow> string option \<Rightarrow> services \<Rightarrow> services" where
  "admit parse_ip now forwarded s = s\<lparr>sv_limiter := fst (limiter_check (caller parse_ip forwarded) now (sv_limiter s))\<rparr>"

definition serve :: "rpc_env \<Rightarrow> json \<Rightarrow> services \<Rightarrow> services" where
  "serve R raw s = (case process_single_request R raw (sv_provider s) of
     None \<Rightarrow> s | Some (p, _) \<Rightarrow> s\<lparr>sv_provider := p\<rparr>)"

text \<open>The room that a block of a peer needs below the largest height.\<close>

definition gossip_guard :: "round_state \<Rightarrow> network_event \<Rightarrow> bool" where
  "gossip_guard s ev \<longleftrightarrow> (case ne_message ev of
     SyncResponseMsg _ (BlockResponse (Some fb)) \<Rightarrow> turn_guard s (CommitEvent fb)
   | _ \<Rightarrow> True)"

inductive service_step ::
  "ext \<Rightarrow> consensus_engine \<Rightarrow> runtime_config \<Rightarrow> rpc_env \<Rightarrow> (string \<Rightarrow> ip_addr option) \<Rightarrow> services \<Rightarrow> services \<Rightarrow> bool"
  for E C cfg R parse_ip where
  gossip: "sv_gossip s = Alive \<Longrightarrow> ce_ext X = E \<Longrightarrow> gossip_guard (nd_state (node_of s)) ev \<Longrightarrow>
    gossip_event X C cfg ev (runtime_of s) = (r, res) \<Longrightarrow>
    service_step E C cfg R parse_ip s ((with_runtime r s)\<lparr>sv_gossip := after res\<rparr>)"
| status: "sv_status s = Alive \<Longrightarrow> status_tick E cfg peers (runtime_of s) = (r, res) \<Longrightarrow>
    service_step E C cfg R parse_ip s ((with_runtime r s)\<lparr>sv_status := after res\<rparr>)"
| sync: "sv_sync s = Alive \<Longrightarrow> sync_with_best_peer peers (runtime_of s) = (r, res) \<Longrightarrow>
    service_step E C cfg R parse_ip s ((with_runtime r s)\<lparr>sv_sync := after res\<rparr>)"
| begins: "sv_consensus s = Idle \<Longrightarrow> ce_ext X = E \<Longrightarrow> turn_guard (nd_state (node_of s)) OtherEvent \<Longrightarrow>
    run_start X C (node_of s) = (n, res) \<Longrightarrow>
    service_step E C cfg R parse_ip s ((with_node n s)\<lparr>sv_consensus := after res\<rparr>)"
| hears: "sv_consensus s = Alive \<Longrightarrow> ce_ext X = E \<Longrightarrow> turn_guard (nd_state (node_of s)) (consensus_event_of msg) \<Longrightarrow>
    run_turn X C (consensus_event_of msg) (node_of s) = (n, res) \<Longrightarrow>
    service_step E C cfg R parse_ip s ((with_node n s)\<lparr>sv_consensus := after res\<rparr>)"
| times_out: "sv_consensus s = Alive \<Longrightarrow> ce_ext X = E \<Longrightarrow> turn_guard (nd_state (node_of s)) TimeoutEvent \<Longrightarrow>
    run_turn X C TimeoutEvent (node_of s) = (n, res) \<Longrightarrow>
    service_step E C cfg R parse_ip s ((with_node n s)\<lparr>sv_consensus := after res\<rparr>)"
| admits: "service_step E C cfg R parse_ip s (admit parse_ip now forwarded s)"
| serves: "service_step E C cfg R parse_ip s (serve R raw s)"

lemma services_sel [simp]:
  "runtime_of (with_runtime r s) = r" "node_of (with_runtime r s) = rt_node r" "node_of (with_node n s) = n"
  "runtime_of (s\<lparr>sv_gossip := t\<rparr>) = runtime_of s" "runtime_of (s\<lparr>sv_status := t\<rparr>) = runtime_of s"
  "runtime_of (s\<lparr>sv_sync := t\<rparr>) = runtime_of s" "runtime_of (s\<lparr>sv_consensus := t\<rparr>) = runtime_of s"
  "runtime_of (s\<lparr>sv_limiter := l\<rparr>) = runtime_of s" "runtime_of (with_node n s) = (runtime_of s)\<lparr>rt_node := n\<rparr>"
  "node_of (s\<lparr>sv_gossip := t\<rparr>) = node_of s" "node_of (s\<lparr>sv_status := t\<rparr>) = node_of s"
  "node_of (s\<lparr>sv_sync := t\<rparr>) = node_of s" "node_of (s\<lparr>sv_consensus := t\<rparr>) = node_of s"
  "pv_zk_pool (sv_provider (with_runtime r s)) = pv_zk_pool (sv_provider s)"
  "pv_zk_pool (sv_provider (with_node n s)) = pv_zk_pool (sv_provider s)"
  "sv_gossip (with_runtime r s) = sv_gossip s" "sv_gossip (with_node n s) = sv_gossip s"
  by (simp_all add: runtime_of_def with_runtime_def node_of_def with_node_def)

section \<open>What a request may change\<close>

text \<open>A request changes the store, the mempool, the posted messages and the pool of notes; the round state, the messages
  that the consensus sent and the state of the synchronisation stay.\<close>

definition rpc_frame :: "ext \<Rightarrow> provider \<Rightarrow> provider \<Rightarrow> bool" where
  "rpc_frame E p p' \<longleftrightarrow>
     nd_state (rt_node (pv_runtime p')) = nd_state (rt_node (pv_runtime p)) \<and>
     nd_sent (rt_node (pv_runtime p')) = nd_sent (rt_node (pv_runtime p)) \<and>
     rt_sync (pv_runtime p') = rt_sync (pv_runtime p) \<and>
     (pool_inv E (pv_zk_pool p) \<longrightarrow> pool_inv E (pv_zk_pool p')) \<and>
     set (sl_nullifiers (pv_zk_pool p)) \<subseteq> set (sl_nullifiers (pv_zk_pool p'))"

lemma rpc_frame_refl [simp]: "rpc_frame E p p"
  by (simp add: rpc_frame_def)

lemma rpc_frame_trans: "rpc_frame E p q \<Longrightarrow> rpc_frame E q r \<Longrightarrow> rpc_frame E p r"
  unfolding rpc_frame_def by auto

definition framed :: "ext \<Rightarrow> (provider, 'e, 'a) action \<Rightarrow> bool" where
  "framed E m \<longleftrightarrow> (\<forall>p. rpc_frame E p (fst (m p)))"

named_theorems framed_rules \<open>actions that stay within the frame of a request\<close>

lemma framed_quiet: "quiet m \<Longrightarrow> framed E m"
  by (simp add: framed_def quiet_def)

lemma framed_bind [framed_rules]:
  assumes "framed E m" "\<And>a. framed E (f a)"
  shows "framed E (act_bind m f)"
  unfolding framed_def
proof
  fix p
  obtain q r where m: "m p = (q, r)" by fastforce
  then have "rpc_frame E p q" using assms(1) unfolding framed_def by (metis fst_conv)
  then show "rpc_frame E p (fst (act_bind m f p))"
    using m assms(2) unfolding framed_def act_bind_def by (auto split: sum.split intro: rpc_frame_trans)
qed

lemma framed_then [framed_rules]: "framed E m \<Longrightarrow> framed E k \<Longrightarrow> framed E (act_then m k)"
  unfolding act_then_def by (intro framed_bind)

lemma framed_if [framed_rules]: "(c \<Longrightarrow> framed E m) \<Longrightarrow> (\<not> c \<Longrightarrow> framed E k) \<Longrightarrow> framed E (if c then m else k)"
  by simp

lemma framed_prims [framed_rules]:
  "framed E (act_return a)" "framed E (act_fail e)" "framed E (act_lift r)" "framed E (act_read g)"
  "framed E (json_of v)" "framed E (from_value x)" "framed E (query h)" "framed E (required t v)"
  by (auto intro!: framed_quiet quiet_prims)

lemma framed_call [framed_rules]: "framed E m \<Longrightarrow> framed E (call_node m)"
  by (auto simp: framed_def call_node_def split: prod.split) (metis fst_conv)

lemma framed_write_store [framed_rules]: "framed E (write_store f)"
  by (simp add: framed_def write_store_def act_defs rpc_frame_def set_store_def update_node_def)

lemma framed_submit [framed_rules]: "framed E (submit_tx V tx)"
  unfolding submit_tx_def
  by (intro framed_rules) (auto simp: framed_def rpc_frame_def update_node_def act_defs split: option.split prod.split)

lemma framed_register [framed_rules]: "framed E (register_validator V request)"
  unfolding register_validator_def Let_def
  by (intro framed_rules) (auto intro!: framed_rules split: prod.split sum.split)

lemma framed_faucet [framed_rules]: "framed E (faucet_send V a amount)"
  unfolding faucet_send_def debit_faucet_def
  by (intro framed_rules) (auto intro!: framed_rules split: option.split)

lemma framed_pool:
  assumes "\<And>q. pool_inv E q \<Longrightarrow> pool_inv E (fst (f q))" "\<And>q. set (sl_nullifiers q) \<subseteq> set (sl_nullifiers (fst (f q)))"
  shows "framed E (\<lambda>p. case f (pv_zk_pool p) of (pool, r) \<Rightarrow> (p\<lparr>pv_zk_pool := pool\<rparr>, g pool r))"
  using assms by (auto simp: framed_def rpc_frame_def split: prod.split) (metis fst_conv, metis fst_conv subsetD)

lemma framed_shield [framed_rules]: "pe_ext V = E \<Longrightarrow> framed E (zk_shield V request)"
  unfolding zk_shield_def
  by (rule framed_pool) (use pool_apply_inv [where x = "Shield request"] nullifiers_mono [where x = "Shield request"] in auto)

lemma framed_unshield [framed_rules]: "pe_ext V = E \<Longrightarrow> framed E (zk_unshield V request)"
  unfolding zk_unshield_def
  by (intro framed_then framed_write_store framed_pool)
    (use pool_apply_inv [where x = "Unshield request"] nullifiers_mono [where x = "Unshield request"] in auto)

lemma framed_pool_info [framed_rules]: "pe_ext V = E \<Longrightarrow> framed E (get_zk_pool_info V)"
  unfolding get_zk_pool_info_def
  by (rule framed_pool) (auto simp: pool_root_def tr_root_def pool_inv_def Let_def split: prod.split)

lemma framed_parts [framed_rules]:
  "framed E (faucet_call R params)" "pe_ext (re_node R) = E \<Longrightarrow> framed E (zk_info_json R)"
  unfolding faucet_call_def zk_info_json_def Let_def by (intro framed_rules; simp)+

lemma framed_reads [framed_rules]:
  "framed E (block_by_number R params)" "framed E (block_by_hash R params)" "framed E (transaction_by_hash R params)"
  "framed E (transaction_receipt R params)" "framed E (get_logs R params)" "framed E (with_address R params f)"
  by (auto intro!: framed_quiet quiet_rules)

lemma framed_zk: "pe_ext (re_node R) = E \<Longrightarrow> framed E (dispatch_zk R m params)"
  unfolding dispatch_zk_def Let_def by (intro framed_rules) assumption+

lemma framed_eth_blocks: "pe_ext (re_node R) = E \<Longrightarrow> framed E (dispatch_eth_blocks R m params)"
  unfolding dispatch_eth_blocks_def Let_def by (intro framed_rules framed_zk)

lemma framed_eth: "pe_ext (re_node R) = E \<Longrightarrow> framed E (dispatch_eth R m params)"
  unfolding dispatch_eth_def Let_def by (intro framed_rules framed_eth_blocks)

lemma framed_native: "pe_ext (re_node R) = E \<Longrightarrow> framed E (dispatch_native R m params)"
  unfolding dispatch_native_def Let_def by (intro framed_rules framed_eth)

lemma dispatch_frame:
  assumes "dispatch R request p = Some (p', r)" "pe_ext (re_node R) = E"
  shows "rpc_frame E p p'"
proof (cases "jq_method request = ''eth_sendRawTransaction''")
  case True
  then have "p' = p \<or> (\<exists>store. p' = set_store store p)"
    using assms(1) by (auto simp: dispatch_def eth_send_raw_transaction_def split: option.splits)
  then show ?thesis by (auto simp: rpc_frame_def set_store_def update_node_def)
next
  case False
  then have "dispatch_native R (jq_method request) (jq_params request) p = (p', r)"
    using assms(1) by (simp add: dispatch_def)
  then show ?thesis using framed_native [OF assms(2)] unfolding framed_def by (metis fst_conv)
qed

lemma serve_frame:
  assumes "pe_ext (re_node R) = E"
  shows "rpc_frame E (sv_provider s) (sv_provider (serve R raw s)) \<and> sv_gossip (serve R raw s) = sv_gossip s \<and>
    sv_sync (serve R raw s) = sv_sync s"
proof (cases "process_single_request R raw (sv_provider s)")
  case (Some out)
  obtain p reply where out: "out = (p, reply)" by fastforce
  have "rpc_frame E (sv_provider s) p"
    using Some out dispatch_frame [OF _ assms]
    by (auto simp: process_single_request_def split: option.splits)
  then show ?thesis using Some out by (simp add: serve_def)
qed (simp add: serve_def)

text \<open>A call of the server is the check of the limiter and then one step for each request that it carries.\<close>

lemma serve_provider:
  "process_single_request R raw p = Some (p', r) \<Longrightarrow> serve R raw (s\<lparr>sv_provider := p\<rparr>) = s\<lparr>sv_provider := p'\<rparr>"
  by (simp add: serve_def)

lemma batch_steps:
  assumes "process_batch R batch p = Some (p', Some responses)"
  shows "(service_step E C cfg R parse_ip)\<^sup>*\<^sup>* (s\<lparr>sv_provider := p\<rparr>) (s\<lparr>sv_provider := p'\<rparr>)"
  using assms
proof (induction batch arbitrary: p responses)
  case (Cons raw batch)
  then obtain q r rest where q: "process_single_request R raw p = Some (q, Some r)" "process_batch R batch q = Some (p', Some rest)"
    by (auto split: option.splits prod.splits)
  have "service_step E C cfg R parse_ip (s\<lparr>sv_provider := p\<rparr>) (s\<lparr>sv_provider := q\<rparr>)"
    using service_step.serves [of E C cfg R parse_ip "s\<lparr>sv_provider := p\<rparr>" raw] serve_provider [OF q(1)] by simp
  then show ?case using Cons.IH [OF q(2)] by (rule converse_rtranclp_into_rtranclp)
qed simp

lemma call_steps:
  assumes "handle_rpc R parse_ip now forwarded body (sv_limiter s) (sv_provider s) = (rl, Some (p, Some reply))"
  shows "(service_step E C cfg R parse_ip)\<^sup>*\<^sup>* s (s\<lparr>sv_limiter := rl, sv_provider := p\<rparr>)"
proof -
  obtain ok where check: "limiter_check (caller parse_ip forwarded) now (sv_limiter s) = (rl, ok)"
    using assms by (auto simp: handle_rpc_def split: prod.splits bool.splits)
  let ?t = "s\<lparr>sv_limiter := rl\<rparr>"
  have admitted: "service_step E C cfg R parse_ip s ?t"
    using service_step.admits [of E C cfg R parse_ip s now forwarded] check by (simp add: admit_def)
  have "(service_step E C cfg R parse_ip)\<^sup>*\<^sup>* (?t\<lparr>sv_provider := sv_provider s\<rparr>) (?t\<lparr>sv_provider := p\<rparr>)"
  proof (cases "ok \<and> se_parse (re_serde R) body \<noteq> None")
    case False
    then have "p = sv_provider s" using assms check by (auto simp: handle_rpc_def split: option.splits bool.splits)
    then show ?thesis by simp
  next
    case True
    then obtain v where v: "se_parse (re_serde R) body = Some v" by blast
    show ?thesis
    proof (cases "\<exists>batch. v = JArr batch")
      case batch: True
      then obtain batch responses where "process_batch R batch (sv_provider s) = Some (p, Some responses)"
        using assms check True v by (auto simp: handle_rpc_def)
      then show ?thesis by (rule batch_steps)
    next
      case False
      then obtain response where "process_single_request R v (sv_provider s) = Some (p, response)"
        using assms check True v by (cases v) (auto simp: handle_rpc_def)
      then have "serve R v (?t\<lparr>sv_provider := sv_provider s\<rparr>) = ?t\<lparr>sv_provider := p\<rparr>" by (rule serve_provider)
      from service_step.serves [of E C cfg R parse_ip "?t\<lparr>sv_provider := sv_provider s\<rparr>" v, unfolded this]
      show ?thesis by (rule r_into_rtranclp)
    qed
  qed
  then show ?thesis using admitted by (simp add: converse_rtranclp_into_rtranclp)
qed

section \<open>The tasks together are a consensus node\<close>

lemma logged_state: "fst (logged m n) = fst (m n)"
  by (simp add: logged_def split: prod.split sum.split consensus_error.split)

lemma handle_headers_node: "rt_node (fst (handle_headers X cfg peer i headers r)) = rt_node r"
proof -
  have "rt_node (fst (act_then (update_sync f) (continue_sync peer) t)) = rt_node t" for f t
    by (simp add: update_sync_def)
  then show ?thesis
    by (auto simp: handle_headers_def act_unless_def update_sync_def act_bind_def [of "act_lift _"] split: option.split sum.split)
qed

lemma sync_node: "rt_node (fst (sync_with_best_peer peers r)) = rt_node r"
  by (auto simp: sync_with_best_peer_def update_sync_def split: option.split)

lemma handle_block_node:
  "rt_node (fst (handle_block X C peer i block r)) = rt_node r \<or>
   (\<exists>fb. block = Some fb \<and> rt_node (fst (handle_block X C peer i block r)) = fst (import_external_finalized_block X C fb (rt_node r)))"
proof -
  have "rt_node (fst (act_then (on_node m) (continue_sync peer) t)) = fst (m (rt_node t))" for m t
    unfolding act_then_state by (simp add: on_node_def split: prod.split sum.split)
  then show ?thesis
    by (auto simp: handle_block_def act_unless_def update_sync_def split: option.split)
qed

lemma gossip_consensus:
  assumes "gossip_event X C cfg ev r = (r', res)" "ce_ext X = E" "gossip_guard (nd_state (rt_node r)) ev"
  shows "(consensus_step E C)\<^sup>*\<^sup>* (rt_node r) (rt_node r')"
proof (cases "ne_message ev")
  case (TransactionMsg tx)
  then have "rt_node r' = (rt_node r)\<lparr>nd_store := nd_store (rt_node r), nd_mempool := nd_mempool (rt_node r')\<rparr>"
    using assms(1) by (auto simp: gossip_event_def pool_insert_def split: option.splits)
  then show ?thesis using consensus_step.elsewhere by (metis r_into_rtranclp)
next
  case (SyncResponseMsg i response)
  show ?thesis
  proof (cases response)
    case (HeadersResponse headers)
    then have "rt_node r' = rt_node r"
      using assms(1) SyncResponseMsg handle_headers_node [of X cfg "ne_peer ev" i headers r]
      by (simp add: gossip_event_def handle_sync_response_def)
    then show ?thesis by simp
  next
    case (BlockResponse block)
    have same: "rt_node r' = rt_node (fst (handle_block X C (ne_peer ev) i block r))"
      using assms(1) SyncResponseMsg BlockResponse by (simp add: gossip_event_def handle_sync_response_def)
    from handle_block_node [of X C "ne_peer ev" i block r] show ?thesis
    proof (elim disjE exE conjE)
      fix fb
      assume fb: "block = Some fb"
        "rt_node (fst (handle_block X C (ne_peer ev) i block r)) = fst (import_external_finalized_block X C fb (rt_node r))"
      have "run_turn X C (CommitEvent fb) (rt_node r) = (rt_node r', snd (run_turn X C (CommitEvent fb) (rt_node r)))"
        using same fb(2) by (simp add: prod_eq_iff logged_state on_commit_def)
      moreover have "turn_guard (nd_state (rt_node r)) (CommitEvent fb)"
        using assms(3) SyncResponseMsg BlockResponse fb(1) by (simp add: gossip_guard_def)
      ultimately show ?thesis using consensus_step.turn [OF assms(2)] by blast
    qed (simp add: same)
  next
    case NotFound
    then show ?thesis using assms(1) SyncResponseMsg by (simp add: gossip_event_def handle_sync_response_def)
  qed
qed (use assms(1) in \<open>auto simp: gossip_event_def post_def\<close>)

lemma service_consensus:
  assumes "service_step E C cfg R parse_ip s s'" "pe_ext (re_node R) = E"
  shows "(consensus_step E C)\<^sup>*\<^sup>* (node_of s) (node_of s')"
  using assms(1)
proof cases
  case (gossip X ev r res)
  then show ?thesis using gossip_consensus [OF gossip(5,3)] gossip(4) by (simp add: node_of_def)
next
  case (status peers r res)
  then show ?thesis by (auto simp: status_tick_def post_def node_of_def)
next
  case (sync peers r res)
  then show ?thesis using sync_node [of peers "runtime_of s"] by (simp add: node_of_def)
next
  case (begins X n res)
  then show ?thesis using consensus_step.start by (metis r_into_rtranclp services_sel(3,13))
next
  case (hears X msg n res)
  then show ?thesis using consensus_step.turn by (metis r_into_rtranclp services_sel(3,13))
next
  case (times_out X n res)
  then show ?thesis using consensus_step.turn by (metis r_into_rtranclp services_sel(3,13))
next
  case (admits now forwarded)
  then show ?thesis by (simp add: admit_def node_of_def)
next
  case (serves raw)
  have "rpc_frame E (sv_provider s) (sv_provider s')" using serve_frame [OF assms(2)] serves by simp
  then have "node_of s' = (node_of s)\<lparr>nd_store := nd_store (node_of s'), nd_mempool := nd_mempool (node_of s')\<rparr>"
    by (simp add: rpc_frame_def node_of_def runtime_of_def)
  then show ?thesis using consensus_step.elsewhere by (metis r_into_rtranclp)
qed

section \<open>The invariants of the whole\<close>

definition fresh_services :: "ext \<Rightarrow> services \<Rightarrow> bool" where
  "fresh_services E s \<longleftrightarrow> (\<exists>store. load_consensus_wal store = [] \<and>
     s = run_services (node_new E (node_start store mempool_new)))"

definition service_inv :: "ext \<Rightarrow> consensus_engine \<Rightarrow> services \<Rightarrow> bool" where
  "service_inv E C s \<longleftrightarrow> inv_at E (ce_scheme C) 0 0 (node_of s) \<and> sync_inv (rt_sync (runtime_of s)) \<and>
     pool_inv E (pv_zk_pool (sv_provider s))"

lemma fresh_services_inv: "fresh_services E s \<Longrightarrow> service_inv E C s"
proof -
  assume "fresh_services E s"
  then obtain store where s: "load_consensus_wal store = []" "s = run_services (node_new E (node_start store mempool_new))"
    by (auto simp: fresh_services_def)
  have "inv_at E (ce_scheme C) 0 0 (node_start store mempool_new)"
    by (rule fresh_node_inv) (use s(1) in \<open>auto simp: fresh_node_def\<close>)
  moreover have "sync_inv sync_state_default"
    by (simp add: sync_state_default_def sync_inv_def asked_heights_def exI [of _ "0 :: u64"])
  ultimately show ?thesis
    using s(2) pool_inv_new by (simp add: service_inv_def run_services_def node_of_def runtime_of_def node_new_def)
qed

lemma service_sync:
  assumes "service_step E C cfg R parse_ip s s'" "pe_ext (re_node R) = E" "sync_inv (rt_sync (runtime_of s))"
  shows "sync_inv (rt_sync (runtime_of s'))"
  using assms(1)
proof cases
  case (gossip X ev r res)
  then show ?thesis using gossip_event_inv [OF assms(3), of X C cfg ev] by simp
next
  case (status peers r res)
  then show ?thesis using assms(3) by (auto simp: status_tick_def post_def)
next
  case (sync peers r res)
  then show ?thesis using sync_with_best_peer_inv [OF assms(3), of peers] by simp
next
  case (admits now forwarded)
  then show ?thesis using assms(3) by (simp add: admit_def)
next
  case (serves raw)
  then show ?thesis using assms(3) serve_frame [OF assms(2), of s raw] by (simp add: rpc_frame_def runtime_of_def)
qed (use assms(3) in simp_all)

lemma service_pool:
  assumes "service_step E C cfg R parse_ip s s'" "pe_ext (re_node R) = E"
  shows "(pool_inv E (pv_zk_pool (sv_provider s)) \<longrightarrow> pool_inv E (pv_zk_pool (sv_provider s'))) \<and>
    set (sl_nullifiers (pv_zk_pool (sv_provider s))) \<subseteq> set (sl_nullifiers (pv_zk_pool (sv_provider s')))"
  using assms(1)
proof cases
  case (serves raw)
  then show ?thesis using serve_frame [OF assms(2), of s raw] by (simp add: rpc_frame_def)
qed (simp_all add: admit_def)

interpretation running_node: state_machine "fresh_services (pe_ext (re_node R))"
    "service_step (pe_ext (re_node R)) C cfg R parse_ip" "service_inv (pe_ext (re_node R)) C"
  for R C cfg parse_ip
proof
  fix s s'
  assume inv: "service_inv (pe_ext (re_node R)) C s" and step: "service_step (pe_ext (re_node R)) C cfg R parse_ip s s'"
  then show "service_inv (pe_ext (re_node R)) C s'"
    using node_machine.run_inv [OF service_consensus [OF step refl]] service_sync [OF step refl] service_pool [OF step refl]
    by (simp add: service_inv_def)
qed (rule fresh_services_inv)

section \<open>Properties\<close>



text \<open>No note is spent twice while a node runs: what was recorded as spent stays recorded, whichever tasks take turns.\<close>

theorem spent_stays_spent:
  assumes "(service_step (pe_ext (re_node R)) C cfg R parse_ip)\<^sup>*\<^sup>* s s'" "n \<in> set (sl_nullifiers (pv_zk_pool (sv_provider s)))"
  shows "n \<in> set (sl_nullifiers (pv_zk_pool (sv_provider s')))"
  using assms(1)
proof (induction rule: rtranclp_induct)
  case (step t u)
  then show ?case using service_pool [OF step(2) refl] by blast
qed (rule assms(2))

lemma continue_sync_queue:
  assumes "sy_queued_heights (rt_sync r) = []" "sy_pending_block (rt_sync r) = None"
  shows "sy_queued_heights (rt_sync (fst (continue_sync peer r))) = [] \<and> sy_pending_block (rt_sync (fst (continue_sync peer r))) = None"
  using assms by (auto simp: continue_sync_def sync_ops)

lemma sync_tick_queue:
  assumes "sy_queued_heights (rt_sync r) = []" "sy_pending_block (rt_sync r) = None"
  shows "sy_queued_heights (rt_sync (fst (sync_with_best_peer peers r))) = [] \<and>
    sy_pending_block (rt_sync (fst (sync_with_best_peer peers r))) = None"
  using assms by (auto simp: sync_with_best_peer_def update_sync_def continue_sync_queue split: option.split)

definition stuck :: "services \<Rightarrow> bool" where
  "stuck s \<longleftrightarrow> sv_gossip s = Finished \<and> sy_queued_heights (rt_sync (runtime_of s)) = [] \<and>
     sy_pending_block (rt_sync (runtime_of s)) = None"

lemma stuck_step:
  assumes "service_step E C cfg R parse_ip s s'" "pe_ext (re_node R) = E" "stuck s"
  shows "stuck s'"
  using assms(1)
proof cases
  case (status peers r res)
  then show ?thesis using assms(3) by (auto simp: stuck_def status_tick_def post_def)
next
  case (sync peers r res)
  then show ?thesis using assms(3) sync_tick_queue [of "runtime_of s" peers] by (auto simp: stuck_def)
next
  case (admits now forwarded)
  then show ?thesis using assms(3) by (simp add: stuck_def admit_def)
next
  case (serves raw)
  then show ?thesis using assms(3) serve_frame [OF assms(2), of s raw] by (simp add: stuck_def rpc_frame_def runtime_of_def)
qed (use assms(3) in \<open>simp_all add: stuck_def\<close>)


section \<open>A sample run\<close>

definition sample_engine_of_node :: consensus_engine where
  "sample_engine_of_node = consensus_engine_new lone_genesis sample_scheme (plane_engine (pe_plane sample_provider_env)) None"

definition sample_start :: services where
  "sample_start = run_services (node_new sample_ext (node_start memory_store_default mempool_new))"

text \<open>The gossip task hears a transaction.\<close>

definition sample_heard :: services where
  "sample_heard = (case mp_insert sample_ext mempool_new sample_tx of None \<Rightarrow> sample_start
     | Some (m, _) \<Rightarrow> with_node ((node_of sample_start)\<lparr>nd_mempool := m\<rparr>) sample_start)"

abbreviation sample_service_run :: "services \<Rightarrow> services \<Rightarrow> bool" where
  "sample_service_run \<equiv> (service_step (pe_ext (re_node sample_rpc)) sample_engine_of_node (pe_config sample_provider_env) sample_rpc (\<lambda>_. None))\<^sup>*\<^sup>*"

lemma sample_rpc_ext [simp]: "pe_ext (re_node sample_rpc) = sample_ext"
  by (simp add: sample_rpc_def)

lemma sample_fresh: "fresh_services sample_ext sample_start"
  by (auto simp: fresh_services_def sample_start_def memory_store_default_def store_ops intro!: exI [of _ memory_store_default])

lemma sample_heard_sel:
  "mp_contains (nd_mempool (node_of sample_heard)) (tx_id sample_ext sample_tx)"
  "sample_service_run sample_start sample_heard"
proof -
  obtain m where m: "mp_insert sample_ext mempool_new sample_tx = Some (m, Inr ())"
  proof -
    have "\<exists>m. mp_insert sample_ext mempool_new sample_tx = Some (m, Inr ())"
      by (simp add: mp_insert_def mempool_new_def Let_def contains_key_def sender_count_def highest_nonce_def make_room_def
          MAX_PER_SENDER_def MAX_MEMPOOL_SIZE_def saturating_add_def sample_tx_def sample_body_def)
    then show thesis using that by blast
  qed
  then have heard: "sample_heard = with_node ((node_of sample_start)\<lparr>nd_mempool := m\<rparr>) sample_start"
    by (simp add: sample_heard_def)
  show "mp_contains (nd_mempool (node_of sample_heard)) (tx_id sample_ext sample_tx)"
    using mp_insert_contains [OF m] by (simp add: heard)
  let ?X = "\<lparr>cv_exec = sample_env, cv_now = 0, cv_takes = (\<lambda>_. True), cv_values = (\<lambda>_. [])\<rparr>"
  have X: "ce_ext ?X = sample_ext" by (simp add: sample_env_def)
  have start: "runtime_of sample_start = \<lparr>rt_node = node_start memory_store_default mempool_new, rt_sync = sync_state_default,
      rt_request_ids = 1, rt_posted = []\<rparr>"
    by (simp add: sample_start_def run_services_def node_new_def runtime_of_def)
  have "gossip_event ?X sample_engine_of_node (pe_config sample_provider_env) \<lparr>ne_peer = ''p'', ne_message = TransactionMsg sample_tx\<rparr>
      (runtime_of sample_start) = ((runtime_of sample_start)\<lparr>rt_node := (node_of sample_start)\<lparr>nd_mempool := m\<rparr>\<rparr>, Inr ())"
    using m X by (simp add: gossip_event_def pool_insert_def start node_of_def node_start_def)
  then have "service_step sample_ext sample_engine_of_node (pe_config sample_provider_env) sample_rpc (\<lambda>_. None) sample_start
      ((with_runtime ((runtime_of sample_start)\<lparr>rt_node := (node_of sample_start)\<lparr>nd_mempool := m\<rparr>\<rparr>) sample_start)
        \<lparr>sv_gossip := after (Inr () :: runtime_error + unit)\<rparr>)"
    using X by (intro service_step.gossip) (auto simp: sample_start_def run_services_def gossip_guard_def)
  then show "sample_service_run sample_start sample_heard"
    by (simp add: heard with_node_def after_def sample_start_def run_services_def with_runtime_def r_into_rtranclp)
qed




end
