(* ===== verification/Zeno_Pages.thy ===== *)
theory Zeno_Pages
  imports Zeno_Rpc
begin

text \<open>
  The web pages of the server: the templates of \<open>zeno-rpc/src/pages.rs\<close>, letter by letter, and the handlers, the routes
  and the metrics of \<open>zeno-rpc/src/lib.rs\<close>. A text is the list of its UTF-8 bytes. The percentages that the
  templates format from floating-point numbers are computed exactly: the double nearest to a ratio, and its
  rounding to one digit.
\<close>

section \<open>Texts\<close>

definition nl :: string where
  "nl = [CHR 0x0A]"

definition quote :: string where
  "quote = [CHR 0x27]"

definition backslash :: string where
  "backslash = [CHR 0x5C]"

definition em_dash :: string where
  "em_dash = [CHR 0xE2, CHR 0x80, CHR 0x94]"

text \<open>A division rounded to the nearest, a tie to the even.\<close>

definition round_half_even :: "nat \<Rightarrow> nat \<Rightarrow> nat" where
  "round_half_even p q = (let n = p div q; r = p mod q in
     if 2 * r < q then n else if q < 2 * r then n + 1 else if even n then n else n + 1)"

text \<open>\<open>bps as f64 / 100.0\<close> is \<open>m / 2 ^ k\<close> with a mantissa \<open>m\<close> of 53 bits; \<open>{:.1}\<close> rounds it to one digit.\<close>

definition f64_hundredths :: "nat \<Rightarrow> nat \<times> nat" where
  "f64_hundredths c = (case find (\<lambda>k. 100 * 2 ^ 52 \<le> c * 2 ^ k) [0..<64] of
     None \<Rightarrow> (0, 0) | Some k \<Rightarrow> (round_half_even (c * 2 ^ k) 100, k))"

definition tenths :: "u16 \<Rightarrow> nat" where
  "tenths bps = (case f64_hundredths (unat bps) of (m, k) \<Rightarrow> round_half_even (m * 10) (2 ^ k))"

definition percent :: "u16 \<Rightarrow> string" where
  "percent bps = decimal (tenths bps div 10) @ ''.'' @ decimal (tenths bps mod 10)"

section \<open>Templates\<close>

definition shared_css :: string where
  \<open>shared_css = nl @ concat (map (\<lambda>line. line @ nl)
    [''*{margin:0;padding:0;box-sizing:border-box}'',
     ''body{font-family:-apple-system,BlinkMacSystemFont,'Segoe UI',Roboto,sans-serif;background:#0a0a0f;color:#e0e0e0;line-height:1.6}'',
     ''a{color:#818cf8;text-decoration:none}a:hover{text-decoration:underline;color:#a5b4fc}'',
     ''.container{max-width:1200px;margin:0 auto;padding:1.5rem}'',
     ''nav{background:#111118;border-bottom:1px solid #1e1e2e;padding:.8rem 0;position:sticky;top:0;z-index:100}'',
     ''nav .container{display:flex;align-items:center;gap:2rem}'',
     ''nav .logo{font-size:1.3rem;font-weight:800;background:linear-gradient(135deg,#6366f1,#8b5cf6);-webkit-background-clip:text;-webkit-text-fill-color:transparent}'',
     ''nav .links{display:flex;gap:1.5rem;font-size:.9rem}'',
     ''nav .links a{color:#888}nav .links a:hover{color:#fff;text-decoration:none}'',
     ''nav .links a.active{color:#818cf8}'',
     ''.hero{text-align:center;padding:2rem 0 1rem}'',
     ''.hero h1{font-size:1.8rem;margin-bottom:.3rem;background:linear-gradient(135deg,#6366f1,#8b5cf6);-webkit-background-clip:text;-webkit-text-fill-color:transparent}'',
     ''.hero p{color:#666;font-size:.9rem}'',
     ''.stats{display:grid;grid-template-columns:repeat(auto-fit,minmax(200px,1fr));gap:.8rem;margin:1.5rem 0}'',
     ''.stat{background:#13131d;border:1px solid #1e1e2e;border-radius:10px;padding:1.2rem}'',
     ''.stat h3{color:#666;font-size:.7rem;text-transform:uppercase;letter-spacing:.1em;margin-bottom:.3rem}'',
     ''.stat .val{font-size:1.4rem;font-weight:700;color:#fff}'',
     ''.card{background:#13131d;border:1px solid #1e1e2e;border-radius:10px;padding:1.5rem;margin-bottom:1rem}'',
     ''.card h2{font-size:1rem;color:#888;margin-bottom:1rem;text-transform:uppercase;letter-spacing:.05em;font-weight:600}'',
     ''table{width:100%;border-collapse:collapse}'',
     ''th{text-align:left;color:#666;font-size:.75rem;text-transform:uppercase;letter-spacing:.1em;padding:.6rem .8rem;border-bottom:1px solid #1e1e2e}'',
     ''td{padding:.6rem .8rem;border-bottom:1px solid #111118;font-size:.85rem}'',
     ''tr:hover{background:#16161f}'',
     ''.mono{font-family:'SF Mono',Monaco,'Cascadia Code',monospace;font-size:.8rem}'',
     ''.hash{color:#818cf8;cursor:pointer}.hash:hover{color:#a5b4fc}'',
     ''.badge{display:inline-block;padding:.15rem .5rem;border-radius:4px;font-size:.7rem;font-weight:600}'',
     ''.badge-success{background:#064e3b;color:#34d399}'',
     ''.badge-warning{background:#78350f;color:#fbbf24}'',
     ''.badge-danger{background:#7f1d1d;color:#f87171}'',
     ''.badge-info{background:#1e1b4b;color:#818cf8}'',
     ''.truncate{max-width:180px;overflow:hidden;text-overflow:ellipsis;white-space:nowrap;display:inline-block;vertical-align:bottom}'',
     ''.search-box{display:flex;gap:.5rem;margin:1rem 0}'',
     ''.search-box input{flex:1;background:#1a1a26;border:1px solid #2a2a3a;border-radius:8px;padding:.7rem 1rem;color:#e0e0e0;font-size:.9rem;outline:none}'',
     ''.search-box input:focus{border-color:#6366f1}'',
     ''.search-box button{background:#6366f1;color:#fff;border:none;border-radius:8px;padding:.7rem 1.5rem;cursor:pointer;font-weight:600}'',
     ''.search-box button:hover{background:#4f46e5}'',
     ''.btn{background:#6366f1;color:#fff;border:none;border-radius:8px;padding:.6rem 1.2rem;cursor:pointer;font-weight:600;font-size:.85rem}'',
     ''.btn:hover{background:#4f46e5}.btn:disabled{opacity:.5;cursor:not-allowed}'',
     ''.btn-outline{background:transparent;border:1px solid #6366f1;color:#818cf8}'',
     ''.btn-outline:hover{background:#6366f120}'',
     ''.btn-danger{background:#dc2626}.btn-danger:hover{background:#b91c1c}'',
     ''.form-group{margin-bottom:1rem}'',
     ''.form-group label{display:block;color:#888;font-size:.8rem;margin-bottom:.3rem}'',
     ''.form-group input,.form-group select{width:100%;background:#1a1a26;border:1px solid #2a2a3a;border-radius:8px;padding:.6rem .8rem;color:#e0e0e0;font-size:.85rem;outline:none}'',
     ''.form-group input:focus,.form-group select:focus{border-color:#6366f1}'',
     ''.alert{padding:1rem;border-radius:8px;margin:1rem 0;font-size:.85rem}'',
     ''.alert-success{background:#064e3b;border:1px solid #065f46;color:#34d399}'',
     ''.alert-error{background:#7f1d1d;border:1px solid #991b1b;color:#f87171}'',
     ''.detail-row{display:flex;border-bottom:1px solid #1e1e2e;padding:.7rem 0}'',
     ''.detail-label{width:200px;color:#666;font-size:.85rem;flex-shrink:0}'',
     ''.detail-value{flex:1;font-size:.85rem;word-break:break-all}'',
     ''footer{text-align:center;padding:2rem 0;color:#444;font-size:.75rem;border-top:1px solid #1e1e2e;margin-top:2rem}'',
     ''.pq-badge{display:inline-flex;align-items:center;gap:.3rem;background:linear-gradient(135deg,#6366f120,#8b5cf620);border:1px solid #6366f140;border-radius:6px;padding:.2rem .6rem;font-size:.7rem;color:#a5b4fc}'',
     ''@media(max-width:768px){.stats{grid-template-columns:1fr 1fr}.truncate{max-width:100px}.detail-row{flex-direction:column}.detail-label{width:auto;margin-bottom:.2rem}}''])\<close>

definition nav_link :: \<open>string \<Rightarrow> string \<Rightarrow> string \<Rightarrow> string \<Rightarrow> string\<close> where
  \<open>nav_link active href label key =
    (let mark = (if active = key then '' class="active"'' else []) in
     ''<a href="'' @ href @ ''"'' @ mark @ ''>'' @ label @ ''</a>'')\<close>

definition nav :: \<open>string \<Rightarrow> string\<close> where
  \<open>nav active =
    ''<nav><div class="container"><span class="logo">Zeno PQ Chain</span><div class="links">'' @
    nav_link active ''/explorer'' ''Explorer'' ''explorer'' @
    nav_link active ''/staking'' ''Staking'' ''staking'' @
    nav_link active ''/governance'' ''Governance'' ''governance'' @
    nav_link active ''/faucet'' ''Faucet'' ''faucet'' @
    ''<span class="pq-badge">Post-Quantum Secured</span></div></div></nav>''\<close>

definition page :: \<open>string \<Rightarrow> string \<Rightarrow> string \<Rightarrow> string\<close> where
  \<open>page title active body =
    ''<!DOCTYPE html><html lang="en"><head><meta charset="utf-8"><meta name="viewport" content="width=device-width,initial-scale=1"><title>'' @
    title @ '' '' @ em_dash @ '' Zeno PQ Chain</title><style>'' @ shared_css @ ''</style></head><body>'' @
    nav active @ ''<div class="container">'' @ body @ ''</div><footer>Zeno PQ Chain '' @ em_dash @
    '' Post-Quantum Blockchain &middot; Chain ID 424242 &middot; M'' @ ''L-DSA Secured</footer></body></html>''\<close>

fun recent_row :: \<open>u64 \<times> string \<times> u64 \<times> nat \<times> string \<Rightarrow> string\<close> where
  \<open>recent_row (h, hash, ts, txs, proposer) =
    ''<tr><td><a href="/explorer/block/'' @ decimal (unat h) @ ''" class="hash">#'' @ decimal (unat h) @
    ''</a></td><td class="mono"><a href="/explorer/block/'' @ decimal (unat h) @
    ''" class="hash"><span class="truncate">'' @ hash @ ''</span></a></td><td>'' @ decimal txs @
    ''</td><td class="mono"><span class="truncate">'' @ proposer @ ''</span></td><td>'' @ decimal (unat ts) @
    ''</td></tr>''\<close>

definition recent_rows :: \<open>(u64 \<times> string \<times> u64 \<times> nat \<times> string) list \<Rightarrow> string\<close> where
  \<open>recent_rows xs =
    (let rows = concat (map recent_row xs) in
     if rows = [] then ''<tr><td colspan="5" style="text-align:center;color:#666;padding:2rem">No blocks yet '' @ em_dash @
      '' chain is starting...</td></tr>'' else rows)\<close>

definition explorer_page :: \<open>u64 \<Rightarrow> u64 \<Rightarrow> nat \<Rightarrow> string \<Rightarrow> (u64 \<times> string \<times> u64 \<times> nat \<times> string) list \<Rightarrow> string\<close> where
  \<open>explorer_page height chain_id peers ticker blocks =
    page ''Explorer'' ''explorer'' (
      nl @
      ''<div class="hero"><h1>Zeno PQ Chain Explorer</h1><p>Post-Quantum Blockchain with EVM Compatibility</p></div>'' @
      nl @
      ''<div class="search-box"><input type="text" id="searchInput" placeholder="Search by block height, tx hash, or address..." onkeydown="if(event.key==='Enter')doSearch()"><button onclick="doSearch()">Search</button></div>'' @
      nl @
      ''<div class="stats">'' @ nl @
      ''  <div class="stat"><h3>Block Height</h3><div class="val">'' @ decimal (unat height) @ ''</div></div>'' @
      nl @
      ''  <div class="stat"><h3>Chain ID</h3><div class="val">'' @ decimal (unat chain_id) @ ''</div></div>'' @ nl @
      ''  <div class="stat"><h3>Peers</h3><div class="val">'' @ decimal peers @ ''</div></div>'' @ nl @
      ''  <div class="stat"><h3>Ticker</h3><div class="val">'' @ ticker @ ''</div></div>'' @ nl @
      ''</div>'' @ nl @
      ''<div class="card"><h2>Recent Blocks</h2><table><thead><tr><th>Height</th><th>Hash</th><th>Txs</th><th>Proposer</th><th>Time</th></tr></thead><tbody>'' @
      recent_rows blocks @ ''</tbody></table></div>'' @ nl @
      ''<div class="card" style="margin-top:1rem"><h2>Add to MetaMask</h2><table><tr><td style="color:#888;width:200px">Network Name</td><td>Zeno PQ Chain</td></tr><tr><td style="color:#888">RPC URL</td><td id="rpcUrl"></td></tr><tr><td style="color:#888">Chain ID</td><td>'' @
      decimal (unat chain_id) @ ''</td></tr><tr><td style="color:#888">Currency Symbol</td><td>'' @ ticker @
      ''</td></tr><tr><td style="color:#888">Block Explorer</td><td id="explorerUrl"></td></tr></table></div>'' @
      nl @
      ''<script>'' @ nl @
      ''document.getElementById('rpcUrl').textContent=window.location.origin;'' @ nl @
      ''document.getElementById('explorerUrl').textContent=window.location.origin+'/explorer';'' @ nl @
      ''function doSearch(){var q=document.getElementById('searchInput').value.trim();if(!q)return;if(/^'' @
      backslash @
      ''d+$/.test(q)){window.location='/explorer/block/'+q}else if(q.length>=64){window.location='/explorer/tx/'+q}else if(q.length>=40){window.location='/explorer/address/'+q}else{alert('Enter a block number, tx hash, or address')}}'' @
      nl @
      ''</script>'')\<close>

fun block_row :: \<open>string \<times> string \<times> string \<times> u128 \<times> u128 \<Rightarrow> string\<close> where
  \<open>block_row (hash, sender, recipient, amount, fee) =
    ''<tr><td class="mono"><a href="/explorer/tx/'' @ hash @ ''" class="hash"><span class="truncate">'' @ hash @
    ''</span></a></td><td class="mono"><a href="/explorer/address/'' @ sender @
    ''" class="hash"><span class="truncate">'' @ sender @
    ''</span></a></td><td class="mono"><a href="/explorer/address/'' @ recipient @
    ''" class="hash"><span class="truncate">'' @ recipient @ ''</span></a></td><td>'' @ decimal (unat amount) @
    ''</td><td>'' @ decimal (unat fee) @ ''</td></tr>''\<close>

definition block_rows :: \<open>(string \<times> string \<times> string \<times> u128 \<times> u128) list \<Rightarrow> string\<close> where
  \<open>block_rows xs =
    (let rows = concat (map block_row xs) in
     if rows = [] then ''<tr><td colspan="5" style="text-align:center;color:#666;padding:1rem">No transactions in this block</td></tr>'' else rows)\<close>

text \<open>The clock is the seconds since the epoch.\<close>

definition format_timestamp :: \<open>u64 \<Rightarrow> u64 \<Rightarrow> string\<close> where
  \<open>format_timestamp now ms =
    (let secs = ms div 1000; ago = saturating_sub now secs in
     if ago < 60 then decimal (unat ago) @ ''s ago''
     else if ago < 3600 then decimal (unat (ago div 60)) @ ''m ago''
     else decimal (unat (ago div 3600)) @ ''h ago'')\<close>

definition block_page :: \<open>u64 \<Rightarrow> u64 \<Rightarrow> string \<Rightarrow> string \<Rightarrow> string \<Rightarrow> string \<Rightarrow> string \<Rightarrow> string \<Rightarrow> u64 \<Rightarrow> nat \<Rightarrow>
    (string \<times> string \<times> string \<times> u128 \<times> u128) list \<Rightarrow> string\<close> where
  \<open>block_page now height hash parent_hash sroot troot rroot proposer timestamp tx_count txs =
    (let prev = saturating_sub height 1 in
     page (''Block #'' @ decimal (unat height)) ''explorer'' (
      nl @
      ''<div class="hero"><h1>Block #'' @ decimal (unat height) @ ''</h1><p>Finalized block details</p></div>'' @
      nl @
      ''<div class="card"><h2>Block Overview</h2>'' @ nl @
      ''<div class="detail-row"><div class="detail-label">Block Height</div><div class="detail-value">'' @
      decimal (unat height) @ ''</div></div>'' @ nl @
      ''<div class="detail-row"><div class="detail-label">Timestamp</div><div class="detail-value">'' @
      format_timestamp now timestamp @ ''</div></div>'' @ nl @
      ''<div class="detail-row"><div class="detail-label">Block Hash</div><div class="detail-value mono">'' @ hash @
      ''</div></div>'' @ nl @
      ''<div class="detail-row"><div class="detail-label">Parent Hash</div><div class="detail-value mono"><a href="/explorer/block/'' @
      decimal (unat prev) @ ''" class="hash">'' @ parent_hash @ ''</a></div></div>'' @ nl @
      ''<div class="detail-row"><div class="detail-label">Proposer</div><div class="detail-value mono"><a href="/explorer/address/'' @
      proposer @ ''" class="hash">'' @ proposer @ ''</a></div></div>'' @ nl @
      ''<div class="detail-row"><div class="detail-label">Transactions</div><div class="detail-value">'' @
      decimal tx_count @ ''</div></div>'' @ nl @
      ''<div class="detail-row"><div class="detail-label">State Root</div><div class="detail-value mono">'' @
      sroot @ ''</div></div>'' @ nl @
      ''<div class="detail-row"><div class="detail-label">Tx Root</div><div class="detail-value mono">'' @ troot @
      ''</div></div>'' @ nl @
      ''<div class="detail-row"><div class="detail-label">Receipt Root</div><div class="detail-value mono">'' @
      rroot @ ''</div></div>'' @ nl @
      ''</div>'' @ nl @
      ''<div class="card"><h2>Transactions</h2><table><thead><tr><th>Hash</th><th>From</th><th>To</th><th>Amount</th><th>Fee</th></tr></thead><tbody>'' @
      block_rows txs @ ''</tbody></table></div>''))\<close>

definition tx_page :: \<open>string \<Rightarrow> u64 \<Rightarrow> string \<Rightarrow> string \<Rightarrow> u128 \<Rightarrow> u128 \<Rightarrow> u64 \<Rightarrow> string \<Rightarrow> string\<close> where
  \<open>tx_page hash height sender recipient amount fee nonce status =
    (let badge = (if status = ''Success'' then ''<span class="badge badge-success">Success</span>''
       else ''<span class="badge badge-danger">Failed</span>'') in
     page ''Transaction'' ''explorer'' (
      nl @
      ''<div class="hero"><h1>Transaction Details</h1><p>Transaction information</p></div>'' @ nl @
      ''<div class="card"><h2>Overview</h2>'' @ nl @
      ''<div class="detail-row"><div class="detail-label">Transaction Hash</div><div class="detail-value mono">'' @
      hash @ ''</div></div>'' @ nl @
      ''<div class="detail-row"><div class="detail-label">Status</div><div class="detail-value">'' @ badge @
      ''</div></div>'' @ nl @
      ''<div class="detail-row"><div class="detail-label">Block</div><div class="detail-value"><a href="/explorer/block/'' @
      decimal (unat height) @ ''" class="hash">#'' @ decimal (unat height) @ ''</a></div></div>'' @ nl @
      ''<div class="detail-row"><div class="detail-label">From</div><div class="detail-value mono"><a href="/explorer/address/'' @
      sender @ ''" class="hash">'' @ sender @ ''</a></div></div>'' @ nl @
      ''<div class="detail-row"><div class="detail-label">To</div><div class="detail-value mono"><a href="/explorer/address/'' @
      recipient @ ''" class="hash">'' @ recipient @ ''</a></div></div>'' @ nl @
      ''<div class="detail-row"><div class="detail-label">Value</div><div class="detail-value">'' @
      decimal (unat amount) @ '' ZPQ</div></div>'' @ nl @
      ''<div class="detail-row"><div class="detail-label">Fee</div><div class="detail-value">'' @
      decimal (unat fee) @ '' ZPQ</div></div>'' @ nl @
      ''<div class="detail-row"><div class="detail-label">Nonce</div><div class="detail-value">'' @
      decimal (unat nonce) @ ''</div></div>'' @ nl @
      ''</div>''))\<close>

definition address_page :: \<open>string \<Rightarrow> u128 \<Rightarrow> u64 \<Rightarrow> string\<close> where
  \<open>address_page address balance nonce =
    page ''Address'' ''explorer'' (
      nl @
      ''<div class="hero"><h1>Address</h1><p>Account details</p></div>'' @ nl @
      ''<div class="card"><h2>Overview</h2>'' @ nl @
      ''<div class="detail-row"><div class="detail-label">Address</div><div class="detail-value mono">'' @ address @
      ''</div></div>'' @ nl @
      ''<div class="detail-row"><div class="detail-label">Balance</div><div class="detail-value">'' @
      decimal (unat balance) @ '' ZPQ</div></div>'' @ nl @
      ''<div class="detail-row"><div class="detail-label">Nonce</div><div class="detail-value">'' @
      decimal (unat nonce) @ ''</div></div>'' @ nl @
      ''</div>'')\<close>

fun validator_row :: \<open>string \<times> u128 \<times> u128 \<times> u16 \<times> string \<Rightarrow> string\<close> where
  \<open>validator_row (addr, self_bond, total_stake, commission, status) =
    (let badge = (if status = ''Active'' then ''<span class="badge badge-success">Active</span>''
       else if status = ''Jailed'' then ''<span class="badge badge-danger">Jailed</span>''
       else ''<span class="badge badge-warning">Inactive</span>'') in
    ''<tr><td class="mono"><a href="/explorer/address/'' @ addr @ ''" class="hash"><span class="truncate">'' @
    addr @ ''</span></a></td><td>'' @ decimal (unat self_bond) @ ''</td><td>'' @ decimal (unat total_stake) @
    ''</td><td>'' @ percent commission @ ''%</td><td>'' @ badge @ ''</td></tr>'')\<close>

definition validator_rows :: \<open>(string \<times> u128 \<times> u128 \<times> u16 \<times> string) list \<Rightarrow> string\<close> where
  \<open>validator_rows xs =
    (let rows = concat (map validator_row xs) in
     if rows = [] then ''<tr><td colspan="5" style="text-align:center;color:#666;padding:2rem">No validators registered</td></tr>'' else rows)\<close>

definition staking_page :: \<open>u64 \<Rightarrow> u128 \<Rightarrow> (string \<times> u128 \<times> u128 \<times> u16 \<times> string) list \<Rightarrow> string\<close> where
  \<open>staking_page epoch treasury validators =
    page ''Staking'' ''staking'' (
      nl @
      ''<div class="hero"><h1>Staking</h1><p>Validator staking and delegation</p></div>'' @ nl @
      ''<div class="stats">'' @ nl @
      ''  <div class="stat"><h3>Current Epoch</h3><div class="val">'' @ decimal (unat epoch) @ ''</div></div>'' @
      nl @
      ''  <div class="stat"><h3>Treasury</h3><div class="val">'' @ decimal (unat treasury) @ '' ZPQ</div></div>'' @
      nl @
      ''  <div class="stat"><h3>Validators</h3><div class="val">'' @ decimal (length validators) @
      ''</div></div>'' @ nl @
      ''</div>'' @ nl @
      ''<div class="card"><h2>Validators</h2><table><thead><tr><th>Address</th><th>Self Bond</th><th>Total Stake</th><th>Commission</th><th>Status</th></tr></thead><tbody>'' @
      validator_rows validators @ ''</tbody></table></div>'' @ nl @
      ''<div class="card"><h2>Delegate Stake</h2><p style="color:#666;margin-bottom:1rem;font-size:.85rem">Delegate ZPQ to a validator to earn rewards and secure the network.</p>'' @
      nl @
      ''<div class="form-group"><label>Validator Address</label><input type="text" id="delValidator" placeholder="Validator address..."></div>'' @
      nl @
      ''<div class="form-group"><label>Amount (ZPQ)</label><input type="number" id="delAmount" placeholder="1000"></div>'' @
      nl @
      ''<button class="btn" onclick="alert('Delegation requires an M'' @
      ''L-DSA signed transaction. Use the CLI: zeno-cli wallet build-tx')">Delegate</button>'' @ nl @
      ''</div>'')\<close>

fun proposal_row :: \<open>u64 \<times> u64 \<times> string \<Rightarrow> string\<close> where
  \<open>proposal_row (i, epoch, desc) =
    ''<tr><td>#'' @ decimal (unat i) @ ''</td><td>'' @ desc @ ''</td><td>'' @ decimal (unat epoch) @
    ''</td><td><span class="badge badge-warning">Pending</span></td></tr>''\<close>

definition proposal_rows :: \<open>(u64 \<times> u64 \<times> string) list \<Rightarrow> string\<close> where
  \<open>proposal_rows xs =
    (let rows = concat (map proposal_row xs) in
     if rows = [] then ''<tr><td colspan="4" style="text-align:center;color:#666;padding:2rem">No pending proposals</td></tr>'' else rows)\<close>

definition governance_page :: \<open>u64 \<Rightarrow> u16 \<Rightarrow> u64 \<Rightarrow> u128 \<Rightarrow> (u64 \<times> u64 \<times> string) list \<Rightarrow> string\<close> where
  \<open>governance_page next_id bps epoch_blocks min_bond pending =
    page ''Governance'' ''governance'' (
      nl @
      ''<div class="hero"><h1>Governance</h1><p>Protocol parameter management</p></div>'' @ nl @
      ''<div class="stats">'' @ nl @
      ''  <div class="stat"><h3>Next Proposal ID</h3><div class="val">'' @ decimal (unat next_id) @
      ''</div></div>'' @ nl @
      ''  <div class="stat"><h3>Treasury Share</h3><div class="val">'' @ percent bps @ ''%</div></div>'' @ nl @
      ''  <div class="stat"><h3>Epoch Length</h3><div class="val">'' @ decimal (unat epoch_blocks) @
      '' blocks</div></div>'' @ nl @
      ''  <div class="stat"><h3>Min Self Bond</h3><div class="val">'' @ decimal (unat min_bond) @
      '' ZPQ</div></div>'' @ nl @
      ''</div>'' @ nl @
      ''<div class="card"><h2>Active Parameters</h2>'' @ nl @
      ''<div class="detail-row"><div class="detail-label">Treasury Share</div><div class="detail-value">'' @
      percent bps @ ''%</div></div>'' @ nl @
      ''<div class="detail-row"><div class="detail-label">Epoch Length</div><div class="detail-value">'' @
      decimal (unat epoch_blocks) @ '' blocks</div></div>'' @ nl @
      ''<div class="detail-row"><div class="detail-label">Min Self Bond</div><div class="detail-value">'' @
      decimal (unat min_bond) @ '' ZPQ</div></div>'' @ nl @
      ''<div class="detail-row"><div class="detail-label">Downtime Slash</div><div class="detail-value">1%</div></div>'' @
      nl @
      ''<div class="detail-row"><div class="detail-label">Double Sign Slash</div><div class="detail-value">5%</div></div>'' @
      nl @
      ''</div>'' @ nl @
      ''<div class="card"><h2>Pending Proposals</h2><table><thead><tr><th>ID</th><th>Description</th><th>Activation Epoch</th><th>Status</th></tr></thead><tbody>'' @
      proposal_rows pending @ ''</tbody></table></div>'')\<close>

definition faucet_page :: \<open>string\<close> where
  \<open>faucet_page =
    page ''Faucet'' ''faucet'' (
      nl @
      ''<div class="hero"><h1>Faucet</h1><p>Get free ZPQ testnet tokens</p></div>'' @ nl @
      ''<div class="card" style="max-width:600px;margin:2rem auto">'' @ nl @
      ''<h2>Request Tokens</h2>'' @ nl @
      ''<p style="color:#666;margin-bottom:1.5rem;font-size:.85rem">Enter your wallet address to receive 1 ZPQ. Supports both MetaMask (0x...) and native Zeno addresses.</p>'' @
      nl @
      ''<div class="form-group"><label>Wallet Address</label><input type="text" id="faucetAddr" placeholder="0x... or native address"></div>'' @
      nl @
      ''<div class="form-group"><label>Amount</label><input type="text" id="faucetAmount" value="1000000000000000000" min="1"></div>'' @
      nl @
      ''<button class="btn" id="faucetBtn" onclick="requestFaucet()" style="width:100%;padding:.8rem">Request ZPQ</button>'' @
      nl @
      ''<div id="faucetResult" style="margin-top:1rem"></div>'' @ nl @
      ''</div>'' @ nl @
      ''<script>'' @ nl @
      ''async function requestFaucet(){'' @ nl @
      ''  var btn=document.getElementById('faucetBtn');'' @ nl @
      ''  var addr=document.getElementById('faucetAddr').value.trim();'' @ nl @
      ''  var amount=document.getElementById('faucetAmount').value.trim()||"1000000000000000000";'' @ nl @
      ''  var result=document.getElementById('faucetResult');'' @ nl @
      ''  if(!addr){result.innerHTML='<div class="alert alert-error">Please enter an address</div>';return}'' @ nl @
      ''  btn.disabled=true;btn.textContent='Sending...';'' @ nl @
      ''  try{'' @ nl @
      ''    var resp=await fetch('/',{method:'POST',headers:{'Content-Type':'application/json'},'' @ nl @
      ''      body:JSON.stringify({jsonrpc:'2.0',id:1,method:'faucet_send',params:[addr,amount]})});'' @ nl @
      ''    var data=await resp.json();'' @ nl @
      ''    if(data.error){result.innerHTML='<div class="alert alert-error">'+data.error.message+'</div>'}'' @ nl @
      ''    else{result.innerHTML='<div class="alert alert-success">Sent '+amount+' ZPQ to '+addr+'! It will appear in your wallet within a few seconds.</div>'}'' @
      nl @
      ''  }catch(e){result.innerHTML='<div class="alert alert-error">'+e.message+'</div>'}'' @ nl @
      ''  btn.disabled=false;btn.textContent='Request ZPQ';'' @ nl @
      ''}'' @ nl @
      ''</script>'')\<close>

section \<open>Metrics\<close>

text \<open>The buckets of the histogram are thousandths of a second. Nothing in the program writes a metric after its creation, so a
  served text is the encoder's form of this list with every value at zero.\<close>

datatype metric_kind = IntGauge | IntCounter | Histogram "nat list"

record metric =
  mt_kind :: metric_kind
  mt_name :: string
  mt_help :: string

definition node_metrics :: "metric list" where
  "node_metrics = map (\<lambda>(kind, n, h). \<lparr>mt_kind = kind, mt_name = n, mt_help = h\<rparr>)
     [(IntGauge, ''zeno_consensus_height'', ''Current consensus height''),
      (IntGauge, ''zeno_consensus_round'', ''Current consensus round''),
      (IntCounter, ''zeno_blocks_finalized_total'', ''Total blocks finalized''),
      (IntCounter, ''zeno_blocks_proposed_total'', ''Total blocks proposed by this node''),
      (IntCounter, ''zeno_transactions_executed_total'', ''Total successful transactions''),
      (IntCounter, ''zeno_transactions_failed_total'', ''Total failed transactions''),
      (Histogram [1, 5, 10, 50, 100, 500, 1000, 5000], ''zeno_block_execution_seconds'', ''Block execution latency''),
      (IntGauge, ''zeno_mempool_size'', ''Current mempool transaction count''),
      (IntCounter, ''zeno_mempool_insertions_total'', ''Total mempool insertions''),
      (IntCounter, ''zeno_mempool_rejections_total'', ''Total mempool rejections''),
      (IntGauge, ''zeno_peers_connected'', ''Number of connected peers''),
      (IntCounter, ''zeno_messages_received_total'', ''Total messages received''),
      (IntCounter, ''zeno_messages_sent_total'', ''Total messages sent''),
      (IntCounter, ''zeno_storage_reads_total'', ''Total storage reads''),
      (IntCounter, ''zeno_storage_writes_total'', ''Total storage writes''),
      (IntCounter, ''zeno_evm_calls_total'', ''Total EVM calls''),
      (IntCounter, ''zeno_evm_gas_used_total'', ''Total EVM gas consumed'')]"

section \<open>Handlers\<close>

text \<open>What \<open>axum\<close> and the encoder of \<open>prometheus\<close> do: a segment of a path is decoded, or refused, and metrics have a text.\<close>

record page_env =
  pg_decode :: "string \<Rightarrow> string option"
  pg_metrics :: "metric list \<Rightarrow> string"

definition handle_health :: "provider \<Rightarrow> json" where
  "handle_health p = JObj [(''status'', JStr ''ok''), (''height'', JNat (block_height_or_0 (latest_block (pv_store p))))]"

definition recent_data :: "rpc_env \<Rightarrow> finalized_block \<Rightarrow> u64 \<times> string \<times> u64 \<times> nat \<times> string" where
  "recent_data R fb = (let h = bk_header (fb_block fb) in
     (bh_height h, hash_to_string (re_to_hex R) (block_hash (re_ext R) (fb_block fb)), bh_timestamp_ms h,
      length (bk_transactions (fb_block fb)), address_to_string (re_to_hex R) (bh_proposer h)))"

definition handle_explorer :: "rpc_env \<Rightarrow> provider \<Rightarrow> string" where
  "handle_explorer R p =
    (let chain = (case eth_chain_id (re_node R) of None \<Rightarrow> 0 | Some c \<Rightarrow> c);
         status = current_chain_status (re_ext R) (pe_config (re_node R)) (re_peers R) (pv_store p);
         blocks = get_recent_blocks (pv_store p) 20;
         height = (case blocks of [] \<Rightarrow> 0 | fb # _ \<Rightarrow> bh_height (bk_header (fb_block fb))) in
     explorer_page height chain (length (ct_peers status)) (nm_ticker (ct_metadata status)) (map (recent_data R) blocks))"

definition transaction_data :: "rpc_env \<Rightarrow> transaction \<Rightarrow> string \<times> string \<times> string \<times> u128 \<times> u128" where
  "transaction_data R tx = (hash_to_string (re_to_hex R) (tx_id (re_ext R) tx),
     address_to_string (re_to_hex R) (tb_sender (tx_body tx)), address_to_string (re_to_hex R) (tb_recipient (tx_body tx)),
     tb_amount (tx_body tx), tb_fee (tx_body tx))"

definition not_found_page :: \<open>string \<Rightarrow> string\<close> where
  \<open>not_found_page what = page ''Not Found'' ''explorer'' (''<div class="hero"><h1>'' @ what @ ''</h1></div>'')\<close>

definition handle_block_page :: "rpc_env \<Rightarrow> u64 \<Rightarrow> u64 \<Rightarrow> provider \<Rightarrow> string" where
  "handle_block_page R now height p =
    (case get_block_by_height (pv_store p) height of
       Some fb \<Rightarrow> let h = bk_header (fb_block fb); txs = bk_transactions (fb_block fb); text = hash_to_string (re_to_hex R) in
         block_page now (bh_height h) (text (block_hash (re_ext R) (fb_block fb))) (text (bh_parent_hash h))
           (text (bh_state_root h)) (text (bh_tx_root h)) (text (bh_receipt_root h))
           (address_to_string (re_to_hex R) (bh_proposer h)) (bh_timestamp_ms h) (length txs) (map (transaction_data R) txs)
     | None \<Rightarrow> not_found_page ''Block Not Found'')"

definition parse_path_hash :: "(string \<Rightarrow> u8 list option) \<Rightarrow> string \<Rightarrow> hash32 option" where
  "parse_path_hash from_hex s = and_then (from_hex (strip_0x s))
     (\<lambda>bs. if length bs = 32 then Some (Hash32 (array_of_bytes bs)) else None)"

definition handle_tx_page :: "rpc_env \<Rightarrow> string \<Rightarrow> provider \<Rightarrow> string" where
  "handle_tx_page R hash p =
    (case parse_path_hash (re_from_hex R) hash of
       None \<Rightarrow> not_found_page ''Invalid Hash''
     | Some parsed \<Rightarrow> (case get_tx_status p parsed of
           Finalized receipt \<Rightarrow>
             let found = and_then (get_block_by_height (pv_store p) (rc_height receipt))
                   (\<lambda>fb. find (\<lambda>tx. tx_id (re_ext R) tx = parsed) (bk_transactions (fb_block fb)));
                 (sender, recipient, amount, fee, nonce) = (case found of
                     None \<Rightarrow> (''unknown'', ''unknown'', 0, 0, 0)
                   | Some tx \<Rightarrow> let b = tx_body tx in (address_to_string (re_to_hex R) (tb_sender b),
                       address_to_string (re_to_hex R) (tb_recipient b), tb_amount b, tb_fee b, tb_nonce b));
                 status = (case rc_outcome receipt of Success \<Rightarrow> ''Success'' | _ \<Rightarrow> ''Failed'') in
             tx_page hash (rc_height receipt) sender recipient amount fee nonce status
         | _ \<Rightarrow> not_found_page ''Transaction Not Found''))"

definition handle_address_page :: "rpc_env \<Rightarrow> string \<Rightarrow> provider \<Rightarrow> string" where
  "handle_address_page R a p =
    (let text = strip_0x a; store = pv_store p;
         (balance, nonce) =
           (if length text = 40 then (case parse_hex_address (re_from_hex R) (JStr (''0x'' @ text)) of
                Inr evm \<Rightarrow> (eth_get_balance store evm, eth_get_transaction_count store evm) | Inl _ \<Rightarrow> (0, 0))
            else if length text = 64 then (case re_from_hex R text of
                Some bs \<Rightarrow> let native = Address (array_of_bytes bs) in (get_balance store native, get_nonce store native)
              | None \<Rightarrow> (0, 0))
            else (0, 0)) in
     address_page a balance nonce)"

definition status_text :: "validator_status \<Rightarrow> string" where
  "status_text s = (case s of Active \<Rightarrow> ''Active'' | Jailed \<Rightarrow> ''Jailed'' | Inactive \<Rightarrow> ''Inactive'')"

definition handle_staking_page :: "rpc_env \<Rightarrow> provider \<Rightarrow> string" where
  "handle_staking_page R p = (let st = get_staking_state_rpc (pv_store p) in
     staking_page (st_epoch st) (st_treasury_balance st)
       (map (\<lambda>v. (address_to_string (re_to_hex R) (vs_validator_address v), vs_self_bond v, vs_total_stake v,
          vs_commission_bps v, status_text (vs_status v))) (bt_values (st_validators st))))"

definition handle_governance_page :: \<open>provider \<Rightarrow> string\<close> where
  \<open>handle_governance_page p = (case get_governance_state_rpc (pv_store p) of
     Inr g \<Rightarrow> governance_page (gs_next_proposal_id g) (treasury_bps (gs_economics g)) (epoch_length (gs_economics g))
       (minimum_self_bond (gs_economics g))
       (map (\<lambda>q. (gp_proposal_id q, gp_activation_epoch q, gp_description q)) (gs_pending g))
   | Inl _ \<Rightarrow> page ''Governance'' ''governance'' ''<div class="hero"><h1>Governance Unavailable</h1></div>'')\<close>

section \<open>Routes\<close>

datatype handler =
    ExplorerPage
  | BlockPage string
  | TxPage string
  | AddressPage string
  | StakingPage
  | GovernancePage
  | FaucetPage
  | Health
  | Metrics

text \<open>The routes of \<open>GET\<close>, on the segments of a path; \<open>POST\<close> on the empty path is \<open>handle_rpc\<close>. A parameter is one segment
  that is not empty.\<close>

definition route :: "string list \<Rightarrow> handler option" where
  "route path =
    (if path = [] \<or> path = [''explorer''] then Some ExplorerPage
     else if path = [''staking''] then Some StakingPage
     else if path = [''governance''] then Some GovernancePage
     else if path = [''faucet''] then Some FaucetPage
     else if path = [''health''] then Some Health
     else if path = [''metrics''] then Some Metrics
     else (case path of
         [a, b, c] \<Rightarrow>
           if a \<noteq> ''explorer'' \<or> c = [] then None
           else if b = ''block'' then Some (BlockPage c)
           else if b = ''tx'' then Some (TxPage c)
           else if b = ''address'' then Some (AddressPage c)
           else None
       | _ \<Rightarrow> None))"

datatype page_response =
    HtmlPage string
  | JsonPage json
  | PlainText string
  | BadRequest
  | NotFound

definition with_param :: "page_env \<Rightarrow> string \<Rightarrow> (string \<Rightarrow> page_response) \<Rightarrow> page_response" where
  "with_param G c k = (case pg_decode G c of None \<Rightarrow> BadRequest | Some s \<Rightarrow> k s)"

fun handle_get :: "rpc_env \<Rightarrow> page_env \<Rightarrow> u64 \<Rightarrow> provider \<Rightarrow> handler \<Rightarrow> page_response" where
  "handle_get R G now p ExplorerPage = HtmlPage (handle_explorer R p)"
| "handle_get R G now p (BlockPage c) = with_param G c (\<lambda>s. case from_str_radix 10 s :: u64 option of
     None \<Rightarrow> BadRequest | Some height \<Rightarrow> HtmlPage (handle_block_page R now height p))"
| "handle_get R G now p (TxPage c) = with_param G c (\<lambda>s. HtmlPage (handle_tx_page R s p))"
| "handle_get R G now p (AddressPage c) = with_param G c (\<lambda>s. HtmlPage (handle_address_page R s p))"
| "handle_get R G now p StakingPage = HtmlPage (handle_staking_page R p)"
| "handle_get R G now p GovernancePage = HtmlPage (handle_governance_page p)"
| "handle_get R G now p FaucetPage = HtmlPage faucet_page"
| "handle_get R G now p Health = JsonPage (handle_health p)"
| "handle_get R G now p Metrics = PlainText (pg_metrics G node_metrics)"

definition serve_get :: "rpc_env \<Rightarrow> page_env \<Rightarrow> u64 \<Rightarrow> string list \<Rightarrow> provider \<Rightarrow> page_response" where
  "serve_get R G now path p = (case route path of None \<Rightarrow> NotFound | Some h \<Rightarrow> handle_get R G now p h)"

section \<open>Markup\<close>

text \<open>The characters that HTML gives a meaning, in the order of a text.\<close>

definition markup_char :: "char \<Rightarrow> bool" where
  "markup_char c \<longleftrightarrow> c \<in> {CHR ''<'', CHR ''>'', CHR ''&'', CHR 0x22, CHR 0x27}"

definition markup :: "string \<Rightarrow> string" where
  "markup s = filter markup_char s"

named_theorems markup_simps

lemma markup_append [markup_simps]: "markup (a @ b) = markup a @ markup b"
  by (simp add: markup_def)

lemma markup_Nil [markup_simps]: "markup [] = []"
  by (simp add: markup_def)

lemma of_char_markup: "markup_char c \<Longrightarrow> of_char c \<in> {60, 62, 38, 34, 39 :: nat}"
  by (auto simp: markup_char_def)

lemma markup_digit: "d < 10 \<Longrightarrow> \<not> markup_char (char_of (48 + d :: nat))"
  using of_char_markup [of "char_of (48 + d)"] by auto

lemma markup_decimal [markup_simps]: "markup (decimal n) = []"
proof (induction n rule: decimal.induct)
  case (1 n)
  then show ?case
    by (subst decimal.simps) (simp add: markup_def markup_digit)
qed

lemma markup_words [markup_simps]: "markup ''unknown'' = []" "markup ''.'' = []" "markup ''s ago'' = []" "markup ''m ago'' = []"
    "markup ''h ago'' = []"
  by (simp_all add: markup_def markup_char_def)

lemma markup_percent [markup_simps]: "markup (percent bps) = []"
  by (simp only: percent_def markup_simps append_Nil)

lemma markup_timestamp [markup_simps]: "markup (format_timestamp now ms) = []"
  by (simp only: format_timestamp_def Let_def markup_simps append_Nil split: if_split) simp

lemma markup_concat: "(\<And>x. x \<in> set xs \<Longrightarrow> markup (f x) = m) \<Longrightarrow> markup (concat (map f xs)) = concat (replicate (length xs) m)"
  by (induction xs) (simp_all add: markup_append markup_Nil)

lemma block_row_inert:
  assumes "markup hash = []" "markup sender = []" "markup recipient = []"
  shows "markup (block_row (hash, sender, recipient, amount, fee)) = markup (block_row ([], [], [], 0, 0))"
  by (simp only: block_row.simps markup_simps assms append_Nil)

lemma block_row_Cons: "block_row t \<noteq> []"
  by (cases t) simp

lemma block_rows_inert:
  assumes "length xs = length ys"
    and "\<And>t. t \<in> set xs \<union> set ys \<Longrightarrow> markup (block_row t) = m"
  shows "markup (block_rows xs) = markup (block_rows ys)"
proof -
  have "concat (map block_row xs) = [] \<longleftrightarrow> concat (map block_row ys) = []"
    using assms(1) by (cases xs; cases ys) (simp_all add: block_row_Cons)
  moreover have "markup (concat (map block_row xs)) = concat (replicate (length xs) m)"
      "markup (concat (map block_row ys)) = concat (replicate (length ys) m)"
    by (rule markup_concat, use assms(2) in blast)+
  ultimately show ?thesis
    unfolding block_rows_def Let_def
    by (cases "concat (map block_row ys) = []") (simp_all only: assms(1) simp_thms if_True if_False)
qed

text \<open>A template whose texts are inert has the markup of the template with empty texts.\<close>

lemma block_page_template:
  assumes "markup hash = []" "markup parent_hash = []" "markup sroot = []" "markup troot = []" "markup rroot = []" "markup proposer = []"
  shows "markup (block_page now height hash parent_hash sroot troot rroot proposer timestamp tx_count txs) =
    markup (block_page 0 0 [] [] [] [] [] [] 0 0 txs)"
  by (simp only: block_page_def page_def Let_def markup_simps assms append_Nil)

lemma block_page_rows:
  assumes "markup (block_rows xs) = markup (block_rows ys)"
  shows "markup (block_page 0 0 [] [] [] [] [] [] 0 0 xs) = markup (block_page 0 0 [] [] [] [] [] [] 0 0 ys)"
  by (simp only: block_page_def page_def Let_def markup_append assms)

lemma tx_page_template:
  assumes "markup hash = []" "markup sender = []" "markup recipient = []"
  shows "markup (tx_page hash height sender recipient amount fee nonce status) = markup (tx_page [] 0 [] [] 0 0 0 status)"
  by (simp only: tx_page_def page_def Let_def markup_simps assms append_Nil)

section \<open>Percentages\<close>

lemma round_half_even_nearest: "0 < q \<Longrightarrow> 2 * \<bar>int (round_half_even p q) * int q - int p\<bar> \<le> int q"
proof -
  assume q: "0 < q"
  define d r where dr: "d = p div q" "r = p mod q"
  then have p: "int p = int d * int q + int r" by (metis div_mult_mod_eq of_nat_add of_nat_mult)
  have r: "r < q" using q by (simp add: dr)
  have "round_half_even p q = (if 2 * r < q then d else if q < 2 * r then d + 1 else if even d then d else d + 1)"
    by (simp add: round_half_even_def Let_def dr)
  then consider "round_half_even p q = d" "2 * r \<le> q" | "round_half_even p q = d + 1" "q \<le> 2 * r"
    by (auto split: if_splits)
  then show ?thesis
    using r by cases (auto simp: p algebra_simps)
qed

lemma f64_hundredths_range:
  assumes "0 < c" "c < 2 ^ 16" "f64_hundredths c = (m, k)"
  shows "m = round_half_even (c * 2 ^ k) 100 \<and> 50 < (2 :: nat) ^ k"
proof -
  let ?P = "\<lambda>k. 100 * 2 ^ 52 \<le> c * 2 ^ k"
  have "find ?P [0..<64] \<noteq> None"
    using assms(1) by (auto simp: find_None_iff intro!: exI [of _ 60])
  then obtain j where j: "find ?P [0..<64] = Some j" by blast
  then have "?P j" by (auto simp: find_Some_iff)
  moreover have "c * 2 ^ j < 2 ^ 16 * 2 ^ j" using assms(2) by simp
  ultimately have "100 * 2 ^ 52 < (2 ^ 16 :: nat) * 2 ^ j" by (rule le_less_trans)
  then have "50 < (2 :: nat) ^ j" by simp
  then show ?thesis using assms(3) j by (auto simp: f64_hundredths_def)
qed

text \<open>The percentages that the pages show are the nearest with one digit: the shown number of tenths is at most half a tenth away
  from the basis points, in spite of the two roundings on the way, into a floating-point number and out of it.\<close>

theorem percent_nearest: "\<bar>10 * int (tenths bps) - int (unat bps)\<bar> \<le> 5"
proof (cases "unat bps = 0")
  case True
  then show ?thesis by (simp add: tenths_def f64_hundredths_def find_None_iff round_half_even_def split: option.split)
next
  case False
  obtain m k where mk: "f64_hundredths (unat bps) = (m, k)" by fastforce
  have "unat bps < 2 ^ 16" using unat_word_bound [of bps] by simp
  then have m: "m = round_half_even (unat bps * 2 ^ k) 100" and k: "50 < (2 :: nat) ^ k"
    using f64_hundredths_range [OF _ _ mk] False by auto
  let ?n = "round_half_even (m * 10) (2 ^ k)" and ?q = "(2 :: int) ^ k" and ?c = "int (unat bps)"
  have 1: "2 * \<bar>int m * 100 - ?c * ?q\<bar> \<le> 100"
    using round_half_even_nearest [of 100 "unat bps * 2 ^ k"] by (simp add: m)
  have 2: "2 * \<bar>int ?n * ?q - int m * 10\<bar> \<le> ?q"
    using round_half_even_nearest [of "2 ^ k" "m * 10"] by simp
  have "\<bar>10 * y - x\<bar> \<le> 5 * d + 50" if "2 * \<bar>z * 100 - x\<bar> \<le> 100" "2 * \<bar>y - z * 10\<bar> \<le> d" for x y z d :: int
    using that unfolding abs_le_iff abs_mult_pos by (simp add: abs_if split: if_splits)
  from this [OF 1 2] have "\<bar>(10 * int ?n - ?c) * ?q\<bar> \<le> 5 * ?q + 50" by (simp add: left_diff_distrib mult.assoc)
  moreover have "(50 :: int) < ?q" using k by (simp flip: of_nat_less_iff [where 'a = int])
  ultimately have "\<bar>(10 * int ?n - ?c) * ?q\<bar> < 6 * ?q" by linarith
  then have "\<bar>10 * int ?n - ?c\<bar> * ?q < 6 * ?q" by (simp add: abs_mult del: mult_less_cancel_right)
  then have "\<bar>10 * int ?n - ?c\<bar> < 6" by (rule mult_right_less_imp_less) simp
  then show ?thesis by (simp add: tenths_def mk)
qed

section \<open>Properties of the pages\<close>

text \<open>C34: Nothing that is stored in a block can change the structure of its page. The markup of the page of a block, that is its angle
  brackets, quotes and ampersands in their order, depends on the number of transactions only, whatever the senders, the amounts and
  the hashes are, since all of them are written in hexadecimal or decimal.\<close>

theorem block_page_inert:
  assumes "\<And>bs. markup (re_to_hex R bs) = []"
    and "get_block_by_height (pv_store p) h = Some fb" "get_block_by_height (pv_store p') h' = Some fb'"
    and "length (bk_transactions (fb_block fb)) = length (bk_transactions (fb_block fb'))"
  shows "markup (handle_block_page R now h p) = markup (handle_block_page R now' h' p')"
proof -
  have written: "markup (hash_to_string (re_to_hex R) x) = []" "markup (address_to_string (re_to_hex R) a) = []" for x a
    by (simp_all add: hash_to_string_def address_to_string_def assms(1))
  have row: "markup (block_row (transaction_data R tx)) = markup (block_row ([], [], [], 0, 0))" for tx
    unfolding transaction_data_def by (rule block_row_inert [OF written(1) written(2) written(2)])
  have rows: "markup (block_rows (map (transaction_data R) (bk_transactions (fb_block fb)))) =
      markup (block_rows (map (transaction_data R) (bk_transactions (fb_block fb'))))"
    by (rule block_rows_inert [where m = "markup (block_row ([], [], [], 0, 0))"]) (use assms(4) row in auto)
  show ?thesis
    unfolding handle_block_page_def assms(2,3) option.case Let_def
    by (simp only: block_page_template written block_page_rows [OF rows])
qed

text \<open>Nothing in a request can change the structure of the page of a transaction: it is one of four, whatever hash
  the path has, since only hexadecimal digits are accepted as one.\<close>

theorem tx_page_inert:
  assumes "\<And>bs. markup (re_to_hex R bs) = []" and "\<And>s bs. re_from_hex R s = Some bs \<Longrightarrow> markup s = []"
  shows "markup (handle_tx_page R hash p) \<in> {markup (not_found_page ''Invalid Hash''), markup (not_found_page ''Transaction Not Found''),
    markup (tx_page [] 0 [] [] 0 0 0 ''Success''), markup (tx_page [] 0 [] [] 0 0 0 ''Failed'')}"
proof (cases "parse_path_hash (re_from_hex R) hash")
  case None
  then show ?thesis by (simp only: handle_tx_page_def option.case insert_iff simp_thms)
next
  case (Some parsed)
  have hash: "markup hash = []"
  proof -
    have "markup (strip_0x hash) = []"
      using Some assms(2) by (auto simp: parse_path_hash_def and_then_def split: option.splits)
    moreover have "markup ''0x'' = []" by (simp add: markup_def markup_char_def)
    ultimately show ?thesis
      using append_take_drop_id [of 2 hash] markup_append [of "take 2 hash" "drop 2 hash"] by (auto simp: strip_0x_def split: if_splits)
  qed
  have written: "markup (address_to_string (re_to_hex R) a) = []" for a
    by (simp add: address_to_string_def assms(1))
  show ?thesis
  proof (cases "get_tx_status p parsed")
    case (Finalized receipt)
    define found where "found = and_then (get_block_by_height (pv_store p) (rc_height receipt))
        (\<lambda>fb. find (\<lambda>tx. tx_id (re_ext R) tx = parsed) (bk_transactions (fb_block fb)))"
    have "\<exists>sender recipient amount fee nonce. markup sender = [] \<and> markup recipient = [] \<and> handle_tx_page R hash p =
        tx_page hash (rc_height receipt) sender recipient amount fee nonce (case rc_outcome receipt of Success \<Rightarrow> ''Success'' | _ \<Rightarrow> ''Failed'')"
    proof (cases found)
      case None
      then show ?thesis
        using markup_words(1) Some Finalized unfolding handle_tx_page_def found_def
        by (simp only: option.case transaction_status.case Let_def prod.case) blast
    next
      case (Some tx)
      then show ?thesis
        using written \<open>parse_path_hash _ hash = Some parsed\<close> Finalized unfolding handle_tx_page_def found_def
        by (simp only: option.case transaction_status.case Let_def prod.case) blast
    qed
    then obtain sender recipient amount fee nonce where
      "markup sender = []" "markup recipient = []" and page: "handle_tx_page R hash p = tx_page hash (rc_height receipt) sender
        recipient amount fee nonce (case rc_outcome receipt of Success \<Rightarrow> ''Success'' | _ \<Rightarrow> ''Failed'')" by blast
    then have "markup (handle_tx_page R hash p) =
        markup (tx_page [] 0 [] [] 0 0 0 (case rc_outcome receipt of Success \<Rightarrow> ''Success'' | _ \<Rightarrow> ''Failed''))"
      by (simp only: tx_page_template [OF hash])
    then show ?thesis by (cases "rc_outcome receipt") (simp_all only: execution_outcome.case insert_iff simp_thms)
  qed (use Some in \<open>simp_all only: handle_tx_page_def option.case transaction_status.case insert_iff simp_thms\<close>)
qed

lemma sublist_skip: "sublist a b \<Longrightarrow> sublist a (c @ b)"
  by (simp add: sublist_append)

lemma page_contains: "sublist a body \<Longrightarrow> sublist a (page title active body)"
proof -
  have "sublist body (page title active body)"
    unfolding page_def by (rule sublist_append_rightI | rule sublist_skip)+
  then show "sublist a body \<Longrightarrow> sublist a (page title active body)" using sublist_order.order.trans by blast
qed

text \<open>The page of an address writes the path of the request into the page as it is. Whatever text follows \<open>/explorer/address/\<close>,
  the answer is an HTML page that contains it, and the markup of the page grows by all the markup of the text, scripts included.\<close>

theorem address_page_reflects:
  assumes "c \<noteq> []" "pg_decode G c = Some a"
  shows "\<exists>content. serve_get R G now [''explorer'', ''address'', c] p = HtmlPage content \<and> sublist a content \<and>
    length (markup content) = length (markup (address_page [] 0 0)) + length (markup a)"
proof -
  obtain balance nonce where page: "handle_address_page R a p = address_page a balance nonce"
    by (simp add: handle_address_page_def Let_def case_prod_beta)
  have "serve_get R G now [''explorer'', ''address'', c] p = HtmlPage (address_page a balance nonce)"
    using assms by (simp add: serve_get_def route_def with_param_def page)
  moreover have "sublist a (address_page a balance nonce)"
    unfolding address_page_def by (rule page_contains) (rule sublist_append_rightI | rule sublist_skip)+
  moreover have "length (markup (address_page a balance nonce)) = length (markup (address_page [] 0 0)) + length (markup a)"
    by (simp only: address_page_def page_def markup_simps append_Nil length_append)
  ultimately show ?thesis by blast
qed

lemma find_at:
  "distinct (map f xs) \<Longrightarrow> i < length xs \<Longrightarrow> find (\<lambda>x. f x = f (xs ! i)) xs = Some (xs ! i)"
proof -
  assume "distinct (map f xs)" "i < length xs"
  then have "\<forall>j < i. f (xs ! j) \<noteq> f (xs ! i)"
    using nth_eq_iff_index_eq [of "map f xs"] by (metis length_map less_irrefl_nat nth_map order.strict_trans)
  then show ?thesis using \<open>i < length xs\<close> by (auto simp: find_Some_iff)
qed


text \<open>The names of the metrics are different, so none of the registrations fails.\<close>

lemma metric_names_distinct: "distinct (map mt_name node_metrics)"
  by (simp add: node_metrics_def)

section \<open>A server with hexadecimal texts\<close>

definition hex_encode :: "u8 list \<Rightarrow> string" where
  "hex_encode bs = concat (map (\<lambda>b. [hex_digit (unat b div 16), hex_digit (unat b mod 16)]) bs)"

fun hex_decode :: "string \<Rightarrow> u8 list option" where
  "hex_decode [] = Some []"
| "hex_decode [c] = None"
| "hex_decode (a # b # s) = and_then (digit_value a) (\<lambda>x. and_then (digit_value b) (\<lambda>y.
     if 16 \<le> x \<or> 16 \<le> y then None else map_option (\<lambda>bs. of_nat (16 * x + y) # bs) (hex_decode s)))"

lemma byte_digits: "unat (b :: u8) div 16 < 16" "unat (b :: u8) mod 16 < 16"
  using unat_word_bound [of b] by simp_all

lemma hex_decode_encode: "hex_decode (hex_encode bs) = Some bs"
proof (induction bs)
  case (Cons b bs)
  have "of_nat (16 * (unat b div 16) + unat b mod 16) = b" by (simp only: mult_div_mod_eq) simp
  then show ?case
    using Cons byte_digits [of b] by (simp add: hex_encode_def and_then_def digit_value_hex)
qed (simp add: hex_encode_def)

lemma strip_hex: "strip_0x (hex_encode bs) = hex_encode bs"
proof (cases bs)
  case (Cons b cs)
  have "hex_digit (unat b mod 16) \<noteq> CHR ''x''"
    using of_char_hex_digit [OF byte_digits(2) [of b]] byte_digits(2) [of b] by (auto split: if_splits)
  then show ?thesis by (simp add: Cons strip_0x_def hex_encode_def)
qed (simp add: strip_0x_def hex_encode_def)

lemma digit_not_markup: "digit_value c = Some d \<Longrightarrow> \<not> markup_char c"
  using of_char_markup [of c] by (auto simp: digit_value_def Let_def split: if_splits)

lemma hex_texts_inert: "markup (hex_encode bs) = []" "hex_decode s = Some bs \<Longrightarrow> markup s = []"
proof -
  show "markup (hex_encode bs) = []"
    using digit_not_markup [OF digit_value_hex [OF byte_digits(1)]] digit_not_markup [OF digit_value_hex [OF byte_digits(2)]]
    by (induction bs) (simp_all add: hex_encode_def markup_def)
  show "markup s = []" if "hex_decode s = Some bs"
    using that digit_not_markup
    by (induction s arbitrary: bs rule: hex_decode.induct)
      (auto simp: markup_def and_then_def split: option.splits if_splits)
qed

definition page_rpc :: rpc_env where
  "page_rpc = sample_rpc\<lparr>re_node := sample_provider_env\<lparr>pe_to_hex := hex_encode, pe_from_hex := hex_decode\<rparr>\<rparr>"

lemma page_rpc_sel [simp]: "re_to_hex page_rpc = hex_encode" "re_from_hex page_rpc = hex_decode" "re_ext page_rpc = sample_ext"
  by (simp_all add: page_rpc_def sample_rpc_def sample_provider_env_def)

definition paid_block :: "u64 \<Rightarrow> finalized_block" where
  "paid_block h = (sample_block h)\<lparr>fb_block := (fb_block (sample_block h))\<lparr>bk_transactions := [sample_tx]\<rparr>,
     fb_receipts := [\<lparr>rc_tx_hash = tx_id sample_ext sample_tx, rc_height = h, rc_fee_charged = 1, rc_outcome = Success, rc_evm = None\<rparr>]\<rparr>"

lemma paid_block_sel [simp]:
  "bk_transactions (fb_block (paid_block h)) = [sample_tx]" "bh_height (bk_header (fb_block (paid_block h))) = h"
  "fb_receipts (paid_block h) =
    [\<lparr>rc_tx_hash = tx_id sample_ext sample_tx, rc_height = h, rc_fee_charged = 1, rc_outcome = Success, rc_evm = None\<rparr>]"
  by (simp_all add: paid_block_def sample_block_def)

definition paid_provider :: "u64 \<Rightarrow> provider" where
  "paid_provider h = set_store (commit_finalized_block sample_ext memory_store_default (paid_block h) sample_state) sample_provider"

lemma paid_store: "pv_store (paid_provider h) = commit_finalized_block sample_ext memory_store_default (paid_block h) sample_state"
  by (simp add: paid_provider_def set_store_def update_node_def pv_store_def store_of_def)

lemma paid_lookup: "get_block_by_height (pv_store (paid_provider h)) h = Some (paid_block h)"
  by (simp add: paid_store commit_finalized_block_def atomic_commit_block_def get_block_by_height_def)

theorem block_page_inert_witness: "markup (handle_block_page page_rpc 0 7 (paid_provider 7)) = markup (handle_block_page page_rpc 5 9 (paid_provider 9))"
  by (rule block_page_inert [OF _ paid_lookup paid_lookup]) (simp_all add: hex_texts_inert)

theorem tx_page_inert_witness:
  "markup (handle_tx_page page_rpc ''<script>'' (paid_provider 7)) \<in> {markup (not_found_page ''Invalid Hash''),
    markup (not_found_page ''Transaction Not Found''), markup (tx_page [] 0 [] [] 0 0 0 ''Success''), markup (tx_page [] 0 [] [] 0 0 0 ''Failed'')}"
  by (rule tx_page_inert) (simp_all add: hex_texts_inert)

theorem address_page_reflects_witness:
  "\<exists>content. serve_get page_rpc \<lparr>pg_decode = Some, pg_metrics = (\<lambda>_. [])\<rparr> 0 [''explorer'', ''address'', ''<script>''] sample_provider =
      HtmlPage content \<and> sublist ''<script>'' content \<and>
    length (markup content) = length (markup (address_page [] 0 0)) + 2"
  using address_page_reflects [of "''<script>''" "\<lparr>pg_decode = Some, pg_metrics = (\<lambda>_. [])\<rparr>" "''<script>''"]
  by (simp add: markup_def [of "''<script>''"] markup_char_def)


end
