(* ===== verification/Zeno_Accounts.thy ===== *)
theory Zeno_Accounts
  imports Zeno_Genesis "HOL-Library.Char_ord" "HOL-Library.List_Lexorder"
begin

text \<open>
  The accounts of a genesis file: the module \<open>genesis_accounts_serde\<close> of \<open>zeno-types/src/lib.rs\<close>, which writes a map keyed by
  addresses as a map keyed by their hexadecimal texts and reads it back. The \<open>hex\<close> crate is a parameter; the entries of a JSON object
  come in the order of the file.
\<close>

section \<open>Writing and reading\<close>

definition account_key :: "(u8 list \<Rightarrow> string) \<Rightarrow> address \<Rightarrow> string" where
  "account_key to_hex a = to_hex (array_bytes 32 (address_raw a))"

definition serialize_accounts :: "(u8 list \<Rightarrow> string) \<Rightarrow> (address, account) btree_map \<Rightarrow> (string, account) btree_map" where
  "serialize_accounts to_hex accts = insert_all (\<lambda>e. account_key to_hex (fst e)) snd accts []"

datatype key_error = BadHex | BadLength

definition parse_account_key :: "(string \<Rightarrow> u8 list option) \<Rightarrow> string \<Rightarrow> key_error + address" where
  "parse_account_key from_hex s = bind_res (ok_or BadHex (from_hex s)) (\<lambda>bs.
     if length bs \<noteq> 32 then Inl BadLength else Inr (Address (array_of_bytes bs)))"

definition deserialize_accounts ::
  "(string \<Rightarrow> u8 list option) \<Rightarrow> (string \<times> account) list \<Rightarrow> key_error + (address, account) btree_map" where
  "deserialize_accounts from_hex entries =
    (let as_strings = insert_all fst snd entries [] in
     fold_res (\<lambda>m e. bind_res (parse_account_key from_hex (fst e)) (\<lambda>a. Inr (bt_insert a (snd e) m))) [] as_strings)"

section \<open>The round trip\<close>

lemma parse_written_key:
  "from_hex (account_key to_hex a) = Some (array_bytes 32 (address_raw a)) \<Longrightarrow> parse_account_key from_hex (account_key to_hex a) = Inr a"
  by (cases a) (simp add: parse_account_key_def array_of_array_bytes)

lemma read_all:
  assumes "\<And>e. e \<in> set xs \<Longrightarrow> parse_account_key from_hex (fst e) = Inr (f (fst e))"
  shows "fold_res (\<lambda>m e. bind_res (parse_account_key from_hex (fst e)) (\<lambda>a. Inr (bt_insert a (snd e) m))) m xs =
    Inr (insert_all (\<lambda>e. f (fst e)) snd xs m)"
  using assms by (induction xs arbitrary: m) (simp_all add: insert_all_def)

lemma insert_all_same: "bt_wf m \<Longrightarrow> insert_all fst snd m [] = m"
  by (rule bt_eqI) (simp_all add: fun_eq_iff map_of_insert_all map_of_rev_distinct bt_wf_distinct split: option.split)

lemma in_insert_all: "e \<in> set (insert_all key val xs m) \<Longrightarrow> (\<exists>x\<in>set xs. e = (key x, val x)) \<or> e \<in> set m"
  by (induction xs arbitrary: m) (fastforce simp: insert_all_def dest: bt_insert_in_set)+

text \<open>C33: The accounts that a genesis file holds are read as they were written, and a file is never refused for a key that the program
  wrote itself.\<close>

theorem genesis_accounts_round_trip:
  assumes "bt_wf accts" and "\<And>bs. from_hex (to_hex bs) = Some bs"
  shows "deserialize_accounts from_hex (serialize_accounts to_hex accts) = Inr accts"
proof -
  let ?key = "account_key to_hex" and ?S = "serialize_accounts to_hex accts"
  define f where "f s = (THE a. ?key a = s)" for s
  have parse: "parse_account_key from_hex (?key a) = Inr a" for a
    by (rule parse_written_key) (simp add: account_key_def assms(2))
  then have inj: "?key a = ?key b \<longleftrightarrow> a = b" for a b by (metis sum.inject(2))
  then have f: "f (?key a) = a" for a by (simp add: f_def)
  have wf: "bt_wf ?S" by (simp add: serialize_accounts_def)
  have keys: "distinct (map (\<lambda>e. ?key (fst e)) accts)"
    using bt_wf_distinct [OF assms(1)] by (simp add: distinct_map inj_on_def inj)
  have S: "e \<in> set ?S \<longleftrightarrow> (\<exists>a v. (a, v) \<in> set accts \<and> e = (?key a, v))" for e
  proof
    assume "e \<in> set ?S"
    then show "\<exists>a v. (a, v) \<in> set accts \<and> e = (?key a, v)"
      using in_insert_all [of e "\<lambda>e. ?key (fst e)" snd accts "[]"] by (auto simp: serialize_accounts_def)
  next
    assume "\<exists>a v. (a, v) \<in> set accts \<and> e = (?key a, v)"
    then show "e \<in> set ?S"
      using map_of_insert_all_distinct [OF keys, of _ snd "[]"] by (fastforce simp: serialize_accounts_def dest: map_of_SomeD)
  qed
  have read: "deserialize_accounts from_hex ?S = Inr (insert_all (\<lambda>e. f (fst e)) snd ?S [])"
    unfolding deserialize_accounts_def Let_def insert_all_same [OF wf] by (rule read_all) (auto simp: S parse f)
  have distinct: "distinct (map (\<lambda>e. f (fst e)) ?S)"
    using bt_wf_distinct [OF wf] eq_key_imp_eq_value [OF bt_wf_distinct [OF assms(1)]]
    by (auto simp: distinct_map inj_on_def S f)
  have "map_of (insert_all (\<lambda>e. f (fst e)) snd ?S []) a = map_of accts a" for a
  proof (cases "map_of accts a")
    case None
    then have "a \<notin> (\<lambda>e. f (fst e)) ` set ?S" by (force simp: S f map_of_eq_None_iff)
    then show ?thesis using None by (simp add: map_of_insert_all_other)
  next
    case (Some v)
    then have "(?key a, v) \<in> set ?S" by (auto simp: S dest: map_of_SomeD)
    from map_of_insert_all_distinct [OF distinct this, of snd "[]"] show ?thesis using Some by (simp add: f)
  qed
  then have "insert_all (\<lambda>e. f (fst e)) snd ?S [] = accts" by (intro bt_eqI) (simp_all add: assms(1) fun_eq_iff)
  then show ?thesis using read by simp
qed

theorem genesis_accounts_round_trip_witness:
  "deserialize_accounts (\<lambda>s. Some (map (\<lambda>c. of_nat (of_char c)) s))
      (serialize_accounts (map (\<lambda>b. char_of (unat b))) [(Address 1, account_default), (Address 2, account_default)]) =
    Inr [(Address 1, account_default), (Address 2, account_default)]"
proof (rule genesis_accounts_round_trip)
  fix bs :: "u8 list"
  have "word_of_nat (unat b mod 256) = b" for b :: u8
    using unat_word_bound [of b] by simp
  then show "Some (map (\<lambda>c. of_nat (of_char c)) (map (\<lambda>b. char_of (unat b)) bs)) = Some bs"
    by (simp add: comp_def)
qed (simp add: bt_wf_Cons bt_keys_def)

text \<open>Two spellings of one address in a file, as \<open>AB\<close> and \<open>ab\<close>, are no error: the entry whose text is greater replaces the other,
  wherever they stand.\<close>

lemma spellings_collide:
  assumes "parse_account_key from_hex k = Inr a" "parse_account_key from_hex k' = Inr a" "k < k'"
  shows "deserialize_accounts from_hex [(k, v), (k', v')] = Inr [(a, v')]"
    and "deserialize_accounts from_hex [(k', v'), (k, v)] = Inr [(a, v')]"
  using assms(3) less_not_sym [OF assms(3)] by (auto simp: deserialize_accounts_def insert_all_def assms(1,2))

end
