(* ===== verification/Spec2Isabelle.thy ===== *)
theory Spec2Isabelle
  imports Zeno_Agreement Zeno_EthTx Zeno_Network Zeno_Rocks Zeno_Cli Zeno_Node
    Zeno_Pages Zeno_Accounts Zeno_Dial
begin

text \<open>
  A verification library for Zeno, a proof-of-stake chain with post-quantum signatures. The
  program is the Rust workspace \<open>src/ZenoQPL1/crates\<close>; file names below are relative to it.

  The program. A node keeps its chain state in a store (\<open>zeno-storage\<close>): accounts, EVM accounts,
  blocks, receipts, the staking and governance state, the consensus snapshot and a write-ahead
  log. Clients submit signed transactions, checked by \<open>zeno-primitives\<close> with the signature
  schemes of \<open>zeno-crypto\<close>, and the mempool (\<open>zeno-mempool\<close>) orders them by fee. The consensus
  engine (\<open>zeno-consensus\<close>) runs rounds of proposals, prevotes and precommits; the executor
  (\<open>zeno-execution\<close>) applies the transactions of a block to a snapshot of the accounts
  (\<open>zeno-state\<close>), settles fees and epochs with the staking rules of the same crate, and compares
  the roots of the header with what it computed. EVM transactions go to \<open>zeno-evm\<close>, which also
  has the precompiles; one of them calls the shielded pool of \<open>zeno-zk\<close>. Nodes exchange messages
  over \<open>zeno-network\<close>; the runtime of \<open>zeno-node\<close> boots the store from a genesis (\<open>zeno-genesis\<close>,
  \<open>zeno-config\<close>), synchronises blocks with peers and answers the calls that \<open>zeno-rpc\<close> receives.

  Theories, in the order of their imports.
  - \<open>Zeno_Prelude\<close>: the arithmetic of Rust integers on words (saturating, checked), results as
    sums, ordered maps as sorted association lists, sums over maps, the locale \<open>state_machine\<close>
    for invariants of reachable states, and the \<open>named_theorems\<close> collections.
  - \<open>Zeno_Types\<close>, \<open>Zeno_Chain\<close>: the records and enumerations of \<open>zeno-types\<close>.
  - \<open>Zeno_Hash\<close>: the codec, the digests and the Merkle root of \<open>zeno-codec\<close> and \<open>zeno-hash\<close>,
    over a record \<open>ext\<close> of the serializers and hash functions the code takes from libraries. The
    locale \<open>merkle_node\<close> is the interface of a hashed binary node; the three hash trees of the
    program interpret it.
  - \<open>Zeno_Crypto\<close>, \<open>Zeno_Primitives\<close>: signing domains, the ML-DSA scheme over the library it
    wraps, and the signing and checking of transactions, blocks and votes. The locale
    \<open>signature_scheme\<close> is the contract of a scheme, interpreted by the ML-DSA scheme.
  - \<open>Zeno_Storage\<close>: the in-memory store with all its operations; \<open>keyed_table\<close> is the contract of
    a table, interpreted by the account, protection and receipt tables.
  - \<open>Zeno_State\<close>: account snapshots, the sparse Merkle tree and its account proofs.
  - \<open>Zeno_Staking\<close>: delegation, unbonding, slashing, epochs, evidence and governance.
  - \<open>Zeno_ZK\<close>, \<open>Zeno_Evm\<close>: the shielded pool with its commitment tree and precompile; the other
    precompiles and the passage between the store and the interpreter.
  - \<open>Zeno_EthTx\<close>: the RLP codec and the decoder of raw Ethereum transactions.
  - \<open>Zeno_Execution\<close>: validation and application of transactions, block preparation, the roots,
    the accounting of a block, dry runs and the commit.
  - \<open>Zeno_Mempool\<close>: insertion with replacement and eviction, selection, removal.
  - \<open>Zeno_Action\<close>: fallible computations on a state that keep what they wrote before an error,
    with Hoare triples for them.
  - \<open>Zeno_Consensus\<close>: the round state, every handler of the engine, the checks of proposals and
    certificates, one turn of the task, and the recovery from the log.
  - \<open>Zeno_Safety\<close>: the invariant of a running node, proved handler by handler with the triples,
    and the interpretation of \<open>state_machine\<close> by the node's steps.
  - \<open>Zeno_Agreement\<close>: votes, locks, certificates and quorums (the locale \<open>quorum_system\<close>),
    proposals, finalization and recovery, with a two-validator node for the witnesses.
  - \<open>Zeno_Rocks\<close>: the RocksDB backend of \<open>zeno-storage\<close>, a map from byte keys to encoded values,
    and its refinement of the in-memory store.
  - \<open>Zeno_Network\<close>: the peer table with scores and bans, the filter of repeated messages, the
    task of a connection and the task that fans messages out, as a step relation that interprets
    \<open>state_machine\<close>.
  - \<open>Zeno_Sync\<close>: block synchronisation and the gossip task of \<open>zeno-node/src/runtime.rs\<close>, actions
    on the consensus node and the synchronisation state; its steps interpret \<open>state_machine\<close>.
  - \<open>Zeno_Genesis\<close>: the node configuration and its defaults, the generation of a devnet, and the
    bootstrap of a store that every start of a node runs.
  - \<open>Zeno_Provider\<close>: the methods that a node offers over RPC, with the execution and consensus
    planes of \<open>zeno-node\<close>.
  - \<open>Zeno_Rpc\<close>: the server of \<open>zeno-rpc/src/lib.rs\<close>, with its rate limiter, the parsing of
    parameters, the match over all methods, batches, and the Ethereum form of blocks and receipts.
  - \<open>Zeno_Wallet\<close>: key generation and the signed transactions of \<open>zeno-wallet\<close>.
  - \<open>Zeno_Cli\<close>: every command of \<open>zeno-cli/src/main.rs\<close> as an action on files, output, database and
    the server of \<open>Zeno_Rpc\<close>, with the start of a node from its files.
  - \<open>Zeno_Node\<close>: the five tasks of \<open>run_services\<close> as steps on the state they share. It interprets
    \<open>state_machine\<close> with the invariants of the consensus, the synchronisation and the pool together.
  - \<open>Zeno_Pages\<close>: the templates of \<open>zeno-rpc/src/pages.rs\<close>, the handlers and routes of the web pages in
    \<open>zeno-rpc/src/lib.rs\<close>, and the list of metrics of \<open>zeno-node/src/operations_plane.rs\<close>.
  - \<open>Zeno_Accounts\<close>: the accounts of a genesis file, \<open>genesis_accounts_serde\<close> of \<open>zeno-types\<close>.
  - \<open>Zeno_Dial\<close>: the accept loop and the dials of \<open>start_network\<close>, around the tasks of \<open>Zeno_Network\<close>.
    They interpret \<open>state_machine\<close> again.

  How the code is read. A Rust struct is a record, an enum a datatype, an unsigned integer a word
  of its width, a \<open>BTreeMap\<close> a sorted association list, a \<open>HashMap\<close> a map with the iteration order
  as a parameter, \<open>Result\<close> a sum whose left side is the error. Functions of the libraries
  (bincode, blake3, sha3, liboqs, revm) are fields of the records \<open>ext\<close>, \<open>oqs\<close>, \<open>revm\<close>; what a
  theorem needs of them is a hypothesis of it. Plain arithmetic on words wraps, as a release
  build does. The store is the in-memory one, whose operations cannot fail; writes before an error
  stay written. \<open>Zeno_Rocks\<close> shows that the backend in production answers every read as the in-memory
  one does, but for the latest block, the length of a compacted log and ranges that run backwards. A turn of the consensus task is atomic in the step relation, and between
  turns other tasks may put any store and any mempool in place; two handlers that run at the same
  time on two tasks are not modelled.

  What the lemmas show. Digests and trees: roots bind their leaves up to a collision that is
  exhibited, proofs are sound and complete. Signatures: what is signed verifies, and domains are
  separate. Staking: stakes always cover delegations, slashing and rewards do exactly what is
  stated. Execution: a native transaction is applied exactly when its checks pass; a block keeps
  the money supply, replays nothing, commits all or nothing, and a built block is accepted.
  Mempool: its indices agree in every reachable state. Consensus: a node never equivocates while
  it runs, counts a validator for one block, prevotes its lock or nil, accepts exactly the
  certificates with a quorum of signers, and conflicting certificates expose more than a third of
  the validators. Ethereum transactions: the codec
  round trips, the decoder returns on every input without nine particular bytes and loops on
  those. Network: scores, bans, inbound slots and filters stay within their bounds in every
  reachable state, the filter is a sliding window; a failed connection keeps its slot, and one
  peer that does not read stops every broadcast. Synchronisation: one request is open at a time,
  batches pass exactly when they are chained by the digests of headers, hence an honest answer is
  refused and ends the gossip task. Node: a generated network boots; a restart, an unshield, a
  registration and a faucet without a key make stake or money out of nothing; a raw Ethereum
  transaction stays on one node. Server: only seven methods write; an address is served at most its
  burst and its rate, but the caller chooses the address and a batch counts once; amounts above 64
  bits have no answer. Wallet: what it signs passes the check of the node. Running node: the tasks
  together refine the consensus machine, so its invariants hold of the whole node; a gossip task that ended
  is never started again and the node never synchronises. Commands: a transfer travels from the
  key file to the mempool of the server, a network for one validator starts from the files written for
  it; the call of a contract ignores its arguments and the code of a contract is never shown.
  Pages: nothing stored in a block changes the markup of its page, a committed transaction is shown as it
  was executed, and the page of an address reflects the path of the request with its markup. A
  peer that was down is never dialled again. The other recursions of the model are structural or have a
  measure; no fuel is used, and the decoder's loop is a partial function whose \<open>None\<close> is a call
  that never returns.

  Not modelled. The clocks of the timers and the logs; the framing of HTTP and the cross-origin
  headers; the texts of configuration, genesis and key files, which third-party crates write and
  read. Conversions that serde derives are parameters, but for the requests and responses of the
  command line; those that the code writes itself, as the accounts of a genesis, are modelled.
  The limiter counts billionths of a token where the code has floating point, so the rounding of
  its refill is left out, and the texts of errors that libraries compose are abbreviated. Tests and
  benchmarks are left out.
\<close>

end
